(* ===== verification/Prelude.thy ===== *)
theory Prelude
  imports Main "HOL-Library.Word" "HOL-Library.List_Lexorder" "HOL-Library.Char_ord"
begin

section \<open>Shared vocabulary of the development\<close>

text \<open>
  What every component uses: Rust's \<open>Result\<close>, the ordered collections of \<open>std::collections\<close>
  (\<open>BTreeMap\<close> and \<open>BTreeSet\<close>, as strictly ascending lists, which is the order their iterators
  give), machine integers, and the contract of a keyed store as a locale, with the ordered map as
  its interpretation.
\<close>

named_theorems btree_simps \<open>rewrite rules for the ordered maps and sets\<close>
named_theorems inv_intros \<open>operations that keep an invariant\<close>

type_synonym u8 = "8 word"
type_synonym u16 = "16 word"
type_synonym u32 = "32 word"
type_synonym u64 = "64 word"
type_synonym bytes = "u8 list"

subsection \<open>Result\<close>

datatype ('a, 'e) result = Ok 'a | Err 'e

text \<open>The operator \<open>?\<close> of Rust: an error is returned at once.\<close>

fun and_then :: "('a, 'e) result \<Rightarrow> ('a \<Rightarrow> ('b, 'e) result) \<Rightarrow> ('b, 'e) result" where
  "and_then (Ok a) f = f a"
| "and_then (Err e) f = Err e"

fun ok_or :: "'a option \<Rightarrow> 'e \<Rightarrow> ('a, 'e) result" where
  "ok_or (Some a) e = Ok a"
| "ok_or None e = Err e"

fun map_ok :: "('a \<Rightarrow> 'b) \<Rightarrow> ('a, 'e) result \<Rightarrow> ('b, 'e) result" where
  "map_ok f (Ok a) = Ok (f a)"
| "map_ok f (Err e) = Err e"

fun map_err :: "('e \<Rightarrow> 'f) \<Rightarrow> ('a, 'e) result \<Rightarrow> ('a, 'f) result" where
  "map_err f (Ok a) = Ok a"
| "map_err f (Err e) = Err (f e)"

fun is_ok :: "('a, 'e) result \<Rightarrow> bool" where
  "is_ok (Ok a) = True"
| "is_ok (Err e) = False"

lemma and_then_Ok_iff [simp]: "and_then r f = Ok b \<longleftrightarrow> (\<exists>a. r = Ok a \<and> f a = Ok b)"
  by (cases r) auto

lemma and_then_Err_iff: "and_then r f = Err e \<longleftrightarrow> r = Err e \<or> (\<exists>a. r = Ok a \<and> f a = Err e)"
  by (cases r) auto

lemma ok_or_Ok_iff [simp]: "ok_or x e = Ok a \<longleftrightarrow> x = Some a"
  by (cases x) auto

lemma ok_or_Err_iff [simp]: "ok_or x e = Err e' \<longleftrightarrow> x = None \<and> e' = e"
  by (cases x) auto

lemma map_ok_Ok_iff [simp]: "map_ok f r = Ok b \<longleftrightarrow> (\<exists>a. r = Ok a \<and> b = f a)"
  by (cases r) auto

lemma map_ok_Err_iff [simp]: "map_ok f r = Err e \<longleftrightarrow> r = Err e"
  by (cases r) auto

lemma map_err_Ok_iff [simp]: "map_err f r = Ok a \<longleftrightarrow> r = Ok a"
  by (cases r) auto

lemma is_ok_iff: "is_ok r \<longleftrightarrow> (\<exists>a. r = Ok a)"
  by (cases r) auto

subsection \<open>Ordered maps\<close>

text \<open>
  A \<open>BTreeMap\<close> is the list of its entries in ascending key order. \<open>bm_insert\<close> replaces the value
  of a present key, as \<open>BTreeMap::insert\<close> does.
\<close>

type_synonym ('k, 'v) bmap = "('k \<times> 'v) list"

abbreviation bm_get :: "('k, 'v) bmap \<Rightarrow> 'k \<Rightarrow> 'v option" where
  "bm_get m k \<equiv> map_of m k"

fun bm_insert :: "'k::linorder \<Rightarrow> 'v \<Rightarrow> ('k, 'v) bmap \<Rightarrow> ('k, 'v) bmap" where
  "bm_insert k v [] = [(k, v)]"
| "bm_insert k v ((k', v') # m) =
     (if k < k' then (k, v) # (k', v') # m
      else if k = k' then (k, v) # m
      else (k', v') # bm_insert k v m)"

definition bm_remove :: "'k \<Rightarrow> ('k, 'v) bmap \<Rightarrow> ('k, 'v) bmap" where
  "bm_remove k m = filter (\<lambda>e. fst e \<noteq> k) m"

definition bm_retain :: "('k \<Rightarrow> 'v \<Rightarrow> bool) \<Rightarrow> ('k, 'v) bmap \<Rightarrow> ('k, 'v) bmap" where
  "bm_retain P m = filter (\<lambda>e. P (fst e) (snd e)) m"

definition bm_keys :: "('k, 'v) bmap \<Rightarrow> 'k list" where
  "bm_keys m = map fst m"

definition bm_values :: "('k, 'v) bmap \<Rightarrow> 'v list" where
  "bm_values m = map snd m"

definition bm_has :: "('k, 'v) bmap \<Rightarrow> 'k \<Rightarrow> bool" where
  "bm_has m k = (bm_get m k \<noteq> None)"

text \<open>\<open>BTreeMap::from_iter\<close>: a later entry of the same key wins.\<close>

definition bm_extend :: "('k::linorder \<times> 'v) list \<Rightarrow> ('k, 'v) bmap \<Rightarrow> ('k, 'v) bmap" where
  "bm_extend es m = fold (\<lambda>e m. bm_insert (fst e) (snd e) m) es m"

abbreviation bm_from_iter :: "('k::linorder \<times> 'v) list \<Rightarrow> ('k, 'v) bmap" where
  "bm_from_iter es \<equiv> bm_extend es []"

definition bm_wf :: "('k::linorder, 'v) bmap \<Rightarrow> bool" where
  "bm_wf m = sorted_wrt (<) (map fst m)"

lemma bm_get_insert [btree_simps]:
  "bm_wf m \<Longrightarrow> bm_get (bm_insert k v m) = (bm_get m)(k \<mapsto> v)"
proof (induction m)
  case (Cons e m)
  then show ?case by (cases e) (auto simp: bm_wf_def fun_eq_iff)
qed (simp add: fun_eq_iff)

lemma bm_insert_fst: "fst ` set (bm_insert k v m) = insert k (fst ` set m)"
  by (induction k v m rule: bm_insert.induct) auto

lemma bm_wf_insert [btree_simps]: "bm_wf m \<Longrightarrow> bm_wf (bm_insert k v m)"
proof (induction k v m rule: bm_insert.induct)
  case (2 k v k' v' m)
  then have "\<forall>x \<in> fst ` set (bm_insert k v m). k' < x" if "k' < k"
    using that by (simp add: bm_insert_fst bm_wf_def)
  with 2 show ?case by (auto simp: bm_wf_def)
qed (simp add: bm_wf_def)

lemma bm_wf_Nil [btree_simps]: "bm_wf []"
  by (simp add: bm_wf_def)

lemma bm_wf_filter: "bm_wf m \<Longrightarrow> bm_wf (filter P m)"
  by (induction m) (auto simp: bm_wf_def)

lemma bm_wf_remove [btree_simps]: "bm_wf m \<Longrightarrow> bm_wf (bm_remove k m)"
  by (simp add: bm_remove_def bm_wf_filter)

lemma bm_wf_retain [btree_simps]: "bm_wf m \<Longrightarrow> bm_wf (bm_retain P m)"
  by (simp add: bm_retain_def bm_wf_filter)

lemma bm_wf_distinct: "bm_wf m \<Longrightarrow> distinct (map fst m)"
  by (auto simp: bm_wf_def strict_sorted_iff)

lemma bm_get_remove [btree_simps]: "bm_get (bm_remove k m) = (bm_get m)(k := None)"
  by (induction m) (auto simp: bm_remove_def fun_eq_iff)

lemma bm_get_filter_key: "bm_get (filter (\<lambda>e. P (fst e)) m) k = (if P k then bm_get m k else None)"
  by (induction m) auto

lemma bm_get_retain [btree_simps]:
  "bm_wf m \<Longrightarrow> bm_get (bm_retain P m) k
     = (case bm_get m k of None \<Rightarrow> None | Some v \<Rightarrow> if P k v then Some v else None)"
proof (induction m)
  case (Cons e m)
  obtain k' v' where e: "e = (k', v')" by (cases e)
  from Cons.prems have "bm_get m k' = None"
    by (auto simp: e bm_wf_def map_of_eq_None_iff)
  with Cons show ?case by (auto simp: e bm_retain_def bm_wf_def)
qed (simp add: bm_retain_def)

lemma bm_has_iff [btree_simps]: "bm_has m k \<longleftrightarrow> k \<in> dom (bm_get m)"
  by (auto simp: bm_has_def)

lemma bm_keys_set [btree_simps]: "set (bm_keys m) = dom (bm_get m)"
  by (simp add: bm_keys_def dom_map_of_conv_image_fst)

lemma bm_values_set: "bm_wf m \<Longrightarrow> set (bm_values m) = ran (bm_get m)"
  by (simp add: bm_values_def ran_distinct bm_wf_distinct)

lemma bm_in_set_iff: "bm_wf m \<Longrightarrow> (k, v) \<in> set m \<longleftrightarrow> bm_get m k = Some v"
  using bm_wf_distinct map_of_eq_Some_iff by metis

lemma bm_wf_extend [btree_simps]: "bm_wf m \<Longrightarrow> bm_wf (bm_extend es m)"
  by (induction es arbitrary: m) (simp_all add: bm_extend_def bm_wf_insert)

lemma bm_get_extend [btree_simps]:
  "bm_wf m \<Longrightarrow> bm_get (bm_extend es m) = bm_get m ++ map_of (rev es)"
proof (induction es arbitrary: m)
  case (Cons e es)
  then show ?case
    by (auto simp: bm_extend_def bm_wf_insert bm_get_insert fun_eq_iff map_add_def
        split: option.splits)
qed (simp add: bm_extend_def)

lemma bm_insert_last:
  "\<forall>x \<in> set (map fst m). x < k \<Longrightarrow> bm_insert k v m = m @ [(k, v)]"
  by (induction m) auto

lemma bm_insert_replace:
  assumes "bm_wf m" and "bm_get m k = Some v0"
  shows "bm_insert k v m = map (\<lambda>e. if fst e = k then (k, v) else e) m"
  using assms
proof (induction m)
  case (Cons e m)
  obtain k' v' where e: "e = (k', v')" by (cases e)
  show ?case
  proof (cases "k = k'")
    case True
    then have "map (\<lambda>e. if fst e = k then (k, v) else e) m = m"
      using Cons.prems(1) by (intro map_idI) (auto simp: bm_wf_def e)
    with True show ?thesis by (simp add: e)
  next
    case False
    then have "bm_get m k = Some v0" using Cons.prems(2) by (simp add: e)
    then have "k' < k" using Cons.prems(1) by (auto simp: bm_wf_def e dest!: map_of_SomeD)
    with False Cons show ?thesis by (auto simp: e bm_wf_def)
  qed
qed simp

lemma bm_extend_sorted: "bm_wf (m @ es) \<Longrightarrow> bm_extend es m = m @ es"
proof (induction es arbitrary: m)
  case (Cons e es)
  then have "bm_insert (fst e) (snd e) m = m @ [e]"
    using bm_insert_last [of m "fst e" "snd e"] by (simp add: bm_wf_def sorted_wrt_append)
  with Cons.IH [of "m @ [e]"] Cons.prems show ?case by (simp add: bm_extend_def)
qed (simp add: bm_extend_def)

lemma length_bm_keys [simp]: "length (bm_keys m) = length m"
  by (simp add: bm_keys_def)

lemma length_bm_insert:
  "bm_wf m \<Longrightarrow> length (bm_insert k v m) = (if bm_has m k then length m else Suc (length m))"
proof -
  assume wf: "bm_wf m"
  have "length (bm_insert k v m) = card (fst ` set (bm_insert k v m))"
    using bm_wf_distinct [OF bm_wf_insert [OF wf, of k v]]
    by (metis distinct_card length_map list.set_map)
  also have "\<dots> = card (insert k (fst ` set m))" by (simp add: bm_insert_fst)
  also have "\<dots> = (if k \<in> fst ` set m then card (fst ` set m) else Suc (card (fst ` set m)))"
    by (simp add: card_insert_if)
  also have "card (fst ` set m) = length m"
    using bm_wf_distinct [OF wf] by (metis distinct_card length_map list.set_map)
  also have "k \<in> fst ` set m \<longleftrightarrow> bm_has m k"
    by (simp add: bm_has_iff dom_map_of_conv_image_fst)
  finally show ?thesis .
qed

subsection \<open>Ordered sets\<close>

text \<open>A \<open>BTreeSet\<close> is the ascending list of its elements.\<close>

type_synonym 'a bset = "'a list"

fun bs_insert :: "'a::linorder \<Rightarrow> 'a bset \<Rightarrow> 'a bset" where
  "bs_insert x [] = [x]"
| "bs_insert x (y # ys) =
     (if x < y then x # y # ys else if x = y then y # ys else y # bs_insert x ys)"

definition bs_from_iter :: "'a::linorder list \<Rightarrow> 'a bset" where
  "bs_from_iter xs = fold bs_insert xs []"

definition bs_wf :: "'a::linorder bset \<Rightarrow> bool" where
  "bs_wf s = sorted_wrt (<) s"

lemma set_bs_insert [btree_simps]: "set (bs_insert x s) = insert x (set s)"
  by (induction x s rule: bs_insert.induct) auto

lemma bs_wf_Nil [btree_simps]: "bs_wf []"
  by (simp add: bs_wf_def)

lemma bs_wf_insert [btree_simps]: "bs_wf s \<Longrightarrow> bs_wf (bs_insert x s)"
  by (induction x s rule: bs_insert.induct) (auto simp: bs_wf_def set_bs_insert)

lemma set_fold_bs_insert: "set (fold bs_insert xs s) = set xs \<union> set s"
  by (induction xs arbitrary: s) (auto simp: set_bs_insert)

lemma bs_wf_fold_insert: "bs_wf s \<Longrightarrow> bs_wf (fold bs_insert xs s)"
  by (induction xs arbitrary: s) (auto simp: bs_wf_insert)

lemma set_bs_from_iter [btree_simps]: "set (bs_from_iter xs) = set xs"
  by (simp add: bs_from_iter_def set_fold_bs_insert)

lemma bs_wf_from_iter [btree_simps]: "bs_wf (bs_from_iter xs)"
  by (simp add: bs_from_iter_def bs_wf_fold_insert bs_wf_Nil)

lemma bs_wf_distinct: "bs_wf s \<Longrightarrow> distinct s"
  by (auto simp: bs_wf_def strict_sorted_iff)

lemma bs_insert_present: "bs_wf s \<Longrightarrow> x \<in> set s \<Longrightarrow> bs_insert x s = s"
  by (induction x s rule: bs_insert.induct) (auto simp: bs_wf_def)

lemma bs_unique: "bs_wf s \<Longrightarrow> bs_wf t \<Longrightarrow> set s = set t \<Longrightarrow> s = t"
  unfolding bs_wf_def by (metis strict_sorted_equal)

lemma length_bs_insert:
  "bs_wf s \<Longrightarrow> length (bs_insert x s) = (if x \<in> set s then length s else Suc (length s))"
proof -
  assume wf: "bs_wf s"
  have "length (bs_insert x s) = card (set (bs_insert x s))"
    using bs_wf_distinct [OF bs_wf_insert [OF wf, of x]] by (simp add: distinct_card)
  then show ?thesis
    using bs_wf_distinct [OF wf] by (simp add: set_bs_insert card_insert_if distinct_card)
qed

subsection \<open>The contract of a keyed store\<close>

text \<open>
  What the components rely on when they keep values under keys: a lookup returns what was last
  stored, and stores under different keys do not interfere. The ordered map provides it.
\<close>

locale keyed_store =
  fixes lookup :: "'m \<Rightarrow> 'k \<Rightarrow> 'v option"
    and store :: "'k \<Rightarrow> 'v \<Rightarrow> 'm \<Rightarrow> 'm"
    and delete :: "'k \<Rightarrow> 'm \<Rightarrow> 'm"
    and valid :: "'m \<Rightarrow> bool"
  assumes lookup_store: "valid m \<Longrightarrow> lookup (store k v m) = (lookup m)(k \<mapsto> v)"
    and lookup_delete: "valid m \<Longrightarrow> lookup (delete k m) = (lookup m)(k := None)"
    and valid_store: "valid m \<Longrightarrow> valid (store k v m)"
    and valid_delete: "valid m \<Longrightarrow> valid (delete k m)"
begin

lemma lookup_store_same: "valid m \<Longrightarrow> lookup (store k v m) k = Some v"
  by (simp add: lookup_store)

lemma lookup_store_other: "valid m \<Longrightarrow> k \<noteq> k' \<Longrightarrow> lookup (store k v m) k' = lookup m k'"
  by (simp add: lookup_store)

lemma lookup_store_all:
  "valid m \<Longrightarrow> lookup (fold (\<lambda>e. store (fst e) (snd e)) es m) = lookup m ++ map_of (rev es)
     \<and> valid (fold (\<lambda>e. store (fst e) (snd e)) es m)"
proof (induction es arbitrary: m)
  case (Cons e es)
  then show ?case by (simp add: valid_store lookup_store fun_eq_iff map_add_def split: option.splits)
qed simp

lemma lookup_delete_all:
  "valid m \<Longrightarrow> lookup (fold delete ks m) = (lookup m) |` (- set ks) \<and> valid (fold delete ks m)"
proof (induction ks arbitrary: m)
  case (Cons k ks)
  then show ?case
    by (simp add: valid_delete lookup_delete fun_eq_iff restrict_map_def)
qed (simp add: restrict_map_def)

end

interpretation btree: keyed_store bm_get bm_insert bm_remove bm_wf
  by unfold_locales (simp_all add: btree_simps fun_eq_iff)

end
