(* ===== verification/Externals.thy ===== *)
theory Externals
  imports Prelude
begin

section \<open>External crates as parameters\<close>

text \<open>
  The BLS threshold signatures (crate \<open>blsttc\<close>), serialisation (\<open>bincode\<close>) and the Merkle register
  (crate \<open>crdts\<close>) are not part of the repository. Their values are opaque: the code compares and
  orders them and hands them back to the crates, so a carrier with a linear order is enough, and
  the natural numbers serve. What the crates compute is a parameter, the records \<open>bls_api\<close> and
  \<open>merkle_api\<close>.
\<close>

subsection \<open>BLS keys and signatures\<close>

type_synonym public_key = nat
type_synonym public_key_set = nat
type_synonym signature = nat
type_synonym signature_share = nat
type_synonym socket_addr = nat

record bls_api =
  bls_verify :: "public_key \<Rightarrow> signature \<Rightarrow> bytes \<Rightarrow> bool"
  pk_to_bytes :: "public_key \<Rightarrow> bytes"
  pk_serialize :: "public_key \<Rightarrow> bytes option"
  pks_public_key :: "public_key_set \<Rightarrow> public_key"
  pks_threshold :: "public_key_set \<Rightarrow> nat"
  pks_verify_share :: "public_key_set \<Rightarrow> nat \<Rightarrow> signature_share \<Rightarrow> bytes \<Rightarrow> bool"
  pks_combine :: "public_key_set \<Rightarrow> (nat \<times> signature_share) list \<Rightarrow> signature option"

text \<open>
  An instance for the witnesses: the message is one byte per key, the signature of a message by a
  key is a number that both determine, a share is the number of its index and message, and a set
  of shares combines when there are more of them than the threshold.
\<close>

definition ref_msg :: "bytes \<Rightarrow> nat" where
  "ref_msg bs = foldl (\<lambda>a b. a * 256 + unat b) 1 bs"

definition ref_sign :: "public_key \<Rightarrow> bytes \<Rightarrow> signature" where
  "ref_sign k bs = 1000 * k + ref_msg bs"

definition ref_bls :: bls_api where
  "ref_bls = \<lparr> bls_verify = (\<lambda>k s bs. s = ref_sign k bs),
     pk_to_bytes = (\<lambda>k. [of_nat k]),
     pk_serialize = (\<lambda>k. Some [of_nat k]),
     pks_public_key = (\<lambda>ks. ks), pks_threshold = (\<lambda>ks. 1),
     pks_verify_share = (\<lambda>ks i s bs. s = i + ref_msg bs),
     pks_combine = (\<lambda>ks shares. case shares of
        (i, s) # _ # _ \<Rightarrow> Some (1000 * ks + (s - i))
      | _ \<Rightarrow> None) \<rparr>"

subsection \<open>The Merkle register\<close>

text \<open>
  \<open>crdts::merkle_reg::Node\<close> is a public struct: a value and the hashes of the nodes it was written
  on top of, which the crate calls its children.
\<close>

type_synonym hash = nat

datatype 'v node = Node (node_children: "hash bset") (node_value: 'v)

record ('m, 'v) merkle_api =
  mr_new :: 'm
  mr_hash :: "'v node \<Rightarrow> hash"
  mr_write :: "'m \<Rightarrow> 'v \<Rightarrow> hash bset \<Rightarrow> 'v node"
  mr_apply :: "'m \<Rightarrow> 'v node \<Rightarrow> 'm"
  mr_read :: "'m \<Rightarrow> 'v node list"
  mr_node :: "'m \<Rightarrow> hash \<Rightarrow> 'v node option"
  mr_children :: "'m \<Rightarrow> hash \<Rightarrow> 'v node list"
  mr_parents :: "'m \<Rightarrow> hash \<Rightarrow> 'v node list"
  mr_all_nodes :: "'m \<Rightarrow> 'v node list"

text \<open>
  What the crate documents, for a register \<open>m\<close> with no orphan (\<open>ok m\<close>: every node's children have
  been applied): a new register is empty; applying a node whose children are present stores it
  under its hash and changes nothing else; \<open>write\<close> only builds the node; \<open>read\<close> gives the nodes no
  other node was written on top of; \<open>children\<close> and \<open>parents\<close> follow the hashes in the two
  directions; hashes identify nodes.
\<close>

definition stored :: "('m, 'v, 'x) merkle_api_scheme \<Rightarrow> 'm \<Rightarrow> 'v node \<Rightarrow> bool" where
  "stored M m n = (mr_node M m (mr_hash M n) = Some n)"

definition merkle_ok :: "('m, 'v, 'x) merkle_api_scheme \<Rightarrow> ('m \<Rightarrow> bool) \<Rightarrow> bool" where
  "merkle_ok M ok \<longleftrightarrow>
     ok (mr_new M) \<and> (\<forall>h. mr_node M (mr_new M) h = None) \<and>
     (\<forall>n n'. mr_hash M n = mr_hash M n' \<longrightarrow> n = n') \<and>
     (\<forall>m v cs. mr_write M m v cs = Node cs v) \<and>
     (\<forall>m n. ok m \<longrightarrow> (\<forall>c \<in> set (node_children n). mr_node M m c \<noteq> None) \<longrightarrow>
        ok (mr_apply M m n) \<and>
        (\<forall>h. mr_node M (mr_apply M m n) h = (if h = mr_hash M n then Some n else mr_node M m h))) \<and>
     (\<forall>m h n. ok m \<longrightarrow> mr_node M m h = Some n \<longrightarrow> h = mr_hash M n) \<and>
     (\<forall>m. ok m \<longrightarrow> distinct (mr_all_nodes M m) \<and> set (mr_all_nodes M m) = {n. stored M m n}) \<and>
     (\<forall>m. ok m \<longrightarrow> set (mr_read M m)
        = {n. stored M m n \<and> (\<forall>n'. stored M m n' \<longrightarrow> mr_hash M n \<notin> set (node_children n'))}) \<and>
     (\<forall>m h. ok m \<longrightarrow> set (mr_children M m h)
        = {c. stored M m c \<and> (\<exists>n. mr_node M m h = Some n \<and> mr_hash M c \<in> set (node_children n))}) \<and>
     (\<forall>m h. ok m \<longrightarrow> distinct (mr_parents M m h) \<and> set (mr_parents M m h)
        = {n. stored M m n \<and> h \<in> set (node_children n)})"

lemma merkle_okD:
  assumes "merkle_ok M ok"
  shows merkle_ok_new: "ok (mr_new M)"
    and merkle_node_new: "mr_node M (mr_new M) h = None"
    and merkle_hash_inj: "mr_hash M n = mr_hash M n' \<longleftrightarrow> n = n'"
    and merkle_write: "mr_write M m v cs = Node cs v"
    and merkle_ok_apply: "ok m \<Longrightarrow> (\<forall>c \<in> set (node_children n). mr_node M m c \<noteq> None)
          \<Longrightarrow> ok (mr_apply M m n)"
    and merkle_node_apply: "ok m \<Longrightarrow> (\<forall>c \<in> set (node_children n). mr_node M m c \<noteq> None)
          \<Longrightarrow> mr_node M (mr_apply M m n) h = (if h = mr_hash M n then Some n else mr_node M m h)"
    and merkle_node_hash: "ok m \<Longrightarrow> mr_node M m h = Some n \<Longrightarrow> h = mr_hash M n"
    and merkle_all_nodes: "ok m \<Longrightarrow> set (mr_all_nodes M m) = {n. stored M m n}"
    and merkle_all_distinct: "ok m \<Longrightarrow> distinct (mr_all_nodes M m)"
    and merkle_read: "ok m \<Longrightarrow> set (mr_read M m)
          = {n. stored M m n \<and> (\<forall>n'. stored M m n' \<longrightarrow> mr_hash M n \<notin> set (node_children n'))}"
    and merkle_children: "ok m \<Longrightarrow> set (mr_children M m h)
          = {c. stored M m c \<and> (\<exists>n. mr_node M m h = Some n \<and> mr_hash M c \<in> set (node_children n))}"
    and merkle_parents: "ok m \<Longrightarrow> set (mr_parents M m h)
          = {n. stored M m n \<and> h \<in> set (node_children n)}"
    and merkle_parents_distinct: "ok m \<Longrightarrow> distinct (mr_parents M m h)"
  using assms unfolding merkle_ok_def by - (meson | simp)+

lemma stored_apply:
  assumes "merkle_ok M ok" and "ok m" and "\<forall>c \<in> set (node_children n). mr_node M m c \<noteq> None"
  shows "stored M (mr_apply M m n) n' \<longleftrightarrow> n' = n \<or> stored M m n'"
  using merkle_node_apply [OF assms] merkle_hash_inj [OF assms(1)] by (auto simp: stored_def)

lemma node_stored:
  "merkle_ok M ok \<Longrightarrow> ok m \<Longrightarrow> mr_node M m h = Some n \<Longrightarrow> stored M m n"
  using merkle_node_hash by (fastforce simp: stored_def)

text \<open>
  An instance for the witnesses: the register is the list of the nodes applied, and a hash function
  is given that tells nodes apart.
\<close>

definition ref_merkle :: "('v node \<Rightarrow> hash) \<Rightarrow> ('v node list, 'v) merkle_api" where
  "ref_merkle H = \<lparr> mr_new = [], mr_hash = H, mr_write = (\<lambda>m v cs. Node cs v),
     mr_apply = (\<lambda>m n. if n \<in> set m then m else m @ [n]),
     mr_read = (\<lambda>m. filter (\<lambda>n. list_all (\<lambda>n'. H n \<notin> set (node_children n')) m) m),
     mr_node = (\<lambda>m h. find (\<lambda>n. H n = h) m),
     mr_children = (\<lambda>m h. case find (\<lambda>n. H n = h) m of None \<Rightarrow> []
        | Some n \<Rightarrow> filter (\<lambda>c. H c \<in> set (node_children n)) m),
     mr_parents = (\<lambda>m h. filter (\<lambda>n. h \<in> set (node_children n)) m),
     mr_all_nodes = (\<lambda>m. m) \<rparr>"

lemma ref_merkle_node:
  assumes "\<And>n n'. H n = H n' \<Longrightarrow> n = n'"
  shows "find (\<lambda>n. H n = h) m = Some n \<longleftrightarrow> n \<in> set m \<and> H n = h"
  by (induction m) (auto dest: assms)

lemma ref_merkle_ok:
  assumes inj: "\<And>n n'. H n = H n' \<Longrightarrow> n = n'"
  shows "merkle_ok (ref_merkle H) distinct"
proof -
  have st: "stored (ref_merkle H) m n \<longleftrightarrow> n \<in> set m" for m n
    by (simp add: stored_def ref_merkle_def ref_merkle_node [OF inj])
  have ap: "find (\<lambda>n'. H n' = h) (if n \<in> set m then m else m @ [n])
      = (if h = H n then Some n else find (\<lambda>n'. H n' = h) m)" for m n h
  proof (cases "h = H n")
    case True
    then show ?thesis by (simp add: ref_merkle_node [OF inj])
  next
    case False
    have "find (\<lambda>n'. H n' = h) (m @ [n]) = find (\<lambda>n'. H n' = h) m"
      using False by (induction m) auto
    with False show ?thesis by simp
  qed
  show ?thesis
    unfolding merkle_ok_def st
    by (simp add: ref_merkle_def ap ref_merkle_node [OF inj] list_all_iff)
      (auto dest: inj simp: ref_merkle_node [OF inj] split: option.splits,
        (metis ref_merkle_node [OF inj])+)
qed

end
