(* ===== verification/Sections_Dag.thy ===== *)
theory Sections_Dag
  imports Externals "HOL-Library.Countable"
begin

section \<open>The DAG of section keys\<close>

text \<open>
  \<open>sn_interface/src/network_knowledge/sections_dag.rs\<close>: a Merkle DAG of BLS section keys in which
  every key is signed by its parent key, except the genesis key. The register is the parameter
  \<open>M\<close>, the signature scheme the parameter \<open>B\<close>.

  The loops that walk the DAG take fuel: the number of its nodes (or keys), plus one. A walk that
  takes more steps than that has come back to a place it has seen, and so never ends; the value is
  then the error \<open>Diverges\<close>, which the code does not have. On the DAGs that the code builds from
  signed keys the fuel is enough, which is proved.
\<close>

datatype nk_error =
    FileHandling | DirectoryHandling | Serialisation | Deserialisation
  | NonGenesisSap | InvalidSignature | KeyNotFound public_key | InvalidBranch
  | MultipleBranchError | UntrustedProofChain | SAPKeyNotCoveredByProofChain
  | UntrustedSectionAuthProvider | InvalidGenesisKey public_key | InvalidRelocationProof
  | InvalidSignatureShare | MissingSecretKeyShare public_key | InvalidPayload | TryJoinLater
  | NoMatchingSection | ExistingMemberSocketAddrConflict | ExistingMemberNameConflict
  | NotAMember | WrongSection | Consensus | ArchivedNodeRejoined | AEOutdated
  | Diverges

record section_info =
  si_key :: public_key
  si_sig :: signature

type_synonym dag_node = "section_info node"
type_synonym 'm dag_api = "('m, section_info) merkle_api"

abbreviation nkey :: "dag_node \<Rightarrow> public_key" where
  "nkey n \<equiv> si_key (node_value n)"

abbreviation nsig :: "dag_node \<Rightarrow> signature" where
  "nsig n \<equiv> si_sig (node_value n)"

record 'm sections_dag =
  genesis_key :: public_key
  dag :: 'm
  dag_root :: "public_key bset"
  hashes :: "(public_key, hash) bmap"

definition new_dag :: "'m dag_api \<Rightarrow> public_key \<Rightarrow> 'm sections_dag" where
  "new_dag M genesis = \<lparr> genesis_key = genesis, dag = mr_new M, dag_root = [], hashes = [] \<rparr>"

definition verify_sig :: "bls_api \<Rightarrow> public_key \<Rightarrow> public_key \<Rightarrow> signature \<Rightarrow> bool" where
  "verify_sig B parent_key section_key sig =
     (case pk_serialize B section_key of
        Some bytes \<Rightarrow> bls_verify B parent_key sig bytes
      | None \<Rightarrow> False)"

definition insert_trusted_key ::
  "'m dag_api \<Rightarrow> 'm sections_dag \<Rightarrow> public_key \<Rightarrow> public_key \<Rightarrow> signature
     \<Rightarrow> ('m sections_dag, nk_error) result" where
  "insert_trusted_key M D parent_key key sig =
     and_then
       (if parent_key = genesis_key D
        then Ok (D\<lparr>dag_root := bs_insert key (dag_root D)\<rparr>, [])
        else map_ok (\<lambda>hash. (D, [hash]))
               (ok_or (bm_get (hashes D) parent_key) (KeyNotFound parent_key)))
       (\<lambda>(D1, parent).
          let child = mr_write M (dag D1) \<lparr> si_key = key, si_sig = sig \<rparr> parent;
              D2 = D1\<lparr>hashes := bm_insert key (mr_hash M child) (hashes D1)\<rparr>
          in Ok (D2\<lparr>dag := mr_apply M (dag D2) child\<rparr>))"

definition verify_and_insert ::
  "'m dag_api \<Rightarrow> bls_api \<Rightarrow> 'm sections_dag \<Rightarrow> public_key \<Rightarrow> public_key \<Rightarrow> signature
     \<Rightarrow> ('m sections_dag, nk_error) result" where
  "verify_and_insert M B D parent_key key sig =
     (if \<not> verify_sig B parent_key key sig then Err InvalidSignature
      else insert_trusted_key M D parent_key key sig)"

definition insert_node ::
  "'m dag_api \<Rightarrow> bls_api \<Rightarrow> 'm sections_dag \<Rightarrow> public_key \<Rightarrow> dag_node
     \<Rightarrow> ('m sections_dag, nk_error) result" where
  "insert_node M B D parent_key n = verify_and_insert M B D parent_key (nkey n) (nsig n)"

definition has_key :: "'m sections_dag \<Rightarrow> public_key \<Rightarrow> bool" where
  "has_key D key = (key = genesis_key D \<or> bm_has (hashes D) key)"

definition dag_keys :: "'m dag_api \<Rightarrow> 'm sections_dag \<Rightarrow> public_key list" where
  "dag_keys M D = genesis_key D # map nkey (mr_all_nodes M (dag D))"

definition non_genesis_leaf_nodes :: "'m dag_api \<Rightarrow> 'm sections_dag \<Rightarrow> dag_node list" where
  "non_genesis_leaf_nodes M D = mr_read M (dag D)"

definition non_genesis_leaf_sections :: "'m dag_api \<Rightarrow> 'm sections_dag \<Rightarrow> section_info list" where
  "non_genesis_leaf_sections M D = map node_value (mr_read M (dag D))"

definition parent_node :: "'m dag_api \<Rightarrow> 'm sections_dag \<Rightarrow> hash \<Rightarrow> dag_node option" where
  "parent_node M D hash =
     (case mr_children M (dag D) hash of [] \<Rightarrow> None | n # _ \<Rightarrow> Some n)"

definition child_nodes :: "'m dag_api \<Rightarrow> 'm sections_dag \<Rightarrow> hash \<Rightarrow> dag_node list" where
  "child_nodes M D hash = mr_parents M (dag D) hash"

definition get_hash :: "'m sections_dag \<Rightarrow> public_key \<Rightarrow> (hash, nk_error) result" where
  "get_hash D key = ok_or (bm_get (hashes D) key) (KeyNotFound key)"

definition get_node :: "'m dag_api \<Rightarrow> 'm sections_dag \<Rightarrow> public_key \<Rightarrow> (dag_node, nk_error) result" where
  "get_node M D key =
     and_then (get_hash D key) (\<lambda>hash. ok_or (mr_node M (dag D) hash) (KeyNotFound key))"

definition leaf_keys :: "'m dag_api \<Rightarrow> 'm sections_dag \<Rightarrow> public_key bset" where
  "leaf_keys M D =
     (let leaf_sections = non_genesis_leaf_sections M D in
      if leaf_sections = [] then [genesis_key D]
      else bs_from_iter (map si_key leaf_sections))"

definition last_key :: "'m dag_api \<Rightarrow> 'm sections_dag \<Rightarrow> (public_key, nk_error) result" where
  "last_key M D =
     (case leaf_keys M D of [k] \<Rightarrow> Ok k | _ \<Rightarrow> Err MultipleBranchError)"

definition check_trust :: "'m sections_dag \<Rightarrow> public_key list \<Rightarrow> bool" where
  "check_trust D trusted_keys = list_ex (\<lambda>k. k = genesis_key D) trusted_keys"

definition get_parent_key ::
  "'m dag_api \<Rightarrow> 'm sections_dag \<Rightarrow> public_key \<Rightarrow> (public_key option, nk_error) result" where
  "get_parent_key M D key =
     (if key = genesis_key D then Ok None
      else map_ok
        (\<lambda>hash. case parent_node M D hash of
                  Some n \<Rightarrow> Some (nkey n)
                | None \<Rightarrow> Some (genesis_key D))
        (get_hash D key))"

definition get_child_keys ::
  "'m dag_api \<Rightarrow> 'm sections_dag \<Rightarrow> public_key \<Rightarrow> (public_key list, nk_error) result" where
  "get_child_keys M D key =
     (if key = genesis_key D then Ok (dag_root D)
      else map_ok (\<lambda>hash. map nkey (child_nodes M D hash)) (get_hash D key))"

subsection \<open>Walks\<close>

fun get_ancestors_loop ::
  "'m dag_api \<Rightarrow> 'm sections_dag \<Rightarrow> nat \<Rightarrow> public_key \<Rightarrow> public_key list
     \<Rightarrow> (public_key list, nk_error) result" where
  "get_ancestors_loop M D 0 key ancestors = Err Diverges"
| "get_ancestors_loop M D (Suc fuel) key ancestors =
     and_then (get_parent_key M D key)
       (\<lambda>p. case p of
          Some parent \<Rightarrow> get_ancestors_loop M D fuel parent (ancestors @ [parent])
        | None \<Rightarrow> Ok ancestors)"

text \<open>Every key but the genesis key has a hash, so a walk over keys has at most one step per key.\<close>

definition key_fuel :: "'m sections_dag \<Rightarrow> nat" where
  "key_fuel D = length (hashes D) + 2"

definition node_fuel :: "'m dag_api \<Rightarrow> 'm sections_dag \<Rightarrow> nat" where
  "node_fuel M D = length (mr_all_nodes M (dag D)) + 1"

definition get_ancestors ::
  "'m dag_api \<Rightarrow> 'm sections_dag \<Rightarrow> public_key \<Rightarrow> (public_key list, nk_error) result" where
  "get_ancestors M D key = get_ancestors_loop M D (key_fuel D) key []"

fun partial_dag_loop ::
  "'m dag_api \<Rightarrow> 'm sections_dag \<Rightarrow> public_key \<Rightarrow> nat \<Rightarrow> dag_node \<Rightarrow> dag_node list
     \<Rightarrow> (dag_node list, nk_error) result" where
  "partial_dag_loop M D from 0 n crdt_ops = Err Diverges"
| "partial_dag_loop M D from (Suc fuel) n crdt_ops =
     (if nkey n = from then Ok crdt_ops
      else case parent_node M D (mr_hash M n) of
             Some parent \<Rightarrow> partial_dag_loop M D from fuel parent (crdt_ops @ [n])
           | None \<Rightarrow> if from = genesis_key D then Ok (crdt_ops @ [n]) else Err InvalidBranch)"

fun insert_chain ::
  "'m dag_api \<Rightarrow> 'm sections_dag \<Rightarrow> public_key \<Rightarrow> dag_node list
     \<Rightarrow> ('m sections_dag, nk_error) result" where
  "insert_chain M D parent [] = Ok D"
| "insert_chain M D parent (n # ns) =
     and_then (insert_trusted_key M D parent (nkey n) (nsig n))
       (\<lambda>D'. insert_chain M D' (nkey n) ns)"

definition partial_dag ::
  "'m dag_api \<Rightarrow> 'm sections_dag \<Rightarrow> public_key \<Rightarrow> public_key
     \<Rightarrow> ('m sections_dag, nk_error) result" where
  "partial_dag M D from to =
     (if to = genesis_key D then
        (if from \<noteq> genesis_key D then Err InvalidBranch else Ok (new_dag M (genesis_key D)))
      else
        and_then (get_node M D to)
          (\<lambda>n. and_then (partial_dag_loop M D from (node_fuel M D) n [])
             (\<lambda>crdt_ops. insert_chain M (new_dag M from) from (rev crdt_ops))))"

fun single_branch_loop ::
  "'m dag_api \<Rightarrow> bls_api \<Rightarrow> 'm sections_dag \<Rightarrow> nat \<Rightarrow> 'm sections_dag \<Rightarrow> public_key
     \<Rightarrow> ('m sections_dag \<times> public_key, nk_error) result" where
  "single_branch_loop M B D 0 P tip = Err Diverges"
| "single_branch_loop M B D (Suc fuel) P tip =
     and_then (get_hash D tip)
       (\<lambda>hash. case child_nodes M D hash of
          [] \<Rightarrow> Ok (P, tip)
        | child # _ \<Rightarrow>
            and_then (verify_and_insert M B P tip (nkey child) (nsig child))
              (\<lambda>P'. single_branch_loop M B D fuel P' (nkey child)))"

definition single_branch_dag_for_key ::
  "'m dag_api \<Rightarrow> bls_api \<Rightarrow> 'm sections_dag \<Rightarrow> public_key
     \<Rightarrow> ('m sections_dag \<times> public_key, nk_error) result" where
  "single_branch_dag_for_key M B D key =
     (if genesis_key D = key \<and> dag_root D = [] then Ok (new_dag M key, key)
      else
        (let tip = (if genesis_key D = key then hd (dag_root D) else key) in
         and_then (partial_dag M D (genesis_key D) tip)
           (\<lambda>P. single_branch_loop M B D (node_fuel M D) P tip)))"

fun self_verify_branch ::
  "'m dag_api \<Rightarrow> bls_api \<Rightarrow> 'm sections_dag \<Rightarrow> nat \<Rightarrow> public_key list \<Rightarrow> public_key
     \<Rightarrow> (bool \<times> public_key list) option" where
  "self_verify_branch M B D 0 verified key = None"
| "self_verify_branch M B D (Suc fuel) verified key =
     (case get_parent_key M D key of
        Ok (Some parent) \<Rightarrow>
          (case get_node M D key of
             Ok n \<Rightarrow>
               (if \<not> verify_sig B parent key (nsig n) then Some (False, verified)
                else
                  (let verified' = key # verified in
                   if parent \<in> set verified' then Some (True, verified')
                   else self_verify_branch M B D fuel verified' parent))
           | Err _ \<Rightarrow> Some (False, verified))
      | _ \<Rightarrow> Some (False, verified))"

fun self_verify_all ::
  "'m dag_api \<Rightarrow> bls_api \<Rightarrow> 'm sections_dag \<Rightarrow> public_key list \<Rightarrow> section_info list
     \<Rightarrow> bool option" where
  "self_verify_all M B D verified [] = Some True"
| "self_verify_all M B D verified (s # ss) =
     (case self_verify_branch M B D (key_fuel D) verified (si_key s) of
        None \<Rightarrow> None
      | Some (ok, verified') \<Rightarrow> if ok then self_verify_all M B D verified' ss else Some False)"

text \<open>\<open>None\<close>: the walk does not end.\<close>

definition self_verify :: "'m dag_api \<Rightarrow> bls_api \<Rightarrow> 'm sections_dag \<Rightarrow> bool option" where
  "self_verify M B D =
     self_verify_all M B D [genesis_key D] (non_genesis_leaf_sections M D)"

subsection \<open>Merging\<close>

fun merge_loop ::
  "'m dag_api \<Rightarrow> bls_api \<Rightarrow> 'm sections_dag \<Rightarrow> nat \<Rightarrow> 'm sections_dag
     \<Rightarrow> (public_key \<times> dag_node) list \<Rightarrow> 'm sections_dag \<times> (unit, nk_error) result" where
  "merge_loop M B other 0 D need_to_visit = (D, Err Diverges)"
| "merge_loop M B other (Suc fuel) D [] = (D, Ok ())"
| "merge_loop M B other (Suc fuel) D ((parent_key, current) # need_to_visit) =
     (let need' = rev (map (\<lambda>child. (nkey current, child)) (child_nodes M other (mr_hash M current)))
                  @ need_to_visit in
      case insert_node M B D parent_key current of
        Ok D' \<Rightarrow> merge_loop M B other fuel D' need'
      | Err e \<Rightarrow> (D, Err e))"

fun get_nodes ::
  "'m dag_api \<Rightarrow> 'm sections_dag \<Rightarrow> public_key list \<Rightarrow> (dag_node list, nk_error) result" where
  "get_nodes M D [] = Ok []"
| "get_nodes M D (k # ks) =
     and_then (get_node M D k) (\<lambda>n. map_ok (Cons n) (get_nodes M D ks))"

text \<open>
  The stack \<open>need_to_visit\<close> is a list with its top first: \<open>pop\<close> takes the head, and what is pushed
  last is visited first. The DAG is returned with the result, since an error leaves the nodes
  inserted before it.
\<close>

definition merge ::
  "'m dag_api \<Rightarrow> bls_api \<Rightarrow> 'm sections_dag \<Rightarrow> 'm sections_dag
     \<Rightarrow> 'm sections_dag \<times> (unit, nk_error) result" where
  "merge M B self other =
     (case self_verify M B other of
        None \<Rightarrow> (self, Err Diverges)
      | Some False \<Rightarrow> (self, Err UntrustedProofChain)
      | Some True \<Rightarrow>
          (let swap = \<not> has_key self (genesis_key other) in
           if swap \<and> \<not> has_key other (genesis_key self)
           then (self, Err (KeyNotFound (genesis_key self)))
           else
             (let (D, other') = (if swap then (other, self) else (self, other)) in
              case get_nodes M other' (dag_root other') of
                Err e \<Rightarrow> (D, Err e)
              | Ok roots \<Rightarrow>
                  merge_loop M B other' (node_fuel M other' + 1) D
                    (rev (map (\<lambda>n. (genesis_key other', n)) roots)))))"

subsection \<open>Serialisation\<close>

record intermediate =
  im_genesis_key :: public_key
  im_sections :: "(public_key \<times> section_info) list"

fun ancestors_loop ::
  "'m dag_api \<Rightarrow> 'm sections_dag \<Rightarrow> public_key list \<Rightarrow> nat \<Rightarrow> dag_node
     \<Rightarrow> (public_key \<times> section_info) list \<Rightarrow> (public_key \<times> section_info) list option" where
  "ancestors_loop M D visited 0 n ancestors = None"
| "ancestors_loop M D visited (Suc fuel) n ancestors =
     (if nkey n \<in> set visited then Some ancestors
      else case parent_node M D (mr_hash M n) of
             None \<Rightarrow> Some (ancestors @ [(genesis_key D, node_value n)])
           | Some parent \<Rightarrow>
               ancestors_loop M D visited fuel parent (ancestors @ [(nkey parent, node_value n)]))"

fun serialize_leaves ::
  "'m dag_api \<Rightarrow> 'm sections_dag \<Rightarrow> public_key list \<Rightarrow> (public_key \<times> section_info) list
     \<Rightarrow> dag_node list \<Rightarrow> (public_key \<times> section_info) list option" where
  "serialize_leaves M D visited sections [] = Some sections"
| "serialize_leaves M D visited sections (leaf # leaves) =
     (case ancestors_loop M D visited (node_fuel M D) leaf [] of
        None \<Rightarrow> None
      | Some ancestors \<Rightarrow>
          serialize_leaves M D (map (si_key \<circ> snd) ancestors @ visited)
            (sections @ rev ancestors) leaves)"

definition serialize_dag :: "'m dag_api \<Rightarrow> 'm sections_dag \<Rightarrow> intermediate option" where
  "serialize_dag M D =
     map_option (\<lambda>sections. \<lparr> im_genesis_key = genesis_key D, im_sections = sections \<rparr>)
       (serialize_leaves M D [] [] (non_genesis_leaf_nodes M D))"

fun insert_sections ::
  "'m dag_api \<Rightarrow> bls_api \<Rightarrow> 'm sections_dag \<Rightarrow> (public_key \<times> section_info) list
     \<Rightarrow> ('m sections_dag, nk_error) result" where
  "insert_sections M B D [] = Ok D"
| "insert_sections M B D ((parent, info) # rest) =
     and_then (verify_and_insert M B D parent (si_key info) (si_sig info))
       (\<lambda>D'. insert_sections M B D' rest)"

definition deserialize_dag ::
  "'m dag_api \<Rightarrow> bls_api \<Rightarrow> intermediate \<Rightarrow> ('m sections_dag, nk_error) result" where
  "deserialize_dag M B im =
     insert_sections M B (new_dag M (im_genesis_key im)) (im_sections im)"

end
