(* ===== verification/Dag_Trust.thy ===== *)
theory Dag_Trust
  imports Sections_Dag
begin

section \<open>The trust invariant of the DAG\<close>

text \<open>
  The well-formedness of a \<open>SectionsDAG\<close> (hashes, roots and register agree, every node has a path
  to a root, a key occurs once) and the trust invariant (every node is signed by its parent key),
  what every operation keeps of them, and what they give: walks end and follow signed links,
  \<open>self_verify\<close> decides the trust invariant, a partial DAG is the branch between two keys.
\<close>

inductive up_path :: "'m dag_api \<Rightarrow> 'm \<Rightarrow> dag_node \<Rightarrow> dag_node list \<Rightarrow> bool" for M m where
  root: "stored M m n \<Longrightarrow> node_children n = [] \<Longrightarrow> up_path M m n [n]"
| step: "stored M m n \<Longrightarrow> node_children n = [mr_hash M p] \<Longrightarrow> up_path M m p ps
           \<Longrightarrow> up_path M m n (n # ps)"

inductive_cases up_path_elim: "up_path M m n ps"

definition dag_wf :: "'m dag_api \<Rightarrow> ('m \<Rightarrow> bool) \<Rightarrow> 'm sections_dag \<Rightarrow> bool" where
  "dag_wf M ok D \<longleftrightarrow>
     ok (dag D) \<and> bm_wf (hashes D) \<and> bs_wf (dag_root D) \<and>
     (\<forall>n. stored M (dag D) n \<longrightarrow>
        nkey n \<noteq> genesis_key D \<and> bm_get (hashes D) (nkey n) = Some (mr_hash M n)) \<and>
     (\<forall>k h. bm_get (hashes D) k = Some h \<longrightarrow>
        (\<exists>n. mr_node M (dag D) h = Some n \<and> nkey n = k)) \<and>
     set (dag_root D) = {nkey n | n. stored M (dag D) n \<and> node_children n = []} \<and>
     (\<forall>n. stored M (dag D) n \<longrightarrow> (\<exists>ps. up_path M (dag D) n ps))"

definition parent_hashes :: "'m sections_dag \<Rightarrow> public_key \<Rightarrow> hash bset" where
  "parent_hashes D parent =
     (if parent = genesis_key D then []
      else case bm_get (hashes D) parent of Some h \<Rightarrow> [h] | None \<Rightarrow> [])"

text \<open>
  A key can be inserted without disturbing the DAG when it is not the genesis key and is either
  new or already there with the same parent and signature.
\<close>

definition insertable ::
  "'m dag_api \<Rightarrow> 'm sections_dag \<Rightarrow> public_key \<Rightarrow> public_key \<Rightarrow> signature \<Rightarrow> bool" where
  "insertable M D parent key sig \<longleftrightarrow>
     key \<noteq> genesis_key D \<and>
     (\<forall>h. bm_get (hashes D) key = Some h \<longrightarrow>
        h = mr_hash M (Node (parent_hashes D parent) \<lparr> si_key = key, si_sig = sig \<rparr>))"

definition parent_of :: "'m dag_api \<Rightarrow> 'm sections_dag \<Rightarrow> dag_node \<Rightarrow> public_key" where
  "parent_of M D n =
     (case parent_node M D (mr_hash M n) of Some p \<Rightarrow> nkey p | None \<Rightarrow> genesis_key D)"

definition dag_signed :: "'m dag_api \<Rightarrow> bls_api \<Rightarrow> 'm sections_dag \<Rightarrow> bool" where
  "dag_signed M B D \<longleftrightarrow>
     (\<forall>n. stored M (dag D) n \<longrightarrow> verify_sig B (parent_of M D n) (nkey n) (nsig n))"

locale dag_context =
  fixes M :: "'m dag_api" and ok :: "'m \<Rightarrow> bool" and B :: bls_api
  assumes laws: "merkle_ok M ok"
begin

lemmas hash_inj [simp] = merkle_hash_inj [OF laws]

lemma dag_wfD:
  assumes "dag_wf M ok D"
  shows wf_ok: "ok (dag D)"
    and wf_hashes: "bm_wf (hashes D)"
    and wf_roots: "bs_wf (dag_root D)"
    and wf_not_genesis: "stored M (dag D) n \<Longrightarrow> nkey n \<noteq> genesis_key D"
    and wf_hash: "stored M (dag D) n \<Longrightarrow> bm_get (hashes D) (nkey n) = Some (mr_hash M n)"
    and wf_hash_ex: "bm_get (hashes D) k = Some h \<Longrightarrow> \<exists>n. mr_node M (dag D) h = Some n \<and> nkey n = k"
    and wf_root_set: "set (dag_root D) = {nkey n | n. stored M (dag D) n \<and> node_children n = []}"
    and wf_path: "stored M (dag D) n \<Longrightarrow> \<exists>ps. up_path M (dag D) n ps"
  using assms unfolding dag_wf_def by - (meson | simp)+

lemma wf_key_node:
  assumes "dag_wf M ok D" and "bm_get (hashes D) k = Some h"
  obtains n where "stored M (dag D) n" and "nkey n = k" and "h = mr_hash M n"
  using wf_hash_ex [OF assms] node_stored [OF laws wf_ok [OF assms(1)]]
    merkle_node_hash [OF laws wf_ok [OF assms(1)]] by blast

lemma wf_key_inj:
  "dag_wf M ok D \<Longrightarrow> stored M (dag D) n \<Longrightarrow> stored M (dag D) n' \<Longrightarrow> nkey n = nkey n' \<Longrightarrow> n = n'"
  using wf_hash by (metis hash_inj option.inject)

lemma get_node_stored:
  "dag_wf M ok D \<Longrightarrow> stored M (dag D) n \<Longrightarrow> get_node M D (nkey n) = Ok n"
  by (auto simp: get_node_def get_hash_def wf_hash stored_def)

lemma get_node_iff:
  assumes "dag_wf M ok D"
  shows "get_node M D k = Ok n \<longleftrightarrow> stored M (dag D) n \<and> nkey n = k"
proof
  assume "get_node M D k = Ok n"
  then obtain h where "bm_get (hashes D) k = Some h" and n: "mr_node M (dag D) h = Some n"
    by (auto simp: get_node_def get_hash_def)
  then show "stored M (dag D) n \<and> nkey n = k"
    using wf_hash_ex [OF assms] node_stored [OF laws wf_ok [OF assms] n] by fastforce
qed (use get_node_stored [OF assms] in auto)

lemma get_node_missing:
  "dag_wf M ok D \<Longrightarrow> bm_get (hashes D) k = None \<Longrightarrow> get_node M D k = Err (KeyNotFound k)"
  by (simp add: get_node_def get_hash_def)

lemma has_key_iff:
  assumes "dag_wf M ok D"
  shows "has_key D k \<longleftrightarrow> k = genesis_key D \<or> (\<exists>n. stored M (dag D) n \<and> nkey n = k)"
  using wf_hash [OF assms] by (auto simp: has_key_def btree_simps elim: wf_key_node [OF assms])

lemma dag_keys_has_key:
  "dag_wf M ok D \<Longrightarrow> set (dag_keys M D) = {k. has_key D k}"
  by (auto simp: dag_keys_def has_key_iff merkle_all_nodes [OF laws wf_ok])

subsection \<open>Paths\<close>

lemma up_path_stored: "up_path M m n ps \<Longrightarrow> x \<in> set ps \<Longrightarrow> stored M m x"
  by (induction rule: up_path.induct) auto

lemma up_path_hd: "up_path M m n ps \<Longrightarrow> \<exists>qs. ps = n # qs"
  by (erule up_path.cases) auto

lemma up_path_unique: "up_path M m n ps \<Longrightarrow> up_path M m n qs \<Longrightarrow> ps = qs"
proof (induction arbitrary: qs rule: up_path.induct)
  case (root n)
  from root(3,2) show ?case by (auto elim: up_path.cases)
next
  case (step n p ps)
  from step.prems step.hyps obtain rs where "qs = n # rs" and "up_path M m p rs"
    by (cases rule: up_path.cases) auto
  with step.IH show ?case by blast
qed

lemma up_path_suffix: "up_path M m n (as @ x # bs) \<Longrightarrow> up_path M m x (x # bs)"
proof (induction as arbitrary: n)
  case Nil
  then show ?case using up_path_hd by fastforce
next
  case (Cons a as)
  from Cons.prems obtain p where "up_path M m p (as @ x # bs)"
    by (cases rule: up_path.cases) auto
  then show ?case by (rule Cons.IH)
qed

lemma up_path_distinct: "up_path M m n ps \<Longrightarrow> distinct ps"
proof (induction rule: up_path.induct)
  case (step n p ps)
  have "n \<notin> set ps"
  proof
    assume "n \<in> set ps"
    then obtain as bs where ps: "ps = as @ n # bs" by (auto simp: in_set_conv_decomp)
    have "up_path M m n (n # bs)" using step.hyps(3) unfolding ps by (rule up_path_suffix)
    moreover have "up_path M m n (n # as @ n # bs)"
      using step.hyps unfolding ps by (rule up_path.step)
    ultimately have "n # bs = n # as @ n # bs" by (rule up_path_unique)
    then show False by simp
  qed
  with step.IH show ?case by simp
qed simp

lemma up_path_length:
  assumes "ok m" and "up_path M m n ps"
  shows "length ps \<le> length (mr_all_nodes M m)"
proof -
  have "set ps \<subseteq> set (mr_all_nodes M m)"
    using up_path_stored [OF assms(2)] merkle_all_nodes [OF laws assms(1)] by auto
  then have "card (set ps) \<le> card (set (mr_all_nodes M m))" by (simp add: card_mono)
  then show ?thesis
    using up_path_distinct [OF assms(2)] merkle_all_distinct [OF laws assms(1)]
    by (simp add: distinct_card)
qed

lemma parent_node_root:
  assumes "ok (dag D)" and "stored M (dag D) n" and "node_children n = []"
  shows "parent_node M D (mr_hash M n) = None"
proof -
  have "set (mr_children M (dag D) (mr_hash M n)) = {}"
    unfolding merkle_children [OF laws assms(1)] using assms(2,3) by (simp add: stored_def)
  then show ?thesis by (simp add: parent_node_def)
qed

lemma parent_node_step:
  assumes "ok (dag D)" and "stored M (dag D) n" and "node_children n = [mr_hash M p]"
    and "stored M (dag D) p"
  shows "parent_node M D (mr_hash M n) = Some p"
proof -
  have "set (mr_children M (dag D) (mr_hash M n)) = {p}"
    unfolding merkle_children [OF laws assms(1)]
    using assms(2-4) by (auto simp: stored_def [of _ _ n])
  then obtain qs where "mr_children M (dag D) (mr_hash M n) = p # qs"
    by (metis list.set_intros(1) neq_Nil_conv set_empty singletonD singleton_insert_inj_eq' insert_not_empty)
  then show ?thesis by (simp add: parent_node_def)
qed

lemma up_path_cases_parent:
  assumes "ok (dag D)" and "up_path M (dag D) n ps"
  obtains (root) "ps = [n]" and "node_children n = []" and "parent_node M D (mr_hash M n) = None"
  | (step) p qs where "ps = n # qs" and "node_children n = [mr_hash M p]"
      and "parent_node M D (mr_hash M n) = Some p" and "up_path M (dag D) p qs"
proof -
  from assms(2) show ?thesis
  proof (cases rule: up_path.cases)
    case root
    then show ?thesis using that(1) parent_node_root [OF assms(1)] by auto
  next
    case (step p qs)
    have "stored M (dag D) p"
      using up_path_stored [OF step(4)] up_path_hd [OF step(4)] by auto
    with step parent_node_step [OF assms(1) step(2,3)] show ?thesis using that(2) by simp
  qed
qed

subsection \<open>Insertion\<close>

lemma parent_of_root:
  "ok (dag D) \<Longrightarrow> stored M (dag D) n \<Longrightarrow> node_children n = [] \<Longrightarrow> parent_of M D n = genesis_key D"
  by (simp add: parent_of_def parent_node_root)

lemma parent_of_step:
  "ok (dag D) \<Longrightarrow> stored M (dag D) n \<Longrightarrow> node_children n = [mr_hash M p] \<Longrightarrow> stored M (dag D) p
     \<Longrightarrow> parent_of M D n = nkey p"
  by (simp add: parent_of_def parent_node_step)

lemma insert_trusted_fields:
  assumes "insert_trusted_key M D p k s = Ok D'"
  shows "has_key D p"
    and "genesis_key D' = genesis_key D"
    and "dag D' = mr_apply M (dag D) (Node (parent_hashes D p) \<lparr> si_key = k, si_sig = s \<rparr>)"
    and "hashes D' = bm_insert k (mr_hash M (Node (parent_hashes D p) \<lparr> si_key = k, si_sig = s \<rparr>))
           (hashes D)"
    and "dag_root D' = (if p = genesis_key D then bs_insert k (dag_root D) else dag_root D)"
  using assms
  by (auto simp: insert_trusted_key_def Let_def parent_hashes_def has_key_def btree_simps
      merkle_write [OF laws] split: if_splits)

lemma insert_trusted_error:
  "insert_trusted_key M D p k s = Err e \<longleftrightarrow> \<not> has_key D p \<and> e = KeyNotFound p"
  by (auto simp: insert_trusted_key_def Let_def has_key_def btree_simps and_then_Err_iff)

lemma parent_hashes_cases:
  assumes "dag_wf M ok D" and "has_key D p"
  obtains (genesis) "p = genesis_key D" and "parent_hashes D p = []"
  | (node) n where "p \<noteq> genesis_key D" and "stored M (dag D) n" and "nkey n = p"
      and "parent_hashes D p = [mr_hash M n]"
proof (cases "p = genesis_key D")
  case True
  then show ?thesis using genesis by (simp add: parent_hashes_def)
next
  case False
  then obtain n where "stored M (dag D) n" "nkey n = p"
    using assms has_key_iff by blast
  then show ?thesis using node False wf_hash [OF assms(1)] by (auto simp: parent_hashes_def)
qed

lemma parent_hashes_present:
  assumes "dag_wf M ok D" and "has_key D p"
  shows "\<forall>c \<in> set (node_children (Node (parent_hashes D p) v)). mr_node M (dag D) c \<noteq> None"
  using assms by (cases rule: parent_hashes_cases) (auto simp: stored_def)

lemma up_path_mono:
  "up_path M m n ps \<Longrightarrow> (\<And>x. stored M m x \<Longrightarrow> stored M m' x) \<Longrightarrow> up_path M m' n ps"
  by (induction rule: up_path.induct) (auto intro: up_path.intros)

lemma insert_stored:
  assumes "dag_wf M ok D" and "insert_trusted_key M D p k s = Ok D'"
  shows "stored M (dag D') n \<longleftrightarrow>
           n = Node (parent_hashes D p) \<lparr> si_key = k, si_sig = s \<rparr> \<or> stored M (dag D) n"
  unfolding insert_trusted_fields(3) [OF assms(2)]
  by (rule stored_apply [OF laws wf_ok [OF assms(1)]])
    (rule parent_hashes_present [OF assms(1) insert_trusted_fields(1) [OF assms(2)]])

lemma insert_ok_register:
  assumes "dag_wf M ok D" and "insert_trusted_key M D p k s = Ok D'"
  shows "ok (dag D')"
  unfolding insert_trusted_fields(3) [OF assms(2)]
  by (rule merkle_ok_apply [OF laws wf_ok [OF assms(1)]])
    (rule parent_hashes_present [OF assms(1) insert_trusted_fields(1) [OF assms(2)]])

lemma insert_new_path:
  assumes wf: "dag_wf M ok D" and ins: "insert_trusted_key M D p k s = Ok D'"
  shows "\<exists>ps. up_path M (dag D') (Node (parent_hashes D p) \<lparr> si_key = k, si_sig = s \<rparr>) ps"
    (is "\<exists>ps. up_path M _ ?new ps")
proof -
  have new: "stored M (dag D') ?new" using insert_stored [OF wf ins] by blast
  from wf insert_trusted_fields(1) [OF ins] show ?thesis
  proof (cases rule: parent_hashes_cases)
    case genesis
    with new have "up_path M (dag D') ?new [?new]" by (intro up_path.root) auto
    then show ?thesis ..
  next
    case (node n)
    obtain ps where "up_path M (dag D) n ps" using wf_path [OF wf node(2)] by blast
    then have "up_path M (dag D') n ps" using insert_stored [OF wf ins] by (blast intro: up_path_mono)
    with new node(4) have "up_path M (dag D') ?new (?new # ps)" by (intro up_path.step) auto
    then show ?thesis ..
  qed
qed

lemma insert_wf:
  assumes wf: "dag_wf M ok D" and insb: "insertable M D p k s"
    and ins: "insert_trusted_key M D p k s = Ok D'"
  shows "dag_wf M ok D'"
proof -
  let ?new = "Node (parent_hashes D p) \<lparr> si_key = k, si_sig = s \<rparr>"
  note st = insert_stored [OF wf ins] and f = insert_trusted_fields [OF ins]
  have hs: "bm_get (hashes D') = (bm_get (hashes D))(k \<mapsto> mr_hash M ?new)"
    unfolding f(4) by (rule bm_get_insert [OF wf_hashes [OF wf]])
  have key: "n = ?new" if "stored M (dag D) n" "nkey n = k" for n
    using insb wf_hash [OF wf that(1)] that(2) by (auto simp: insertable_def)
  have "nkey n \<noteq> genesis_key D' \<and> bm_get (hashes D') (nkey n) = Some (mr_hash M n)"
    if "stored M (dag D') n" for n
    using that st insb wf_not_genesis [OF wf] wf_hash [OF wf] key
    by (cases "nkey n = k") (auto simp: f(2) hs insertable_def)
  moreover have "\<exists>n. mr_node M (dag D') h = Some n \<and> nkey n = k'"
    if "bm_get (hashes D') k' = Some h" for k' h
  proof (cases "k' = k")
    case True
    have "stored M (dag D') ?new" using st by blast
    with True that show ?thesis by (auto simp: hs stored_def)
  next
    case False
    with that have "bm_get (hashes D) k' = Some h" by (simp add: hs)
    with wf obtain n where "stored M (dag D) n" "nkey n = k'" "h = mr_hash M n"
      by (rule wf_key_node)
    moreover from this(1) have "stored M (dag D') n" by (simp add: st)
    ultimately show ?thesis by (auto simp: stored_def)
  qed
  moreover have "set (dag_root D') = {nkey n | n. stored M (dag D') n \<and> node_children n = []}"
    using wf f(1)
  proof (cases rule: parent_hashes_cases)
    case genesis
    then show ?thesis
      unfolding f(5) st using wf_root_set [OF wf]
      by (auto simp: set_bs_insert intro: exI [of _ ?new])
  next
    case (node n)
    then show ?thesis unfolding f(5) st using wf_root_set [OF wf] by auto
  qed
  moreover have "\<exists>ps. up_path M (dag D') n ps" if "stored M (dag D') n" for n
    using that st wf_path [OF wf] insert_new_path [OF wf ins] by (metis up_path_mono)
  moreover have "bm_wf (hashes D')" unfolding f(4) by (rule bm_wf_insert [OF wf_hashes [OF wf]])
  moreover have "bs_wf (dag_root D')" unfolding f(5) using wf_roots [OF wf] by (simp add: bs_wf_insert)
  ultimately show ?thesis
    unfolding dag_wf_def using insert_ok_register [OF wf ins] by blast
qed

lemma insert_has_key:
  assumes "dag_wf M ok D" and "insert_trusted_key M D p k s = Ok D'"
  shows "has_key D' x \<longleftrightarrow> x = k \<or> has_key D x"
  using insert_trusted_fields [OF assms(2)] bm_get_insert [OF wf_hashes [OF assms(1)]]
  by (auto simp: has_key_def bm_has_def)

lemma parent_of_mono:
  assumes wf: "dag_wf M ok D" and ok': "ok (dag D')" and g: "genesis_key D' = genesis_key D"
    and mono: "\<And>x. stored M (dag D) x \<Longrightarrow> stored M (dag D') x" and n: "stored M (dag D) n"
  shows "parent_of M D' n = parent_of M D n"
proof -
  obtain ps where "up_path M (dag D) n ps" using wf_path [OF wf n] by blast
  then show ?thesis
  proof (cases rule: up_path.cases)
    case root
    then show ?thesis using mono n by (simp add: parent_of_root wf_ok [OF wf] ok' g)
  next
    case (step p qs)
    have "stored M (dag D) p" using up_path_stored [OF step(4)] up_path_hd [OF step(4)] by auto
    with step show ?thesis
      using mono n parent_of_step [OF wf_ok [OF wf], of n p] parent_of_step [OF ok', of n p] by simp
  qed
qed

lemma parent_of_new:
  assumes wf: "dag_wf M ok D" and ins: "insert_trusted_key M D p k s = Ok D'"
  shows "parent_of M D' (Node (parent_hashes D p) \<lparr> si_key = k, si_sig = s \<rparr>) = p"
    (is "parent_of M D' ?new = p")
proof -
  note st = insert_stored [OF wf ins] and ok' = insert_ok_register [OF wf ins]
  have new: "stored M (dag D') ?new" using st by blast
  from wf insert_trusted_fields(1) [OF ins] show ?thesis
  proof (cases rule: parent_hashes_cases)
    case genesis
    then show ?thesis
      using parent_of_root [OF ok' new] insert_trusted_fields(2) [OF ins] by simp
  next
    case (node n)
    moreover have "stored M (dag D') n" using node(2) st by blast
    ultimately show ?thesis using parent_of_step [OF ok' new] by simp
  qed
qed

lemma insert_signed:
  assumes wf: "dag_wf M ok D" and sg: "dag_signed M B D" and v: "verify_sig B p k s"
    and ins: "insert_trusted_key M D p k s = Ok D'"
  shows "dag_signed M B D'"
  unfolding dag_signed_def
proof (intro allI impI)
  fix n assume "stored M (dag D') n"
  then consider (new) "n = Node (parent_hashes D p) \<lparr> si_key = k, si_sig = s \<rparr>"
    | (old) "stored M (dag D) n" using insert_stored [OF wf ins] by blast
  then show "verify_sig B (parent_of M D' n) (nkey n) (nsig n)"
  proof cases
    case new
    then show ?thesis using parent_of_new [OF wf ins] v by simp
  next
    case old
    have "parent_of M D' n = parent_of M D n"
      using parent_of_mono [OF wf insert_ok_register [OF wf ins] insert_trusted_fields(2) [OF ins] _ old]
        insert_stored [OF wf ins] by blast
    with sg old show ?thesis by (simp add: dag_signed_def)
  qed
qed

lemma new_dag_wf: "dag_wf M ok (new_dag M g)"
  by (simp add: dag_wf_def new_dag_def stored_def merkle_okD [OF laws] btree_simps)

lemma new_dag_signed: "dag_signed M B (new_dag M g)"
  by (simp add: dag_signed_def new_dag_def stored_def merkle_okD [OF laws])

subsection \<open>Ancestors\<close>

lemma stored_count: "dag_wf M ok D \<Longrightarrow> length (mr_all_nodes M (dag D)) \<le> length (hashes D)"
proof -
  assume wf: "dag_wf M ok D"
  have "inj_on nkey {n. stored M (dag D) n}" using wf_key_inj [OF wf] by (auto intro: inj_onI)
  then have "length (mr_all_nodes M (dag D)) = card (nkey ` set (mr_all_nodes M (dag D)))"
    using merkle_all_nodes [OF laws wf_ok [OF wf]] merkle_all_distinct [OF laws wf_ok [OF wf]]
    by (simp add: card_image distinct_card [symmetric])
  also have "\<dots> \<le> card (fst ` set (hashes D))"
    using wf_hash [OF wf] merkle_all_nodes [OF laws wf_ok [OF wf]]
    by (intro card_mono) (auto simp: dom_map_of_conv_image_fst [symmetric] finite_dom_map_of)
  also have "\<dots> \<le> length (hashes D)"
    by (metis card_length length_map list.set_map)
  finally show ?thesis .
qed

lemma get_parent_key_stored:
  "dag_wf M ok D \<Longrightarrow> stored M (dag D) n \<Longrightarrow> get_parent_key M D (nkey n) = Ok (Some (parent_of M D n))"
  using wf_hash wf_not_genesis
  by (auto simp: get_parent_key_def get_hash_def parent_of_def split: option.splits)

text \<open>The keys of the ancestors along a path, the genesis key last.\<close>

definition path_ancestors :: "'m sections_dag \<Rightarrow> dag_node list \<Rightarrow> public_key list" where
  "path_ancestors D ps = map nkey (tl ps) @ [genesis_key D]"

lemma parent_of_path:
  assumes wf: "dag_wf M ok D" and path: "up_path M (dag D) n ps"
  shows "path_ancestors D ps = parent_of M D n #
           (case tl ps of [] \<Rightarrow> [] | _ \<Rightarrow> path_ancestors D (tl ps))"
  using wf_ok [OF wf] path
proof (cases rule: up_path_cases_parent)
  case (step p qs)
  then show ?thesis using up_path_hd [OF step(4)]
    by (auto simp: path_ancestors_def parent_of_def)
qed (simp add: path_ancestors_def parent_of_def)

lemma get_ancestors_loop_path:
  assumes wf: "dag_wf M ok D" and path: "up_path M (dag D) n ps" and fuel: "length ps < fuel"
  shows "get_ancestors_loop M D fuel (nkey n) acc = Ok (acc @ path_ancestors D ps)"
  using path fuel
proof (induction ps arbitrary: n fuel acc rule: list.induct)
  case Nil
  then show ?case using up_path_hd by blast
next
  case (Cons a qs)
  obtain f where fuel: "fuel = Suc f" "length qs < f" using Cons.prems(2) by (cases fuel) auto
  have st: "stored M (dag D) n" using up_path_stored [OF Cons.prems(1)] up_path_hd [OF Cons.prems(1)] by auto
  from wf_ok [OF wf] Cons.prems(1) show ?case
  proof (cases rule: up_path_cases_parent)
    case root
    then obtain f' where "f = Suc f'" using fuel by (cases f) auto
    with root show ?thesis
      by (simp add: fuel get_parent_key_stored [OF wf st] parent_of_def path_ancestors_def
          get_parent_key_def [of M D "genesis_key D"])
  next
    case (step p qs')
    then have "qs' = qs" by simp
    with Cons.IH [OF _ fuel(2)] step show ?thesis
      using up_path_hd [OF step(4)]
      by (auto simp: fuel get_parent_key_stored [OF wf st] parent_of_def path_ancestors_def)
  qed
qed

lemma get_ancestors_path:
  assumes "dag_wf M ok D" and "up_path M (dag D) n ps"
  shows "get_ancestors M D (nkey n) = Ok (path_ancestors D ps)"
  using get_ancestors_loop_path [OF assms, of "key_fuel D" "[]"]
    up_path_length [OF wf_ok [OF assms(1)] assms(2)] stored_count [OF assms(1)]
  by (simp add: get_ancestors_def key_fuel_def)

lemma get_ancestors_genesis: "get_ancestors M D (genesis_key D) = Ok []"
  by (simp add: get_ancestors_def key_fuel_def get_parent_key_def)

lemma get_ancestors_missing:
  "\<not> has_key D k \<Longrightarrow> get_ancestors M D k = Err (KeyNotFound k)"
  by (simp add: get_ancestors_def key_fuel_def get_parent_key_def has_key_def bm_has_def get_hash_def)

subsection \<open>Verification of a whole DAG\<close>

abbreviation node_signed :: "'m sections_dag \<Rightarrow> dag_node \<Rightarrow> bool" where
  "node_signed D n \<equiv> verify_sig B (parent_of M D n) (nkey n) (nsig n)"

text \<open>Above a verified key everything is verified.\<close>

definition up_closed :: "'m sections_dag \<Rightarrow> public_key set \<Rightarrow> bool" where
  "up_closed D K \<longleftrightarrow> genesis_key D \<in> K \<and>
     (\<forall>n. stored M (dag D) n \<longrightarrow> nkey n \<in> K \<longrightarrow> node_signed D n \<and> parent_of M D n \<in> K)"

lemma parent_of_in_path:
  assumes "dag_wf M ok D" and "up_path M (dag D) n (n # qs)"
  shows "parent_of M D n = (case qs of [] \<Rightarrow> genesis_key D | p # _ \<Rightarrow> nkey p)"
  using wf_ok [OF assms(1)] assms(2)
proof (cases rule: up_path_cases_parent)
  case (step p qs')
  then show ?thesis using up_path_hd [OF step(4)] by (auto simp: parent_of_def)
qed (simp add: parent_of_def)

definition up_closed_but :: "'m sections_dag \<Rightarrow> public_key set \<Rightarrow> public_key \<Rightarrow> bool" where
  "up_closed_but D K t \<longleftrightarrow> genesis_key D \<in> K \<and>
     (\<forall>n. stored M (dag D) n \<longrightarrow> nkey n \<in> K
        \<longrightarrow> node_signed D n \<and> (parent_of M D n \<in> K \<or> parent_of M D n = t))"

lemma up_closed_but_step:
  assumes wf: "dag_wf M ok D" and n: "stored M (dag D) n" and cl: "up_closed_but D K (nkey n)"
    and sg: "node_signed D n"
  shows "up_closed_but D (insert (nkey n) K) (parent_of M D n)"
  using cl sg wf_key_inj [OF wf _ n] by (auto simp: up_closed_but_def)

lemma up_closed_but_done: "up_closed_but D K t \<Longrightarrow> t \<in> K \<Longrightarrow> up_closed D K"
  by (auto simp: up_closed_but_def up_closed_def)

text \<open>
  One branch: the walk ends, and either everything above the verified keys is verified after it,
  or it has met a node that its parent did not sign.
\<close>

lemma self_verify_branch_path:
  assumes wf: "dag_wf M ok D" and path: "up_path M (dag D) n ps" and fuel: "length ps \<le> fuel"
    and cl: "up_closed_but D (set K) (nkey n)"
  shows "\<exists>b K'. self_verify_branch M B D fuel K (nkey n) = Some (b, K') \<and>
           (b \<longrightarrow> up_closed D (set K') \<and> set K \<subseteq> set K' \<and> nkey n \<in> set K') \<and>
           (\<not> b \<longrightarrow> (\<exists>x. stored M (dag D) x \<and> \<not> node_signed D x))"
  using path fuel cl
proof (induction ps arbitrary: n fuel K rule: list.induct)
  case Nil
  then show ?case using up_path_hd by blast
next
  case (Cons a qs)
  obtain f where fuel: "fuel = Suc f" "length qs \<le> f" using Cons.prems(2) by (cases fuel) auto
  have st: "stored M (dag D) n"
    using up_path_stored [OF Cons.prems(1)] up_path_hd [OF Cons.prems(1)] by auto
  note eval = get_parent_key_stored [OF wf st] get_node_stored [OF wf st]
  let ?K = "nkey n # K"
  show ?case
  proof (cases "node_signed D n")
    case False
    then have "self_verify_branch M B D fuel K (nkey n) = Some (False, K)"
      by (simp add: fuel eval)
    with False st show ?thesis by blast
  next
    case True
    have cl': "up_closed_but D (set ?K) (parent_of M D n)"
      using up_closed_but_step [OF wf st Cons.prems(3) True] by simp
    show ?thesis
    proof (cases "parent_of M D n \<in> set ?K")
      case stop: True
      have "self_verify_branch M B D fuel K (nkey n) = Some (True, ?K)"
        using \<open>node_signed D n\<close> stop by (simp add: fuel eval Let_def)
      moreover have "up_closed D (set ?K)" using up_closed_but_done [OF cl' stop] .
      ultimately show ?thesis by auto
    next
      case more: False
      have g: "genesis_key D \<in> set K" using Cons.prems(3) by (simp add: up_closed_but_def)
      from wf_ok [OF wf] Cons.prems(1) show ?thesis
      proof (cases rule: up_path_cases_parent)
        case root
        then show ?thesis using more g by (simp add: parent_of_def)
      next
        case (step p qs')
        then have p: "parent_of M D n = nkey p" "up_path M (dag D) p qs" by (simp_all add: parent_of_def)
        have "self_verify_branch M B D fuel K (nkey n) = self_verify_branch M B D f ?K (nkey p)"
          using \<open>node_signed D n\<close> more by (simp add: fuel eval p(1) Let_def)
        then show ?thesis using Cons.IH [OF p(2) fuel(2), of ?K] cl' p(1) by fastforce
      qed
    qed
  qed
qed

lemma self_verify_all_branches:
  assumes wf: "dag_wf M ok D" and leaves: "\<forall>s \<in> set ss. \<exists>n. stored M (dag D) n \<and> node_value n = s"
    and cl: "up_closed D (set K)"
  shows "\<exists>b. self_verify_all M B D K ss = Some b \<and>
           (b \<longrightarrow> (\<exists>K'. up_closed D K' \<and> set K \<subseteq> K' \<and> si_key ` set ss \<subseteq> K')) \<and>
           (\<not> b \<longrightarrow> (\<exists>x. stored M (dag D) x \<and> \<not> node_signed D x))"
  using leaves cl
proof (induction ss arbitrary: K)
  case Nil
  then show ?case by auto
next
  case (Cons s ss)
  obtain n where n: "stored M (dag D) n" "node_value n = s" using Cons.prems(1) by auto
  obtain ps where path: "up_path M (dag D) n ps" using wf_path [OF wf n(1)] by blast
  have fuel: "length ps \<le> key_fuel D"
    using up_path_length [OF wf_ok [OF wf] path] stored_count [OF wf] by (simp add: key_fuel_def)
  have "up_closed_but D (set K) (nkey n)"
    using Cons.prems(2) by (auto simp: up_closed_def up_closed_but_def)
  from self_verify_branch_path [OF wf path fuel this] n(2)
  obtain b K' where br: "self_verify_branch M B D (key_fuel D) K (si_key s) = Some (b, K')"
    and t: "b \<longrightarrow> up_closed D (set K') \<and> set K \<subseteq> set K' \<and> si_key s \<in> set K'"
    and f: "\<not> b \<longrightarrow> (\<exists>x. stored M (dag D) x \<and> \<not> node_signed D x)" by blast
  show ?case
  proof (cases b)
    case False
    with br f show ?thesis by (intro exI [of _ False]) auto
  next
    case True
    with t Cons.IH [of K'] Cons.prems(1)
    obtain b' where ss: "self_verify_all M B D K' ss = Some b'"
      and t': "b' \<longrightarrow> (\<exists>K''. up_closed D K'' \<and> set K' \<subseteq> K'' \<and> si_key ` set ss \<subseteq> K'')"
      and f': "\<not> b' \<longrightarrow> (\<exists>x. stored M (dag D) x \<and> \<not> node_signed D x)" by auto
    have "\<exists>K''. up_closed D K'' \<and> set K \<subseteq> K'' \<and> si_key ` set (s # ss) \<subseteq> K''" if b'
    proof -
      obtain K'' where "up_closed D K''" "set K' \<subseteq> K''" "si_key ` set ss \<subseteq> K''" using t' \<open>b'\<close> by blast
      with t True show ?thesis by (intro exI [of _ K'']) auto
    qed
    with f' show ?thesis using br True ss by (intro exI [of _ b']) simp
  qed
qed

text \<open>Every node lies on the path of some leaf.\<close>

lemma leaf_below:
  assumes wf: "dag_wf M ok D" and n: "stored M (dag D) n"
  shows "\<exists>l ps. l \<in> set (mr_read M (dag D)) \<and> up_path M (dag D) l ps \<and> n \<in> set ps"
proof -
  let ?P = "\<lambda>k. \<exists>l ps. stored M (dag D) l \<and> up_path M (dag D) l ps \<and> n \<in> set ps \<and> length ps = k"
  obtain ps where path: "up_path M (dag D) n ps" using wf_path [OF wf n] by blast
  have P: "?P (length ps)" using n path up_path_hd [OF path] by (intro exI [of _ n] exI [of _ ps]) auto
  have bound: "\<And>k. ?P k \<Longrightarrow> k \<le> length (mr_all_nodes M (dag D))"
    using up_path_length [OF wf_ok [OF wf]] by auto
  let ?k = "Greatest ?P"
  obtain l qs where l: "stored M (dag D) l" "up_path M (dag D) l qs" "n \<in> set qs" "length qs = ?k"
    using GreatestI_nat [where P = ?P, OF P] bound by blast
  have "mr_hash M l \<notin> set (node_children n')" if n': "stored M (dag D) n'" for n'
  proof
    assume in': "mr_hash M l \<in> set (node_children n')"
    obtain rs where rs: "up_path M (dag D) n' rs" using wf_path [OF wf n'] by blast
    from wf_ok [OF wf] rs show False
    proof (cases rule: up_path_cases_parent)
      case root
      with in' show False by simp
    next
      case (step p ss)
      with in' have "p = l" by simp
      with step l(2) have "rs = n' # qs" using up_path_unique by blast
      with n' rs l(3,4) have "?P (Suc ?k)" by (intro exI [of _ n'] exI [of _ rs]) auto
      then have "Suc ?k \<le> ?k" by (rule Greatest_le_nat [where P = ?P]) (rule bound)
      then show False by simp
    qed
  qed
  with l(1) have "l \<in> set (mr_read M (dag D))" unfolding merkle_read [OF laws wf_ok [OF wf]] by blast
  with l show ?thesis by blast
qed

lemma up_closed_path:
  assumes wf: "dag_wf M ok D" and cl: "up_closed D K" and path: "up_path M (dag D) l ps"
    and l: "nkey l \<in> K" and x: "x \<in> set ps"
  shows "node_signed D x"
  using path l x
proof (induction rule: up_path.induct)
  case (root n)
  then show ?case using cl by (simp add: up_closed_def)
next
  case (step n p ps)
  have "stored M (dag D) p" using up_path_stored [OF step.hyps(3)] up_path_hd [OF step.hyps(3)] by auto
  then have "parent_of M D n = nkey p"
    using parent_of_step [OF wf_ok [OF wf] step.hyps(1,2)] by simp
  then have "nkey p \<in> K" and "node_signed D n"
    using cl step.hyps(1) step.prems(1) by (auto simp: up_closed_def)
  with step.IH step.prems(2) show ?case by auto
qed

lemma self_verify_decides:
  assumes wf: "dag_wf M ok D"
  shows "self_verify M B D = Some (dag_signed M B D)"
proof -
  have "up_closed D (set [genesis_key D])"
    using wf_not_genesis [OF wf] by (auto simp: up_closed_def)
  moreover have "\<forall>s \<in> set (non_genesis_leaf_sections M D). \<exists>n. stored M (dag D) n \<and> node_value n = s"
    using merkle_read [OF laws wf_ok [OF wf]] by (auto simp: non_genesis_leaf_sections_def)
  ultimately obtain b where b: "self_verify M B D = Some b"
    and t: "b \<longrightarrow> (\<exists>K'. up_closed D K' \<and> si_key ` set (non_genesis_leaf_sections M D) \<subseteq> K')"
    and f: "\<not> b \<longrightarrow> (\<exists>x. stored M (dag D) x \<and> \<not> node_signed D x)"
    using self_verify_all_branches [OF wf] unfolding self_verify_def by blast
  have "dag_signed M B D" if b
  proof -
    obtain K' where K': "up_closed D K'" "si_key ` set (non_genesis_leaf_sections M D) \<subseteq> K'"
      using t \<open>b\<close> by blast
    have "node_signed D n" if n: "stored M (dag D) n" for n
    proof -
      obtain l ps where l: "l \<in> set (mr_read M (dag D))" "up_path M (dag D) l ps" "n \<in> set ps"
        using leaf_below [OF wf n] by blast
      then have "nkey l \<in> K'" using K'(2) by (auto simp: non_genesis_leaf_sections_def)
      then show ?thesis using up_closed_path [OF wf K'(1) l(2) _ l(3)] by blast
    qed
    then show ?thesis by (simp add: dag_signed_def)
  qed
  with f b show ?thesis by (cases b) (auto simp: dag_signed_def)
qed

subsection \<open>Partial DAGs\<close>

definition segment :: "public_key \<Rightarrow> dag_node list \<Rightarrow> dag_node list" where
  "segment from ps = takeWhile (\<lambda>x. nkey x \<noteq> from) ps"

lemma partial_dag_loop_path:
  assumes wf: "dag_wf M ok D" and path: "up_path M (dag D) n ps" and fuel: "length ps \<le> fuel"
  shows "partial_dag_loop M D from fuel n acc =
           (if from \<in> nkey ` set ps \<or> from = genesis_key D then Ok (acc @ segment from ps)
            else Err InvalidBranch)"
  using path fuel
proof (induction ps arbitrary: n fuel acc rule: list.induct)
  case Nil
  then show ?case using up_path_hd by blast
next
  case (Cons a qs)
  obtain f where fuel: "fuel = Suc f" "length qs \<le> f" using Cons.prems(2) by (cases fuel) auto
  have a: "a = n" using up_path_hd [OF Cons.prems(1)] by auto
  show ?case
  proof (cases "nkey n = from")
    case True
    then show ?thesis by (simp add: fuel a segment_def)
  next
    case False
    from wf_ok [OF wf] Cons.prems(1) show ?thesis
    proof (cases rule: up_path_cases_parent)
      case root
      then show ?thesis using False by (simp add: fuel segment_def)
    next
      case (step p qs')
      then have "up_path M (dag D) p qs" by simp
      from Cons.IH [OF this fuel(2)] step False show ?thesis
        by (auto simp: fuel a segment_def)
    qed
  qed
qed

text \<open>A DAG that is a single branch, with the nodes \<open>qs\<close> from its tip to its root.\<close>

definition linear :: "'m sections_dag \<Rightarrow> public_key \<Rightarrow> dag_node list \<Rightarrow> bool" where
  "linear D t qs \<longleftrightarrow> dag_wf M ok D \<and> (\<forall>x. stored M (dag D) x \<longleftrightarrow> x \<in> set qs) \<and>
     (qs = [] \<and> t = genesis_key D \<or> (\<exists>n. nkey n = t \<and> up_path M (dag D) n qs))"

lemma linear_new: "linear (new_dag M g) g []"
  using new_dag_wf [of g]
  by (simp add: linear_def new_dag_def stored_def merkle_node_new [OF laws])

lemma linear_has_tip: "linear D t qs \<Longrightarrow> has_key D t"
  using up_path_hd by (fastforce simp: linear_def has_key_iff)

lemma linear_insert:
  assumes lin: "linear D t qs" and k: "k \<noteq> genesis_key D" "k \<notin> nkey ` set qs"
  obtains D' n where "insert_trusted_key M D t k s = Ok D'" and "linear D' k (n # qs)"
    and "genesis_key D' = genesis_key D" and "node_value n = \<lparr> si_key = k, si_sig = s \<rparr>"
proof -
  let ?n = "Node (parent_hashes D t) \<lparr> si_key = k, si_sig = s \<rparr>"
  have wf: "dag_wf M ok D" and st: "\<And>x. stored M (dag D) x \<longleftrightarrow> x \<in> set qs"
    using lin by (auto simp: linear_def)
  obtain D' where ins: "insert_trusted_key M D t k s = Ok D'"
    using insert_trusted_error linear_has_tip [OF lin] by (metis result.exhaust)
  have "bm_get (hashes D) k = None"
  proof (rule ccontr)
    assume "bm_get (hashes D) k \<noteq> None"
    then obtain x where "stored M (dag D) x" "nkey x = k" using wf_key_node [OF wf] by blast
    with st k(2) show False by auto
  qed
  with k have "insertable M D t k s" by (simp add: insertable_def)
  then have wf': "dag_wf M ok D'" using insert_wf [OF wf _ ins] by blast
  note st' = insert_stored [OF wf ins]
  have new: "stored M (dag D') ?n" using st' by blast
  have "up_path M (dag D') ?n (?n # qs)"
  proof (cases "qs = []")
    case True
    with lin up_path_hd have "t = genesis_key D" by (auto simp: linear_def)
    with True new show ?thesis by (auto intro: up_path.root simp: parent_hashes_def)
  next
    case False
    then obtain n where n: "nkey n = t" "up_path M (dag D) n qs" using lin by (auto simp: linear_def)
    have sn: "stored M (dag D) n" using up_path_stored [OF n(2)] up_path_hd [OF n(2)] by auto
    have "parent_hashes D t = [mr_hash M n]"
      using wf_hash [OF wf sn] wf_not_genesis [OF wf sn] n(1) by (auto simp: parent_hashes_def)
    moreover have "up_path M (dag D') n qs" using n(2) st' by (blast intro: up_path_mono)
    ultimately show ?thesis using new by (intro up_path.step) auto
  qed
  then have "linear D' k (?n # qs)"
    unfolding linear_def using wf' st st' by (auto intro!: exI [of _ ?n])
  then show ?thesis using that ins insert_trusted_fields(2) [OF ins] by auto
qed

fun links :: "public_key \<Rightarrow> dag_node list \<Rightarrow> bool" where
  "links t [] = True"
| "links t (n # ns) = (verify_sig B t (nkey n) (nsig n) \<and> links (nkey n) ns)"

definition tip_of :: "public_key \<Rightarrow> dag_node list \<Rightarrow> public_key" where
  "tip_of t ns = (if ns = [] then t else nkey (last ns))"

lemma links_append: "links t (ns @ [n]) \<longleftrightarrow> links t ns \<and> verify_sig B (tip_of t ns) (nkey n) (nsig n)"
  by (induction ns arbitrary: t) (auto simp: tip_of_def)

lemma insert_chain_linear:
  assumes "linear D t qs" and "distinct (map nkey ns)" and "genesis_key D \<notin> nkey ` set ns"
    and "nkey ` set ns \<inter> nkey ` set qs = {}"
  shows "\<exists>D' qs'. insert_chain M D t ns = Ok D' \<and> linear D' (tip_of t ns) qs' \<and>
           genesis_key D' = genesis_key D \<and>
           map node_value qs' = rev (map node_value ns) @ map node_value qs \<and>
           (dag_signed M B D \<longrightarrow> links t ns \<longrightarrow> dag_signed M B D')"
  using assms
proof (induction ns arbitrary: D t qs)
  case Nil
  then show ?case by (auto simp: tip_of_def)
next
  case (Cons n ns)
  obtain D1 n1 where ins: "insert_trusted_key M D t (nkey n) (nsig n) = Ok D1"
    and lin: "linear D1 (nkey n) (n1 # qs)" and g: "genesis_key D1 = genesis_key D"
    and v: "node_value n1 = \<lparr> si_key = nkey n, si_sig = nsig n \<rparr>"
    using linear_insert [OF Cons.prems(1), of "nkey n" "nsig n"] Cons.prems(3,4) by auto
  have v': "node_value n1 = node_value n" using v by simp
  have "\<exists>D' qs'. insert_chain M D1 (nkey n) ns = Ok D' \<and> linear D' (tip_of (nkey n) ns) qs' \<and>
     genesis_key D' = genesis_key D1 \<and>
     map node_value qs' = rev (map node_value ns) @ map node_value (n1 # qs) \<and>
     (dag_signed M B D1 \<longrightarrow> links (nkey n) ns \<longrightarrow> dag_signed M B D')"
    by (rule Cons.IH [OF lin]) (use Cons.prems v' g in auto)
  moreover have "dag_signed M B D1" if "dag_signed M B D" "verify_sig B t (nkey n) (nsig n)"
    using insert_signed [OF _ that ins] Cons.prems(1) by (simp add: linear_def)
  moreover have "tip_of (nkey n) ns = tip_of t (n # ns)" by (simp add: tip_of_def)
  ultimately show ?case using ins g v' by auto
qed

lemma segment_links:
  assumes wf: "dag_wf M ok D" and sg: "dag_signed M B D" and path: "up_path M (dag D) n ps"
    and fr: "from \<in> nkey ` set ps \<or> from = genesis_key D"
  shows "links from (rev (segment from ps))
           \<and> (nkey n \<noteq> from \<longrightarrow> tip_of from (rev (segment from ps)) = nkey n)"
  using path fr
proof (induction rule: up_path.induct)
  case (root n)
  have "verify_sig B (genesis_key D) (nkey n) (nsig n)"
    using sg root.hyps parent_of_root [OF wf_ok [OF wf]] by (auto simp: dag_signed_def)
  with root show ?case by (auto simp: segment_def tip_of_def)
next
  case (step n p ps)
  obtain qs where ps: "ps = p # qs" using up_path_hd [OF step.hyps(3)] by blast
  have "stored M (dag D) p" using up_path_stored [OF step.hyps(3)] ps by auto
  then have par: "parent_of M D n = nkey p"
    using parent_of_step [OF wf_ok [OF wf] step.hyps(1,2)] by simp
  show ?case
  proof (cases "nkey n = from")
    case True
    then show ?thesis by (simp add: segment_def)
  next
    case False
    then have seg: "segment from (n # ps) = n # segment from ps" by (simp add: segment_def)
    have ih: "links from (rev (segment from ps))"
      and tip: "tip_of from (rev (segment from ps)) = nkey p"
      using step.IH step.prems False ps by (auto simp: segment_def tip_of_def)
    have "verify_sig B (nkey p) (nkey n) (nsig n)"
      using sg step.hyps(1) par by (auto simp: dag_signed_def)
    then show ?thesis unfolding seg using ih tip by (simp add: links_append tip_of_def)
  qed
qed

lemma up_path_inner:
  "up_path M m n qs \<Longrightarrow> x \<in> set qs \<Longrightarrow> x \<noteq> n \<Longrightarrow> \<exists>y \<in> set qs. mr_hash M x \<in> set (node_children y)"
proof (induction rule: up_path.induct)
  case (step n p ps)
  then show ?case by (cases "x = p") auto
qed simp

lemma up_path_tip:
  assumes "up_path M m n qs" and "y \<in> set qs"
  shows "mr_hash M n \<notin> set (node_children y)"
proof
  assume ch: "mr_hash M n \<in> set (node_children y)"
  obtain as bs where qs: "qs = as @ y # bs" using assms(2) by (auto simp: in_set_conv_decomp)
  have y: "up_path M m y (y # bs)" using assms(1) unfolding qs by (rule up_path_suffix)
  then show False
  proof (cases rule: up_path.cases)
    case root
    with ch show False by simp
  next
    case (step p)
    with ch have "up_path M m n bs" by simp
    then have "bs = qs" using assms(1) by (rule up_path_unique)
    then show False using qs by simp
  qed
qed

lemma linear_leaves:
  assumes lin: "linear D t qs"
  shows "nkey ` set (mr_read M (dag D)) = (if qs = [] then {} else {t})"
proof -
  have wf: "dag_wf M ok D" and st: "\<And>x. stored M (dag D) x \<longleftrightarrow> x \<in> set qs"
    using lin by (auto simp: linear_def)
  note rd = merkle_read [OF laws wf_ok [OF wf]]
  show ?thesis
  proof (cases "qs = []")
    case False
    then obtain n where n: "nkey n = t" "up_path M (dag D) n qs" using lin by (auto simp: linear_def)
    have "n \<in> set qs" using up_path_hd [OF n(2)] by auto
    then have "set (mr_read M (dag D)) = {n}"
      unfolding rd st using up_path_inner [OF n(2)] up_path_tip [OF n(2)] by blast
    with False n(1) show ?thesis by simp
  qed (simp add: rd st)
qed

lemma linear_last_key:
  assumes lin: "linear D t qs"
  shows "last_key M D = Ok t"
proof (cases "qs = []")
  case True
  then have "mr_read M (dag D) = []" using linear_leaves [OF lin] by simp
  moreover have "t = genesis_key D" using lin True up_path_hd by (auto simp: linear_def)
  ultimately show ?thesis by (simp add: last_key_def leaf_keys_def non_genesis_leaf_sections_def)
next
  case False
  then have keys: "nkey ` set (mr_read M (dag D)) = {t}" using linear_leaves [OF lin] by simp
  have "leaf_keys M D = bs_from_iter (map nkey (mr_read M (dag D)))"
    using keys by (auto simp: leaf_keys_def non_genesis_leaf_sections_def comp_def)
  also have "\<dots> = [t]"
    by (rule bs_unique [OF bs_wf_from_iter]) (simp_all add: set_bs_from_iter keys bs_wf_def)
  finally show ?thesis by (simp add: last_key_def)
qed

text \<open>The branch of a DAG that ends in a key, as a partial DAG gives it.\<close>

lemma partial_dag_branch:
  assumes wf: "dag_wf M ok D" and path: "up_path M (dag D) n ps"
    and fr: "from \<in> nkey ` set ps \<or> from = genesis_key D"
  shows "\<exists>P qs. partial_dag M D from (nkey n) = Ok P \<and> linear P (nkey n) qs \<and>
           genesis_key P = from \<and> map node_value qs = map node_value (segment from ps) \<and>
           (dag_signed M B D \<longrightarrow> dag_signed M B P)"
proof -
  let ?seg = "segment from ps"
  have sn: "stored M (dag D) n" using up_path_stored [OF path] up_path_hd [OF path] by auto
  have len: "length ps \<le> node_fuel M D"
    using up_path_length [OF wf_ok [OF wf] path] by (simp add: node_fuel_def)
  have sub: "set ?seg \<subseteq> set ps" unfolding segment_def by (auto dest: set_takeWhileD)
  have "inj_on nkey (set ?seg)"
    using wf_key_inj [OF wf] up_path_stored [OF path] sub by (intro inj_onI) blast
  then have dist: "distinct (map nkey ?seg)"
    using up_path_distinct [OF path] by (simp add: distinct_map segment_def)
  have nf: "from \<notin> nkey ` set ?seg" unfolding segment_def by (auto dest: set_takeWhileD)
  have "partial_dag M D from (nkey n) = insert_chain M (new_dag M from) from (rev ?seg)"
    using get_node_stored [OF wf sn] partial_dag_loop_path [OF wf path len, of "from" "[]"] fr
      wf_not_genesis [OF wf sn] by (simp add: partial_dag_def)
  moreover have "\<exists>P qs. insert_chain M (new_dag M from) from (rev ?seg) = Ok P \<and>
      linear P (tip_of from (rev ?seg)) qs \<and> genesis_key P = genesis_key (new_dag M from) \<and>
      map node_value qs = rev (map node_value (rev ?seg)) @ map node_value [] \<and>
      (dag_signed M B (new_dag M from) \<longrightarrow> links from (rev ?seg) \<longrightarrow> dag_signed M B P)"
    using dist nf by (intro insert_chain_linear linear_new) (auto simp: rev_map [symmetric] new_dag_def)
  moreover have "tip_of from (rev ?seg) = nkey n"
    using up_path_hd [OF path] by (auto simp: segment_def tip_of_def split: if_splits)
  moreover have "links from (rev ?seg)" if "dag_signed M B D"
    using segment_links [OF wf that path fr] by blast
  ultimately show ?thesis
    using new_dag_signed by (auto simp: rev_map new_dag_def)
qed

lemma linear_ancestors:
  assumes "linear P t qs"
  obtains as where "get_ancestors M P t = Ok as" and "t # as = map nkey qs @ [genesis_key P]"
proof (cases "qs = []")
  case True
  then have "t = genesis_key P" using assms up_path_hd by (auto simp: linear_def)
  with True show ?thesis using that get_ancestors_genesis by simp
next
  case False
  then obtain n where n: "nkey n = t" "up_path M (dag P) n qs" using assms by (auto simp: linear_def)
  then have "get_ancestors M P t = Ok (path_ancestors P qs)"
    using get_ancestors_path assms by (auto simp: linear_def)
  then show ?thesis using that up_path_hd [OF n(2)] n(1) by (auto simp: path_ancestors_def)
qed

lemma ancestors_cases:
  assumes wf: "dag_wf M ok D" and anc: "get_ancestors M D k = Ok as"
  obtains (genesis) "k = genesis_key D" and "as = []"
  | (node) n ps where "nkey n = k" and "up_path M (dag D) n ps"
      and "k # as = map nkey ps @ [genesis_key D]"
proof (cases "k = genesis_key D")
  case True
  then show ?thesis using genesis anc get_ancestors_genesis by simp
next
  case False
  have "has_key D k" using anc get_ancestors_missing by fastforce
  then obtain n where n: "stored M (dag D) n" "nkey n = k" using False has_key_iff [OF wf] by blast
  then obtain ps where ps: "up_path M (dag D) n ps" using wf_path [OF wf] by blast
  have "as = path_ancestors D ps" using get_ancestors_path [OF wf ps] anc n(2) by simp
  then show ?thesis using node [OF n(2) ps] up_path_hd [OF ps] n(2) by (auto simp: path_ancestors_def)
qed

lemma takeWhile_segment:
  "from \<in> set (map nkey ps @ [g]) \<Longrightarrow> g \<notin> nkey ` set ps \<Longrightarrow>
     takeWhile (\<lambda>k. k \<noteq> from) (map nkey ps @ [g]) = map nkey (segment from ps)"
proof (induction ps)
  case (Cons a ps)
  then show ?case by (cases "nkey a = from") (auto simp: segment_def)
qed (simp add: segment_def)

lemma partial_dag_is_branch:
  assumes wf: "dag_wf M ok D" and anc: "get_ancestors M D to = Ok as" and fr: "from \<in> set (to # as)"
  shows "\<exists>P as'. partial_dag M D from to = Ok P \<and> dag_wf M ok P \<and> genesis_key P = from \<and>
           last_key M P = Ok to \<and> get_ancestors M P to = Ok as' \<and>
           to # as' = takeWhile (\<lambda>k. k \<noteq> from) (to # as) @ [from] \<and>
           (\<forall>k. has_key P k \<longleftrightarrow> k \<in> set (to # as')) \<and> (dag_signed M B D \<longrightarrow> dag_signed M B P)"
  using wf anc
proof (cases rule: ancestors_cases)
  case genesis
  then show ?thesis
    using fr linear_last_key [OF linear_new] new_dag_wf new_dag_signed get_ancestors_genesis [of "new_dag M to"]
    by (auto simp: partial_dag_def new_dag_def has_key_def bm_has_def)
next
  case (node n ps)
  have st: "\<And>x. x \<in> set ps \<Longrightarrow> stored M (dag D) x" using up_path_stored [OF node(2)] by blast
  then have g: "genesis_key D \<notin> nkey ` set ps" using wf_not_genesis [OF wf] by (metis imageE)
  have fr': "from \<in> nkey ` set ps \<or> from = genesis_key D" using fr unfolding node(3) by auto
  obtain P qs where P: "partial_dag M D from to = Ok P" "linear P to qs" "genesis_key P = from"
    and v: "map node_value qs = map node_value (segment from ps)"
    and sg: "dag_signed M B D \<longrightarrow> dag_signed M B P"
    using partial_dag_branch [OF wf node(2) fr'] node(1) by auto
  obtain as' where as': "get_ancestors M P to = Ok as'" "to # as' = map nkey qs @ [genesis_key P]"
    using linear_ancestors [OF P(2)] by blast
  have "map nkey qs = map nkey (segment from ps)"
    using arg_cong [OF v, of "map si_key"] by (simp add: comp_def)
  also have "\<dots> = takeWhile (\<lambda>k. k \<noteq> from) (to # as)"
    unfolding node(3) using takeWhile_segment fr g node(3) by metis
  finally have keys: "to # as' = takeWhile (\<lambda>k. k \<noteq> from) (to # as) @ [from]" using as'(2) P(3) by simp
  have wfP: "dag_wf M ok P" and stP: "\<And>x. stored M (dag P) x \<longleftrightarrow> x \<in> set qs"
    using P(2) by (auto simp: linear_def)
  have "\<forall>k. has_key P k \<longleftrightarrow> k \<in> set (to # as')"
    unfolding as'(2) has_key_iff [OF wfP] stP by auto
  with P as'(1) keys sg wfP linear_last_key [OF P(2)] show ?thesis by blast
qed

lemma partial_dag_not_branch:
  assumes wf: "dag_wf M ok D" and anc: "get_ancestors M D to = Ok as" and fr: "from \<notin> set (to # as)"
  shows "partial_dag M D from to = Err InvalidBranch"
  using wf anc
proof (cases rule: ancestors_cases)
  case genesis
  then show ?thesis using fr by (simp add: partial_dag_def)
next
  case (node n ps)
  have sn: "stored M (dag D) n" using up_path_stored [OF node(2)] up_path_hd [OF node(2)] by auto
  have len: "length ps \<le> node_fuel M D"
    using up_path_length [OF wf_ok [OF wf] node(2)] by (simp add: node_fuel_def)
  have "\<not> (from \<in> nkey ` set ps \<or> from = genesis_key D)" using fr unfolding node(3) by auto
  then have "partial_dag_loop M D from (node_fuel M D) n [] = Err InvalidBranch"
    using partial_dag_loop_path [OF wf node(2) len] by simp
  then show ?thesis
    using get_node_stored [OF wf sn] wf_not_genesis [OF wf sn] node(1)
    by (auto simp: partial_dag_def)
qed

lemma partial_dag_missing:
  "dag_wf M ok D \<Longrightarrow> \<not> has_key D to \<Longrightarrow> partial_dag M D from to = Err (KeyNotFound to)"
  by (auto simp: partial_dag_def has_key_def bm_has_def get_node_missing)

end

end
