(* ===== verification/Dag_Merge.thy ===== *)
theory Dag_Merge
  imports Dag_Trust
begin

section \<open>Merging DAGs\<close>

text \<open>
  \<open>merge\<close> of \<open>sections_dag.rs\<close>: the traversal of the other DAG visits every node once and adds it
  under its parent, so that the keys of the result are those of the two DAGs, and the trust
  invariant is kept.
\<close>

text \<open>
  Two DAGs agree when a key of both, below the genesis key of the second, has the same parent and
  signature in both.
\<close>

definition agrees :: "'m dag_api \<Rightarrow> 'm sections_dag \<Rightarrow> 'm sections_dag \<Rightarrow> bool" where
  "agrees M D other \<longleftrightarrow>
     (\<forall>n. stored M (dag other) n \<longrightarrow> nkey n \<noteq> genesis_key D \<and>
        (\<forall>x. stored M (dag D) x \<longrightarrow> nkey x = nkey n
           \<longrightarrow> parent_of M D x = parent_of M other n \<and> nsig x = nsig n))"

context dag_context
begin

lemma node_from_parent:
  assumes wf: "dag_wf M ok D" and x: "stored M (dag D) x"
  shows "x = Node (parent_hashes D (parent_of M D x)) \<lparr> si_key = nkey x, si_sig = nsig x \<rparr>"
proof -
  obtain ps where "up_path M (dag D) x ps" using wf_path [OF wf x] by blast
  with wf_ok [OF wf] have "node_children x = parent_hashes D (parent_of M D x)"
  proof (cases rule: up_path_cases_parent)
    case root
    then show ?thesis by (simp add: parent_of_def parent_hashes_def)
  next
    case (step p qs)
    have "stored M (dag D) p" using up_path_stored [OF step(4)] up_path_hd [OF step(4)] by auto
    with step wf_hash [OF wf this] wf_not_genesis [OF wf this] show ?thesis
      by (simp add: parent_of_def parent_hashes_def)
  qed
  then show ?thesis by (cases x) simp
qed

lemma agrees_insertable:
  assumes wf: "dag_wf M ok D" and ag: "agrees M D other" and n: "stored M (dag other) n"
  shows "insertable M D (parent_of M other n) (nkey n) (nsig n)"
proof -
  have "h = mr_hash M (Node (parent_hashes D (parent_of M other n)) \<lparr> si_key = nkey n, si_sig = nsig n \<rparr>)"
    if h: "bm_get (hashes D) (nkey n) = Some h" for h
  proof -
    obtain x where x: "stored M (dag D) x" "nkey x = nkey n" "h = mr_hash M x"
      using wf_key_node [OF wf h] by blast
    with ag n have "parent_of M D x = parent_of M other n" "nsig x = nsig n"
      by (auto simp: agrees_def)
    with node_from_parent [OF wf x(1)] x(2,3) show ?thesis by simp
  qed
  with ag n show ?thesis by (auto simp: insertable_def agrees_def)
qed

lemma agrees_insert:
  assumes wf: "dag_wf M ok D" and wfo: "dag_wf M ok other" and ag: "agrees M D other"
    and n: "stored M (dag other) n"
    and ins: "insert_trusted_key M D (parent_of M other n) (nkey n) (nsig n) = Ok D'"
  shows "agrees M D' other"
  unfolding agrees_def
proof (intro allI impI conjI)
  fix n' assume n': "stored M (dag other) n'"
  then show "nkey n' \<noteq> genesis_key D'"
    using ag insert_trusted_fields(2) [OF ins] by (auto simp: agrees_def)
  fix x assume x: "stored M (dag D') x" and k: "nkey x = nkey n'"
  from x consider (new) "x = Node (parent_hashes D (parent_of M other n)) \<lparr> si_key = nkey n, si_sig = nsig n \<rparr>"
    | (old) "stored M (dag D) x" using insert_stored [OF wf ins] by blast
  then have "parent_of M D' x = parent_of M other n' \<and> nsig x = nsig n'"
  proof cases
    case new
    with k have "n' = n" using wf_key_inj [OF wfo n' n] by simp
    with new parent_of_new [OF wf ins] show ?thesis by simp
  next
    case old
    have "parent_of M D' x = parent_of M D x"
      using parent_of_mono [OF wf insert_ok_register [OF wf ins] insert_trusted_fields(2) [OF ins] _ old]
        insert_stored [OF wf ins] by blast
    with ag n' old k show ?thesis by (auto simp: agrees_def)
  qed
  then show "parent_of M D' x = parent_of M other n'" and "nsig x = nsig n'" by auto
qed

text \<open>
  The state of the traversal: \<open>V\<close> holds the nodes inserted so far and \<open>W\<close> the ones to visit; the
  children of an inserted node, and the roots, are in one of the two.
\<close>

definition frontier ::
  "'m sections_dag \<Rightarrow> 'm sections_dag \<Rightarrow> dag_node set \<Rightarrow> (public_key \<times> dag_node) list \<Rightarrow> bool" where
  "frontier D other V W \<longleftrightarrow>
     V \<subseteq> {n. stored M (dag other) n} \<and> distinct (map snd W) \<and> V \<inter> snd ` set W = {} \<and>
     (\<forall>(p, n) \<in> set W. stored M (dag other) n \<and> p = parent_of M other n) \<and>
     (\<forall>n. stored M (dag other) n \<longrightarrow> node_children n = [] \<longrightarrow> n \<in> V \<union> snd ` set W) \<and>
     (\<forall>n p. stored M (dag other) n \<longrightarrow> node_children n = [mr_hash M p] \<longrightarrow> p \<in> V
        \<longrightarrow> n \<in> V \<union> snd ` set W) \<and>
     (\<forall>n \<in> V \<union> snd ` set W. \<forall>p. node_children n = [mr_hash M p] \<longrightarrow> p \<in> V) \<and>
     has_key D (genesis_key other) \<and> (\<forall>n \<in> V. has_key D (nkey n))"

lemma frontierD:
  assumes "frontier D other V W"
  shows fr_sub: "V \<subseteq> {n. stored M (dag other) n}"
    and fr_dist: "distinct (map snd W)"
    and fr_disj: "V \<inter> snd ` set W = {}"
    and fr_W: "\<forall>(p, n) \<in> set W. stored M (dag other) n \<and> p = parent_of M other n"
    and fr_root: "stored M (dag other) n \<Longrightarrow> node_children n = [] \<Longrightarrow> n \<in> V \<union> snd ` set W"
    and fr_child: "stored M (dag other) n \<Longrightarrow> node_children n = [mr_hash M q] \<Longrightarrow> q \<in> V
          \<Longrightarrow> n \<in> V \<union> snd ` set W"
    and fr_parent: "n \<in> V \<union> snd ` set W \<Longrightarrow> node_children n = [mr_hash M q] \<Longrightarrow> q \<in> V"
    and fr_genesis: "has_key D (genesis_key other)"
    and fr_keys: "n \<in> V \<Longrightarrow> has_key D (nkey n)"
  using assms unfolding frontier_def by - (meson | simp)+

lemma frontier_all:
  assumes wfo: "dag_wf M ok other" and fr: "frontier D other V []"
  shows "V = {n. stored M (dag other) n}"
proof -
  have "n \<in> V" if path: "up_path M (dag other) n ps" for n ps
    using path
  proof (induction rule: up_path.induct)
    case (root n)
    then show ?case using fr_root [OF fr] by simp
  next
    case (step n p ps)
    then show ?case using fr_child [OF fr step.hyps(1,2)] by simp
  qed
  then have "{n. stored M (dag other) n} \<subseteq> V" using wf_path [OF wfo] by blast
  then show ?thesis using fr_sub [OF fr] by blast
qed

lemma children_of_stored:
  assumes "dag_wf M ok D" and "stored M (dag D) n" and "h \<in> set (node_children n)"
  shows "node_children n = [h]"
proof -
  obtain ps where "up_path M (dag D) n ps" using wf_path [OF assms(1,2)] by blast
  then show ?thesis using assms(3) by (cases rule: up_path.cases) auto
qed

lemma frontier_step:
  assumes wfo: "dag_wf M ok other" and fr: "frontier D other V ((p, n) # W)"
    and mono: "\<And>k. has_key D k \<Longrightarrow> has_key D' k" and key: "has_key D' (nkey n)"
  shows "frontier D' other (insert n V)
           (rev (map (\<lambda>child. (nkey n, child)) (child_nodes M other (mr_hash M n))) @ W)"
proof -
  let ?C = "child_nodes M other (mr_hash M n)"
  have n: "stored M (dag other) n" "n \<notin> V" using fr_W [OF fr] fr_disj [OF fr] by auto
  have C: "set ?C = {c. stored M (dag other) c \<and> node_children c = [mr_hash M n]}"
    unfolding child_nodes_def merkle_parents [OF laws wf_ok [OF wfo]]
  proof (intro Collect_cong conj_cong refl)
    fix c assume "stored M (dag other) c"
    then show "mr_hash M n \<in> set (node_children c) \<longleftrightarrow> node_children c = [mr_hash M n]"
      using children_of_stored [OF wfo] by (metis list.set_intros(1))
  qed
  have dC: "distinct ?C" unfolding child_nodes_def by (rule merkle_parents_distinct [OF laws wf_ok [OF wfo]])
  have sep: "c \<notin> insert n (V \<union> snd ` set W)" if "c \<in> set ?C" for c
  proof
    assume "c \<in> insert n (V \<union> snd ` set W)"
    then have "c \<in> V \<union> snd ` set ((p, n) # W)" by auto
    moreover have "node_children c = [mr_hash M n]" using that C by blast
    ultimately have "n \<in> V" using fr_parent [OF fr] by blast
    with n(2) show False by blast
  qed
  have par: "parent_of M other c = nkey n" if "c \<in> set ?C" for c
    using that C n(1) parent_of_step [OF wf_ok [OF wfo]] by blast
  have snds: "map snd (rev (map (\<lambda>child. (nkey n, child)) ?C) @ W) = rev ?C @ map snd W"
    by (simp add: rev_map comp_def)
  have sets: "snd ` set (rev (map (\<lambda>child. (nkey n, child)) ?C) @ W) = set ?C \<union> snd ` set W"
    by force
  have nW: "n \<notin> snd ` set W" using fr_dist [OF fr] by simp
  have in': "x \<in> insert n V \<union> (set ?C \<union> snd ` set W)" if "x \<in> V \<union> snd ` set ((p, n) # W)" for x
    using that by auto
  show ?thesis
    unfolding frontier_def snds sets
  proof (intro conjI allI ballI impI)
    show "insert n V \<subseteq> {n. stored M (dag other) n}" using fr_sub [OF fr] n(1) by blast
    show "distinct (rev ?C @ map snd W)" using dC fr_dist [OF fr] sep by auto
    show "insert n V \<inter> (set ?C \<union> snd ` set W) = {}" using sep nW fr_disj [OF fr] by auto
    fix x assume "x \<in> set (rev (map (\<lambda>child. (nkey n, child)) ?C) @ W)"
    then show "case x of (p, n) \<Rightarrow> stored M (dag other) n \<and> p = parent_of M other n"
      using fr_W [OF fr] par C by auto
  next
    fix x assume "stored M (dag other) x" "node_children x = []"
    then show "x \<in> insert n V \<union> (set ?C \<union> snd ` set W)" using fr_root [OF fr] in' by blast
  next
    fix x q assume x: "stored M (dag other) x" "node_children x = [mr_hash M q]" "q \<in> insert n V"
    then show "x \<in> insert n V \<union> (set ?C \<union> snd ` set W)"
      using fr_child [OF fr x(1,2)] in' C by blast
  next
    fix x q assume x: "x \<in> insert n V \<union> (set ?C \<union> snd ` set W)" "node_children x = [mr_hash M q]"
    then show "q \<in> insert n V" using fr_parent [OF fr _ x(2)] C by auto
  next
    show "has_key D' (genesis_key other)" using fr_genesis [OF fr] mono by blast
    fix x assume "x \<in> insert n V"
    then show "has_key D' (nkey x)" using fr_keys [OF fr] mono key by auto
  qed
qed

lemma merge_loop_union:
  assumes wfo: "dag_wf M ok other" and sgo: "dag_signed M B other"
    and "dag_wf M ok D" and "dag_signed M B D" and "agrees M D other" and "frontier D other V W"
    and "card ({n. stored M (dag other) n} - V) < fuel"
  shows "\<exists>D'. merge_loop M B other fuel D W = (D', Ok ()) \<and> dag_wf M ok D' \<and> dag_signed M B D' \<and>
           genesis_key D' = genesis_key D \<and>
           (\<forall>k. has_key D' k \<longleftrightarrow> has_key D k \<or> (\<exists>n. stored M (dag other) n \<and> n \<notin> V \<and> nkey n = k))"
  using assms(3-7)
proof (induction fuel arbitrary: D V W)
  case 0
  then show ?case by simp
next
  case (Suc f)
  show ?case
  proof (cases W)
    case Nil
    with frontier_all [OF wfo] Suc.prems(4) have "V = {n. stored M (dag other) n}" by blast
    with Nil Suc.prems show ?thesis by auto
  next
    case (Cons w W')
    obtain p n where w: "w = (p, n)" by (cases w)
    have n: "stored M (dag other) n" "n \<notin> V" and p: "p = parent_of M other n"
      using fr_W [OF Suc.prems(4)] fr_disj [OF Suc.prems(4)] unfolding Cons w by auto
    have "has_key D p"
    proof -
      obtain ps where ps: "up_path M (dag other) n ps" using wf_path [OF wfo n(1)] by blast
      from wf_ok [OF wfo] ps show ?thesis
      proof (cases rule: up_path_cases_parent)
        case root
        then show ?thesis using fr_genesis [OF Suc.prems(4)] by (simp add: p parent_of_def)
      next
        case (step q qs)
        then have "q \<in> V" using fr_parent [OF Suc.prems(4), of n q] unfolding Cons w by simp
        then show ?thesis using fr_keys [OF Suc.prems(4)] step(3) by (simp add: p parent_of_def)
      qed
    qed
    then obtain D1 where ins: "insert_trusted_key M D p (nkey n) (nsig n) = Ok D1"
      using insert_trusted_error by (metis result.exhaust)
    have v: "verify_sig B p (nkey n) (nsig n)" using sgo n(1) p by (simp add: dag_signed_def)
    have insb: "insertable M D p (nkey n) (nsig n)"
      using agrees_insertable [OF Suc.prems(1,3) n(1)] p by simp
    note hk = insert_has_key [OF Suc.prems(1) ins]
    let ?W = "rev (map (\<lambda>child. (nkey n, child)) (child_nodes M other (mr_hash M n))) @ W'"
    have loop: "merge_loop M B other (Suc f) D W = merge_loop M B other f D1 ?W"
      by (simp add: Cons w insert_node_def verify_and_insert_def v ins Let_def)
    have fin: "finite {n. stored M (dag other) n}"
      using merkle_all_nodes [OF laws wf_ok [OF wfo]] by (metis List.finite_set)
    have "card ({n. stored M (dag other) n} - insert n V) < card ({n. stored M (dag other) n} - V)"
      using n fin by (intro psubset_card_mono) auto
    then have card: "card ({n. stored M (dag other) n} - insert n V) < f" using Suc.prems(5) by simp
    have "frontier D1 other (insert n V) ?W"
      using frontier_step [OF wfo, of D V p n W' D1] Suc.prems(4) hk unfolding Cons w by blast
    from Suc.IH [OF insert_wf [OF Suc.prems(1) insb ins]
        insert_signed [OF Suc.prems(1,2) v ins]
        agrees_insert [OF Suc.prems(1) wfo Suc.prems(3) n(1) ins [unfolded p]] this card]
    obtain D' where "merge_loop M B other f D1 ?W = (D', Ok ())" "dag_wf M ok D'" "dag_signed M B D'"
      and g: "genesis_key D' = genesis_key D1"
      and keys: "\<forall>k. has_key D' k \<longleftrightarrow> has_key D1 k \<or>
        (\<exists>x. stored M (dag other) x \<and> x \<notin> insert n V \<and> nkey x = k)" by blast
    moreover have "has_key D' k \<longleftrightarrow> has_key D k \<or> (\<exists>x. stored M (dag other) x \<and> x \<notin> V \<and> nkey x = k)" for k
      unfolding keys [rule_format] hk using n by auto
    ultimately show ?thesis using loop insert_trusted_fields(2) [OF ins] by auto
  qed
qed

lemma get_nodes_stored:
  assumes "dag_wf M ok D" and "\<forall>k \<in> set ks. \<exists>n. stored M (dag D) n \<and> nkey n = k"
  shows "\<exists>ns. get_nodes M D ks = Ok ns \<and> map nkey ns = ks \<and> (\<forall>n \<in> set ns. stored M (dag D) n)"
  using assms(2)
proof (induction ks)
  case (Cons k ks)
  then obtain ns n where "get_nodes M D ks = Ok ns" "map nkey ns = ks" "\<forall>n \<in> set ns. stored M (dag D) n"
    and "stored M (dag D) n" "nkey n = k" by auto
  then show ?case using get_node_stored [OF assms(1)] by auto
qed simp

lemma merge_union:
  assumes wf: "dag_wf M ok D" and sg: "dag_signed M B D"
    and wfo: "dag_wf M ok other" and sgo: "dag_signed M B other"
    and ag: "agrees M D other" and g: "has_key D (genesis_key other)"
  shows "\<exists>D'. merge M B D other = (D', Ok ()) \<and> dag_wf M ok D' \<and> dag_signed M B D' \<and>
           genesis_key D' = genesis_key D \<and> (\<forall>k. has_key D' k \<longleftrightarrow> has_key D k \<or> has_key other k)"
proof -
  obtain roots where roots: "get_nodes M other (dag_root other) = Ok roots"
    "map nkey roots = dag_root other" "\<forall>n \<in> set roots. stored M (dag other) n"
    using get_nodes_stored [OF wfo, of "dag_root other"] wf_root_set [OF wfo] by auto
  have root: "n \<in> set roots \<longleftrightarrow> stored M (dag other) n \<and> node_children n = []" for n
  proof
    assume n: "n \<in> set roots"
    then have "nkey n \<in> set (dag_root other)" using roots(2) by (metis image_eqI list.set_map)
    with n roots(3) wf_root_set [OF wfo] wf_key_inj [OF wfo] show "stored M (dag other) n \<and> node_children n = []"
      by auto
  next
    assume n: "stored M (dag other) n \<and> node_children n = []"
    then have "nkey n \<in> nkey ` set roots" using wf_root_set [OF wfo] roots(2) by (metis (mono_tags, lifting) CollectI list.set_map)
    with n roots(3) wf_key_inj [OF wfo] show "n \<in> set roots" by auto
  qed
  have dist: "distinct roots" using bs_wf_distinct [OF wf_roots [OF wfo]] roots(2) by (metis distinct_map)
  let ?W = "rev (map (\<lambda>n. (genesis_key other, n)) roots)"
  have par: "parent_of M other n = genesis_key other" if "n \<in> set roots" for n
    using that root parent_of_root [OF wf_ok [OF wfo]] by blast
  have W: "map snd ?W = rev roots" "snd ` set ?W = set roots" by (auto simp: rev_map comp_def) force
  have "frontier D other {} ?W"
    unfolding frontier_def W using dist root par g by (auto simp: rev_map)
  moreover have "card ({n. stored M (dag other) n} - {}) < node_fuel M other + 1"
    using merkle_all_nodes [OF laws wf_ok [OF wfo]] merkle_all_distinct [OF laws wf_ok [OF wfo]]
    by (simp add: node_fuel_def distinct_card [symmetric])
  ultimately obtain D' where D': "merge_loop M B other (node_fuel M other + 1) D ?W = (D', Ok ())"
    "dag_wf M ok D'" "dag_signed M B D'" "genesis_key D' = genesis_key D"
    and keys: "\<forall>k. has_key D' k \<longleftrightarrow> has_key D k \<or> (\<exists>n. stored M (dag other) n \<and> n \<notin> {} \<and> nkey n = k)"
    using merge_loop_union [OF wfo sgo wf sg ag] by blast
  have "merge M B D other = (D', Ok ())"
    using self_verify_decides [OF wfo] sgo g roots(1) D'(1) by (simp add: merge_def Let_def)
  moreover have "has_key D' k \<longleftrightarrow> has_key D k \<or> has_key other k" for k
    unfolding keys [rule_format] has_key_iff [OF wfo] using g by auto
  ultimately show ?thesis using D' by blast
qed

lemma merge_swap:
  assumes "self_verify M B D = Some True" and "self_verify M B other = Some True"
    and "\<not> has_key D (genesis_key other)" and "has_key other (genesis_key D)"
  shows "merge M B D other = merge M B other D"
  using assms by (simp add: merge_def)

lemma merge_untrusted:
  assumes "dag_wf M ok other" and "\<not> dag_signed M B other"
  shows "merge M B D other = (D, Err UntrustedProofChain)"
  using self_verify_decides [OF assms(1)] assms(2) by (simp add: merge_def)

lemma merge_disjoint:
  assumes "dag_wf M ok other" and "dag_signed M B other"
    and "\<not> has_key D (genesis_key other)" and "\<not> has_key other (genesis_key D)"
  shows "merge M B D other = (D, Err (KeyNotFound (genesis_key D)))"
  using self_verify_decides [OF assms(1)] assms(2-4) by (simp add: merge_def)

lemma merge_spec:
  assumes wf: "dag_wf M ok D" and sg: "dag_signed M B D" and wfo: "dag_wf M ok other"
  shows "if \<not> dag_signed M B other then merge M B D other = (D, Err UntrustedProofChain)
         else if \<not> has_key D (genesis_key other) \<and> \<not> has_key other (genesis_key D) then
           merge M B D other = (D, Err (KeyNotFound (genesis_key D)))
         else let (upper, lower) = (if has_key D (genesis_key other) then (D, other) else (other, D)) in
           agrees M upper lower \<longrightarrow>
           (\<exists>D'. merge M B D other = (D', Ok ()) \<and> dag_wf M ok D' \<and> dag_signed M B D' \<and>
              genesis_key D' = genesis_key upper \<and>
              (\<forall>k. has_key D' k \<longleftrightarrow> has_key D k \<or> has_key other k))"
proof -
  have union: "\<exists>D'. merge M B D other = (D', Ok ()) \<and> dag_wf M ok D' \<and> dag_signed M B D' \<and>
      genesis_key D' = genesis_key D \<and> (\<forall>k. has_key D' k \<longleftrightarrow> has_key D k \<or> has_key other k)"
    if "dag_signed M B other" "has_key D (genesis_key other)" "agrees M D other"
    using merge_union [OF wf sg wfo] that by blast
  have union': "\<exists>D'. merge M B D other = (D', Ok ()) \<and> dag_wf M ok D' \<and> dag_signed M B D' \<and>
      genesis_key D' = genesis_key other \<and> (\<forall>k. has_key D' k \<longleftrightarrow> has_key D k \<or> has_key other k)"
    if so: "dag_signed M B other" and h: "\<not> has_key D (genesis_key other)" "has_key other (genesis_key D)"
      and ag: "agrees M other D"
  proof -
    have "merge M B D other = merge M B other D"
      using merge_swap [OF _ _ h] self_verify_decides wf wfo sg so by metis
    then show ?thesis using merge_union [OF wfo so wf sg ag h(2)] by auto
  qed
  show ?thesis
    using union union' merge_untrusted [OF wfo] merge_disjoint [OF wfo] by (simp add: Let_def)
qed

lemma last_key_has:
  assumes wf: "dag_wf M ok D" and l: "last_key M D = Ok k"
  shows "has_key D k"
proof (cases "non_genesis_leaf_sections M D")
  case Nil
  then show ?thesis using l by (simp add: last_key_def leaf_keys_def Let_def has_key_def)
next
  case (Cons x xs)
  have "leaf_keys M D = [k]" using l by (auto simp: last_key_def split: list.splits)
  then have "bs_from_iter (map si_key (non_genesis_leaf_sections M D)) = [k]"
    using Cons by (simp add: leaf_keys_def Let_def)
  then have "k \<in> set (map si_key (non_genesis_leaf_sections M D))"
    by (metis list.set_intros(1) set_bs_from_iter)
  then obtain n where "n \<in> set (mr_read M (dag D))" "nkey n = k"
    by (auto simp: non_genesis_leaf_sections_def)
  then show ?thesis using merkle_read [OF laws wf_ok [OF wf]] has_key_iff [OF wf] by auto
qed

text \<open>Consecutive keys of a path are signed by the next one.\<close>

lemma signed_path:
  assumes wf: "dag_wf M ok D" and sg: "dag_signed M B D" and path: "up_path M (dag D) n ps"
  shows "successively (\<lambda>k p. \<exists>s. verify_sig B p k s) (map nkey ps @ [genesis_key D])"
  using path
proof (induction rule: up_path.induct)
  case (root n)
  then have "verify_sig B (genesis_key D) (nkey n) (nsig n)"
    using sg parent_of_root [OF wf_ok [OF wf]] by (metis dag_signed_def)
  then show ?case by auto
next
  case (step n p ps)
  have "parent_of M D n = nkey p"
    using step up_path_stored [OF step.hyps(3)] up_path_hd [OF step.hyps(3)]
      parent_of_step [OF wf_ok [OF wf]] by auto
  with sg step(1) have "\<exists>s. verify_sig B (nkey p) (nkey n) s" by (metis dag_signed_def)
  with step.IH up_path_hd [OF step.hyps(3)] show ?case by auto
qed

lemma distinct_path:
  assumes wf: "dag_wf M ok D" and path: "up_path M (dag D) n ps"
  shows "distinct (map nkey ps @ [genesis_key D])"
proof -
  have "genesis_key D \<notin> nkey ` set ps"
    using up_path_stored [OF path] wf_not_genesis [OF wf] by (metis imageE)
  moreover have "inj_on nkey (set ps)"
    using up_path_stored [OF path] wf_key_inj [OF wf] by (meson inj_onI)
  ultimately show ?thesis using up_path_distinct [OF path] by (simp add: distinct_map)
qed

lemma get_ancestors_signed:
  assumes wf: "dag_wf M ok D" and sg: "dag_signed M B D" and k: "has_key D k"
  shows "\<exists>as. get_ancestors M D k = Ok as \<and> distinct (k # as) \<and> last (k # as) = genesis_key D \<and>
           set as \<subseteq> {a. has_key D a} \<and> successively (\<lambda>x p. \<exists>s. verify_sig B p x s) (k # as)"
proof (cases "k = genesis_key D")
  case True
  then show ?thesis by (simp add: get_ancestors_genesis)
next
  case False
  with k obtain n where n: "stored M (dag D) n" "nkey n = k" using has_key_iff [OF wf] by blast
  obtain ps where ps: "up_path M (dag D) n ps" using wf_path [OF wf n(1)] by blast
  then obtain qs where qs: "ps = n # qs" using up_path_hd by blast
  have "k # path_ancestors D ps = map nkey ps @ [genesis_key D]"
    by (simp add: path_ancestors_def qs n(2))
  moreover have "set (path_ancestors D ps) \<subseteq> {a. has_key D a}"
    using up_path_stored [OF ps] has_key_iff [OF wf] by (auto simp: path_ancestors_def qs)
  ultimately show ?thesis
    using get_ancestors_path [OF wf ps] signed_path [OF wf sg ps] distinct_path [OF wf ps] n(2)
    by (metis last_snoc)
qed

end

end
