(* ===== verification/Dag_Properties.thy ===== *)
theory Dag_Properties
  imports Dag_Merge
begin

section \<open>Properties of the section key DAG\<close>

text \<open>
  The properties of \<open>SectionsDAG\<close>, for every Merkle register that behaves as documented, and their
  instances on a small DAG over the reference register.
\<close>

subsection \<open>A register to evaluate on\<close>

definition dag_hash :: "dag_node \<Rightarrow> hash" where
  "dag_hash n = prod_encode (list_encode (node_children n), prod_encode (nkey n, nsig n))"

lemma dag_hash_inj: "dag_hash n = dag_hash n' \<Longrightarrow> n = n'"
  by (cases n; cases n'; cases "node_value n"; cases "node_value n'") (simp add: dag_hash_def list_encode_eq)

lemma dag_hash_eq [simp]: "dag_hash n = dag_hash n' \<longleftrightarrow> n = n'"
  using dag_hash_inj by blast

definition sample_register :: "dag_node list dag_api" where
  "sample_register = ref_merkle dag_hash"

interpretation sample: dag_context sample_register distinct ref_bls
  by unfold_locales (simp add: sample_register_def ref_merkle_ok [OF dag_hash_inj])

lemma sample_laws: "merkle_ok sample_register distinct"
  by (rule sample.laws)

lemmas sample_simps = sample_register_def ref_merkle_def verify_sig_def ref_bls_def ref_sign_def
  ref_msg_def insert_trusted_key_def new_dag_def Let_def

lemmas sample_walk = sample_register_def ref_merkle_def get_parent_key_def get_hash_def parent_node_def
  Let_def

text \<open>The genesis key 1, its child 2, and the child 3 of 2.\<close>

definition sample_dag1 :: "dag_node list sections_dag" where
  "sample_dag1 = \<lparr> genesis_key = 1, dag = [Node [] \<lparr> si_key = 2, si_sig = 1258 \<rparr>],
     dag_root = [2], hashes = [(2, dag_hash (Node [] \<lparr> si_key = 2, si_sig = 1258 \<rparr>))] \<rparr>"

definition sample_dag2 :: "dag_node list sections_dag" where
  "sample_dag2 =
     (let h = dag_hash (Node [] \<lparr> si_key = 2, si_sig = 1258 \<rparr>);
          n = Node [h] \<lparr> si_key = 3, si_sig = 2259 \<rparr> in
      \<lparr> genesis_key = 1, dag = [Node [] \<lparr> si_key = 2, si_sig = 1258 \<rparr>, n],
        dag_root = [2], hashes = [(2, h), (3, dag_hash n)] \<rparr>)"

lemma sample_insert1:
  "insert_trusted_key sample_register (new_dag sample_register 1) 1 2 1258 = Ok sample_dag1"
  by (simp add: sample_simps sample_dag1_def)

lemma sample_insert2:
  "insert_trusted_key sample_register sample_dag1 2 3 2259 = Ok sample_dag2"
  by (simp add: sample_simps sample_dag1_def sample_dag2_def)

lemma sample_sig1: "verify_sig ref_bls 1 2 1258" and sample_sig2: "verify_sig ref_bls 2 3 2259"
  by (simp_all add: sample_simps)

lemma sample_wf1: "dag_wf sample_register distinct sample_dag1"
  by (rule sample.insert_wf [OF sample.new_dag_wf _ sample_insert1])
    (simp add: insertable_def new_dag_def)

lemma sample_signed1: "dag_signed sample_register ref_bls sample_dag1"
  by (rule sample.insert_signed [OF sample.new_dag_wf sample.new_dag_signed sample_sig1 sample_insert1])

lemma sample_wf2: "dag_wf sample_register distinct sample_dag2"
  by (rule sample.insert_wf [OF sample_wf1 _ sample_insert2])
    (simp add: insertable_def sample_dag1_def)

lemma sample_signed2: "dag_signed sample_register ref_bls sample_dag2"
  by (rule sample.insert_signed [OF sample_wf1 sample_signed1 sample_sig2 sample_insert2])

lemma sample_keys1: "has_key sample_dag1 k \<longleftrightarrow> k \<in> {1, 2}"
  by (auto simp: has_key_def sample_dag1_def bm_has_def)

lemma sample_keys2: "has_key sample_dag2 k \<longleftrightarrow> k \<in> {1, 2, 3}"
  by (auto simp: has_key_def sample_dag2_def bm_has_def Let_def)

lemma sample_genesis: "genesis_key sample_dag1 = 1" "genesis_key sample_dag2 = 1"
  by (simp_all add: sample_dag1_def sample_dag2_def Let_def)

subsection \<open>Insertion\<close>

text \<open>
  C1. \<open>verify_and_insert\<close> refuses a key that its parent has not signed, and a key whose parent is not
  in the DAG; any other key, unless it is the genesis key or is there with another parent or
  signature, is added, and the DAG that results is again well formed, signed throughout, and has
  exactly one key more at most.
\<close>

theorem verify_and_insert_correct:
  assumes laws: "merkle_ok M ok" and wf: "dag_wf M ok D" and sg: "dag_signed M B D"
  shows "if \<not> verify_sig B parent key sig then
           verify_and_insert M B D parent key sig = Err InvalidSignature
         else if \<not> has_key D parent then
           verify_and_insert M B D parent key sig = Err (KeyNotFound parent)
         else insertable M D parent key sig \<longrightarrow>
           (\<exists>D'. verify_and_insert M B D parent key sig = Ok D' \<and> dag_wf M ok D' \<and> dag_signed M B D' \<and>
              genesis_key D' = genesis_key D \<and> (\<forall>k. has_key D' k \<longleftrightarrow> k = key \<or> has_key D k))"
proof -
  note dc = dag_context.intro [OF laws]
  note err = dag_context.insert_trusted_error [OF dc]
  show ?thesis
  proof (cases "insert_trusted_key M D parent key sig")
    case (Err e)
    then show ?thesis using err by (auto simp: verify_and_insert_def)
  next
    case (Ok D')
    with err have "has_key D parent" by (metis result.distinct(1))
    with Ok show ?thesis
      using dag_context.insert_wf [OF dc wf _ Ok] dag_context.insert_signed [OF dc wf sg _ Ok]
        dag_context.insert_trusted_fields(2) [OF dc Ok] dag_context.insert_has_key [OF dc wf Ok]
      by (auto simp: verify_and_insert_def)
  qed
qed

theorem verify_and_insert_correct_witness:
  "\<exists>D'. verify_and_insert sample_register ref_bls sample_dag1 2 3 2259 = Ok D' \<and>
     dag_wf sample_register distinct D' \<and> has_key D' 3"
proof -
  have "insertable sample_register sample_dag1 2 3 2259" by (simp add: insertable_def sample_dag1_def)
  with verify_and_insert_correct [OF sample_laws sample_wf1 sample_signed1, of 2 3 2259]
  show ?thesis by (auto simp: sample_sig2 sample_keys1)
qed

subsection \<open>Ancestors\<close>



subsection \<open>Verification\<close>

text \<open>
  C18. \<open>self_verify\<close> ends, and answers whether every key of the DAG is signed by its parent, although
  it shares the verified keys between the branches it walks.
\<close>

theorem self_verify_correct:
  assumes laws: "merkle_ok M ok" and wf: "dag_wf M ok D"
  shows "self_verify M B D = Some (dag_signed M B D)"
  by (rule dag_context.self_verify_decides [OF dag_context.intro [OF laws] wf])

theorem self_verify_correct_witness:
  "self_verify sample_register ref_bls sample_dag2 = Some True"
  using self_verify_correct [OF sample_laws sample_wf2, of ref_bls] sample_signed2 by simp

subsection \<open>Proof chains\<close>

text \<open>
  C25. \<open>partial_dag from to\<close> is the branch between two keys: it exists exactly when \<open>from\<close> is \<open>to\<close> or
  one of its ancestors, has \<open>from\<close> as its genesis key and \<open>to\<close> as its last key, holds exactly the
  keys between them in their order, and is signed throughout when the DAG is.
\<close>

theorem partial_dag_correct:
  assumes laws: "merkle_ok M ok" and wf: "dag_wf M ok D" and anc: "get_ancestors M D to = Ok as"
  shows "if from \<in> set (to # as) then
           \<exists>P as'. partial_dag M D from to = Ok P \<and> dag_wf M ok P \<and> genesis_key P = from \<and>
             last_key M P = Ok to \<and> get_ancestors M P to = Ok as' \<and>
             to # as' = takeWhile (\<lambda>k. k \<noteq> from) (to # as) @ [from] \<and>
             (\<forall>k. has_key P k \<longleftrightarrow> k \<in> set (to # as')) \<and> (dag_signed M B D \<longrightarrow> dag_signed M B P)
         else partial_dag M D from to = Err InvalidBranch"
  using dag_context.partial_dag_is_branch [OF dag_context.intro [OF laws] wf anc]
    dag_context.partial_dag_not_branch [OF dag_context.intro [OF laws] wf anc] by simp

theorem partial_dag_correct_witness:
  "\<exists>P. partial_dag sample_register sample_dag2 2 3 = Ok P \<and> genesis_key P = 2 \<and>
     last_key sample_register P = Ok 3 \<and> dag_signed sample_register ref_bls P"
proof -
  have "get_ancestors sample_register sample_dag2 3 = Ok [2, 1]"
    by (simp add: sample_dag2_def get_ancestors_def key_fuel_def sample_walk eval_nat_numeral)
  from partial_dag_correct [OF sample_laws sample_wf2 this, of 2 ref_bls]
  show ?thesis using sample_signed2 by auto
qed

subsection \<open>Merging\<close>

text \<open>
  C4. \<open>merge\<close> of two verified DAGs that do not contradict each other, one of which has the genesis
  key of the other, succeeds: the result has the keys of both and no other, its genesis key is
  that of the DAG that has the other's, and it is well formed and signed throughout. A DAG with
  an unsigned key, or with no key in common, is refused and nothing changes.
\<close>

theorem merge_correct:
  assumes laws: "merkle_ok M ok" and wf: "dag_wf M ok D" and sg: "dag_signed M B D"
    and wfo: "dag_wf M ok other"
  shows "if \<not> dag_signed M B other then merge M B D other = (D, Err UntrustedProofChain)
         else if \<not> has_key D (genesis_key other) \<and> \<not> has_key other (genesis_key D) then
           merge M B D other = (D, Err (KeyNotFound (genesis_key D)))
         else let (upper, lower) = (if has_key D (genesis_key other) then (D, other) else (other, D)) in
           agrees M upper lower \<longrightarrow>
           (\<exists>D'. merge M B D other = (D', Ok ()) \<and> dag_wf M ok D' \<and> dag_signed M B D' \<and>
              genesis_key D' = genesis_key upper \<and>
              (\<forall>k. has_key D' k \<longleftrightarrow> has_key D k \<or> has_key other k))"
  by (rule dag_context.merge_spec [OF dag_context.intro [OF laws] wf sg wfo])

theorem merge_correct_witness:
  "\<exists>D'. merge sample_register ref_bls sample_dag1 sample_dag2 = (D', Ok ()) \<and> has_key D' 3"
proof -
  have "agrees sample_register sample_dag1 sample_dag2"
    by (auto simp: agrees_def stored_def sample_dag1_def sample_dag2_def Let_def parent_of_def
        parent_node_def sample_simps)
  with merge_correct [OF sample_laws sample_wf1 sample_signed1 sample_wf2] sample_signed2
  show ?thesis unfolding sample_keys1 sample_keys2 sample_genesis by auto
qed

subsection \<open>A cycle through a re-inserted key\<close>

definition looping_dag :: "(dag_node list sections_dag, nk_error) result" where
  "looping_dag =
     and_then (verify_and_insert sample_register ref_bls (new_dag sample_register 1) 1 2 1258)
       (\<lambda>D. and_then (verify_and_insert sample_register ref_bls D 2 3 2259)
          (\<lambda>D'. verify_and_insert sample_register ref_bls D' 3 2 3258))"

lemma looping_parents:
  "case looping_dag of
     Ok D \<Rightarrow> get_parent_key sample_register D 2 = Ok (Some 3) \<and>
             get_parent_key sample_register D 3 = Ok (Some 2)
   | Err _ \<Rightarrow> False"
  by (simp add: looping_dag_def verify_and_insert_def sample_simps sample_walk)

text \<open>
  Verified insertions alone do not keep the DAG well formed: when a key is inserted again below
  its own descendant, which has signed it, its hash is replaced, and \<open>get_ancestors\<close> walks round the
  cycle for ever, whatever the fuel.
\<close>

theorem get_ancestors_cycle:
  "\<exists>D. looping_dag = Ok D \<and>
     (\<forall>fuel. get_ancestors_loop sample_register D fuel 2 [] = Err Diverges)"
proof -
  obtain D where D: "looping_dag = Ok D" "get_parent_key sample_register D 2 = Ok (Some 3)"
    "get_parent_key sample_register D 3 = Ok (Some 2)"
    using looping_parents by (auto split: result.splits)
  have "get_ancestors_loop sample_register D fuel 2 acc = Err Diverges \<and>
        get_ancestors_loop sample_register D fuel 3 acc = Err Diverges" for fuel acc
    by (induction fuel arbitrary: acc) (simp_all add: D(2,3))
  with D(1) show ?thesis by blast
qed

end
