(* ===== verification/Dag_Serial.thy ===== *)
theory Dag_Serial
  imports Dag_Properties
begin

section \<open>Serialising a DAG\<close>

text \<open>
  The round trip of the hand-written \<open>Serialize\<close> and \<open>Deserialize\<close> of \<open>SectionsDAG\<close>: the branches are
  written from each leaf up to the first node already written, top first, so that reading them
  back finds every parent, verifies every signature, and gives the same nodes.
\<close>

context dag_context
begin

abbreviation branch_entry :: "'m sections_dag \<Rightarrow> dag_node \<Rightarrow> public_key \<times> section_info" where
  "branch_entry D x \<equiv> (parent_of M D x, node_value x)"

lemma ancestors_loop_path:
  assumes wf: "dag_wf M ok D" and path: "up_path M (dag D) n ps" and fuel: "length ps \<le> fuel"
  shows "ancestors_loop M D visited fuel n acc
           = Some (acc @ map (branch_entry D) (takeWhile (\<lambda>x. nkey x \<notin> set visited) ps))"
  using path fuel
proof (induction ps arbitrary: n fuel acc rule: list.induct)
  case Nil
  then show ?case using up_path_hd by blast
next
  case (Cons a qs)
  obtain f where f: "fuel = Suc f" "length qs \<le> f" using Cons.prems(2) by (cases fuel) auto
  have a: "a = n" using up_path_hd [OF Cons.prems(1)] by simp
  from wf_ok [OF wf] Cons.prems(1) show ?case
  proof (cases rule: up_path_cases_parent)
    case root
    then show ?thesis by (simp add: f a parent_of_def)
  next
    case (step p qs')
    then have "up_path M (dag D) p qs" by simp
    from Cons.IH [OF this f(2)] step show ?thesis by (auto simp: f a parent_of_def)
  qed
qed

text \<open>A sequence in which every node comes after its parent.\<close>

fun top_down :: "'m sections_dag \<Rightarrow> public_key set \<Rightarrow> dag_node list \<Rightarrow> bool" where
  "top_down D V [] = True"
| "top_down D V (x # xs) =
     (stored M (dag D) x \<and> (parent_of M D x = genesis_key D \<or> parent_of M D x \<in> V) \<and>
      top_down D (insert (nkey x) V) xs)"

lemma top_down_append:
  "top_down D V (xs @ ys) \<longleftrightarrow> top_down D V xs \<and> top_down D (V \<union> nkey ` set xs) ys"
  by (induction xs arbitrary: V) auto

lemma top_down_path:
  assumes wf: "dag_wf M ok D" and path: "up_path M (dag D) n ps"
  shows "top_down D V (rev (takeWhile (\<lambda>x. nkey x \<notin> V) ps))"
  using path
proof (induction rule: up_path.induct)
  case (root n)
  then show ?case using parent_of_root [OF wf_ok [OF wf]] by simp
next
  case (step n p ps)
  obtain qs where ps: "ps = p # qs" using up_path_hd [OF step.hyps(3)] by blast
  then have "parent_of M D n = nkey p"
    using step up_path_stored [OF step.hyps(3)] parent_of_step [OF wf_ok [OF wf]] by simp
  with step show ?case by (auto simp: top_down_append ps)
qed

text \<open>\<open>D'\<close> holds the nodes of \<open>D\<close> with keys in \<open>V\<close>.\<close>

definition part_of :: "'m sections_dag \<Rightarrow> 'm sections_dag \<Rightarrow> public_key set \<Rightarrow> bool" where
  "part_of D D' V \<longleftrightarrow> dag_wf M ok D' \<and> genesis_key D' = genesis_key D \<and>
     (\<forall>x. stored M (dag D') x \<longleftrightarrow> stored M (dag D) x \<and> nkey x \<in> V)"

lemma part_new: "part_of D (new_dag M (genesis_key D)) {}"
  using new_dag_wf by (simp add: part_of_def new_dag_def stored_def merkle_node_new [OF laws])

lemma part_parent_hashes:
  assumes wf: "dag_wf M ok D" and part: "part_of D D' V" and x: "stored M (dag D) x"
    and p: "parent_of M D x = genesis_key D \<or> parent_of M D x \<in> V"
  shows "has_key D' (parent_of M D x)"
    and "parent_hashes D' (parent_of M D x) = parent_hashes D (parent_of M D x)"
proof -
  have wf': "dag_wf M ok D'" and g: "genesis_key D' = genesis_key D" using part by (auto simp: part_of_def)
  have "has_key D' (parent_of M D x) \<and> parent_hashes D' (parent_of M D x) = parent_hashes D (parent_of M D x)"
  proof (cases "parent_of M D x = genesis_key D")
    case True
    then show ?thesis by (simp add: has_key_def parent_hashes_def g)
  next
    case False
    obtain ps where "up_path M (dag D) x ps" using wf_path [OF wf x] by blast
    with wf_ok [OF wf] show ?thesis
    proof (cases rule: up_path_cases_parent)
      case root
      then show ?thesis using False by (simp add: parent_of_def)
    next
      case (step q qs)
      have q: "stored M (dag D) q" using up_path_stored [OF step(4)] up_path_hd [OF step(4)] by auto
      have key: "parent_of M D x = nkey q" using step by (simp add: parent_of_def)
      then have q': "stored M (dag D') q" using part p False q by (simp add: part_of_def)
      show ?thesis
        unfolding key using wf_hash [OF wf q] wf_hash [OF wf' q'] has_key_iff [OF wf'] q'
        by (auto simp: parent_hashes_def g)
    qed
  qed
  then show "has_key D' (parent_of M D x)"
    and "parent_hashes D' (parent_of M D x) = parent_hashes D (parent_of M D x)" by auto
qed

lemma part_insert:
  assumes wf: "dag_wf M ok D" and sg: "dag_signed M B D" and part: "part_of D D' V"
    and x: "stored M (dag D) x" and p: "parent_of M D x = genesis_key D \<or> parent_of M D x \<in> V"
  shows "\<exists>D''. verify_and_insert M B D' (parent_of M D x) (nkey x) (nsig x) = Ok D'' \<and>
           part_of D D'' (insert (nkey x) V)"
proof -
  have wf': "dag_wf M ok D'" and g: "genesis_key D' = genesis_key D" using part by (auto simp: part_of_def)
  note ph = part_parent_hashes [OF wf part x p]
  have node: "Node (parent_hashes D' (parent_of M D x)) \<lparr> si_key = nkey x, si_sig = nsig x \<rparr> = x"
    using node_from_parent [OF wf x] ph(2) by simp
  obtain D'' where ins: "insert_trusted_key M D' (parent_of M D x) (nkey x) (nsig x) = Ok D''"
    using insert_trusted_error ph(1) by (metis result.exhaust)
  have "insertable M D' (parent_of M D x) (nkey x) (nsig x)"
    unfolding insertable_def node
  proof (intro conjI allI impI)
    show "nkey x \<noteq> genesis_key D'" using wf_not_genesis [OF wf x] g by simp
    fix h assume "bm_get (hashes D') (nkey x) = Some h"
    then obtain y where "stored M (dag D') y" "nkey y = nkey x" "h = mr_hash M y" using wf_key_node [OF wf'] by blast
    with part x wf_key_inj [OF wf] show "h = mr_hash M x" by (auto simp: part_of_def)
  qed
  then have "dag_wf M ok D''" by (rule insert_wf [OF wf' _ ins])
  moreover have "stored M (dag D'') y \<longleftrightarrow> stored M (dag D) y \<and> nkey y \<in> insert (nkey x) V" for y
    using insert_stored [OF wf' ins] part x wf_key_inj [OF wf _ x] unfolding node part_of_def by auto
  moreover have "verify_and_insert M B D' (parent_of M D x) (nkey x) (nsig x) = Ok D''"
    using sg x ins by (simp add: verify_and_insert_def dag_signed_def)
  ultimately show ?thesis using insert_trusted_fields(2) [OF ins] g by (auto simp: part_of_def)
qed

lemma part_insert_all:
  assumes wf: "dag_wf M ok D" and sg: "dag_signed M B D"
  shows "part_of D D' V \<Longrightarrow> top_down D V xs
    \<Longrightarrow> \<exists>D''. insert_sections M B D' (map (branch_entry D) xs) = Ok D'' \<and> part_of D D'' (V \<union> nkey ` set xs)"
proof (induction xs arbitrary: D' V)
  case (Cons x xs)
  obtain D1 where D1: "verify_and_insert M B D' (parent_of M D x) (nkey x) (nsig x) = Ok D1"
    "part_of D D1 (insert (nkey x) V)"
    using part_insert [OF wf sg Cons.prems(1)] Cons.prems(2) by auto
  from Cons.IH [OF D1(2)] Cons.prems(2) D1(1) show ?case by auto
qed simp

subsection \<open>All leaves\<close>

definition closed_up :: "'m sections_dag \<Rightarrow> public_key set \<Rightarrow> bool" where
  "closed_up D V \<longleftrightarrow> (\<forall>n ps. up_path M (dag D) n ps \<longrightarrow> nkey n \<in> V \<longrightarrow> nkey ` set ps \<subseteq> V)"

lemma closed_up_path:
  assumes cl: "closed_up D V" and path: "up_path M (dag D) n ps"
  shows "nkey ` set ps \<subseteq> V \<union> nkey ` set (takeWhile (\<lambda>x. nkey x \<notin> V) ps)"
  using path
proof (induction rule: up_path.induct)
  case (step n p ps)
  show ?case
  proof (cases "nkey n \<in> V")
    case True
    then show ?thesis using cl up_path.step [OF step.hyps] unfolding closed_up_def by blast
  qed (use step.IH in auto)
qed auto

lemma closed_up_extend:
  assumes wf: "dag_wf M ok D" and cl: "closed_up D V" and path: "up_path M (dag D) n ps"
  shows "closed_up D (V \<union> nkey ` set (takeWhile (\<lambda>x. nkey x \<notin> V) ps))" (is "closed_up D ?V")
  unfolding closed_up_def
proof (intro allI impI)
  fix m qs assume qs: "up_path M (dag D) m qs" and "nkey m \<in> ?V"
  then consider "nkey m \<in> V" | y where "y \<in> set ps" "nkey m = nkey y"
    by (auto dest: set_takeWhileD)
  then show "nkey ` set qs \<subseteq> ?V"
  proof cases
    case 1
    then show ?thesis using cl qs unfolding closed_up_def by blast
  next
    case (2 y)
    have "m = y"
      using 2 wf_key_inj [OF wf] up_path_stored [OF path] up_path_stored [OF qs] up_path_hd [OF qs] by auto
    with 2 obtain as bs where "ps = as @ m # bs" by (metis split_list)
    then have "qs = m # bs" using up_path_suffix path up_path_unique qs by blast
    then have "set qs \<subseteq> set ps" using \<open>ps = as @ m # bs\<close> by auto
    then show ?thesis using closed_up_path [OF cl path] by blast
  qed
qed

lemma serialize_leaves_top_down:
  assumes wf: "dag_wf M ok D" and "\<forall>l \<in> set leaves. stored M (dag D) l" and "closed_up D (set visited)"
  shows "\<exists>xs. serialize_leaves M D visited sections leaves = Some (sections @ map (branch_entry D) xs) \<and>
    top_down D (set visited) xs \<and> closed_up D (set visited \<union> nkey ` set xs) \<and>
    nkey ` set leaves \<subseteq> set visited \<union> nkey ` set xs"
  using assms(2,3)
proof (induction leaves arbitrary: visited sections)
  case Nil
  then show ?case by (intro exI [of _ "[]"]) simp
next
  case (Cons l leaves)
  obtain ps where ps: "up_path M (dag D) l ps" using wf_path [OF wf] Cons.prems(1) by auto
  let ?t = "takeWhile (\<lambda>x. nkey x \<notin> set visited) ps"
  let ?v = "map (si_key \<circ> snd) (map (branch_entry D) ?t) @ visited"
  have anc: "ancestors_loop M D visited (node_fuel M D) l [] = Some (map (branch_entry D) ?t)"
    using ancestors_loop_path [OF wf ps, of "node_fuel M D" visited "[]"] up_path_length [OF wf_ok [OF wf] ps]
    by (simp add: node_fuel_def)
  have v: "set ?v = set visited \<union> nkey ` set ?t" by (auto simp: image_image)
  have cl: "closed_up D (set ?v)" unfolding v by (rule closed_up_extend [OF wf Cons.prems(2) ps])
  from Cons.IH [OF _ cl, of "sections @ rev (map (branch_entry D) ?t)"] Cons.prems(1)
  obtain xs where xs: "serialize_leaves M D ?v (sections @ rev (map (branch_entry D) ?t)) leaves
      = Some ((sections @ rev (map (branch_entry D) ?t)) @ map (branch_entry D) xs)"
    "top_down D (set ?v) xs" "closed_up D (set ?v \<union> nkey ` set xs)"
    "nkey ` set leaves \<subseteq> set ?v \<union> nkey ` set xs" by auto
  have td: "top_down D (set visited) (rev ?t @ xs)"
    using top_down_path [OF wf ps] xs(2) v by (simp add: top_down_append)
  have keys: "set visited \<union> nkey ` set (rev ?t @ xs) = set ?v \<union> nkey ` set xs" unfolding v by auto
  have "nkey l \<in> set ?v"
    unfolding v using closed_up_path [OF Cons.prems(2) ps] up_path_hd [OF ps] by auto
  then have "nkey ` set (l # leaves) \<subseteq> set ?v \<union> nkey ` set xs" using xs(4) by auto
  moreover have "serialize_leaves M D visited sections (l # leaves) = Some (sections @ map (branch_entry D) (rev ?t @ xs))"
    using xs(1) by (simp add: anc rev_map)
  ultimately show ?case using td xs(3) unfolding keys [symmetric] by blast
qed

lemma serialize_round_trip:
  assumes wf: "dag_wf M ok D" and sg: "dag_signed M B D"
  shows "\<exists>im D'. serialize_dag M D = Some im \<and> deserialize_dag M B im = Ok D' \<and>
    dag_wf M ok D' \<and> genesis_key D' = genesis_key D \<and> (\<forall>x. stored M (dag D') x \<longleftrightarrow> stored M (dag D) x)"
proof -
  let ?L = "non_genesis_leaf_nodes M D"
  have leaves: "\<forall>l \<in> set ?L. stored M (dag D) l"
    using merkle_read [OF laws wf_ok [OF wf]] by (auto simp: non_genesis_leaf_nodes_def)
  have "closed_up D (set [])" by (simp add: closed_up_def)
  from serialize_leaves_top_down [OF wf leaves this, of "[]"] obtain xs where
    xs: "serialize_leaves M D [] [] ?L = Some (map (branch_entry D) xs)" "top_down D {} xs"
    "closed_up D (nkey ` set xs)" "nkey ` set ?L \<subseteq> nkey ` set xs" by auto
  from part_insert_all [OF wf sg part_new xs(2)] obtain D' where
    D': "insert_sections M B (new_dag M (genesis_key D)) (map (branch_entry D) xs) = Ok D'"
    "part_of D D' (nkey ` set xs)" by auto
  have "nkey x \<in> nkey ` set xs" if "stored M (dag D) x" for x
  proof -
    obtain l ps where "l \<in> set (mr_read M (dag D))" "up_path M (dag D) l ps" "x \<in> set ps"
      using leaf_below [OF wf \<open>stored M (dag D) x\<close>] by blast
    then show ?thesis using xs(3,4) unfolding closed_up_def non_genesis_leaf_nodes_def by blast
  qed
  with D' xs(1) show ?thesis
    by (auto simp: serialize_dag_def deserialize_dag_def part_of_def)
qed

end

text \<open>
  C31. Serialising a well formed signed DAG ends, and reading the result back succeeds and gives a
  DAG with the same genesis key and exactly the same nodes, each with its parent, key and
  signature.
\<close>

theorem dag_round_trip:
  assumes "merkle_ok M ok" and "dag_wf M ok D" and "dag_signed M B D"
  shows "\<exists>im D'. serialize_dag M D = Some im \<and> deserialize_dag M B im = Ok D' \<and>
           dag_wf M ok D' \<and> genesis_key D' = genesis_key D \<and>
           (\<forall>x. stored M (dag D') x \<longleftrightarrow> stored M (dag D) x)"
  by (rule dag_context.serialize_round_trip [OF dag_context.intro [OF assms(1)] assms(2,3)])

theorem dag_round_trip_witness:
  "\<exists>im D'. serialize_dag sample_register sample_dag2 = Some im \<and>
     deserialize_dag sample_register ref_bls im = Ok D' \<and> genesis_key D' = 1"
  using dag_round_trip [OF sample_laws sample_wf2 sample_signed2] sample_genesis by auto

lemma insert_sections_trusted:
  assumes "merkle_ok M ok"
  shows "dag_wf M ok D \<Longrightarrow> dag_signed M B D \<Longrightarrow> distinct (map (\<lambda>e. si_key (snd e)) es)
    \<Longrightarrow> \<forall>e \<in> set es. \<not> has_key D (si_key (snd e)) \<Longrightarrow> insert_sections M B D es = Ok D'
    \<Longrightarrow> dag_wf M ok D' \<and> dag_signed M B D' \<and> genesis_key D' = genesis_key D \<and>
        (\<forall>k. has_key D' k \<longleftrightarrow> has_key D k \<or> k \<in> (\<lambda>e. si_key (snd e)) ` set es)"
proof (induction es arbitrary: D)
  case (Cons e es)
  note dc = dag_context.intro [OF assms]
  obtain p info where e: "e = (p, info)" by (cases e)
  obtain D1 where D1: "verify_and_insert M B D p (si_key info) (si_sig info) = Ok D1"
    and rest: "insert_sections M B D1 es = Ok D'" using Cons.prems(5) by (auto simp: e)
  then have v: "verify_sig B p (si_key info) (si_sig info)"
    and ins: "insert_trusted_key M D p (si_key info) (si_sig info) = Ok D1"
    by (auto simp: verify_and_insert_def split: if_splits)
  have "insertable M D p (si_key info) (si_sig info)"
    using Cons.prems(4) by (auto simp: e insertable_def has_key_def bm_has_def)
  then have wf1: "dag_wf M ok D1" by (rule dag_context.insert_wf [OF dc Cons.prems(1) _ ins])
  have sg1: "dag_signed M B D1" by (rule dag_context.insert_signed [OF dc Cons.prems(1,2) v ins])
  have keys: "has_key D1 k \<longleftrightarrow> k = si_key info \<or> has_key D k" for k
    by (rule dag_context.insert_has_key [OF dc Cons.prems(1) ins])
  have new: "\<forall>e \<in> set es. \<not> has_key D1 (si_key (snd e))"
    using Cons.prems(3,4) unfolding keys by (force simp: e)
  have "distinct (map (\<lambda>e. si_key (snd e)) es)" using Cons.prems(3) by simp
  from Cons.IH [OF wf1 sg1 this new rest] dag_context.insert_trusted_fields(2) [OF dc ins]
  show ?case by (auto simp: keys e)
qed simp

text \<open>
  C37. A DAG that is read from outside is trustworthy whatever was sent: when it is accepted, every
  key in it is signed by its parent and connected to the genesis key, and its keys are those that
  were sent, provided that no key was sent twice or is the genesis key.
\<close>

theorem deserialized_dag_trusted:
  assumes laws: "merkle_ok M ok" and de: "deserialize_dag M B im = Ok D"
    and once: "distinct (im_genesis_key im # map (\<lambda>e. si_key (snd e)) (im_sections im))"
  shows "dag_wf M ok D \<and> dag_signed M B D \<and> genesis_key D = im_genesis_key im \<and>
         {k. has_key D k} = insert (im_genesis_key im) ((\<lambda>e. si_key (snd e)) ` set (im_sections im))"
proof -
  note dc = dag_context.intro [OF laws]
  have new: "has_key (new_dag M (im_genesis_key im)) k \<longleftrightarrow> k = im_genesis_key im" for k
    by (simp add: new_dag_def has_key_def bm_has_def)
  have "\<forall>e \<in> set (im_sections im). \<not> has_key (new_dag M (im_genesis_key im)) (si_key (snd e))"
    using once unfolding new by force
  from insert_sections_trusted [OF laws dag_context.new_dag_wf [OF dc] dag_context.new_dag_signed [OF dc] _ this
      de [unfolded deserialize_dag_def]] once
  show ?thesis unfolding new by (auto simp: new_dag_def)
qed

theorem deserialized_dag_trusted_witness:
  "\<exists>D. deserialize_dag sample_register ref_bls
       \<lparr> im_genesis_key = 1, im_sections = [(1, \<lparr> si_key = 2, si_sig = 1258 \<rparr>)] \<rparr> = Ok D \<and>
     dag_signed sample_register ref_bls D"
proof -
  let ?im = "\<lparr> im_genesis_key = 1, im_sections = [(1, \<lparr> si_key = 2, si_sig = 1258 \<rparr>)] \<rparr>"
  have "deserialize_dag sample_register ref_bls ?im = Ok sample_dag1"
    using sample_insert1 sample_sig1 by (simp add: deserialize_dag_def verify_and_insert_def)
  with deserialized_dag_trusted [OF sample_laws this] show ?thesis by auto
qed

end
