(* ===== verification/Xor_Space.thy ===== *)
theory Xor_Space
  imports Prelude
begin

section \<open>Names, prefixes and group sizes\<close>

text \<open>
  The name space of the network, and the arithmetic of \<open>sn_interface/src/network_knowledge/mod.rs\<close>
  over it: group sizes and supermajority, the partition of a section into its two halves, the
  capacity rule for a joining node, and the relocation rule.

  \<open>XorName\<close> and \<open>Prefix\<close> come from the external crate \<open>xor_name\<close>. A name is the array of its
  32 bytes (the public field of \<open>XorName\<close>) and a prefix is a sequence of bits. What the crate
  computes on them is a parameter, the record \<open>xor_api\<close>, and \<open>xor_api_ok\<close> collects what the crate
  documents of it.
\<close>

type_synonym xor_name = bytes
type_synonym prefix = "bool list"

definition XOR_NAME_LEN :: nat where
  "XOR_NAME_LEN = 32"

datatype ordering = Less | Equal | Greater

record xor_api =
  xn_bit :: "xor_name \<Rightarrow> nat \<Rightarrow> bool"
  px_bit_count :: "prefix \<Rightarrow> nat"
  px_matches :: "prefix \<Rightarrow> xor_name \<Rightarrow> bool"
  px_is_extension_of :: "prefix \<Rightarrow> prefix \<Rightarrow> bool"
  px_popped :: "prefix \<Rightarrow> prefix"
  px_pushed :: "prefix \<Rightarrow> bool \<Rightarrow> prefix"
  px_name :: "prefix \<Rightarrow> xor_name"
  px_common_prefix :: "prefix \<Rightarrow> xor_name \<Rightarrow> nat"
  px_cmp_distance :: "prefix \<Rightarrow> prefix \<Rightarrow> xor_name \<Rightarrow> ordering"

text \<open>
  The documented behaviour of the crate: \<open>bit_count\<close> is the number of bits, \<open>matches\<close> compares the
  leading bits of a name, \<open>is_extension_of\<close> is strict extension, \<open>popped\<close> drops the last bit,
  \<open>pushed\<close> appends one.
\<close>

definition xor_api_ok :: "xor_api \<Rightarrow> bool" where
  "xor_api_ok X \<longleftrightarrow>
     (\<forall>p. px_bit_count X p = length p) \<and>
     (\<forall>p n. px_matches X p n \<longleftrightarrow> (\<forall>i < length p. xn_bit X n i = p ! i)) \<and>
     (\<forall>p q. px_is_extension_of X p q \<longleftrightarrow> length q < length p \<and> take (length q) p = q) \<and>
     (\<forall>p. px_popped X p = butlast p) \<and>
     (\<forall>p b. length p < 256 \<longrightarrow> px_pushed X p b = p @ [b])"

lemma xor_api_okD:
  assumes "xor_api_ok X"
  shows "px_bit_count X p = length p"
    and "px_matches X p n \<longleftrightarrow> (\<forall>i < length p. xn_bit X n i = p ! i)"
    and "px_is_extension_of X p q \<longleftrightarrow> length q < length p \<and> take (length q) p = q"
    and "px_popped X p = butlast p"
    and "length p < 256 \<Longrightarrow> px_pushed X p b = p @ [b]"
  using assms unfolding xor_api_ok_def by blast+

text \<open>
  An instance, in which a name's bits are those of its bytes, most significant first. The
  witnesses evaluate the model on it.
\<close>

definition ref_bit :: "xor_name \<Rightarrow> nat \<Rightarrow> bool" where
  "ref_bit n i = (i div 8 < length n \<and> bit (n ! (i div 8)) (7 - i mod 8))"

fun ref_common :: "prefix \<Rightarrow> xor_name \<Rightarrow> nat \<Rightarrow> nat" where
  "ref_common [] n i = 0"
| "ref_common (b # p) n i = (if ref_bit n i = b then Suc (ref_common p n (Suc i)) else 0)"

definition ref_xor :: xor_api where
  "ref_xor = \<lparr> xn_bit = ref_bit, px_bit_count = length,
     px_matches = (\<lambda>p n. \<forall>i < length p. ref_bit n i = p ! i),
     px_is_extension_of = (\<lambda>p q. length q < length p \<and> take (length q) p = q),
     px_popped = butlast, px_pushed = (\<lambda>p b. if length p < 256 then p @ [b] else p),
     px_name = (\<lambda>p. replicate 32 0),
     px_common_prefix = (\<lambda>p n. ref_common p n 0),
     px_cmp_distance = (\<lambda>p q n. if ref_common p n 0 > ref_common q n 0 then Less
        else if ref_common p n 0 < ref_common q n 0 then Greater else Equal) \<rparr>"

lemma ref_xor_ok: "xor_api_ok ref_xor"
  by (simp add: xor_api_ok_def ref_xor_def)

subsection \<open>Group sizes\<close>

definition MIN_ADULT_AGE :: u8 where
  "MIN_ADULT_AGE = 5"

definition DEFAULT_ELDER_COUNT :: nat where
  "DEFAULT_ELDER_COUNT = 7"

text \<open>\<open>str::parse::<usize>\<close>: an optional plus sign, then at least one decimal digit, no overflow.\<close>

fun digits_value :: "string \<Rightarrow> nat \<Rightarrow> nat option" where
  "digits_value [] acc = Some acc"
| "digits_value (c # cs) acc =
     (if CHR ''0'' \<le> c \<and> c \<le> CHR ''9''
      then (let acc' = acc * 10 + (of_char c - of_char CHR ''0'') in
            if acc' < 2 ^ 64 then digits_value cs acc' else None)
      else None)"

definition parse_usize :: "string \<Rightarrow> nat option" where
  "parse_usize s =
     (let ds = (case s of c # cs \<Rightarrow> if c = CHR ''+'' then cs else s | [] \<Rightarrow> []) in
      if ds = [] then None else digits_value ds 0)"

text \<open>\<open>elder_count\<close>: the environment variable \<open>SN_ELDER_COUNT\<close> is the argument.\<close>

definition elder_count :: "string option \<Rightarrow> nat" where
  "elder_count env =
     (case env of
        Some count \<Rightarrow> (case parse_usize count of Some n \<Rightarrow> n | None \<Rightarrow> DEFAULT_ELDER_COUNT)
      | None \<Rightarrow> DEFAULT_ELDER_COUNT)"

definition recommended_section_size :: "string option \<Rightarrow> nat" where
  "recommended_section_size env = 2 * elder_count env"

definition threshold :: "nat \<Rightarrow> nat" where
  "threshold group_size = group_size * 2 div 3"

definition supermajority :: "nat \<Rightarrow> nat" where
  "supermajority group_size = threshold group_size + 1"

lemma supermajority_le: "0 < n \<Longrightarrow> supermajority n \<le> n"
  by (simp add: supermajority_def threshold_def)

lemma supermajority_overlap: "n < 3 * (2 * supermajority n - n)"
  by (simp add: supermajority_def threshold_def)

lemma supermajorities_share:
  assumes fin: "finite G" and sub: "A \<subseteq> G" "B \<subseteq> G"
    and qa: "supermajority (card G) \<le> card A" and qb: "supermajority (card G) \<le> card B"
  shows "card G < 3 * card (A \<inter> B)"
proof -
  have fab: "finite A" "finite B" using fin sub by (auto intro: finite_subset)
  have "card (A \<union> B) \<le> card G" using fin sub by (auto intro: card_mono)
  then have "card A + card B \<le> card G + card (A \<inter> B)"
    using card_Un_Int [OF fab] by linarith
  with qa qb have "2 * supermajority (card G) - card G \<le> card (A \<inter> B)" by linarith
  with supermajority_overlap [of "card G"] show ?thesis by linarith
qed

subsection \<open>Splitting a section\<close>

definition partition_by_prefix ::
  "xor_api \<Rightarrow> prefix \<Rightarrow> xor_name list \<Rightarrow> (xor_name bset \<times> xor_name bset) option" where
  "partition_by_prefix X p nodes =
     (let decision_index = px_bit_count X p in
      if 256 \<le> decision_index then None
      else
        (let matching = filter (px_matches X p) nodes;
             one = filter (\<lambda>n. xn_bit X n decision_index) matching;
             zero = filter (\<lambda>n. \<not> xn_bit X n decision_index) matching
         in Some (bs_from_iter zero, bs_from_iter one)))"

definition section_has_room_for_node ::
  "xor_api \<Rightarrow> string option \<Rightarrow> xor_name \<Rightarrow> prefix \<Rightarrow> xor_name list \<Rightarrow> bool" where
  "section_has_room_for_node X env joining_node p members =
     (let split_section_size_cap = recommended_section_size env * 2 in
      case partition_by_prefix X p members of
        Some (zeros, ones) \<Rightarrow>
          (if xn_bit X joining_node (px_bit_count X p mod 256)
           then length ones < split_section_size_cap
           else length zeros < split_section_size_cap)
      | None \<Rightarrow> False)"

lemma partition_by_prefix_sets:
  assumes "partition_by_prefix X p nodes = Some (zeros, ones)"
  shows "set zeros = {n \<in> set nodes. px_matches X p n \<and> \<not> xn_bit X n (px_bit_count X p)}"
    and "set ones = {n \<in> set nodes. px_matches X p n \<and> xn_bit X n (px_bit_count X p)}"
    and "bs_wf zeros" and "bs_wf ones"
  using assms by (auto simp: partition_by_prefix_def Let_def btree_simps split: if_splits)

lemma matches_pushed:
  assumes "xor_api_ok X" and "length p < 256"
  shows "px_matches X (px_pushed X p b) n
           \<longleftrightarrow> px_matches X p n \<and> xn_bit X n (px_bit_count X p) = b"
  using assms by (auto simp: xor_api_okD nth_append less_Suc_eq)

lemma partition_by_prefix_length:
  assumes "xor_api_ok X" and "partition_by_prefix X p nodes = Some (zeros, ones)"
  shows "length p < 256"
  using assms(2) by (auto simp: partition_by_prefix_def xor_api_okD(1) [OF assms(1)] Let_def split: if_splits)

lemma partition_by_prefix_children:
  assumes "xor_api_ok X" and "partition_by_prefix X p nodes = Some (zeros, ones)"
  shows "set zeros = {n \<in> set nodes. px_matches X (px_pushed X p False) n}"
    and "set ones = {n \<in> set nodes. px_matches X (px_pushed X p True) n}"
  using partition_by_prefix_sets [OF assms(2)]
  by (auto simp: matches_pushed [OF assms(1) partition_by_prefix_length [OF assms]])

subsection \<open>Age and relocation\<close>

text \<open>The last byte of a name is the age of its node.\<close>

definition calc_age :: "xor_name \<Rightarrow> u8" where
  "calc_age name = name ! (XOR_NAME_LEN - 1)"

text \<open>\<open>u8::trailing_zeros\<close>.\<close>

definition byte_trailing_zeros :: "u8 \<Rightarrow> nat" where
  "byte_trailing_zeros b = length (takeWhile (\<lambda>i. \<not> bit b i) [0..<8])"

fun trailing_zeros_rev :: "bytes \<Rightarrow> nat" where
  "trailing_zeros_rev [] = 0"
| "trailing_zeros_rev (b # bs) =
     (if b = 0 then 8 + trailing_zeros_rev bs else byte_trailing_zeros b)"

definition trailing_zeros :: "bytes \<Rightarrow> nat" where
  "trailing_zeros bs = trailing_zeros_rev (rev bs)"

definition relocation_check :: "u8 \<Rightarrow> xor_name \<Rightarrow> bool" where
  "relocation_check age churn_id = (unat age \<le> trailing_zeros churn_id)"

text \<open>The number a byte string stands for, most significant byte first.\<close>

fun value_rev :: "bytes \<Rightarrow> nat" where
  "value_rev [] = 0"
| "value_rev (b # bs) = unat b + 256 * value_rev bs"

definition bytes_value :: "bytes \<Rightarrow> nat" where
  "bytes_value bs = value_rev (rev bs)"

lemma le_length_takeWhile_upt:
  "a \<le> n \<Longrightarrow> a \<le> length (takeWhile P [0..<n]) \<longleftrightarrow> (\<forall>i < a. P i)"
proof
  assume "a \<le> n" and le: "a \<le> length (takeWhile P [0..<n])"
  show "\<forall>i < a. P i"
  proof (intro allI impI)
    fix i assume "i < a"
    then have "i < length (takeWhile P [0..<n])" using le by simp
    then have "P (takeWhile P [0..<n] ! i)" by (metis nth_mem set_takeWhileD)
    moreover have "takeWhile P [0..<n] ! i = i"
      using \<open>i < a\<close> \<open>a \<le> n\<close> \<open>i < length (takeWhile P [0..<n])\<close> by (simp add: takeWhile_nth)
    ultimately show "P i" by simp
  qed
next
  assume an: "a \<le> n" and all: "\<forall>i < a. P i"
  have "[0..<n] = [0..<a] @ [a..<n]" using an by (metis le_add_diff_inverse upt_add_eq_append zero_le)
  then have "takeWhile P [0..<n] = [0..<a] @ takeWhile P [a..<n]"
    using all takeWhile_append2 [of "[0..<a]" P "[a..<n]"] by simp
  then show "a \<le> length (takeWhile P [0..<n])" by simp
qed

lemma power2_dvd_unat_iff:
  "a \<le> 8 \<Longrightarrow> 2 ^ a dvd unat (b :: u8) \<longleftrightarrow> (\<forall>i < a. \<not> bit b i)"
proof -
  have "2 ^ a dvd unat b \<longleftrightarrow> take_bit a (unat b) = 0"
    by (simp add: take_bit_eq_0_iff)
  also have "\<dots> \<longleftrightarrow> (\<forall>i < a. \<not> bit (unat b) i)"
    by (auto simp: bit_eq_iff bit_take_bit_iff)
  finally show ?thesis by (simp add: bit_unsigned_iff)
qed

lemma byte_trailing_zeros_le: "b \<noteq> 0 \<Longrightarrow> byte_trailing_zeros b < 8"
proof -
  assume "b \<noteq> 0"
  then have "0 < unat b" by (simp add: unat_gt_0)
  moreover have "unat b < 256" using unsigned_less [of b] by simp
  ultimately have "\<not> 2 ^ 8 dvd unat b" by (auto dest!: dvd_imp_le)
  then have "\<not> (\<forall>i < 8. \<not> bit b i)" using power2_dvd_unat_iff [of 8 b] by simp
  then show ?thesis
    using le_length_takeWhile_upt [of 8 8 "\<lambda>i. \<not> bit b i"]
    unfolding byte_trailing_zeros_def by (meson le_refl not_le)
qed

lemma power2_dvd_byte:
  "a \<le> 8 \<Longrightarrow> 2 ^ a dvd unat b \<longleftrightarrow> a \<le> byte_trailing_zeros b"
  by (simp add: power2_dvd_unat_iff byte_trailing_zeros_def le_length_takeWhile_upt)

lemma dvd_value_rev:
  "a \<le> 8 * length bs \<Longrightarrow> 2 ^ a dvd value_rev bs \<longleftrightarrow> a \<le> trailing_zeros_rev bs"
proof (induction bs arbitrary: a)
  case Nil
  then show ?case by simp
next
  case (Cons b bs)
  have low: "2 ^ a dvd unat b + 256 * value_rev bs \<longleftrightarrow> 2 ^ a dvd unat b" if "a \<le> 8"
  proof -
    have "(2::nat) ^ a dvd 256" using that le_imp_power_dvd [of a 8 "2::nat"] by simp
    then show ?thesis by (simp add: dvd_add_left_iff)
  qed
  show ?case
  proof (cases "b = 0")
    case True
    show ?thesis
    proof (cases "a \<le> 8")
      case True
      with low \<open>b = 0\<close> show ?thesis by simp
    next
      case False
      then have "(2::nat) ^ a = 256 * 2 ^ (a - 8)"
        using power_add [of "2::nat" 8 "a - 8"] by simp
      with \<open>b = 0\<close> Cons.IH [of "a - 8"] Cons.prems False show ?thesis by auto
    qed
  next
    case False
    show ?thesis
    proof (cases "a \<le> 8")
      case True
      with low \<open>b \<noteq> 0\<close> show ?thesis by (simp add: power2_dvd_byte)
    next
      case False
      have "\<not> 2 ^ a dvd unat b + 256 * value_rev bs"
      proof
        assume "2 ^ a dvd unat b + 256 * value_rev bs"
        moreover have "(256::nat) dvd 2 ^ a"
          using False le_imp_power_dvd [of 8 a "2::nat"] by simp
        ultimately have "256 dvd unat b + 256 * value_rev bs" by (rule dvd_trans [rotated])
        then have "2 ^ 8 dvd unat b" by (simp add: dvd_add_left_iff)
        then show False
          using power2_dvd_byte [of 8 b] byte_trailing_zeros_le [OF \<open>b \<noteq> 0\<close>] by simp
      qed
      with False byte_trailing_zeros_le [OF \<open>b \<noteq> 0\<close>] \<open>b \<noteq> 0\<close> show ?thesis by simp
    qed
  qed
qed

subsection \<open>Properties\<close>

text \<open>
  Two groups of elders that each reach the supermajority of the section have more than a third of
  the section in common, so that two conflicting decisions need more than a third of faulty
  elders; and a supermajority never asks for more elders than there are.
\<close>

theorem supermajority_intersection:
  assumes "finite elders" and "voters \<subseteq> elders" and "voters' \<subseteq> elders"
    and "supermajority (card elders) \<le> card voters" and "supermajority (card elders) \<le> card voters'"
  shows "card elders < 3 * card (voters \<inter> voters') \<and> supermajority (card elders) \<le> card elders"
proof -
  have "card voters \<le> card elders" using assms(1,2) by (rule card_mono)
  with assms(4) have "supermajority (card elders) \<le> card elders" by simp
  with supermajorities_share [OF assms(1-5)] show ?thesis by simp
qed

theorem supermajority_intersection_witness:
  "card {0..<7 :: nat} < 3 * card ({0..<5 :: nat} \<inter> {2..<7})"
  using supermajority_intersection [of "{0..<7 :: nat}" "{0..<5}" "{2..<7}"]
  by (simp add: supermajority_def threshold_def)

text \<open>
  \<open>relocation_check\<close> is what its comment says: for a churn id of 32 bytes it holds exactly when the
  number the id stands for is divisible by two to the power of the age, for every age a byte can
  hold.
\<close>

theorem relocation_check_divides:
  assumes "length churn_id = XOR_NAME_LEN"
  shows "relocation_check age churn_id \<longleftrightarrow> 2 ^ unat age dvd bytes_value churn_id"
proof -
  have "unat age < 256" using unsigned_less [of age] by simp
  then have "unat age \<le> 8 * length (rev churn_id)" using assms by (simp add: XOR_NAME_LEN_def)
  from dvd_value_rev [OF this] show ?thesis
    by (simp add: relocation_check_def trailing_zeros_def bytes_value_def)
qed

theorem relocation_check_divides_witness:
  "relocation_check 5 (replicate 31 0 @ [96]) \<longleftrightarrow> 2 ^ 5 dvd bytes_value (replicate 31 0 @ [96])"
  using relocation_check_divides [of "replicate 31 0 @ [96]" 5] by (simp add: XOR_NAME_LEN_def)

text \<open>
  \<open>partition_by_prefix\<close> fails exactly for a prefix of 256 bits or more; otherwise it sorts the names that match the
  prefix into the two child sections, each name into exactly the one whose prefix it matches.
\<close>

theorem partition_by_prefix_correct:
  assumes X: "xor_api_ok X"
  shows "case partition_by_prefix X p nodes of
           None \<Rightarrow> 256 \<le> length p
         | Some (zeros, ones) \<Rightarrow> length p < 256 \<and>
             set zeros = {n \<in> set nodes. px_matches X (px_pushed X p False) n} \<and>
             set ones = {n \<in> set nodes. px_matches X (px_pushed X p True) n} \<and>
             set zeros \<inter> set ones = {} \<and>
             set zeros \<union> set ones = {n \<in> set nodes. px_matches X p n}"
proof (cases "partition_by_prefix X p nodes")
  case None
  then show ?thesis by (auto simp: partition_by_prefix_def Let_def xor_api_okD [OF X] split: if_splits)
next
  case (Some zo)
  obtain zeros ones where zo: "zo = (zeros, ones)" by (cases zo)
  have "length p < 256"
    using Some by (auto simp: partition_by_prefix_def Let_def xor_api_okD [OF X] split: if_splits)
  with partition_by_prefix_children [OF X Some [unfolded zo]] show ?thesis
    by (auto simp: Some zo matches_pushed [OF X])
qed

theorem partition_by_prefix_correct_witness:
  "\<exists>zeros ones. partition_by_prefix ref_xor [] [[1], [255]] = Some (zeros, ones) \<and>
     set zeros \<union> set ones = {[1], [255]}"
proof -
  obtain zeros ones where r: "partition_by_prefix ref_xor [] [[1], [255]] = Some (zeros, ones)"
    by (auto simp: partition_by_prefix_def ref_xor_def Let_def)
  moreover have "px_matches ref_xor [] n" for n by (simp add: ref_xor_def)
  ultimately show ?thesis
    using partition_by_prefix_correct [OF ref_xor_ok, of "[]" "[[1], [255]]"] by auto
qed

end
