(* ===== verification/Identities.thy ===== *)
theory Identities
  imports Externals Xor_Space
begin

section \<open>Keys and node identities\<close>

text \<open>
  \<open>sn_interface/src/types/keys/public_key.rs\<close> (the wrapper of the three kinds of public key) and
  \<open>sn_interface/src/types/identities/node_id.rs\<close> (a node's name and address, ordered by name first).
  The crate \<open>ed25519_dalek\<close> and the secret side of \<open>blsttc\<close> are parameters, as are the encodings.
\<close>

type_synonym ed_key = nat
type_synonym ed_signature = nat
type_synonym pk_share = nat

record key_api =
  ed_to_bytes :: "ed_key \<Rightarrow> bytes"
  ed_verify :: "ed_key \<Rightarrow> bytes \<Rightarrow> ed_signature \<Rightarrow> bool"
  share_to_bytes :: "pk_share \<Rightarrow> bytes"
  share_verify :: "pk_share \<Rightarrow> signature_share \<Rightarrow> bytes \<Rightarrow> bool"
  from_content_parts :: "bytes list \<Rightarrow> xor_name"
  sig_to_bytes :: "signature \<Rightarrow> bytes"

text \<open>An instance for the witnesses: a key is 32 bytes that end in its number.\<close>

definition ref_keys :: key_api where
  "ref_keys = \<lparr> ed_to_bytes = (\<lambda>k. replicate 31 0 @ [of_nat k]),
     ed_verify = (\<lambda>k bs s. s = ref_sign k bs),
     share_to_bytes = (\<lambda>k. replicate 48 (of_nat k)),
     share_verify = (\<lambda>k s bs. s = ref_sign k bs),
     from_content_parts = (\<lambda>parts. take 32 (concat parts @ replicate 32 0)),
     sig_to_bytes = (\<lambda>s. [of_nat s]) \<rparr>"

subsection \<open>Public keys\<close>

datatype any_key = Ed25519 ed_key | Bls public_key | BlsShare pk_share
datatype any_signature = EdSig ed_signature | BlsSig signature | BlsShareSig signature_share

datatype types_error = SigningKeyTypeMismatch | InvalidSignature_types

fun any_key_bytes :: "key_api \<Rightarrow> bls_api \<Rightarrow> any_key \<Rightarrow> bytes" where
  "any_key_bytes K B (Ed25519 k) = ed_to_bytes K k"
| "any_key_bytes K B (Bls k) = pk_to_bytes B k"
| "any_key_bytes K B (BlsShare k) = share_to_bytes K k"

fun ed25519 :: "any_key \<Rightarrow> ed_key option" where
  "ed25519 (Ed25519 k) = Some k"
| "ed25519 _ = None"

fun bls :: "any_key \<Rightarrow> public_key option" where
  "bls (Bls k) = Some k"
| "bls _ = None"

fun bls_share :: "any_key \<Rightarrow> pk_share option" where
  "bls_share (BlsShare k) = Some k"
| "bls_share _ = None"

definition any_key_verify ::
  "key_api \<Rightarrow> bls_api \<Rightarrow> any_key \<Rightarrow> any_signature \<Rightarrow> bytes \<Rightarrow> (unit, types_error) result" where
  "any_key_verify K B key sig data =
     (let check = (\<lambda>is_valid. if is_valid then Ok () else Err InvalidSignature_types) in
      case (key, sig) of
        (Ed25519 k, EdSig s) \<Rightarrow> check (ed_verify K k data s)
      | (Bls k, BlsSig s) \<Rightarrow> check (bls_verify B k s data)
      | (BlsShare k, BlsShareSig s) \<Rightarrow> check (share_verify K k s data)
      | _ \<Rightarrow> Err SigningKeyTypeMismatch)"

text \<open>
  \<open>From<PublicKey> for XorName\<close>: an Ed25519 key is the name, of a BLS key the first 32 bytes are. The
  random bytes the code starts from are all overwritten; a key of fewer than 32 bytes panics, \<open>None\<close>.
\<close>

definition xor_name_of :: "key_api \<Rightarrow> bls_api \<Rightarrow> any_key \<Rightarrow> xor_name option" where
  "xor_name_of K B key =
     (case key of
        Ed25519 k \<Rightarrow> Some (ed_to_bytes K k)
      | _ \<Rightarrow>
          (let bs = any_key_bytes K B key in
           if length bs < XOR_NAME_LEN then None else Some (take XOR_NAME_LEN bs)))"

lemma xor_name_of_length:
  assumes "\<And>k. length (ed_to_bytes K k) = XOR_NAME_LEN" and "xor_name_of K B key = Some n"
  shows "length n = XOR_NAME_LEN"
  using assms by (auto simp: xor_name_of_def Let_def split: any_key.splits if_splits)

subsection \<open>Node ids\<close>

datatype node_id = NodeId (nid_name: xor_name) (nid_addr: socket_addr)

definition nid_age :: "node_id \<Rightarrow> u8" where
  "nid_age n = calc_age (nid_name n)"

record participant =
  pt_name :: xor_name
  pt_addr :: socket_addr

definition node_id_from :: "participant \<Rightarrow> node_id" where
  "node_id_from sender = NodeId (pt_name sender) (pt_addr sender)"

definition node_id_from_key :: "key_api \<Rightarrow> socket_addr \<Rightarrow> ed_key \<Rightarrow> node_id" where
  "node_id_from_key K a key = NodeId (ed_to_bytes K key) a"

text \<open>\<open>Ord for NodeId\<close>: by name, then by address.\<close>

definition cmp_of :: "'a::linorder \<Rightarrow> 'a \<Rightarrow> ordering" where
  "cmp_of a b = (if a < b then Less else if a = b then Equal else Greater)"

definition node_id_cmp :: "node_id \<Rightarrow> node_id \<Rightarrow> ordering" where
  "node_id_cmp a b =
     (case cmp_of (nid_name a) (nid_name b) of
        Equal \<Rightarrow> cmp_of (nid_addr a) (nid_addr b)
      | c \<Rightarrow> c)"

instantiation node_id :: linorder
begin

definition less_eq_node_id :: "node_id \<Rightarrow> node_id \<Rightarrow> bool" where
  "less_eq_node_id a b \<longleftrightarrow> node_id_cmp a b \<noteq> Greater"

definition less_node_id :: "node_id \<Rightarrow> node_id \<Rightarrow> bool" where
  "less_node_id a b \<longleftrightarrow> node_id_cmp a b = Less"

instance
  by standard
    (auto simp: less_eq_node_id_def less_node_id_def node_id_cmp_def cmp_of_def
      intro: node_id.expand split: if_splits)

end

text \<open>Two ids of one name are told apart by the address alone.\<close>

lemma node_id_eq_iff: "a = b \<longleftrightarrow> nid_name a = nid_name b \<and> nid_addr a = nid_addr b"
  by (auto intro: node_id.expand)

end
