(* ===== verification/Comparisons.thy ===== *)
theory Comparisons
  imports Identities "HOL-Library.Multiset"
begin

section \<open>Sorting and minima by a comparison\<close>

text \<open>
  The sorts and the least and greatest elements by a comparison function that several components
  use, as the standard library defines them, and what they give when the comparison is a total
  order.
\<close>

text \<open>\<open>sort_by\<close> of the standard library, and \<open>sorted_by\<close> of \<open>itertools\<close>, is a stable sort.\<close>

fun insert_by :: "('a \<Rightarrow> 'a \<Rightarrow> ordering) \<Rightarrow> 'a \<Rightarrow> 'a list \<Rightarrow> 'a list" where
  "insert_by cmp x [] = [x]"
| "insert_by cmp x (y # ys) = (if cmp x y = Greater then y # insert_by cmp x ys else x # y # ys)"

definition sort_by :: "('a \<Rightarrow> 'a \<Rightarrow> ordering) \<Rightarrow> 'a list \<Rightarrow> 'a list" where
  "sort_by cmp xs = foldr (insert_by cmp) xs []"

text \<open>\<open>Iterator::min_by\<close> gives the first of several least elements, \<open>max_by_key\<close> the last greatest.\<close>

fun min_by :: "('a \<Rightarrow> 'a \<Rightarrow> ordering) \<Rightarrow> 'a list \<Rightarrow> 'a option" where
  "min_by cmp [] = None"
| "min_by cmp (x # xs) = Some (fold (\<lambda>y best. if cmp best y = Greater then y else best) xs x)"

fun max_by_key :: "('a \<Rightarrow> nat) \<Rightarrow> 'a list \<Rightarrow> 'a option" where
  "max_by_key f [] = None"
| "max_by_key f (x # xs) = Some (fold (\<lambda>y best. if f y < f best then best else y) xs x)"

subsection \<open>Sorting by a comparison\<close>

definition total_order :: "('a \<Rightarrow> 'a \<Rightarrow> ordering) \<Rightarrow> bool" where
  "total_order cmp \<longleftrightarrow>
     (\<forall>a b. cmp a b = Greater \<longrightarrow> cmp b a \<noteq> Greater) \<and>
     (\<forall>a b c. cmp a b \<noteq> Greater \<longrightarrow> cmp b c \<noteq> Greater \<longrightarrow> cmp a c \<noteq> Greater)"

lemma total_orderD:
  assumes "total_order cmp"
  shows "cmp a b = Greater \<Longrightarrow> cmp b a \<noteq> Greater"
    and "cmp a b \<noteq> Greater \<Longrightarrow> cmp b c \<noteq> Greater \<Longrightarrow> cmp a c \<noteq> Greater"
  using assms unfolding total_order_def by - meson+

lemma mset_insert_by: "mset (insert_by cmp x ys) = add_mset x (mset ys)"
  by (induction ys) auto

lemma mset_sort_by: "mset (sort_by cmp xs) = mset xs"
  unfolding sort_by_def by (induction xs) (simp_all add: mset_insert_by)

lemma set_sort_by: "set (sort_by cmp xs) = set xs"
  using mset_sort_by [of cmp xs] by (metis set_mset_mset)

lemma sorted_insert_by:
  assumes cmp: "total_order cmp" and "sorted_wrt (\<lambda>a b. cmp a b \<noteq> Greater) ys"
  shows "sorted_wrt (\<lambda>a b. cmp a b \<noteq> Greater) (insert_by cmp x ys)"
  using assms(2)
proof (induction ys)
  case (Cons y ys)
  have set: "set (insert_by cmp x zs) = insert x (set zs)" for zs
    using mset_insert_by [of cmp x zs] by (metis set_mset_add_mset_insert set_mset_mset)
  show ?case
  proof (cases "cmp x y = Greater")
    case True
    then have "cmp y x \<noteq> Greater" by (rule total_orderD(1) [OF cmp])
    with Cons True show ?thesis by (simp add: set)
  next
    case False
    then have "\<forall>z \<in> set ys. cmp x z \<noteq> Greater"
      using Cons.prems total_orderD(2) [OF cmp False] by simp
    with Cons.prems False show ?thesis by simp
  qed
qed simp

lemma sorted_sort_by: "total_order cmp \<Longrightarrow> sorted_wrt (\<lambda>a b. cmp a b \<noteq> Greater) (sort_by cmp xs)"
  unfolding sort_by_def by (induction xs) (simp_all add: sorted_insert_by)

lemma take_sort_by:
  assumes "total_order cmp" and "a \<in> set (take n (sort_by cmp xs))" and "b \<in> set xs"
    and "b \<notin> set (take n (sort_by cmp xs))"
  shows "cmp a b \<noteq> Greater"
proof -
  let ?l = "sort_by cmp xs"
  have "b \<in> set (drop n ?l)" using assms(3,4) by (metis Un_iff append_take_drop_id set_append set_sort_by)
  moreover have "sorted_wrt (\<lambda>a b. cmp a b \<noteq> Greater) (take n ?l @ drop n ?l)"
    using sorted_sort_by [OF assms(1)] by simp
  ultimately show ?thesis using assms(2) unfolding sorted_wrt_append by blast
qed

lemma min_by_least:
  assumes cmp: "total_order cmp" and "min_by cmp xs = Some m"
  shows "m \<in> set xs \<and> (\<forall>x \<in> set xs. cmp m x \<noteq> Greater)"
proof -
  obtain y ys where xs: "xs = y # ys" using assms(2) by (cases xs) auto
  have refl: "cmp a a \<noteq> Greater" for a using total_orderD(1) [OF cmp] by blast
  have "fold (\<lambda>y best. if cmp best y = Greater then y else best) ys b \<in> insert b (set ys) \<and>
      (\<forall>x \<in> insert b (set ys). cmp (fold (\<lambda>y best. if cmp best y = Greater then y else best) ys b) x \<noteq> Greater)"
    for b
  proof (induction ys arbitrary: b)
    case Nil
    show ?case by (simp add: refl)
  next
    case (Cons z zs)
    show ?case
    proof (cases "cmp b z = Greater")
      case True
      then have "cmp z b \<noteq> Greater" by (rule total_orderD(1) [OF cmp])
      with True Cons.IH [of z] total_orderD(2) [OF cmp] show ?thesis by auto
    next
      case False
      with Cons.IH [of b] total_orderD(2) [OF cmp] show ?thesis by auto
    qed
  qed
  from this [of y] assms(2) show ?thesis by (simp add: xs)
qed

end
