(* ===== verification/Expiry_Cache.thy ===== *)
theory Expiry_Cache
  imports Comparisons
begin

section \<open>The cache with expiry and capacity\<close>

text \<open>
  \<open>sn_interface/src/types/cache\<close>: a map whose items may expire and whose size is bounded. Instants and
  durations are numbers of nanoseconds. Every operation that reads the clock takes the instant it
  reads as an argument; one that reads it in several phases takes one instant per phase.
\<close>

subsection \<open>Items\<close>

record item_time =
  it_start :: nat
  it_expiry :: nat

record 'v item =
  item_object :: 'v
  item_time :: "item_time option"

definition new_item :: "nat \<Rightarrow> 'v \<Rightarrow> nat option \<Rightarrow> 'v item" where
  "new_item now object item_duration =
     \<lparr> item_object = object,
       item_time = map_option (\<lambda>duration. \<lparr> it_start = now, it_expiry = now + duration \<rparr>) item_duration \<rparr>"

definition expired :: "nat \<Rightarrow> 'v item \<Rightarrow> bool" where
  "expired now item = (case item_time item of Some time \<Rightarrow> it_expiry time < now | None \<Rightarrow> False)"

text \<open>The elapsed time is read in milliseconds; an instant in the future counts as no time elapsed.\<close>

definition elapsed :: "nat \<Rightarrow> 'v item \<Rightarrow> nat" where
  "elapsed now item =
     (case item_time item of Some time \<Rightarrow> now - it_start time | None \<Rightarrow> 0) div 1000000"

subsection \<open>The cache\<close>

record ('k, 'v) cache =
  cache_items :: "('k, 'v item) bmap"
  cache_item_duration :: "nat option"
  cache_capacity :: nat

definition usize_max :: nat where
  "usize_max = 2 ^ 64 - 1"

definition with_capacity :: "nat \<Rightarrow> ('k, 'v) cache" where
  "with_capacity capacity = \<lparr> cache_items = [], cache_item_duration = None, cache_capacity = capacity \<rparr>"

definition with_expiry_duration :: "nat \<Rightarrow> ('k, 'v) cache" where
  "with_expiry_duration duration =
     \<lparr> cache_items = [], cache_item_duration = Some duration, cache_capacity = usize_max \<rparr>"

definition with_expiry_duration_and_capacity :: "nat \<Rightarrow> nat \<Rightarrow> ('k, 'v) cache" where
  "with_expiry_duration_and_capacity duration capacity =
     \<lparr> cache_items = [], cache_item_duration = Some duration, cache_capacity = capacity \<rparr>"

definition cache_len :: "('k, 'v) cache \<Rightarrow> nat" where
  "cache_len C = length (cache_items C)"

definition cache_is_empty :: "('k, 'v) cache \<Rightarrow> bool" where
  "cache_is_empty C \<longleftrightarrow> cache_items C = []"

definition cache_count :: "('k \<times> 'v item \<Rightarrow> bool) \<Rightarrow> ('k, 'v) cache \<Rightarrow> nat" where
  "cache_count predicate C = length (filter predicate (cache_items C))"

definition cache_get :: "nat \<Rightarrow> ('k, 'v) cache \<Rightarrow> 'k \<Rightarrow> 'v option" where
  "cache_get now C key =
     (case bm_get (cache_items C) key of
        Some item \<Rightarrow> if expired now item then None else Some (item_object item)
      | None \<Rightarrow> None)"

text \<open>The reference \<open>get_mut\<close> gives is used to apply some change \<open>f\<close> to the value.\<close>

definition cache_get_mut :: "nat \<Rightarrow> ('k::linorder, 'v) cache \<Rightarrow> 'k \<Rightarrow> ('v \<Rightarrow> 'v) \<Rightarrow> ('k, 'v) cache" where
  "cache_get_mut now C key f =
     (case bm_get (cache_items C) key of
        Some item \<Rightarrow>
          if expired now item then C
          else C\<lparr>cache_items := bm_insert key (item\<lparr>item_object := f (item_object item)\<rparr>) (cache_items C)\<rparr>
      | None \<Rightarrow> C)"

definition get_items :: "('k, 'v) cache \<Rightarrow> ('k, 'v item) bmap" where
  "get_items C = cache_items C"

definition remove_expired :: "nat \<Rightarrow> ('k, 'v) cache \<Rightarrow> ('k, 'v) cache" where
  "remove_expired now C =
     (let expired_keys = map fst (filter (\<lambda>e. expired now (snd e)) (cache_items C)) in
      C\<lparr>cache_items := fold bm_remove expired_keys (cache_items C)\<rparr>)"

definition older_first :: "nat \<Rightarrow> 'k \<times> 'v item \<Rightarrow> 'k \<times> 'v item \<Rightarrow> ordering" where
  "older_first now a b = cmp_of (elapsed now (snd b)) (elapsed now (snd a))"

definition drop_excess :: "nat \<Rightarrow> ('k, 'v) cache \<Rightarrow> ('k, 'v) cache" where
  "drop_excess now C =
     (let len = cache_len C in
      if len > cache_capacity C then
        (let excess = len - cache_capacity C;
             items = sort_by (older_first now) (cache_items C);
             excess_keys = map fst (take excess items)
         in C\<lparr>cache_items := fold bm_remove excess_keys (cache_items C)\<rparr>)
      else C)"

text \<open>\<open>set\<close> reads the clock for the new item, for the old one, for the expired ones and for the sort.\<close>

definition cache_set ::
  "nat \<times> nat \<times> nat \<times> nat \<Rightarrow> ('k::linorder, 'v) cache \<Rightarrow> 'k \<Rightarrow> 'v \<Rightarrow> nat option
     \<Rightarrow> ('k, 'v) cache \<times> 'v option" where
  "cache_set t C key val custom_duration =
     (case t of (t1, t2, t3, t4) \<Rightarrow>
       (let duration = (case custom_duration of Some d \<Rightarrow> Some d | None \<Rightarrow> cache_item_duration C);
            item = new_item t1 val duration;
            replaced = (case bm_get (cache_items C) key of
               Some old \<Rightarrow> if expired t2 old then None else Some (item_object old)
             | None \<Rightarrow> None);
            C1 = C\<lparr>cache_items := bm_insert key item (cache_items C)\<rparr>
        in (drop_excess t4 (remove_expired t3 C1), replaced)))"

definition cache_remove :: "('k, 'v) cache \<Rightarrow> 'k \<Rightarrow> ('k, 'v) cache \<times> 'v option" where
  "cache_remove C key =
     (C\<lparr>cache_items := bm_remove key (cache_items C)\<rparr>, map_option item_object (bm_get (cache_items C) key))"

definition cache_clear :: "('k, 'v) cache \<Rightarrow> ('k, 'v) cache" where
  "cache_clear C = C\<lparr>cache_items := []\<rparr>"

section \<open>Properties of the cache\<close>

definition cache_wf :: "('k::linorder, 'v) cache \<Rightarrow> bool" where
  "cache_wf C \<longleftrightarrow> bm_wf (cache_items C) \<and> cache_len C \<le> cache_capacity C"

lemma fold_bm_remove: "fold bm_remove ks m = filter (\<lambda>e. fst e \<notin> set ks) m"
  by (induction ks arbitrary: m) (auto simp: bm_remove_def intro: filter_cong)

lemma remove_expired_filter:
  assumes "bm_wf (cache_items C)"
  shows "cache_items (remove_expired now C) = filter (\<lambda>e. \<not> expired now (snd e)) (cache_items C)"
proof -
  have "a \<in> set (cache_items C) \<Longrightarrow> b \<in> set (cache_items C) \<Longrightarrow> fst a = fst b \<Longrightarrow> a = b" for a b
    using bm_wf_distinct [OF assms] by (metis distinct_map inj_onD)
  then show ?thesis
    unfolding remove_expired_def by (auto simp: fold_bm_remove intro!: filter_cong)
qed

lemma older_first_order: "total_order (older_first now)"
  by (auto simp: total_order_def older_first_def cmp_of_def split: if_splits)

text \<open>\<open>drop_excess\<close> drops as many items as there are too many, and the oldest.\<close>

lemma drop_excess_split:
  fixes C :: "('k::linorder, 'v) cache"
  assumes wf: "bm_wf (cache_items C)"
  obtains dropped where "cache_items (drop_excess now C) = filter (\<lambda>e. e \<notin> set dropped) (cache_items C)"
    and "set dropped \<subseteq> set (cache_items C)" and "distinct dropped"
    and "length dropped = cache_len C - cache_capacity C"
    and "\<forall>a \<in> set dropped. \<forall>b \<in> set (cache_items C) - set dropped. elapsed now (snd b) \<le> elapsed now (snd a)"
proof -
  let ?n = "cache_len C - cache_capacity C"
  let ?l = "sort_by (older_first now) (cache_items C)"
  let ?d = "take ?n ?l"
  have m: "mset ?l = mset (cache_items C)" by (rule mset_sort_by)
  have inj: "inj_on fst (set (cache_items C))" using bm_wf_distinct [OF wf] by (simp add: distinct_map)
  have sub: "set ?d \<subseteq> set (cache_items C)" using set_take_subset set_sort_by by metis
  have "cache_items (drop_excess now C) = filter (\<lambda>e. e \<notin> set ?d) (cache_items C)"
  proof (cases "cache_len C > cache_capacity C")
    case True
    then have "cache_items (drop_excess now C) = filter (\<lambda>e. fst e \<notin> fst ` set ?d) (cache_items C)"
      by (simp add: drop_excess_def fold_bm_remove)
    also have "\<dots> = filter (\<lambda>e. e \<notin> set ?d) (cache_items C)"
      using inj_on_image_mem_iff [OF inj _ sub] by (intro filter_cong) simp_all
    finally show ?thesis .
  qed (simp add: drop_excess_def)
  moreover have "distinct ?d"
    using bm_wf_distinct [OF wf] m by (metis distinct_map distinct_take mset_eq_imp_distinct_iff)
  moreover have "length ?d = ?n" using m by (metis cache_len_def diff_le_self length_take min.absorb2 size_mset)
  moreover have "elapsed now (snd b) \<le> elapsed now (snd a)"
    if "a \<in> set ?d" "b \<in> set (cache_items C) - set ?d" for a b
    using take_sort_by [OF older_first_order that(1)] that(2)
    by (fastforce simp: older_first_def cmp_of_def split: if_splits)
  ultimately show ?thesis using that sub by blast
qed

lemma drop_excess_len:
  assumes "bm_wf (cache_items C)"
  shows "cache_len (drop_excess now C) = min (cache_len C) (cache_capacity C)"
proof -
  obtain dropped where d: "cache_items (drop_excess now C) = filter (\<lambda>e. e \<notin> set dropped) (cache_items C)"
    "set dropped \<subseteq> set (cache_items C)" "distinct dropped" "length dropped = cache_len C - cache_capacity C"
    using drop_excess_split [OF assms] by metis
  have dist: "distinct (cache_items C)" using bm_wf_distinct [OF assms] by (simp add: distinct_map)
  have "length (filter (\<lambda>e. e \<notin> set dropped) (cache_items C)) = card (set (cache_items C) - set dropped)"
    using dist by (metis distinct_card distinct_filter set_diff_eq set_filter)
  also have "\<dots> = cache_len C - length dropped"
    using d(2,3) dist by (simp add: card_Diff_subset distinct_card cache_len_def)
  finally show ?thesis using d(1,4) by (simp add: cache_len_def)
qed

lemma cache_set_fields [simp]:
  "cache_capacity (fst (cache_set t C k v dur)) = cache_capacity C"
  "cache_item_duration (fst (cache_set t C k v dur)) = cache_item_duration C"
  by (auto simp: cache_set_def drop_excess_def remove_expired_def Let_def split: prod.splits)

text \<open>
  \<open>set\<close> keeps the cache within its capacity. What it holds afterwards is the new value and values it
  held before, none of them expired; of the items that were not expired as many are dropped as are
  too many, and no dropped item is younger, in milliseconds, than one that stays. It returns the
  value it replaced when that had not expired.
\<close>

theorem cache_set_correct:
  assumes wf: "cache_wf C"
  shows "let (C', replaced) = cache_set (t1, t2, t3, t4) C key val dur;
             duration = (case dur of Some d \<Rightarrow> Some d | None \<Rightarrow> cache_item_duration C);
             candidates = filter (\<lambda>e. \<not> expired t3 (snd e))
               (bm_insert key (new_item t1 val duration) (cache_items C))
         in cache_wf C' \<and> set (cache_items C') \<subseteq> set candidates \<and>
            cache_len C' = min (length candidates) (cache_capacity C) \<and>
            (\<forall>a \<in> set candidates - set (cache_items C'). \<forall>b \<in> set (cache_items C').
               elapsed t4 (snd b) \<le> elapsed t4 (snd a)) \<and>
            replaced = cache_get t2 C key"
proof -
  let ?duration = "case dur of Some d \<Rightarrow> Some d | None \<Rightarrow> cache_item_duration C"
  let ?C1 = "C\<lparr>cache_items := bm_insert key (new_item t1 val ?duration) (cache_items C)\<rparr>"
  let ?C2 = "remove_expired t3 ?C1"
  let ?C' = "drop_excess t4 ?C2"
  have wf1: "bm_wf (cache_items ?C1)" using wf by (simp add: cache_wf_def bm_wf_insert)
  have items: "cache_items ?C2 = filter (\<lambda>e. \<not> expired t3 (snd e)) (cache_items ?C1)"
    by (rule remove_expired_filter [OF wf1])
  then have wf2: "bm_wf (cache_items ?C2)" using wf1 by (simp add: bm_wf_filter)
  obtain dropped where d: "cache_items ?C' = filter (\<lambda>e. e \<notin> set dropped) (cache_items ?C2)"
    and "\<forall>a \<in> set dropped. \<forall>b \<in> set (cache_items ?C2) - set dropped. elapsed t4 (snd b) \<le> elapsed t4 (snd a)"
    using drop_excess_split [OF wf2] by metis
  then have old: "\<forall>a \<in> set (cache_items ?C2) - set (cache_items ?C'). \<forall>b \<in> set (cache_items ?C').
      elapsed t4 (snd b) \<le> elapsed t4 (snd a)" by auto
  have cap: "cache_capacity ?C2 = cache_capacity C" by (simp add: remove_expired_def)
  have cap': "cache_capacity ?C' = cache_capacity ?C2" by (simp add: drop_excess_def Let_def)
  have "cache_len ?C' = min (cache_len ?C2) (cache_capacity C)"
    using drop_excess_len [OF wf2] cap by simp
  moreover have "bm_wf (cache_items ?C')" using d wf2 by (simp add: bm_wf_filter)
  moreover have "fst (cache_set (t1, t2, t3, t4) C key val dur) = ?C'"
    "snd (cache_set (t1, t2, t3, t4) C key val dur) = cache_get t2 C key"
    by (simp_all add: cache_set_def Let_def cache_get_def)
  moreover have "set (cache_items ?C') \<subseteq> set (cache_items ?C2)" using d by auto
  ultimately show ?thesis
    using old items cap cap' unfolding Let_def split_beta cache_wf_def by (simp add: cache_len_def)
qed

definition sample_cache :: "(nat, nat) cache" where
  "sample_cache = fst (cache_set (0, 0, 0, 0) (with_expiry_duration_and_capacity 9000000 1) 7 70 None)"

theorem cache_set_correct_witness:
  "cache_len (fst (cache_set (5000000, 5000000, 5000000, 5000000) sample_cache 3 30 None)) = 1 \<and>
   snd (cache_set (5000000, 5000000, 5000000, 5000000) sample_cache 7 71 None) = Some 70"
proof -
  have items: "cache_items sample_cache = [(7, new_item 0 70 (Some 9000000))]"
    "cache_capacity sample_cache = 1" "cache_item_duration sample_cache = Some 9000000"
    by (simp_all add: sample_cache_def cache_set_def with_expiry_duration_and_capacity_def remove_expired_def
        drop_excess_def cache_len_def expired_def new_item_def bm_remove_def)
  then have wf: "cache_wf sample_cache" by (simp add: cache_wf_def cache_len_def bm_wf_def)
  show ?thesis
    using cache_set_correct [OF wf, of 5000000 5000000 5000000 5000000 3 30 None]
      cache_set_correct [OF wf, of 5000000 5000000 5000000 5000000 7 71 None]
    by (simp add: Let_def split_beta items cache_get_def expired_def new_item_def)
qed

text \<open>
  A value that is set can be read back until it expires, whenever the cache has room for the items
  it holds and the new one.
\<close>

theorem cache_get_set:
  assumes wf: "cache_wf C" and room: "cache_len C < cache_capacity C"
    and live: "case dur of Some d \<Rightarrow> t \<le> t1 + d \<and> t3 \<le> t1 + d
               | None \<Rightarrow> (case cache_item_duration C of Some d \<Rightarrow> t \<le> t1 + d \<and> t3 \<le> t1 + d | None \<Rightarrow> True)"
  shows "cache_get t (fst (cache_set (t1, t2, t3, t4) C key val dur)) key = Some val"
proof -
  let ?duration = "case dur of Some d \<Rightarrow> Some d | None \<Rightarrow> cache_item_duration C"
  let ?item = "new_item t1 val ?duration"
  let ?C1 = "C\<lparr>cache_items := bm_insert key ?item (cache_items C)\<rparr>"
  let ?C2 = "remove_expired t3 ?C1"
  have wf1: "bm_wf (cache_items ?C1)" using wf by (simp add: cache_wf_def bm_wf_insert)
  have items: "cache_items ?C2 = filter (\<lambda>e. \<not> expired t3 (snd e)) (cache_items ?C1)"
    by (rule remove_expired_filter [OF wf1])
  have fresh: "\<not> expired t3 ?item" "\<not> expired t ?item"
    using live by (auto simp: expired_def new_item_def split: option.splits)
  have "length (cache_items ?C2) \<le> length (cache_items ?C1)" unfolding items by (rule length_filter_le)
  also have "\<dots> \<le> cache_len C + 1"
    using wf by (simp add: cache_wf_def length_bm_insert cache_len_def)
  finally have "cache_len ?C2 \<le> cache_capacity ?C2" using room by (simp add: cache_len_def remove_expired_def)
  then have "drop_excess t4 ?C2 = ?C2" by (simp add: drop_excess_def)
  then have "fst (cache_set (t1, t2, t3, t4) C key val dur) = ?C2"
    by (simp add: cache_set_def Let_def)
  moreover have "bm_get (cache_items ?C2) key = Some ?item"
  proof -
    have "(key, ?item) \<in> set (cache_items ?C1)"
      using wf1 wf by (simp add: bm_in_set_iff bm_get_insert cache_wf_def)
    with fresh(1) have "(key, ?item) \<in> set (cache_items ?C2)" unfolding items by simp
    moreover have "bm_wf (cache_items ?C2)" unfolding items using wf1 by (rule bm_wf_filter)
    ultimately show ?thesis by (simp add: bm_in_set_iff)
  qed
  ultimately show ?thesis using fresh(2) by (simp add: cache_get_def new_item_def)
qed

theorem cache_get_set_witness:
  "cache_get 5 (fst (cache_set (0, 0, 3, 3) (with_expiry_duration_and_capacity 5 1) (7::nat) (70::nat) None)) 7 = Some 70"
  by (rule cache_get_set)
    (simp_all add: cache_wf_def with_expiry_duration_and_capacity_def cache_len_def bm_wf_Nil)

text \<open>
  A cache with a capacity and no duration does not drop the oldest item: its items have no time, so
  that the sort leaves them in the order of their keys and the smallest keys are dropped. A new item
  with a smaller key than those in a full cache is lost at once.
\<close>

theorem capacity_cache_drops_smallest_key:
  "cache_get t (fst (cache_set now2 (fst (cache_set now1 (with_capacity 1) (1::nat) v1 None)) 0 v2 None)) 0 = None \<and>
   cache_get t (fst (cache_set now2 (fst (cache_set now1 (with_capacity 1) (1::nat) v1 None)) 0 v2 None)) 1 = Some v1"
  by (auto simp: cache_set_def with_capacity_def remove_expired_def drop_excess_def cache_len_def expired_def
      elapsed_def new_item_def bm_remove_def sort_by_def older_first_def cmp_of_def cache_get_def
      split: prod.splits)

end
