(* ===== verification/Node_State.thy ===== *)
theory Node_State
  imports Identities Sections_Dag
begin

section \<open>Node states and relocation\<close>

text \<open>
  \<open>network_knowledge/node_state/mod.rs\<close> and \<open>relocation.rs\<close>: the membership state of a node, the rules
  by which elders accept a proposed change of it, and the proof with which a relocated node joins
  another section.

  A decision of the crate \<open>sn_consensus\<close> has the public fields the code reads, the generation and
  the proposals in the order of its map; the votes it carries are opaque. Generations are \<open>u64\<close> and
  lengths \<open>usize\<close>, both of 64 bits.
\<close>

datatype 't decision =
  Decision (generation: nat) (proposals: "('t \<times> signature) list") (dec_votes: nat)

text \<open>
  A node state holds a membership state, which may hold the decision, on node states, that triggered a
  relocation. The type of node states is therefore a parameter of the other two.
\<close>

datatype 'n relocation_trigger = RelocationTrigger (rt_decision: "'n decision")

datatype 'n membership_state = Joined | Left | Relocated "'n relocation_trigger"

datatype node_state =
    NodeState (ns_node_id: node_id) (ns_state: "node_state membership_state")
      (ns_previous_name: "xor_name option")

abbreviation ns_name :: "node_state \<Rightarrow> xor_name" where
  "ns_name n \<equiv> nid_name (ns_node_id n)"

abbreviation ns_addr :: "node_state \<Rightarrow> socket_addr" where
  "ns_addr n \<equiv> nid_addr (ns_node_id n)"

definition ns_age :: "node_state \<Rightarrow> u8" where
  "ns_age n = nid_age (ns_node_id n)"

definition joined :: "node_id \<Rightarrow> xor_name option \<Rightarrow> node_state" where
  "joined i previous_name = NodeState i Joined previous_name"

definition is_relocated :: "node_state \<Rightarrow> bool" where
  "is_relocated n = (case ns_state n of Relocated _ \<Rightarrow> True | _ \<Rightarrow> False)"

text \<open>\<open>leave\<close> asserts that the node is joined: \<open>None\<close> is the panic.\<close>

definition leave :: "node_state \<Rightarrow> node_state option" where
  "leave n =
     (if ns_state n = Joined then Some (NodeState (ns_node_id n) Left (ns_previous_name n)) else None)"

definition relocate :: "node_state \<Rightarrow> node_state relocation_trigger \<Rightarrow> node_state" where
  "relocate n trigger = NodeState (ns_node_id n) (Relocated trigger) (ns_previous_name n)"

definition validate_node_state ::
  "xor_api \<Rightarrow> string option \<Rightarrow> node_state \<Rightarrow> prefix \<Rightarrow> (xor_name, node_state) bmap \<Rightarrow> xor_name bset
     \<Rightarrow> (unit, nk_error) result" where
  "validate_node_state X env n p current_joined_members archived =
     (let name = ns_name n in
      if \<not> px_matches X p name then Err WrongSection
      else case ns_state n of
        Joined \<Rightarrow>
          (if bm_has current_joined_members name then Err ExistingMemberNameConflict
           else if \<not> section_has_room_for_node X env name p (bm_keys current_joined_members)
             then Err TryJoinLater
           else if list_ex (\<lambda>m. ns_addr m = ns_addr n) (bm_values current_joined_members)
             then Err ExistingMemberSocketAddrConflict
           else if name \<in> set archived then Err ArchivedNodeRejoined
           else Ok ())
      | Relocated _ \<Rightarrow> Ok ()
      | Left \<Rightarrow> if \<not> bm_has current_joined_members name then Err NotAMember else Ok ())"

subsection \<open>Relocation\<close>

definition churn_id :: "key_api \<Rightarrow> node_state relocation_trigger \<Rightarrow> xor_name" where
  "churn_id K t =
     from_content_parts K (map (sig_to_bytes K) (bm_values (proposals (rt_decision t))))"

definition dst_section :: "key_api \<Rightarrow> node_state relocation_trigger \<Rightarrow> xor_name \<Rightarrow> xor_name" where
  "dst_section K t peer_name =
     from_content_parts K (peer_name # map (sig_to_bytes K) (bm_values (proposals (rt_decision t))))"

record section_sig =
  sg_public_key :: public_key
  sg_signature :: signature

definition section_sig_verify :: "bls_api \<Rightarrow> section_sig \<Rightarrow> bytes \<Rightarrow> bool" where
  "section_sig_verify B sg payload = bls_verify B (sg_public_key sg) (sg_signature sg) payload"

record 't section_signed =
  sd_value :: 't
  sd_sig :: section_sig

record relocation_info =
  ri_signed_relocation :: "node_state section_signed"
  ri_new_name :: xor_name

record relocation_proof =
  rp_info :: relocation_info
  rp_self_sig :: ed_signature
  rp_self_old_key :: ed_key

text \<open>The encodings of \<open>bincode\<close>, which may fail.\<close>

record codec_api =
  enc_node_state :: "node_state \<Rightarrow> bytes option"
  enc_relocation_info :: "relocation_info \<Rightarrow> bytes option"

definition old_key_name :: "key_api \<Rightarrow> relocation_proof \<Rightarrow> xor_name" where
  "old_key_name K p = ed_to_bytes K (rp_self_old_key p)"

definition rp_signed_by :: "relocation_proof \<Rightarrow> public_key" where
  "rp_signed_by p = sg_public_key (sd_sig (ri_signed_relocation (rp_info p)))"

definition rp_previous_name :: "relocation_proof \<Rightarrow> xor_name" where
  "rp_previous_name p = ns_name (sd_value (ri_signed_relocation (rp_info p)))"

definition rp_previous_age :: "relocation_proof \<Rightarrow> u8" where
  "rp_previous_age p = ns_age (sd_value (ri_signed_relocation (rp_info p)))"

definition rp_new_name :: "relocation_proof \<Rightarrow> xor_name" where
  "rp_new_name p = ri_new_name (rp_info p)"

definition rp_new_age :: "relocation_proof \<Rightarrow> u8" where
  "rp_new_age p = calc_age (rp_new_name p)"

definition rp_verify ::
  "key_api \<Rightarrow> bls_api \<Rightarrow> codec_api \<Rightarrow> relocation_proof \<Rightarrow> (unit, nk_error) result" where
  "rp_verify K B C p =
     (let signed = ri_signed_relocation (rp_info p) in
      if old_key_name K p \<noteq> ns_name (sd_value signed) then Err InvalidRelocationProof
      else
        and_then (ok_or (enc_relocation_info C (rp_info p)) InvalidRelocationProof)
          (\<lambda>serialized_info.
             if \<not> ed_verify K (rp_self_old_key p) serialized_info (rp_self_sig p)
             then Err InvalidRelocationProof
             else
               and_then (ok_or (enc_node_state C (sd_value signed)) InvalidRelocationProof)
                 (\<lambda>serialized_state.
                    if \<not> section_sig_verify B (sd_sig signed) serialized_state
                    then Err InvalidRelocationProof
                    else Ok ())))"

datatype relocation_state =
    NoRelocation | PreparingToRelocate "node_state relocation_trigger" | ReadyToJoinNewSection relocation_proof

fun relocation_proof_of :: "relocation_state \<Rightarrow> relocation_proof option" where
  "relocation_proof_of (ReadyToJoinNewSection p) = Some p"
| "relocation_proof_of _ = None"

subsection \<open>The membership invariant\<close>

text \<open>
  What the validated changes keep of a section's joined members: each is filed under its name,
  which matches the prefix; no two share an address; neither half of the section is above the
  cap, twice the recommended size.
\<close>

definition half_of :: "xor_api \<Rightarrow> prefix \<Rightarrow> bool \<Rightarrow> xor_name set \<Rightarrow> xor_name set" where
  "half_of X p b names = {n \<in> names. px_matches X (px_pushed X p b) n}"

definition members_inv :: "xor_api \<Rightarrow> string option \<Rightarrow> prefix \<Rightarrow> (xor_name, node_state) bmap \<Rightarrow> bool" where
  "members_inv X env p ms \<longleftrightarrow>
     bm_wf ms \<and>
     (\<forall>name n. bm_get ms name = Some n \<longrightarrow> ns_name n = name \<and> px_matches X p name) \<and>
     (\<forall>name n name' n'. bm_get ms name = Some n \<longrightarrow> bm_get ms name' = Some n'
        \<longrightarrow> ns_addr n = ns_addr n' \<longrightarrow> name = name') \<and>
     (\<forall>b. card (half_of X p b (dom (bm_get ms))) \<le> 2 * recommended_section_size env)"

lemma members_invD:
  assumes "members_inv X env p ms"
  shows mi_wf: "bm_wf ms"
    and mi_name: "bm_get ms k = Some n \<Longrightarrow> ns_name n = k"
    and mi_match: "bm_get ms k = Some n \<Longrightarrow> px_matches X p k"
    and mi_addr: "bm_get ms k = Some n \<Longrightarrow> bm_get ms k' = Some n' \<Longrightarrow> ns_addr n = ns_addr n' \<Longrightarrow> k = k'"
    and mi_half: "card (half_of X p b (dom (bm_get ms))) \<le> 2 * recommended_section_size env"
  using assms unfolding members_inv_def by - (meson | simp)+

text \<open>The effect a decided change has on the joined members.\<close>

definition apply_change ::
  "node_state \<Rightarrow> (xor_name, node_state) bmap \<Rightarrow> (xor_name, node_state) bmap" where
  "apply_change n ms =
     (case ns_state n of
        Joined \<Rightarrow> bm_insert (ns_name n) n ms
      | _ \<Rightarrow> bm_remove (ns_name n) ms)"

lemma card_eq_length: "bs_wf s \<Longrightarrow> card (set s) = length s"
  by (simp add: bs_wf_distinct distinct_card)

lemma room_half:
  assumes X: "xor_api_ok X"
    and room: "section_has_room_for_node X env name p (bm_keys ms)"
  shows "length p < 256"
    and "card (half_of X p (xn_bit X name (length p)) (dom (bm_get ms))) < 2 * recommended_section_size env"
proof -
  obtain zeros ones where part: "partition_by_prefix X p (bm_keys ms) = Some (zeros, ones)"
    and lt: "if xn_bit X name (length p mod 256) then length ones < recommended_section_size env * 2
             else length zeros < recommended_section_size env * 2"
    using room by (auto simp: section_has_room_for_node_def Let_def xor_api_okD [OF X] split: option.splits if_splits)
  show len: "length p < 256" by (rule partition_by_prefix_length [OF X part])
  note sets = partition_by_prefix_children [OF X part] partition_by_prefix_sets(3,4) [OF part]
  have "set zeros = half_of X p False (dom (bm_get ms))" "set ones = half_of X p True (dom (bm_get ms))"
    using sets(1,2) by (auto simp: half_of_def bm_keys_set)
  with card_eq_length [OF sets(3)] card_eq_length [OF sets(4)] lt len
  show "card (half_of X p (xn_bit X name (length p)) (dom (bm_get ms))) < 2 * recommended_section_size env"
    by (auto simp: mult.commute split: if_splits)
qed

lemma half_of_insert:
  assumes X: "xor_api_ok X" and len: "length p < 256"
  shows "half_of X p b (insert name names) =
           (if px_matches X p name \<and> xn_bit X name (length p) = b
            then insert name (half_of X p b names) else half_of X p b names)"
  using matches_pushed [OF X len, of b name] by (auto simp: half_of_def xor_api_okD(1) [OF X])

lemma members_inv_insert:
  assumes X: "xor_api_ok X" and inv: "members_inv X env p ms"
    and name: "px_matches X p (ns_name n)" "bm_get ms (ns_name n) = None"
    and room: "section_has_room_for_node X env (ns_name n) p (bm_keys ms)"
    and addr: "\<forall>m \<in> ran (bm_get ms). ns_addr m \<noteq> ns_addr n"
  shows "members_inv X env p (bm_insert (ns_name n) n ms)"
proof -
  have wf: "bm_wf ms" using inv by (simp add: members_inv_def)
  note get = bm_get_insert [OF wf, of "ns_name n" n]
  have dom: "dom (bm_get (bm_insert (ns_name n) n ms)) = insert (ns_name n) (dom (bm_get ms))"
    unfolding get by auto
  have halves: "card (half_of X p b (dom (bm_get (bm_insert (ns_name n) n ms)))) \<le> 2 * recommended_section_size env" for b
  proof -
    have "finite (half_of X p b (dom (bm_get ms)))"
      by (auto simp: half_of_def finite_dom_map_of)
    moreover have "card (half_of X p b (dom (bm_get ms))) \<le> 2 * recommended_section_size env"
      using inv by (simp add: members_inv_def)
    ultimately show ?thesis
      unfolding dom half_of_insert [OF X room_half(1) [OF X room]] using room_half(2) [OF X room] by (auto simp: card_insert_if)
  qed
  have fresh: "ns_addr m \<noteq> ns_addr n" if "bm_get ms k = Some m" for k m
    using addr that by (auto simp: ran_def)
  show ?thesis
    unfolding members_inv_def
  proof (intro conjI allI impI)
    show "bm_wf (bm_insert (ns_name n) n ms)" by (rule bm_wf_insert [OF wf])
    fix k m assume km: "bm_get (bm_insert (ns_name n) n ms) k = Some m"
    show "ns_name m = k" and "px_matches X p k"
      using km inv name(1) unfolding get members_inv_def by (auto split: if_splits)
    fix k' m' assume "bm_get (bm_insert (ns_name n) n ms) k' = Some m'" and "ns_addr m = ns_addr m'"
    then show "k = k'"
      using km inv fresh [of k m] fresh [of k' m'] unfolding get members_inv_def
      by (metis fun_upd_apply option.inject)
  qed (rule halves)
qed

lemma members_inv_remove:
  assumes inv: "members_inv X env p ms"
  shows "members_inv X env p (bm_remove name ms)"
proof -
  have halves: "card (half_of X p b (dom (bm_get (bm_remove name ms)))) \<le> 2 * recommended_section_size env" for b
  proof -
    have "half_of X p b (dom (bm_get (bm_remove name ms))) \<subseteq> half_of X p b (dom (bm_get ms))"
      by (auto simp: half_of_def bm_get_remove split: if_splits)
    then have "card (half_of X p b (dom (bm_get (bm_remove name ms)))) \<le> card (half_of X p b (dom (bm_get ms)))"
      by (intro card_mono) (auto simp: half_of_def finite_dom_map_of)
    then show ?thesis using mi_half [OF inv] le_trans by blast
  qed
  have old: "bm_get ms k = Some m" if "bm_get (bm_remove name ms) k = Some m" for k m
    using that by (simp add: bm_get_remove split: if_splits)
  show ?thesis
    unfolding members_inv_def
  proof (intro conjI allI impI)
    show "bm_wf (bm_remove name ms)" by (rule bm_wf_remove [OF mi_wf [OF inv]])
    fix k m assume km: "bm_get (bm_remove name ms) k = Some m"
    show "ns_name m = k" and "px_matches X p k"
      using old [OF km] mi_name [OF inv] mi_match [OF inv] by auto
    fix k' m' assume km': "bm_get (bm_remove name ms) k' = Some m'" and "ns_addr m = ns_addr m'"
    then show "k = k'" using mi_addr [OF inv old [OF km] old [OF km']] by simp
  qed (rule halves)
qed

text \<open>
  A change of membership that passes \<open>validate_node_state\<close> keeps the membership invariant: the
  names of the joined members match the prefix, their addresses differ, and neither half of the
  section grows above its cap.
\<close>

theorem validated_change_keeps_members:
  assumes X: "xor_api_ok X" and inv: "members_inv X env p ms"
    and ok: "validate_node_state X env n p ms archived = Ok ()"
  shows "members_inv X env p (apply_change n ms)"
proof (cases "ns_state n")
  case Joined
  have "bm_wf ms" using inv by (simp add: members_inv_def)
  then show ?thesis
    using ok Joined members_inv_insert [OF X inv, of n]
    by (auto simp: validate_node_state_def apply_change_def Let_def bm_has_def list_ex_iff
        bm_values_set split: if_splits)
qed (simp_all add: apply_change_def members_inv_remove [OF inv])

definition sample_name :: "u8 \<Rightarrow> u8 \<Rightarrow> xor_name" where
  "sample_name b age = b # replicate 30 0 @ [age]"

theorem validated_change_keeps_members_witness:
  "members_inv ref_xor None [] (apply_change (joined (NodeId (sample_name 1 5) 9) None) [])"
proof (rule validated_change_keeps_members [OF ref_xor_ok])
  show "members_inv ref_xor None [] []"
    by (simp add: members_inv_def half_of_def bm_wf_Nil)
  show "validate_node_state ref_xor None (joined (NodeId (sample_name 1 5) 9) None) [] [] [] = Ok ()"
    by code_simp
qed

end
