(* ===== verification/Member_History.thy ===== *)
theory Member_History
  imports Node_State Dag_Merge
begin

section \<open>The member history of a section\<close>

text \<open>
  \<open>network_knowledge/section_member_history.rs\<close>: the members of the section as a snapshot taken at the
  last change of elders and the consensus decisions since, with an archive of the nodes that left.

  A \<open>BTreeSet<NodeState>\<close> is given by the list its iterator yields. The sets the code builds from a
  map keyed by name are in the order of the map, since node states compare by name first. The
  check of a decision's votes (\<open>Decision::validate\<close> of \<open>sn_consensus\<close>) is the parameter \<open>validate\<close>.
\<close>

definition ELDER_CHURN_EVENTS_TO_PRUNE_ARCHIVE :: nat where
  "ELDER_CHURN_EVENTS_TO_PRUNE_ARCHIVE = 5"

type_synonym ns_decision = "node_state decision"
type_synonym validator = "public_key \<Rightarrow> ns_decision \<Rightarrow> bool"

record member_history =
  initial_members :: "node_state list"
  decisions :: "ns_decision list"
  archive :: "(xor_name, ns_decision) bmap"

definition new_history :: member_history where
  "new_history = \<lparr> initial_members = [], decisions = [], archive = [] \<rparr>"

definition reset_initial_members :: "member_history \<Rightarrow> node_state list \<Rightarrow> member_history" where
  "reset_initial_members H new_initial_members =
     H\<lparr>initial_members := new_initial_members, decisions := []\<rparr>"

definition changes :: "ns_decision \<Rightarrow> node_state list" where
  "changes d = bm_keys (proposals d)"

definition members_at_gen :: "member_history \<Rightarrow> nat \<Rightarrow> (xor_name, node_state) bmap" where
  "members_at_gen H gen =
     (if gen > length (decisions H) then []
      else
        (let members = bm_from_iter
               (map (\<lambda>n. (ns_name n, n)) (filter (\<lambda>n. ns_state n = Joined) (initial_members H))) in
         if gen = 0 then members
         else fold (\<lambda>i ms. fold apply_change (changes (decisions H ! i)) ms) [0..<gen] members))"

definition history_members :: "member_history \<Rightarrow> node_state list" where
  "history_members H = bm_values (members_at_gen H (length (decisions H)))"

definition archived_members :: "member_history \<Rightarrow> node_state list" where
  "archived_members H =
     concat (map (\<lambda>(name, d). case find (\<lambda>n. ns_name n = name) (changes d) of
        Some n \<Rightarrow> [n] | None \<Rightarrow> []) (archive H))"

definition history_get :: "member_history \<Rightarrow> xor_name \<Rightarrow> node_state option" where
  "history_get H name = find (\<lambda>n. ns_name n = name) (history_members H)"

definition history_is_member :: "member_history \<Rightarrow> xor_name \<Rightarrow> bool" where
  "history_is_member H name = (history_get H name \<noteq> None)"

definition archive_left :: "ns_decision \<Rightarrow> (xor_name, ns_decision) bmap \<Rightarrow> (xor_name, ns_decision) bmap" where
  "archive_left d ar =
     fold (\<lambda>n ar. bm_insert (ns_name n) d ar)
       (filter (\<lambda>n. case ns_state n of Joined \<Rightarrow> False | _ \<Rightarrow> True) (changes d)) ar"

definition history_update ::
  "validator \<Rightarrow> member_history \<Rightarrow> public_key \<Rightarrow> ns_decision
     \<Rightarrow> (member_history \<times> bool, nk_error) result" where
  "history_update validate H section_key new_decision =
     (let incoming_generation = generation new_decision in
      if list_ex (\<lambda>n. n \<in> set (initial_members H))
           (filter (\<lambda>n. ns_state n = Joined) (changes new_decision))
      then Ok (H, False)
      else if incoming_generation = length (decisions H) + 1 then
        (if \<not> validate section_key new_decision then Err Consensus
         else Ok (H\<lparr>decisions := decisions H @ [new_decision],
                    archive := archive_left new_decision (archive H)\<rparr>, True))
      else if incoming_generation \<le> length (decisions H) then Ok (H, False)
      else Err AEOutdated)"

fun history_update_peers ::
  "validator \<Rightarrow> member_history \<Rightarrow> public_key \<Rightarrow> ns_decision list \<Rightarrow> member_history \<times> bool" where
  "history_update_peers validate H section_key [] = (H, False)"
| "history_update_peers validate H section_key (peer # peers) =
     (let (H1, updated) =
        (case history_update validate H section_key peer of Ok r \<Rightarrow> r | Err e \<Rightarrow> (H, False));
          (H2, rest) = history_update_peers validate H1 section_key peers
      in (H2, updated \<or> rest))"

definition history_retain :: "xor_api \<Rightarrow> member_history \<Rightarrow> prefix \<Rightarrow> member_history" where
  "history_retain X H p = H\<lparr>archive := bm_retain (\<lambda>name _. px_matches X p name) (archive H)\<rparr>"

definition signed_by_any :: "bls_api \<Rightarrow> codec_api \<Rightarrow> public_key list \<Rightarrow> ns_decision \<Rightarrow> bool" where
  "signed_by_any B C keys d =
     list_ex (\<lambda>k. list_ex (\<lambda>(n, sg).
        case enc_node_state C n of Some bs \<Rightarrow> bls_verify B k sg bs | None \<Rightarrow> False) (proposals d)) keys"

definition prune_members_archive ::
  "'m dag_api \<Rightarrow> bls_api \<Rightarrow> codec_api \<Rightarrow> member_history \<Rightarrow> 'm sections_dag \<Rightarrow> public_key
     \<Rightarrow> (member_history, nk_error) result" where
  "prune_members_archive M B C H proof_chain tip =
     and_then (get_ancestors M proof_chain tip)
       (\<lambda>ancestors.
          (let latest_section_keys =
             take (ELDER_CHURN_EVENTS_TO_PRUNE_ARCHIVE - 1) ancestors @ [tip] in
           Ok (H\<lparr>archive := bm_retain (\<lambda>_ d. signed_by_any B C latest_section_keys d) (archive H)\<rparr>)))"

subsection \<open>Invariant\<close>

text \<open>
  The decisions are those of the generations 1, 2, and so on, in order; an archived decision
  records that the node it is filed under left or was relocated.
\<close>

definition history_wf :: "member_history \<Rightarrow> bool" where
  "history_wf H \<longleftrightarrow>
     map generation (decisions H) = [1..<length (decisions H) + 1] \<and> bm_wf (archive H) \<and>
     (\<forall>name d. bm_get (archive H) name = Some d \<longrightarrow>
        (\<exists>n \<in> set (changes d). ns_name n = name \<and> ns_state n \<noteq> Joined))"

lemma archive_left_wf: "bm_wf ar \<Longrightarrow> bm_wf (archive_left d ar)"
proof -
  have "bm_wf (fold (\<lambda>n ar. bm_insert (ns_name n) d ar) ns ar)" if "bm_wf ar" for ns
    using that by (induction ns arbitrary: ar) (simp_all add: bm_wf_insert)
  then show "bm_wf ar \<Longrightarrow> bm_wf (archive_left d ar)" by (simp add: archive_left_def)
qed

lemma get_archive_fold:
  "bm_wf ar \<Longrightarrow> bm_get (fold (\<lambda>n ar. bm_insert (ns_name n) d ar) ns ar) name
     = (if name \<in> ns_name ` set ns then Some d else bm_get ar name)"
  by (induction ns arbitrary: ar) (simp_all add: bm_wf_insert bm_get_insert)

lemma gone_iff: "(case s of Joined \<Rightarrow> False | _ \<Rightarrow> True) \<longleftrightarrow> s \<noteq> Joined"
  by (cases s) auto

lemma get_archive_left:
  "bm_wf ar \<Longrightarrow> bm_get (archive_left d ar) name
     = (if \<exists>n \<in> set (changes d). ns_state n \<noteq> Joined \<and> ns_name n = name then Some d
        else bm_get ar name)"
  unfolding archive_left_def gone_iff by (auto simp: get_archive_fold)

lemma history_update_wf:
  assumes wf: "history_wf H" and up: "history_update validate H key d = Ok (H', b)"
  shows "history_wf H'"
proof -
  have ar: "bm_wf (archive H)" using wf by (simp add: history_wf_def)
  show ?thesis
  proof (cases b)
    case False
    then have "H' = H" using up by (auto simp: history_update_def Let_def split: if_splits)
    then show ?thesis using wf by simp
  next
    case True
    then have H': "H' = H\<lparr>decisions := decisions H @ [d], archive := archive_left d (archive H)\<rparr>"
      and g: "generation d = length (decisions H) + 1"
      using up by (auto simp: history_update_def Let_def split: if_splits)
    then show ?thesis
      using wf unfolding history_wf_def H'
      by (auto simp: get_archive_left [OF ar] archive_left_wf [OF ar])
  qed
qed

lemma reset_wf: "history_wf H \<Longrightarrow> history_wf (reset_initial_members H ms)"
  by (simp add: history_wf_def reset_initial_members_def)

lemma retain_archive_wf:
  "history_wf H \<Longrightarrow> history_wf (H\<lparr>archive := bm_retain P (archive H)\<rparr>)"
  by (auto simp: history_wf_def bm_wf_retain bm_get_retain split: option.splits if_splits)

lemma update_peers_wf:
  "history_wf H \<Longrightarrow> history_wf (fst (history_update_peers validate H key ds))"
proof (induction ds arbitrary: H)
  case (Cons d ds)
  show ?case
  proof (cases "history_update validate H key d")
    case (Ok r)
    obtain H1 b where r: "r = (H1, b)" by (cases r)
    from history_update_wf [OF Cons.prems] Ok r have "history_wf H1" by blast
    from Cons.IH [OF this] show ?thesis by (auto simp: Ok r split: prod.splits)
  next
    case (Err e)
    with Cons.IH [OF Cons.prems] show ?thesis by (auto split: prod.splits)
  qed
qed simp

subsection \<open>Members\<close>

definition joined_by_name :: "(xor_name, node_state) bmap \<Rightarrow> bool" where
  "joined_by_name ms \<longleftrightarrow>
     bm_wf ms \<and> (\<forall>k m. bm_get ms k = Some m \<longrightarrow> ns_name m = k \<and> ns_state m = Joined)"

lemma apply_change_joined: "joined_by_name ms \<Longrightarrow> joined_by_name (apply_change n ms)"
  by (cases "ns_state n")
    (auto simp: joined_by_name_def apply_change_def bm_wf_insert bm_wf_remove bm_get_insert bm_get_remove)

lemma fold_changes_joined: "joined_by_name ms \<Longrightarrow> joined_by_name (fold apply_change ns ms)"
  by (induction ns arbitrary: ms) (simp_all add: apply_change_joined)

lemma initial_joined:
  "joined_by_name (bm_from_iter (map (\<lambda>n. (ns_name n, n)) (filter (\<lambda>n. ns_state n = Joined) ns)))"
  by (auto simp: joined_by_name_def bm_wf_extend bm_get_extend bm_wf_Nil dest!: map_of_SomeD)

lemma members_at_gen_Suc:
  assumes "g < length (decisions H)"
  shows "members_at_gen H (Suc g) = fold apply_change (changes (decisions H ! g)) (members_at_gen H g)"
  using assms by (simp add: members_at_gen_def Let_def)

lemma members_at_gen_joined: "joined_by_name (members_at_gen H g)"
proof (induction g)
  case 0
  show ?case by (simp add: members_at_gen_def Let_def initial_joined)
next
  case (Suc g)
  show ?case
  proof (cases "g < length (decisions H)")
    case True
    then show ?thesis by (simp add: members_at_gen_Suc fold_changes_joined Suc.IH)
  next
    case False
    then show ?thesis by (simp add: members_at_gen_def joined_by_name_def bm_wf_Nil)
  qed
qed

text \<open>The members up to a generation depend on the decisions up to it only.\<close>

lemma members_at_gen_prefix:
  assumes "initial_members H' = initial_members H" and "decisions H' = decisions H @ ds"
    and "g \<le> length (decisions H)"
  shows "members_at_gen H' g = members_at_gen H g"
  using assms(3)
proof (induction g)
  case 0
  then show ?case by (simp add: members_at_gen_def assms)
next
  case (Suc g)
  then have g: "g < length (decisions H)" "g < length (decisions H')" using assms(2) by auto
  with Suc show ?case by (simp add: members_at_gen_Suc [OF g(1)] members_at_gen_Suc [OF g(2)] assms(2) nth_append)
qed

lemma history_get_map:
  "history_get H name = bm_get (members_at_gen H (length (decisions H))) name"
proof -
  let ?ms = "members_at_gen H (length (decisions H))"
  have "find (\<lambda>n. ns_name n = name) (map snd ms) = map_of ms name"
    if "\<forall>(k, m) \<in> set ms. ns_name m = k" for ms
    using that by (induction ms) auto
  moreover have "\<forall>(k, m) \<in> set ?ms. ns_name m = k"
    using members_at_gen_joined [of H "length (decisions H)"]
    by (auto simp: joined_by_name_def bm_in_set_iff)
  ultimately show ?thesis by (simp add: history_get_def history_members_def bm_values_def)
qed

text \<open>
  \<open>update\<close> accepts a validated decision of the next generation only: the decision is appended,
  the members of all earlier generations stay what they were, and the current members become the
  previous ones with each decided change applied; a decision that repeats a generation or the join
  of an initial member changes nothing, one that skips a generation is refused.
\<close>

theorem history_update_correct:
  "case history_update validate H key d of
     Err e \<Rightarrow> (e = Consensus \<and> generation d = length (decisions H) + 1 \<and> \<not> validate key d) \<or>
              (e = AEOutdated \<and> generation d > length (decisions H) + 1)
   | Ok (H', changed) \<Rightarrow>
       if changed then
         validate key d \<and> generation d = length (decisions H) + 1 \<and> decisions H' = decisions H @ [d] \<and>
         (\<forall>g \<le> length (decisions H). members_at_gen H' g = members_at_gen H g) \<and>
         members_at_gen H' (length (decisions H')) =
           fold apply_change (changes d) (members_at_gen H (length (decisions H)))
       else H' = H \<and> (generation d \<le> length (decisions H) \<or>
              (\<exists>n \<in> set (changes d). ns_state n = Joined \<and> n \<in> set (initial_members H)))"
proof (cases "history_update validate H key d")
  case (Err e)
  then show ?thesis by (auto simp: history_update_def Let_def split: if_splits)
next
  case (Ok r)
  obtain H' changed where r: "r = (H', changed)" by (cases r)
  show ?thesis
  proof (cases changed)
    case False
    then show ?thesis using Ok r
      by (auto simp: history_update_def Let_def list_ex_iff split: if_splits)
  next
    case True
    then have up: "validate key d" "generation d = length (decisions H) + 1" "decisions H' = decisions H @ [d]"
      "initial_members H' = initial_members H"
      using Ok r by (auto simp: history_update_def Let_def split: if_splits)
    moreover have "members_at_gen H' (length (decisions H')) =
        fold apply_change (changes d) (members_at_gen H (length (decisions H)))"
      using members_at_gen_Suc [of "length (decisions H)" H']
        members_at_gen_prefix [OF up(4,3) le_refl] up(3) by simp
    ultimately show ?thesis using Ok r True members_at_gen_prefix [OF up(4,3)] by simp
  qed
qed

subsection \<open>Catching up\<close>

text \<open>The decisions of one section, from the first generation on.\<close>

definition decided :: "validator \<Rightarrow> public_key \<Rightarrow> node_state list \<Rightarrow> ns_decision list \<Rightarrow> bool" where
  "decided validate key initial ds \<longleftrightarrow>
     (\<forall>i < length ds. generation (ds ! i) = i + 1 \<and> validate key (ds ! i) \<and>
        (\<forall>n \<in> set (changes (ds ! i)). ns_state n = Joined \<longrightarrow> n \<notin> set initial))"

lemma update_peers_known:
  assumes "\<forall>d \<in> set ds. generation d \<le> length (decisions H)"
  shows "history_update_peers validate H key ds = (H, False)"
  using assms by (induction ds) (auto simp: history_update_def Let_def)

lemma update_peers_append:
  "history_update_peers validate H key (ds @ es) =
     (let (H1, a) = history_update_peers validate H key ds;
          (H2, b) = history_update_peers validate H1 key es in (H2, a \<or> b))"
  by (induction ds arbitrary: H) (auto simp: Let_def split: prod.splits)

lemma update_peers_next:
  assumes dec: "decided validate key (initial_members H) ds"
    and k: "decisions H = take k ds" "k \<le> length ds"
  shows "\<exists>H'. history_update_peers validate H key (drop k ds) = (H', k < length ds) \<and>
           decisions H' = ds \<and> initial_members H' = initial_members H"
  using assms
proof (induction "length ds - k" arbitrary: k H)
  case 0
  then show ?case by simp
next
  case (Suc m)
  then have lt: "k < length ds" by simp
  then have drop: "drop k ds = ds ! k # drop (Suc k) ds" by (simp add: Cons_nth_drop_Suc)
  let ?H = "H\<lparr>decisions := decisions H @ [ds ! k], archive := archive_left (ds ! k) (archive H)\<rparr>"
  have "\<not> list_ex (\<lambda>n. n \<in> set (initial_members H)) (filter (\<lambda>n. ns_state n = Joined) (changes (ds ! k)))"
    and "generation (ds ! k) = length (decisions H) + 1" and "validate key (ds ! k)"
    using Suc.prems lt by (auto simp: decided_def list_ex_iff)
  then have step: "history_update validate H key (ds ! k) = Ok (?H, True)"
    by (simp add: history_update_def Let_def)
  have "decisions ?H = take (Suc k) ds" using lt Suc.prems(2) by (simp add: take_Suc_conv_app_nth)
  moreover have "m = length ds - Suc k" using Suc.hyps(2) lt by simp
  ultimately obtain H' where "history_update_peers validate ?H key (drop (Suc k) ds) = (H', Suc k < length ds)"
    "decisions H' = ds" "initial_members H' = initial_members H"
    using Suc.hyps(1) [of "Suc k" ?H] Suc.prems(1) lt by auto
  with step show ?case by (intro exI [of _ H']) (simp add: drop lt)
qed

text \<open>
  A node that has missed decisions catches up: when it holds some of the first decisions of its
  section and receives them all, \<open>update_peers\<close> leaves it with exactly the section's decisions, and
  so with the section's members at every generation, reports whether anything was new, and
  receiving them again changes nothing.
\<close>

theorem update_peers_catches_up:
  assumes dec: "decided validate key (initial_members H) ds"
    and k: "decisions H = take k ds" "k \<le> length ds"
    and peer: "initial_members peer = initial_members H" "decisions peer = ds"
  shows "\<exists>H'. history_update_peers validate H key ds = (H', k < length ds) \<and> decisions H' = ds \<and>
           (\<forall>g. members_at_gen H' g = members_at_gen peer g) \<and>
           history_update_peers validate H' key ds = (H', False)"
proof -
  have gens: "\<forall>d \<in> set (take n ds). generation d \<le> n" for n
    using dec by (force simp: decided_def in_set_conv_nth)
  have "history_update_peers validate H key (take k ds) = (H, False)"
    using gens [of k] k by (intro update_peers_known) simp
  moreover obtain H' where H': "history_update_peers validate H key (drop k ds) = (H', k < length ds)"
    "decisions H' = ds" "initial_members H' = initial_members H"
    using update_peers_next [OF dec k] by blast
  ultimately have "history_update_peers validate H key ds = (H', k < length ds)"
    using update_peers_append [of validate H key "take k ds" "drop k ds"] by simp
  moreover have "members_at_gen H' g = members_at_gen peer g" for g
    unfolding members_at_gen_def H'(2,3) peer ..
  moreover have "history_update_peers validate H' key ds = (H', False)"
    using gens [of "length ds"] H'(2) by (intro update_peers_known) simp
  ultimately show ?thesis using H'(2) by blast
qed

definition sample_decision :: "nat \<Rightarrow> node_state \<Rightarrow> ns_decision" where
  "sample_decision g n = Decision g [(n, 0)] 0"

definition sample_decisions :: "ns_decision list" where
  "sample_decisions =
     [sample_decision 1 (joined (NodeId [1] 1) None), sample_decision 2 (NodeState (NodeId [1] 1) Left None)]"

theorem update_peers_catches_up_witness:
  "\<exists>H'. history_update_peers (\<lambda>_ _. True)
     (new_history\<lparr>decisions := [sample_decision 1 (joined (NodeId [1] 1) None)]\<rparr>) 7 sample_decisions
       = (H', True) \<and> decisions H' = sample_decisions"
proof -
  let ?H = "new_history\<lparr>decisions := [sample_decision 1 (joined (NodeId [1] 1) None)]\<rparr>"
  have "decided (\<lambda>_ _. True) 7 (initial_members ?H) sample_decisions"
    by (auto simp: decided_def sample_decisions_def sample_decision_def new_history_def less_Suc_eq)
  moreover have "decisions ?H = take 1 sample_decisions" "1 \<le> length sample_decisions"
    by (simp_all add: sample_decisions_def)
  ultimately show ?thesis
    using update_peers_catches_up [of "\<lambda>_ _. True" 7 ?H sample_decisions 1
        "new_history\<lparr>decisions := sample_decisions\<rparr>"]
    by (auto simp: new_history_def sample_decisions_def)
qed

theorem history_update_correct_witness:
  "case history_update (\<lambda>_ _. True) new_history 7 (sample_decision 1 (joined (NodeId [1] 1) None)) of
     Ok (H', changed) \<Rightarrow> changed \<and> members_at_gen H' 0 = [] \<and>
       members_at_gen H' 1 = [([1], joined (NodeId [1] 1) None)]
   | Err _ \<Rightarrow> False"
proof -
  let ?d = "sample_decision 1 (joined (NodeId [1] 1) None)"
  note up = history_update_correct [where validate = "\<lambda>_ _. True" and H = new_history and key = 7 and d = ?d]
  have "case history_update (\<lambda>_ _. True) new_history 7 ?d of Ok (_, changed) \<Rightarrow> changed | Err _ \<Rightarrow> False"
    by code_simp
  moreover have "members_at_gen new_history 0 = []"
    "fold apply_change (changes ?d) [] = [([1], joined (NodeId [1] 1) None)]"
    by code_simp+
  ultimately show ?thesis using up by (auto simp: new_history_def split: result.splits prod.splits)
qed

end
