(* ===== verification/Section_Auth.thy ===== *)
theory Section_Auth
  imports Node_State
begin

section \<open>Section authority\<close>

text \<open>
  \<open>network_knowledge/section_authority_provider.rs\<close> (the signed description of a section's elders),
  \<open>messaging/system/section_sig.rs\<close>, \<open>messaging/system/dkg.rs\<close> (the identifier of a key generation
  session) and \<open>network_knowledge/section_keys.rs\<close> (the cache of a node's key shares).
\<close>

record sap =
  sap_prefix :: prefix
  sap_public_key_set :: public_key_set
  sap_elders :: "node_id bset"
  sap_members :: "node_state list"
  sap_membership_gen :: nat

type_synonym signed_sap = "sap section_signed"
type_synonym sap_codec = "sap \<Rightarrow> bytes option"

definition new_sap ::
  "node_id list \<Rightarrow> prefix \<Rightarrow> node_state list \<Rightarrow> public_key_set \<Rightarrow> nat \<Rightarrow> sap" where
  "new_sap elders p members pk_set membership_gen =
     \<lparr> sap_prefix = p, sap_public_key_set = pk_set, sap_elders = bs_from_iter elders,
       sap_members = members, sap_membership_gen = membership_gen \<rparr>"

definition section_key :: "bls_api \<Rightarrow> sap \<Rightarrow> public_key" where
  "section_key B s = pks_public_key B (sap_public_key_set s)"

definition sap_elder_count :: "sap \<Rightarrow> nat" where
  "sap_elder_count s = length (sap_elders s)"

definition contains_elder :: "sap \<Rightarrow> xor_name \<Rightarrow> bool" where
  "contains_elder s name = list_ex (\<lambda>e. nid_name e = name) (sap_elders s)"

definition get_elder :: "sap \<Rightarrow> xor_name \<Rightarrow> node_id option" where
  "get_elder s name = find (\<lambda>e. nid_name e = name) (sap_elders s)"

definition sap_names :: "sap \<Rightarrow> xor_name bset" where
  "sap_names s = bs_from_iter (map nid_name (sap_elders s))"

definition sap_addresses :: "sap \<Rightarrow> socket_addr list" where
  "sap_addresses s = map nid_addr (sap_elders s)"

lemma get_elder_contains: "get_elder s name \<noteq> None \<longleftrightarrow> contains_elder s name"
  by (auto simp: get_elder_def contains_elder_def list_ex_iff find_None_iff)

lemma contains_elder_names: "contains_elder s name \<longleftrightarrow> name \<in> set (sap_names s)"
  by (auto simp: contains_elder_def list_ex_iff sap_names_def set_bs_from_iter)

subsection \<open>Signed values\<close>

definition signed_self_verify :: "bls_api \<Rightarrow> ('t \<Rightarrow> bytes option) \<Rightarrow> 't section_signed \<Rightarrow> bool" where
  "signed_self_verify B enc s =
     (case enc (sd_value s) of
        Some bs \<Rightarrow> section_sig_verify B (sd_sig s) bs
      | None \<Rightarrow> False)"

definition signed_verify ::
  "bls_api \<Rightarrow> ('t \<Rightarrow> bytes option) \<Rightarrow> 't section_signed \<Rightarrow> 'm sections_dag \<Rightarrow> bool" where
  "signed_verify B enc s section_dag =
     (has_key section_dag (sg_public_key (sd_sig s)) \<and> signed_self_verify B enc s)"

datatype sap_candidate =
    ElderHandover signed_sap
  | SectionSplit signed_sap signed_sap

fun candidate_elders :: "sap_candidate \<Rightarrow> node_id list" where
  "candidate_elders (ElderHandover s) = sap_elders (sd_value s)"
| "candidate_elders (SectionSplit s1 s2) = sap_elders (sd_value s1) @ sap_elders (sd_value s2)"

fun candidate_public_key_sets :: "sap_candidate \<Rightarrow> public_key_set bset" where
  "candidate_public_key_sets (ElderHandover s) = bs_from_iter [sap_public_key_set (sd_value s)]"
| "candidate_public_key_sets (SectionSplit s1 s2) =
     bs_from_iter [sap_public_key_set (sd_value s1), sap_public_key_set (sd_value s2)]"

subsection \<open>Key generation sessions\<close>

record dkg_session_id =
  dk_prefix :: prefix
  dk_elders :: "(xor_name, socket_addr) bmap"
  dk_section_chain_len :: u64
  dk_bootstrap_members :: "node_state list"
  dk_membership_gen :: nat

definition elder_names :: "dkg_session_id \<Rightarrow> xor_name list" where
  "elder_names s = bm_keys (dk_elders s)"

definition elder_ids :: "dkg_session_id \<Rightarrow> node_id list" where
  "elder_ids s = map (\<lambda>(name, addr). NodeId name addr) (dk_elders s)"

fun position :: "'a \<Rightarrow> 'a list \<Rightarrow> nat \<Rightarrow> nat option" where
  "position x [] i = None"
| "position x (y # ys) i = (if y = x then Some i else position x ys (Suc i))"

definition elder_index :: "dkg_session_id \<Rightarrow> xor_name \<Rightarrow> nat option" where
  "elder_index s elder = position elder (sort (elder_names s)) 0"

text \<open>
  What \<open>hash_update\<close> feeds the hasher; \<open>to_le_bytes\<close> of a \<open>u64\<close> is its eight bytes, least significant
  first. The hash function is a parameter.
\<close>

definition le_bytes_u64 :: "u64 \<Rightarrow> bytes" where
  "le_bytes_u64 w = map (\<lambda>i. of_nat (unat w div 256 ^ i)) [0..<8]"

definition hash_update :: "xor_api \<Rightarrow> dkg_session_id \<Rightarrow> bytes" where
  "hash_update X s =
     px_name X (dk_prefix s) @ concat (elder_names s) @ le_bytes_u64 (dk_section_chain_len s)
       @ concat (map ns_name (dk_bootstrap_members s))"

definition session_hash :: "(bytes \<Rightarrow> bytes) \<Rightarrow> xor_api \<Rightarrow> dkg_session_id \<Rightarrow> bytes" where
  "session_hash sha3 X s = sha3 (hash_update X s)"

definition session_sh :: "(bytes \<Rightarrow> bytes) \<Rightarrow> xor_api \<Rightarrow> dkg_session_id \<Rightarrow> u16" where
  "session_sh sha3 X s =
     (let h = session_hash sha3 X s in of_nat (unat (h ! 0) + 256 * unat (h ! 1)))"

definition sap_from_dkg_session :: "dkg_session_id \<Rightarrow> public_key_set \<Rightarrow> sap" where
  "sap_from_dkg_session s pk_set =
     new_sap (elder_ids s) (dk_prefix s) (dk_bootstrap_members s) pk_set (dk_membership_gen s)"

lemma position_None: "position x xs i = None \<longleftrightarrow> x \<notin> set xs"
  by (induction x xs i rule: position.induct) auto

lemma position_Some:
  "position x xs i = Some j \<Longrightarrow> i \<le> j \<and> j - i < length xs \<and> xs ! (j - i) = x"
proof (induction x xs i rule: position.induct)
  case (2 x y ys i)
  show ?case
  proof (cases "y = x")
    case True
    with 2 show ?thesis by auto
  next
    case False
    with 2 have "Suc i \<le> j" "j - Suc i < length ys" "ys ! (j - Suc i) = x" by auto
    then show ?thesis by (auto simp: nth_Cons' Suc_diff_le)
  qed
qed simp

lemma sort_bm_keys: "bm_wf m \<Longrightarrow> sort (bm_keys m) = bm_keys m"
  by (simp add: bm_wf_def bm_keys_def sorted_sort_id strict_sorted_imp_sorted)

text \<open>The index of an elder is its place among the session's elders, and so in the section's.\<close>

lemma elder_index_ids:
  assumes "bm_wf (dk_elders s)"
  shows "case elder_index s name of
           Some i \<Rightarrow> i < length (elder_ids s) \<and> nid_name (elder_ids s ! i) = name
         | None \<Rightarrow> name \<notin> nid_name ` set (elder_ids s)"
proof -
  have map: "map nid_name (elder_ids s) = elder_names s"
    by (auto simp: elder_ids_def elder_names_def bm_keys_def)
  have idx: "elder_index s name = position name (elder_names s) 0"
    by (simp add: elder_index_def elder_names_def sort_bm_keys [OF assms])
  show ?thesis
  proof (cases "elder_index s name")
    case None
    then show ?thesis using idx position_None map by (metis list.set_map option.simps(4))
  next
    case (Some i)
    with idx position_Some [of name "elder_names s" 0 i] have "i < length (elder_names s)" "elder_names s ! i = name"
      by auto
    then have "i < length (elder_ids s)" "nid_name (elder_ids s ! i) = name"
      unfolding map [symmetric] by simp_all
    with Some show ?thesis by simp
  qed
qed

lemma sap_from_session_elders:
  assumes wf: "bm_wf (dk_elders s)"
  shows "sap_elders (sap_from_dkg_session s pk) = elder_ids s"
proof -
  have "sorted_wrt (<) (map (\<lambda>(name, addr). NodeId name addr) es)"
    if "sorted_wrt (<) (map fst es)" for es :: "(xor_name, socket_addr) bmap"
    using that by (induction es) (auto simp: less_node_id_def node_id_cmp_def cmp_of_def)
  then have "bs_wf (elder_ids s)" using wf by (simp add: bm_wf_def bs_wf_def elder_ids_def)
  then have "bs_from_iter (elder_ids s) = elder_ids s"
    using bs_unique [OF bs_wf_from_iter] by (metis set_bs_from_iter)
  then show ?thesis by (simp add: sap_from_dkg_session_def new_sap_def)
qed

subsection \<open>The cache of key shares\<close>

text \<open>
  The cache is the crate \<open>uluru\<close>'s \<open>LRUCache\<close>, a parameter: the list its iterator yields, most recent
  first, is all the code reads of it.
\<close>

definition KEY_CACHE_SIZE :: nat where
  "KEY_CACHE_SIZE = 50"

record section_key_share =
  ks_public_key_set :: public_key_set
  ks_index :: nat
  ks_secret_key_share :: nat

record 'c lru_api =
  lru_new :: 'c
  lru_iter :: "'c \<Rightarrow> section_key_share list"
  lru_insert :: "'c \<Rightarrow> section_key_share \<Rightarrow> 'c"
  lru_clear :: "'c \<Rightarrow> 'c"

definition lru_ok :: "'c lru_api \<Rightarrow> bool" where
  "lru_ok L \<longleftrightarrow>
     lru_iter L (lru_new L) = [] \<and>
     (\<forall>c s. lru_iter L (lru_insert L c s) = take KEY_CACHE_SIZE (s # lru_iter L c)) \<and>
     (\<forall>c. lru_iter L (lru_clear L c) = [])"

definition keys_insert :: "'c lru_api \<Rightarrow> 'c \<Rightarrow> section_key_share \<Rightarrow> 'c" where
  "keys_insert L c share = lru_insert L c share"

definition keys_new :: "'c lru_api \<Rightarrow> section_key_share option \<Rightarrow> 'c" where
  "keys_new L current =
     (case current of Some share \<Rightarrow> keys_insert L (lru_new L) share | None \<Rightarrow> lru_new L)"

definition keys_wipe :: "'c lru_api \<Rightarrow> 'c \<Rightarrow> 'c" where
  "keys_wipe L c = lru_clear L c"

definition key_share ::
  "bls_api \<Rightarrow> 'c lru_api \<Rightarrow> 'c \<Rightarrow> public_key \<Rightarrow> (section_key_share, nk_error) result" where
  "key_share B L c key =
     (case find (\<lambda>s. key = pks_public_key B (ks_public_key_set s)) (lru_iter L c) of
        Some s \<Rightarrow> Ok s
      | None \<Rightarrow> Err (MissingSecretKeyShare key))"

definition sign_with ::
  "bls_api \<Rightarrow> (nat \<Rightarrow> bytes \<Rightarrow> signature_share) \<Rightarrow> 'c lru_api \<Rightarrow> 'c \<Rightarrow> bytes \<Rightarrow> public_key
     \<Rightarrow> (nat \<times> signature_share, nk_error) result" where
  "sign_with B sign L c data key =
     map_ok (\<lambda>s. (ks_index s, sign (ks_secret_key_share s) data)) (key_share B L c key)"

definition keys_is_empty :: "'c lru_api \<Rightarrow> 'c \<Rightarrow> bool" where
  "keys_is_empty L c = (lru_iter L c = [])"

text \<open>The instance that keeps the list itself.\<close>

definition ref_lru :: "section_key_share list lru_api" where
  "ref_lru = \<lparr> lru_new = [], lru_iter = (\<lambda>c. c),
     lru_insert = (\<lambda>c s. take KEY_CACHE_SIZE (s # c)), lru_clear = (\<lambda>c. []) \<rparr>"

lemma ref_lru_ok: "lru_ok ref_lru"
  by (simp add: lru_ok_def ref_lru_def)

lemma lru_iter_inserts:
  assumes L: "lru_ok L"
  shows "lru_iter L (fold (\<lambda>s c. keys_insert L c s) shares c)
           = (if shares = [] then lru_iter L c else take KEY_CACHE_SIZE (rev shares @ lru_iter L c))"
proof (induction shares rule: rev_induct)
  case (snoc s shares)
  have "lru_iter L (keys_insert L c' s) = take KEY_CACHE_SIZE (s # lru_iter L c')" for c'
    using L by (simp add: lru_ok_def keys_insert_def)
  with snoc show ?case by (auto simp: take_Cons' min_def)
qed simp

text \<open>
  A key share stays available while fewer than \<open>KEY_CACHE_SIZE\<close> newer shares have been
  inserted: after a share and any \<open>n < 50\<close> later ones, \<open>key_share\<close> of its public key finds it, unless
  a later share is of the same key, which is then the one found.
\<close>

theorem key_share_available:
  assumes L: "lru_ok L" and n: "length later < KEY_CACHE_SIZE"
    and own: "key = pks_public_key B (ks_public_key_set share)"
  shows "key_share B L (fold (\<lambda>s c. keys_insert L c s) (share # later) c) key =
           Ok (case find (\<lambda>s. key = pks_public_key B (ks_public_key_set s)) (rev later) of
                 Some s \<Rightarrow> s | None \<Rightarrow> share)"
proof -
  have "lru_iter L (fold (\<lambda>s c. keys_insert L c s) (share # later) c)
      = rev later @ share # take (KEY_CACHE_SIZE - Suc (length later)) (lru_iter L c)"
    using lru_iter_inserts [OF L, of "share # later" c] n by (simp add: take_Cons' Suc_diff_Suc)
  moreover have "find P (as @ bs) = (case find P as of None \<Rightarrow> find P bs | Some x \<Rightarrow> Some x)"
    for P and as bs :: "section_key_share list" by (induction as) auto
  ultimately show ?thesis by (simp add: key_share_def own split: option.splits)
qed

theorem key_share_available_witness:
  "key_share ref_bls ref_lru
     (fold (\<lambda>s c. keys_insert ref_lru c s)
       [\<lparr> ks_public_key_set = 3, ks_index = 0, ks_secret_key_share = 8 \<rparr>,
        \<lparr> ks_public_key_set = 4, ks_index = 1, ks_secret_key_share = 9 \<rparr>] []) 3
   = Ok \<lparr> ks_public_key_set = 3, ks_index = 0, ks_secret_key_share = 8 \<rparr>"
  using key_share_available [OF ref_lru_ok, of "[\<lparr> ks_public_key_set = 4, ks_index = 1, ks_secret_key_share = 9 \<rparr>]"
      3 ref_bls "\<lparr> ks_public_key_set = 3, ks_index = 0, ks_secret_key_share = 8 \<rparr>" "[]"]
  by (simp add: KEY_CACHE_SIZE_def ref_bls_def)

end
