(* ===== verification/Membership.thy ===== *)
theory Membership
  imports Member_History Section_Auth Comparisons
begin

section \<open>Membership consensus\<close>

text \<open>
  \<open>sn_node/src/node/membership/mod.rs\<close>: the choice of the next elders, the decision to split, and the
  wrapper that runs one round of \<open>sn_consensus\<close> per generation of the membership.

  The consensus itself is a crate. What the code calls of it is the record \<open>consensus_api\<close>: \<open>'c\<close> is
  the state of a round, \<open>'v\<close> a signed vote, \<open>'r\<close> a response, \<open>'t\<close> what is voted on. The clock is an
  argument.
\<close>

record ('c, 'v, 'r, 't) consensus_api =
  cs_from :: "nat \<Rightarrow> public_key_set \<Rightarrow> nat \<Rightarrow> 'c"
  cs_secret_key :: "'c \<Rightarrow> nat"
  cs_elders :: "'c \<Rightarrow> public_key_set"
  cs_n_elders :: "'c \<Rightarrow> nat"
  cs_decision :: "'c \<Rightarrow> 't decision option"
  cs_handle_signed_vote :: "'c \<Rightarrow> 'v \<Rightarrow> 'c \<times> 'r option"
  cs_sign_proposal :: "'c \<Rightarrow> nat \<Rightarrow> 't \<Rightarrow> 'v option"
  cs_is_byzantine :: "'c \<Rightarrow> 'v \<Rightarrow> bool"
  cs_cast_vote :: "'c \<Rightarrow> 'v \<Rightarrow> 'c \<times> 'v option"
  cs_votes :: "'c \<Rightarrow> 'v list"
  cs_super_majority_vote :: "'c \<Rightarrow> nat \<Rightarrow> 'v option"
  cs_processed :: "'c \<Rightarrow> 'v \<Rightarrow> bool"
  vote_gen :: "'v \<Rightarrow> nat"
  vote_proposals :: "'v \<Rightarrow> 't list"
  vote_signed_for :: "'v \<Rightarrow> public_key_set \<Rightarrow> bool"

datatype membership_error =
    ConsensusError | BadGeneration nat nat | InvalidGeneration nat | RequestAntiEntropy
  | InvalidProposal | NetworkKnowledgeError nk_error

subsection \<open>Elder candidates\<close>

definition cmp_elder_candidates :: "sap \<Rightarrow> node_state \<Rightarrow> node_state \<Rightarrow> ordering" where
  "cmp_elder_candidates current_elders lhs rhs =
     (case cmp_of (ns_age rhs) (ns_age lhs) of
        Equal \<Rightarrow>
          (case (contains_elder current_elders (ns_name lhs), contains_elder current_elders (ns_name rhs)) of
             (True, False) \<Rightarrow> Less
           | (False, True) \<Rightarrow> Greater
           | _ \<Rightarrow> cmp_of (ns_name lhs) (ns_name rhs))
      | c \<Rightarrow> c)"

text \<open>
  The candidates are the members of a section, whose names differ, so that the set they are
  collected into is ordered by name.
\<close>

definition elder_candidates :: "string option \<Rightarrow> node_state list \<Rightarrow> sap \<Rightarrow> node_state list" where
  "elder_candidates env candidates current_elders =
     sort_key ns_name
       (take (elder_count env) (sort_by (cmp_elder_candidates current_elders) candidates))"

subsection \<open>Splitting\<close>

definition get_split_info ::
  "xor_api \<Rightarrow> string option \<Rightarrow> prefix \<Rightarrow> (xor_name, node_state) bmap
     \<Rightarrow> (node_state list \<times> node_state list) option" where
  "get_split_info X env p members =
     (case partition_by_prefix X p (bm_keys members) of
        None \<Rightarrow> None
      | Some (zero, one) \<Rightarrow>
          (let split_threshold = recommended_section_size env in
           if length zero < split_threshold \<or> length one < split_threshold then None
           else Some (map (\<lambda>n. the (bm_get members n)) zero, map (\<lambda>n. the (bm_get members n)) one)))"

definition try_split_dkg ::
  "xor_api \<Rightarrow> string option \<Rightarrow> (xor_name, node_state) bmap \<Rightarrow> sap \<Rightarrow> u64 \<Rightarrow> nat
     \<Rightarrow> (dkg_session_id \<times> dkg_session_id) option" where
  "try_split_dkg X env members s section_chain_len membership_gen =
     (let p = sap_prefix s in
      case get_split_info X env p members of
        None \<Rightarrow> None
      | Some (zero, one) \<Rightarrow>
          (let session = (\<lambda>bit half. \<lparr> dk_prefix = px_pushed X p bit,
                 dk_elders = bm_from_iter (map (\<lambda>n. (ns_name n, ns_addr n)) (elder_candidates env half s)),
                 dk_section_chain_len = section_chain_len,
                 dk_bootstrap_members = half,
                 dk_membership_gen = membership_gen \<rparr>)
           in Some (session False zero, session True one)))"

subsection \<open>Rounds of consensus\<close>

record 'c membership =
  ms_consensus :: 'c
  ms_bootstrap_members :: "node_state list"
  ms_gen :: nat
  ms_history :: "(nat, ns_decision \<times> 'c) bmap"
  ms_last_received_vote_time :: "nat option"

type_synonym ('c, 'v, 'r) ns_consensus = "('c, 'v, 'r, node_state) consensus_api"

definition membership_from ::
  "('c, 'v, 'r) ns_consensus \<Rightarrow> nat \<Rightarrow> public_key_set \<Rightarrow> nat \<Rightarrow> node_state list \<Rightarrow> 'c membership" where
  "membership_from A secret_key elders n_elders bootstrap_members =
     \<lparr> ms_consensus = cs_from A secret_key elders n_elders, ms_bootstrap_members = bootstrap_members,
       ms_gen = 0, ms_history = [], ms_last_received_vote_time = None \<rparr>"

definition consensus_at_gen :: "'c membership \<Rightarrow> nat \<Rightarrow> ('c, membership_error) result" where
  "consensus_at_gen S gen =
     (if gen = ms_gen S + 1 then Ok (ms_consensus S)
      else map_ok snd (ok_or (bm_get (ms_history S) gen) (BadGeneration gen (ms_gen S))))"

definition ms_archived_members :: "'c membership \<Rightarrow> xor_name bset" where
  "ms_archived_members S =
     fold (\<lambda>d acc. fold (\<lambda>n acc. if ns_state n = Joined then acc else bs_insert (ns_name n) acc) (changes d) acc)
       (map fst (bm_values (ms_history S)))
       (bs_from_iter (map ns_name (filter (\<lambda>n. ns_state n \<noteq> Joined) (ms_bootstrap_members S))))"

fun section_members_loop ::
  "nat \<Rightarrow> (nat \<times> ns_decision \<times> 'c) list \<Rightarrow> (xor_name, node_state) bmap
     \<Rightarrow> ((xor_name, node_state) bmap, membership_error) result" where
  "section_members_loop gen [] members = Err (InvalidGeneration gen)"
| "section_members_loop gen ((history_gen, d, c) # rest) members =
     (let members' = fold apply_change (changes d) members in
      if history_gen = gen then Ok members' else section_members_loop gen rest members')"

definition ms_section_members ::
  "'c membership \<Rightarrow> nat \<Rightarrow> ((xor_name, node_state) bmap, membership_error) result" where
  "ms_section_members S gen =
     (let members = bm_from_iter
        (map (\<lambda>n. (ns_name n, n)) (filter (\<lambda>n. ns_state n = Joined) (ms_bootstrap_members S))) in
      if gen = 0 then Ok members else section_members_loop gen (ms_history S) members)"

fun validate_all ::
  "xor_api \<Rightarrow> string option \<Rightarrow> prefix \<Rightarrow> (xor_name, node_state) bmap \<Rightarrow> xor_name bset \<Rightarrow> node_state list
     \<Rightarrow> (unit, membership_error) result" where
  "validate_all X env p members archived [] = Ok ()"
| "validate_all X env p members archived (n # ns) =
     and_then (map_err NetworkKnowledgeError (validate_node_state X env n p members archived))
       (\<lambda>_. validate_all X env p members archived ns)"

definition validate_proposals ::
  "('c, 'v, 'r) ns_consensus \<Rightarrow> xor_api \<Rightarrow> string option \<Rightarrow> 'c membership \<Rightarrow> 'v \<Rightarrow> prefix
     \<Rightarrow> (unit, membership_error) result" where
  "validate_proposals A X env S signed_vote p =
     (let gen = vote_gen A signed_vote;
          outdated = (if gen > 1 then
             (case bm_get (ms_history S) (gen - 1) of
                Some (prev_decision, _) \<Rightarrow>
                  list_all (\<lambda>n. n \<in> set (changes prev_decision)) (vote_proposals A signed_vote)
              | None \<Rightarrow> False) else False)
      in
      if outdated then Err InvalidProposal
      else if \<not> vote_signed_for A signed_vote (cs_elders A (ms_consensus S)) then Err ConsensusError
      else
        and_then (map_err (\<lambda>_. RequestAntiEntropy) (consensus_at_gen S gen))
          (\<lambda>_. and_then (ms_section_members S (gen - 1))
             (\<lambda>members. validate_all X env p members (ms_archived_members S)
                (vote_proposals A signed_vote))))"

definition ms_cast_vote ::
  "('c, 'v, 'r) ns_consensus \<Rightarrow> nat \<Rightarrow> 'c membership \<Rightarrow> 'v \<Rightarrow> 'c membership \<times> ('v, membership_error) result" where
  "ms_cast_vote A now S signed_vote =
     (let (c, r) = cs_cast_vote A (ms_consensus S) signed_vote in
      (S\<lparr>ms_last_received_vote_time := Some now, ms_consensus := c\<rparr>, ok_or r ConsensusError))"

definition ms_propose ::
  "('c, 'v, 'r) ns_consensus \<Rightarrow> xor_api \<Rightarrow> string option \<Rightarrow> nat \<Rightarrow> 'c membership \<Rightarrow> node_state \<Rightarrow> prefix
     \<Rightarrow> 'c membership \<times> ('v, membership_error) result" where
  "ms_propose A X env now S n p =
     (case cs_sign_proposal A (ms_consensus S) (ms_gen S + 1) n of
        None \<Rightarrow> (S, Err ConsensusError)
      | Some signed_vote \<Rightarrow>
          (case validate_proposals A X env S signed_vote p of
             Err e \<Rightarrow> (S, Err e)
           | Ok _ \<Rightarrow>
               if cs_is_byzantine A (ms_consensus S) signed_vote then (S, Err InvalidProposal)
               else ms_cast_vote A now S signed_vote))"

text \<open>
  What the crate does with a proposal that it takes: the signed vote is for the proposal alone, in the given generation
  and under the key of the voters, contradicts no earlier vote, and is cast.
\<close>

definition proposal_taken :: "('c, 'v, 'r) ns_consensus \<Rightarrow> 'c \<Rightarrow> nat \<Rightarrow> node_state \<Rightarrow> 'v \<Rightarrow> 'c \<Rightarrow> 'v \<Rightarrow> bool" where
  "proposal_taken A con gen n v con' v' \<longleftrightarrow>
     cs_sign_proposal A con gen n = Some v \<and> vote_gen A v = gen \<and> vote_proposals A v = [n] \<and>
     vote_signed_for A v (cs_elders A con) \<and> \<not> cs_is_byzantine A con v \<and> cs_cast_vote A con v = (con', Some v')"

lemma ms_propose_taken:
  assumes taken: "proposal_taken A (ms_consensus M) (ms_gen M + 1) n v con v'"
    and members: "ms_section_members M (ms_gen M) = Ok ms"
    and valid: "validate_node_state X env n p ms (ms_archived_members M) = Ok ()"
    and undecided: "\<forall>d c. bm_get (ms_history M) (ms_gen M) = Some (d, c) \<longrightarrow> n \<notin> set (changes d)"
  shows "ms_propose A X env now M n p = (M\<lparr>ms_last_received_vote_time := Some now, ms_consensus := con\<rparr>, Ok v')"
proof -
  have "validate_proposals A X env M v p = Ok ()"
    using taken members valid undecided
    by (auto simp: validate_proposals_def proposal_taken_def consensus_at_gen_def split: option.splits)
  then show ?thesis using taken by (simp add: ms_propose_def proposal_taken_def ms_cast_vote_def)
qed

fun collect_votes :: "'v option list \<Rightarrow> ('v list, membership_error) result" where
  "collect_votes [] = Ok []"
| "collect_votes (v # vs) =
     and_then (ok_or v ConsensusError) (\<lambda>x. map_ok (Cons x) (collect_votes vs))"

definition ms_anti_entropy ::
  "('c, 'v, 'r) ns_consensus \<Rightarrow> 'c membership \<Rightarrow> nat \<Rightarrow> ('v list, membership_error) result" where
  "ms_anti_entropy A S from_gen =
     map_ok (\<lambda>msgs. msgs @ cs_votes A (ms_consensus S))
       (collect_votes (map (\<lambda>(gen, _, c). cs_super_majority_vote A c gen)
          (filter (\<lambda>(gen, _). gen \<ge> from_gen) (ms_history S))))"

text \<open>
  The consensus instance of the vote's generation is the current one or one of the history; it is
  written back after it has handled the vote, whether or not it succeeded.
\<close>

definition store_consensus :: "'c membership \<Rightarrow> nat \<Rightarrow> 'c \<Rightarrow> 'c membership" where
  "store_consensus S gen c =
     (if gen = ms_gen S + 1 then S\<lparr>ms_consensus := c\<rparr>
      else case bm_get (ms_history S) gen of
             Some (d, _) \<Rightarrow> S\<lparr>ms_history := bm_insert gen (d, c) (ms_history S)\<rparr>
           | None \<Rightarrow> S)"

definition ms_handle_signed_vote ::
  "('c, 'v, 'r) ns_consensus \<Rightarrow> xor_api \<Rightarrow> string option \<Rightarrow> nat \<Rightarrow> 'c membership \<Rightarrow> 'v \<Rightarrow> prefix
     \<Rightarrow> 'c membership \<times> ('r \<times> ns_decision option, membership_error) result" where
  "ms_handle_signed_vote A X env now S signed_vote p =
     (case validate_proposals A X env S signed_vote p of
        Err e \<Rightarrow> (S, Err e)
      | Ok _ \<Rightarrow>
          (let gen = vote_gen A signed_vote;
               is_ongoing_consensus = (gen = ms_gen S + 1)
           in case consensus_at_gen S gen of
             Err e \<Rightarrow> (S, Err e)
           | Ok consensus \<Rightarrow>
               (let is_fresh_vote = \<not> cs_processed A consensus signed_vote;
                    (c, response) = cs_handle_signed_vote A consensus signed_vote;
                    S1 = store_consensus S gen c
                in case response of
                  None \<Rightarrow> (S1, Err ConsensusError)
                | Some vote_response \<Rightarrow>
                    (case cs_decision A c of
                       Some d \<Rightarrow>
                         if is_ongoing_consensus then
                           (S1\<lparr>ms_last_received_vote_time := None,
                               ms_consensus := cs_from A (cs_secret_key A c) (cs_elders A c) (cs_n_elders A c),
                               ms_history := bm_insert gen (d, c) (ms_history S1),
                               ms_gen := gen\<rparr>, Ok (vote_response, Some d))
                         else (S1, Ok (vote_response, None))
                     | None \<Rightarrow>
                         (if is_ongoing_consensus \<and> is_fresh_vote
                          then S1\<lparr>ms_last_received_vote_time := Some now\<rparr> else S1,
                          Ok (vote_response, None))))))"

section \<open>Properties of the membership\<close>

subsection \<open>Elder candidates\<close>

lemma candidates_order: "total_order (cmp_elder_candidates s)"
  unfolding total_order_def cmp_elder_candidates_def cmp_of_def
  by (auto split: if_splits bool.splits)

lemma candidates_better:
  "cmp_elder_candidates s a b \<noteq> Greater \<Longrightarrow> ns_age b \<le> ns_age a \<and>
     (ns_age b = ns_age a \<and> contains_elder s (ns_name b) \<longrightarrow> contains_elder s (ns_name a))"
  by (auto simp: cmp_elder_candidates_def cmp_of_def split: if_splits bool.splits)

text \<open>
  \<open>elder_candidates\<close> chooses as many candidates as there are to be elders, or all of them if there
  are fewer; none that is left out is older than one that is chosen, and of the same age a current
  elder is never left out for a node that is not one.
\<close>

theorem elder_candidates_correct:
  assumes "distinct candidates"
  shows "set (elder_candidates env candidates s) \<subseteq> set candidates \<and>
    distinct (elder_candidates env candidates s) \<and>
    length (elder_candidates env candidates s) = min (elder_count env) (length candidates) \<and>
    (\<forall>chosen \<in> set (elder_candidates env candidates s).
       \<forall>other \<in> set candidates - set (elder_candidates env candidates s).
         ns_age other \<le> ns_age chosen \<and>
         (ns_age other = ns_age chosen \<and> contains_elder s (ns_name other)
            \<longrightarrow> contains_elder s (ns_name chosen)))"
proof -
  let ?l = "sort_by (cmp_elder_candidates s) candidates"
  let ?t = "take (elder_count env) ?l"
  have m: "mset ?l = mset candidates" by (rule mset_sort_by)
  then have l: "set ?l = set candidates" "distinct ?l" "length ?l = length candidates"
    using assms mset_eq_imp_distinct_iff by (metis set_mset_mset, blast, metis size_mset)
  have set: "set (elder_candidates env candidates s) = set ?t" by (simp add: elder_candidates_def)
  have "ns_age other \<le> ns_age chosen \<and> (ns_age other = ns_age chosen \<and> contains_elder s (ns_name other)
      \<longrightarrow> contains_elder s (ns_name chosen))"
    if "chosen \<in> set ?t" "other \<in> set candidates - set ?t" for chosen other
    using take_sort_by [OF candidates_order that(1)] that(2) by (intro candidates_better) blast
  then show ?thesis
    unfolding set using l set_take_subset [of "elder_count env" ?l]
    by (auto simp: elder_candidates_def)
qed

theorem elder_candidates_correct_witness:
  "length (elder_candidates None
     [joined (NodeId (sample_name 1 5) 1) None, joined (NodeId (sample_name 2 6) 2) None]
     (new_sap [] [] [] 1 0)) = 2"
proof -
  have "distinct [joined (NodeId (sample_name 1 5) 1) None, joined (NodeId (sample_name 2 6) 2) None]"
    by (simp add: joined_def sample_name_def)
  from elder_candidates_correct [OF this, of None] show ?thesis
    by (simp add: elder_count_def DEFAULT_ELDER_COUNT_def)
qed

subsection \<open>Splitting\<close>

lemma split_half:
  assumes keyed: "\<And>k m. bm_get members k = Some m \<Longrightarrow> ns_name m = k"
    and half: "set names \<subseteq> dom (bm_get members)"
  shows "map ns_name (map (\<lambda>n. the (bm_get members n)) names) = names"
  using half
proof (induction names)
  case (Cons n names)
  then obtain m where "bm_get members n = Some m" by auto
  with Cons keyed show ?case by auto
qed simp

lemma session_elders:
  assumes "distinct (map ns_name half)" and "elder_count env \<le> length half"
  shows "length (bm_from_iter (map (\<lambda>n. (ns_name n, ns_addr n)) (elder_candidates env half s))) = elder_count env"
    and "bm_keys (bm_from_iter (map (\<lambda>n. (ns_name n, ns_addr n)) (elder_candidates env half s)))
           = map ns_name (elder_candidates env half s)"
proof -
  let ?l = "sort_by (cmp_elder_candidates s) half"
  have m: "mset ?l = mset half" by (rule mset_sort_by)
  have d: "distinct (map ns_name (take (elder_count env) ?l))"
    using assms(1) m by (metis distinct_take mset_eq_imp_distinct_iff mset_map take_map)
  have len: "length ?l = length half" using m by (metis size_mset)
  let ?c = "elder_candidates env half s"
  have c: "mset ?c = mset (take (elder_count env) ?l)" by (simp add: elder_candidates_def)
  have sorted: "sorted_wrt (<) (map ns_name ?c)"
  proof -
    have "distinct (map ns_name ?c)" using d c by (metis mset_eq_imp_distinct_iff mset_map)
    moreover have "sorted (map ns_name ?c)" by (simp add: elder_candidates_def)
    ultimately show ?thesis by (simp add: strict_sorted_iff)
  qed
  with bm_extend_sorted [of "[]" "map (\<lambda>n. (ns_name n, ns_addr n)) ?c"]
  show keys: "bm_keys (bm_from_iter (map (\<lambda>n. (ns_name n, ns_addr n)) ?c)) = map ns_name ?c"
    by (simp add: bm_keys_def comp_def bm_wf_def)
  have "length ?c = elder_count env" using len assms(2) by (simp add: elder_candidates_def)
  with arg_cong [OF keys, of length]
  show "length (bm_from_iter (map (\<lambda>n. (ns_name n, ns_addr n)) ?c)) = elder_count env" by simp
qed

definition half_session ::
  "xor_api \<Rightarrow> string option \<Rightarrow> (xor_name, node_state) bmap \<Rightarrow> sap \<Rightarrow> bool \<Rightarrow> dkg_session_id \<Rightarrow> bool" where
  "half_session X env members s b d \<longleftrightarrow>
     dk_prefix d = sap_prefix s @ [b] \<and>
     ns_name ` set (dk_bootstrap_members d) = half_of X (sap_prefix s) b (dom (bm_get members)) \<and>
     recommended_section_size env \<le> length (dk_bootstrap_members d) \<and>
     length (dk_elders d) = elder_count env \<and>
     set (elder_names d) \<subseteq> half_of X (sap_prefix s) b (dom (bm_get members)) \<and>
     (\<forall>name \<in> set (elder_names d). px_matches X (dk_prefix d) name)"

lemma half_session_ok:
  assumes X: "xor_api_ok X" and short: "length (sap_prefix s) < 256" and keyed: "\<And>k m. bm_get members k = Some m \<Longrightarrow> ns_name m = k"
    and names: "set names = half_of X (sap_prefix s) b (dom (bm_get members))" "bs_wf names"
    and enough: "recommended_section_size env \<le> length names"
    and half: "half = map (\<lambda>n. the (bm_get members n)) names"
    and d: "d = \<lparr> dk_prefix = px_pushed X (sap_prefix s) b,
       dk_elders = bm_from_iter (map (\<lambda>n. (ns_name n, ns_addr n)) (elder_candidates env half s)),
       dk_section_chain_len = len, dk_bootstrap_members = half, dk_membership_gen = gen \<rparr>"
  shows "half_session X env members s b d"
proof -
  have map: "map ns_name half = names"
    unfolding half using names(1) by (intro split_half keyed) (auto simp: half_of_def)
  then have dist: "distinct (map ns_name half)" using bs_wf_distinct [OF names(2)] by simp
  have len: "length half = length names" by (simp add: half)
  then have "elder_count env \<le> length half" using enough by (simp add: recommended_section_size_def)
  note el = session_elders [OF dist this, of s]
  have "set (elder_candidates env half s) \<subseteq> set half"
    using set_take_subset [of "elder_count env" "sort_by (cmp_elder_candidates s) half"]
    by (simp add: elder_candidates_def set_sort_by)
  then have "set (elder_names d) \<subseteq> set names"
    unfolding map [symmetric] by (auto simp: d elder_names_def el(2))
  moreover have "ns_name ` set half = set names" using map by (metis list.set_map)
  ultimately show ?thesis
    using enough len el(1) names(1)
    by (auto simp: half_session_def d half_of_def xor_api_okD(5) [OF X short])
qed

text \<open>
  C23. A section splits exactly when both halves have the recommended size. The two sessions are for
  the two child prefixes, start from the members whose names match them, and each has the full
  number of elders, all chosen among these members.
\<close>

theorem try_split_dkg_correct:
  assumes X: "xor_api_ok X" and inv: "members_inv X env (sap_prefix s) members"
  shows "case try_split_dkg X env members s len gen of
           None \<Rightarrow> 256 \<le> length (sap_prefix s) \<or>
             (\<exists>b. card (half_of X (sap_prefix s) b (dom (bm_get members))) < recommended_section_size env)
         | Some (zero, one) \<Rightarrow>
             half_session X env members s False zero \<and> half_session X env members s True one"
proof (cases "partition_by_prefix X (sap_prefix s) (bm_keys members)")
  case None
  then have "256 \<le> length (sap_prefix s)"
    by (auto simp: partition_by_prefix_def Let_def xor_api_okD [OF X] split: if_splits)
  with None show ?thesis by (simp add: try_split_dkg_def get_split_info_def)
next
  case (Some zo)
  obtain zeros ones where zo: "zo = (zeros, ones)" by (cases zo)
  note part = partition_by_prefix_children [OF X Some [unfolded zo]]
    partition_by_prefix_sets(3,4) [OF Some [unfolded zo]]
  have sets: "set zeros = half_of X (sap_prefix s) False (dom (bm_get members))"
    "set ones = half_of X (sap_prefix s) True (dom (bm_get members))"
    using part(1,2) by (auto simp: half_of_def bm_keys_set)
  show ?thesis
  proof (cases "length zeros < recommended_section_size env \<or> length ones < recommended_section_size env")
    case True
    then have "\<exists>b. card (half_of X (sap_prefix s) b (dom (bm_get members))) < recommended_section_size env"
      using card_eq_length [OF part(3)] card_eq_length [OF part(4)] sets by metis
    with True Some zo show ?thesis by (simp add: try_split_dkg_def get_split_info_def Let_def)
  next
    case False
    have short: "length (sap_prefix s) < 256" by (rule partition_by_prefix_length [OF X Some [unfolded zo]])
    have name: "ns_name m = k" if "bm_get members k = Some m" for k m using mi_name [OF inv that] .
    show ?thesis
      using half_session_ok [OF X short name sets(1) part(3) _ refl refl, of env]
        half_session_ok [OF X short name sets(2) part(4) _ refl refl, of env] False Some zo
      by (simp add: try_split_dkg_def get_split_info_def Let_def)
  qed
qed

definition sample_members :: "(xor_name, node_state) bmap" where
  "sample_members = map (\<lambda>n. (ns_name n, n))
     [joined (NodeId [1] 1) None, joined (NodeId [2] 2) None,
      joined (NodeId [128] 3) None, joined (NodeId [129] 4) None]"

lemma sample_elder_count: "elder_count (Some ''1'') = 1"
  by (simp add: elder_count_def parse_usize_def)

lemma sample_half: "half_of ref_xor [] b (dom (bm_get sample_members)) = (if b then {[128], [129]} else {[1], [2]})"
  by (auto simp: half_of_def ref_xor_def ref_bit_def sample_members_def joined_def split: if_splits)

lemma sample_members_inv: "members_inv ref_xor (Some ''1'') [] sample_members"
proof -
  have "bm_wf sample_members" by (simp add: bm_wf_def sample_members_def joined_def)
  moreover have "card (half_of ref_xor [] b (dom (bm_get sample_members))) \<le> 2 * recommended_section_size (Some ''1'')" for b
    unfolding sample_half by (simp add: recommended_section_size_def sample_elder_count)
  moreover have "px_matches ref_xor [] k" for k by (simp add: ref_xor_def)
  moreover have "\<forall>name n. bm_get sample_members name = Some n \<longrightarrow> ns_name n = name"
    "\<forall>name n name' n'. bm_get sample_members name = Some n \<longrightarrow> bm_get sample_members name' = Some n'
       \<longrightarrow> ns_addr n = ns_addr n' \<longrightarrow> name = name'"
    by (auto simp: sample_members_def joined_def split: if_splits)
  ultimately show ?thesis unfolding members_inv_def by blast
qed

theorem try_split_dkg_correct_witness:
  "\<exists>zero one. try_split_dkg ref_xor (Some ''1'') sample_members (new_sap [] [] [] 1 0) 1 1 = Some (zero, one) \<and>
     dk_prefix zero = [False] \<and> length (dk_elders one) = 1"
proof -
  have inv: "members_inv ref_xor (Some ''1'') (sap_prefix (new_sap [] [] [] 1 0)) sample_members"
    using sample_members_inv by (simp add: new_sap_def)
  have "\<not> card (half_of ref_xor [] b (dom (bm_get sample_members))) < recommended_section_size (Some ''1'')" for b
    unfolding sample_half by (simp add: recommended_section_size_def sample_elder_count)
  with try_split_dkg_correct [OF ref_xor_ok inv, of 1 1] show ?thesis
    by (auto simp: new_sap_def half_session_def sample_elder_count split: option.splits)
qed

subsection \<open>Generations\<close>

text \<open>The history has exactly the generations decided so far.\<close>

definition membership_wf :: "'c membership \<Rightarrow> bool" where
  "membership_wf S \<longleftrightarrow> map fst (ms_history S) = [1..<ms_gen S + 1]"

definition ms_decisions :: "'c membership \<Rightarrow> ns_decision list" where
  "ms_decisions S = map (\<lambda>e. fst (snd e)) (ms_history S)"

lemma membership_wf_map: "membership_wf S \<Longrightarrow> bm_wf (ms_history S)"
  unfolding membership_wf_def bm_wf_def by (simp only: sorted_wrt_upt)

lemma membership_wf_get:
  "membership_wf S \<Longrightarrow> bm_get (ms_history S) g \<noteq> None \<longleftrightarrow> 1 \<le> g \<and> g \<le> ms_gen S"
  unfolding membership_wf_def by (metis Suc_eq_plus1 atLeastLessThan_iff less_Suc_eq_le list.set_map map_of_eq_None_iff set_upt)

lemma store_consensus_keeps:
  assumes wf: "membership_wf S"
  shows "membership_wf (store_consensus S gen c) \<and> ms_gen (store_consensus S gen c) = ms_gen S \<and>
    ms_decisions (store_consensus S gen c) = ms_decisions S \<and>
    ms_bootstrap_members (store_consensus S gen c) = ms_bootstrap_members S"
proof (cases "gen = ms_gen S + 1 \<or> bm_get (ms_history S) gen = None")
  case True
  then show ?thesis using wf by (auto simp: store_consensus_def membership_wf_def ms_decisions_def)
next
  case False
  then obtain d c0 where get: "bm_get (ms_history S) gen = Some (d, c0)" by auto
  have h: "bm_insert gen (d, c) (ms_history S) = map (\<lambda>e. if fst e = gen then (gen, d, c) else e) (ms_history S)"
    by (rule bm_insert_replace [OF membership_wf_map [OF wf] get])
  have "fst (snd e) = d" if "e \<in> set (ms_history S)" "fst e = gen" for e
    using that get bm_wf_distinct [OF membership_wf_map [OF wf]] by (metis fst_conv map_of_is_SomeI option.inject prod.exhaust_sel)
  then have d: "map (\<lambda>e. fst (snd e)) (map (\<lambda>e. if fst e = gen then (gen, d, c) else e) (ms_history S)) = ms_decisions S"
    by (auto simp: ms_decisions_def)
  have k: "map fst (map (\<lambda>e. if fst e = gen then (gen, d, c) else e) (ms_history S)) = map fst (ms_history S)"
    by auto
  have "store_consensus S gen c = S\<lparr>ms_history := map (\<lambda>e. if fst e = gen then (gen, d, c) else e) (ms_history S)\<rparr>"
    using False get by (auto simp: store_consensus_def h)
  then show ?thesis using wf d k by (simp del: map_map add: membership_wf_def ms_decisions_def)
qed

lemma handle_vote_cases:
  assumes res: "ms_handle_signed_vote A X env now S v p = (S', r)"
  obtains (none) e where "S' = S" "r = Err e"
  | (stored) c t where "S' = (store_consensus S (vote_gen A v) c)\<lparr>ms_last_received_vote_time := t\<rparr>"
      "(\<exists>e. r = Err e) \<or> (\<exists>x. r = Ok (x, None))"
  | (decided) c d x n where "vote_gen A v = ms_gen S + 1" "r = Ok (x, Some d)"
      "S' = (store_consensus S (vote_gen A v) c)\<lparr>ms_last_received_vote_time := None, ms_consensus := n,
         ms_history := bm_insert (vote_gen A v) (d, c) (ms_history (store_consensus S (vote_gen A v) c)),
         ms_gen := vote_gen A v\<rparr>"
proof -
  let ?g = "vote_gen A v"
  show ?thesis
  proof (cases "validate_proposals A X env S v p")
    case (Err e)
    then show ?thesis using none res by (auto simp: ms_handle_signed_vote_def)
  next
    case ok1: (Ok u)
    show ?thesis
    proof (cases "consensus_at_gen S ?g")
      case (Err e)
      then show ?thesis using none res ok1 by (auto simp: ms_handle_signed_vote_def Let_def)
    next
      case (Ok c0)
      obtain c response where h: "cs_handle_signed_vote A c0 v = (c, response)" by fastforce
      let ?S1 = "store_consensus S ?g c"
      have keep: thesis if "S' = ?S1" "(\<exists>e. r = Err e) \<or> (\<exists>x. r = Ok (x, None))"
        by (rule stored [where c = c and t = "ms_last_received_vote_time ?S1"]) (use that in simp_all)
      note eq = res [unfolded ms_handle_signed_vote_def ok1 Let_def result.case Ok h prod.case]
      show ?thesis
      proof (cases response)
        case None
        then show ?thesis using keep eq by auto
      next
        case (Some vr)
        note eq = eq [unfolded Some option.case]
        show ?thesis
        proof (cases "cs_decision A c")
          case None
          then show ?thesis using eq keep stored [where c = c and t = "Some now"] by (auto split: if_splits)
        next
          case (Some d)
          then show ?thesis using eq keep decided [of vr d c] by (auto split: if_splits)
        qed
      qed
    qed
  qed
qed

text \<open>
  C5. A vote either changes no decided generation, or decides exactly the next one: the decision that is
  returned is appended to the decisions of the history, whose generations stay 1, 2, and so on
  up to the current one, and the generation grows by one.
\<close>

theorem handle_signed_vote_generations:
  assumes wf: "membership_wf S"
  shows "case ms_handle_signed_vote A X env now S v p of
           (S', Ok (_, Some d)) \<Rightarrow> membership_wf S' \<and> ms_gen S' = ms_gen S + 1 \<and>
             vote_gen A v = ms_gen S' \<and> ms_decisions S' = ms_decisions S @ [d] \<and>
             ms_bootstrap_members S' = ms_bootstrap_members S
         | (S', _) \<Rightarrow> membership_wf S' \<and> ms_gen S' = ms_gen S \<and> ms_decisions S' = ms_decisions S \<and>
             ms_bootstrap_members S' = ms_bootstrap_members S"
proof -
  let ?g = "vote_gen A v"
  obtain S' r where res: "ms_handle_signed_vote A X env now S v p = (S', r)" by fastforce
  then show ?thesis
  proof (cases rule: handle_vote_cases)
    case (none e)
    then show ?thesis using wf by (auto simp: res)
  next
    case (stored c t)
    then show ?thesis using store_consensus_keeps [OF wf, of ?g c]
      by (auto simp: res membership_wf_def ms_decisions_def)
  next
    case (decided c d x n)
    have "ms_history (store_consensus S ?g c) = ms_history S" using decided(1) by (simp add: store_consensus_def)
    moreover have "bm_insert ?g (d, c) (ms_history S) = ms_history S @ [(?g, d, c)]"
      using wf decided(1) by (intro bm_insert_last) (auto simp: membership_wf_def)
    ultimately show ?thesis
      using decided wf store_consensus_keeps [OF wf, of ?g c]
      by (auto simp: res membership_wf_def ms_decisions_def)
  qed
qed

text \<open>A consensus in which one vote decides, to evaluate on.\<close>

definition ref_consensus :: "(node_state decision option, nat \<times> node_state, unit) ns_consensus" where
  "ref_consensus = \<lparr> cs_from = (\<lambda>_ _ _. None), cs_secret_key = (\<lambda>_. 0), cs_elders = (\<lambda>_. 0),
     cs_n_elders = (\<lambda>_. 1), cs_decision = (\<lambda>c. c),
     cs_handle_signed_vote = (\<lambda>c v. (Some (Decision (fst v) [(snd v, 0)] 0), Some ())),
     cs_sign_proposal = (\<lambda>c g n. Some (g, n)), cs_is_byzantine = (\<lambda>_ _. False),
     cs_cast_vote = (\<lambda>c v. (c, Some v)), cs_votes = (\<lambda>_. []), cs_super_majority_vote = (\<lambda>_ _. None),
     cs_processed = (\<lambda>_ _. False), vote_gen = fst, vote_proposals = (\<lambda>v. [snd v]),
     vote_signed_for = (\<lambda>_ _. True) \<rparr>"

definition sample_membership :: "node_state decision option membership" where
  "sample_membership = membership_from ref_consensus 0 1 1 []"

theorem handle_signed_vote_generations_witness:
  "case ms_handle_signed_vote ref_consensus ref_xor None 9 sample_membership
       (1, joined (NodeId (sample_name 1 5) 1) None) [] of
     (S', Ok (_, Some d)) \<Rightarrow> ms_gen S' = 1 \<and> ms_decisions S' = [d] | _ \<Rightarrow> False"
proof -
  let ?v = "(1, joined (NodeId (sample_name 1 5) 1) None)"
  have "membership_wf sample_membership"
    by (simp add: membership_wf_def sample_membership_def membership_from_def)
  note gens = handle_signed_vote_generations [OF this, where A = ref_consensus and X = ref_xor and env = None
      and now = 9 and v = ?v and p = "[]"]
  have "case ms_handle_signed_vote ref_consensus ref_xor None 9 sample_membership ?v [] of
     (S', Ok (_, Some d)) \<Rightarrow> True | _ \<Rightarrow> False"
    by code_simp
  moreover have "ms_gen sample_membership = 0" "ms_decisions sample_membership = []"
    by (simp_all add: sample_membership_def membership_from_def ms_decisions_def)
  ultimately show ?thesis using gens by (auto split: prod.splits result.splits option.splits)
qed

subsection \<open>The two computations of the members agree\<close>

lemma section_members_loop_upto:
  assumes "map fst h = [k..<n + 1]" and "k \<le> g"
  shows "section_members_loop g h ms =
    (if g \<le> n then Ok (fold (\<lambda>d ms. fold apply_change (changes d) ms)
                         (take (g + 1 - k) (map (\<lambda>e. fst (snd e)) h)) ms)
     else Err (InvalidGeneration g))"
  using assms
proof (induction h arbitrary: k ms)
  case Nil
  then show ?case by auto
next
  case (Cons e h)
  obtain hg d c where e: "e = (hg, d, c)" by (cases e)
  have k: "k < n + 1" using Cons.prems(1) by (metis list.distinct(1) list.simps(9) upt_conv_Nil leI)
  have "hg # map fst h = k # [Suc k..<n + 1]" using Cons.prems(1) upt_conv_Cons [OF k] by (simp only: e list.simps fst_conv)
  then have h: "hg = k" "map fst h = [Suc k..<n + 1]" by blast+
  show ?case
  proof (cases "g = k")
    case True
    with h k show ?thesis by (simp add: e)
  next
    case False
    with Cons.prems(2) have "Suc k \<le> g" by simp
    moreover from this have "g + 1 - k = Suc (g + 1 - Suc k)" by simp
    ultimately show ?thesis using Cons.IH [OF h(2)] False h(1) by (simp add: e)
  qed
qed

lemma members_at_gen_fold:
  "g \<le> length (decisions H) \<Longrightarrow>
   members_at_gen H g = fold (\<lambda>d ms. fold apply_change (changes d) ms) (take g (decisions H)) (members_at_gen H 0)"
  by (induction g) (simp_all add: members_at_gen_Suc take_Suc_conv_app_nth)

text \<open>
  The membership instance of an elder and the history every node keeps compute the same members
  of a section: from the same bootstrap members and the same decisions, \<open>section_members\<close> of the
  first returns for each generation that has been decided exactly what \<open>members_at_gen\<close> of the second
  replays, and for every other generation the first reports an error and the second has no members.
\<close>

theorem section_members_agree:
  assumes wf: "membership_wf S" and "initial_members H = ms_bootstrap_members S"
    and "decisions H = ms_decisions S"
  shows "ms_section_members S g =
    (if g \<le> ms_gen S then Ok (members_at_gen H g) else Err (InvalidGeneration g)) \<and>
    (ms_gen S < g \<longrightarrow> members_at_gen H g = [])"
proof -
  have len: "length (decisions H) = ms_gen S"
    using wf assms(3) by (metis length_map membership_wf_def ms_decisions_def length_upt add_diff_cancel_right')
  have zero: "ms_section_members S 0 = Ok (members_at_gen H 0)"
    by (simp add: ms_section_members_def members_at_gen_def assms(2) Let_def)
  have "ms_section_members S g = (if g \<le> ms_gen S then Ok (members_at_gen H g) else Err (InvalidGeneration g))"
    if g: "g \<noteq> 0"
  proof -
    have "ms_section_members S g = section_members_loop g (ms_history S) (members_at_gen H 0)"
      using g zero by (simp add: ms_section_members_def Let_def)
    also have "\<dots> = (if g \<le> ms_gen S then Ok (fold (\<lambda>d ms. fold apply_change (changes d) ms)
        (take g (decisions H)) (members_at_gen H 0)) else Err (InvalidGeneration g))"
      using section_members_loop_upto [OF wf [unfolded membership_wf_def], of g] g
      by (simp add: assms(3) ms_decisions_def)
    finally show ?thesis using members_at_gen_fold [of g H] len by simp
  qed
  with zero len show ?thesis by (cases "g = 0") (auto simp: members_at_gen_def)
qed

theorem section_members_agree_witness:
  "ms_section_members (sample_membership\<lparr>ms_gen := 1, ms_history := [(1, sample_decision 1 (joined (NodeId (sample_name 2 6) 2) None), None)]\<rparr>) 1
     = Ok (members_at_gen \<lparr> initial_members = [], decisions = [sample_decision 1 (joined (NodeId (sample_name 2 6) 2) None)], archive = [] \<rparr> 1)"
proof -
  let ?S = "sample_membership\<lparr>ms_gen := 1, ms_history := [(1, sample_decision 1 (joined (NodeId (sample_name 2 6) 2) None), None)]\<rparr>"
  have "membership_wf ?S" by (simp add: membership_wf_def)
  from section_members_agree [OF this, of "\<lparr> initial_members = [], decisions = [sample_decision 1 (joined (NodeId (sample_name 2 6) 2) None)], archive = [] \<rparr>" 1]
  show ?thesis by (simp add: ms_decisions_def sample_membership_def membership_from_def)
qed

end
