(* ===== verification/Section_Tree.thy ===== *)
theory Section_Tree
  imports Comparisons Section_Auth Dag_Properties
begin

section \<open>The section tree\<close>

text \<open>
  \<open>network_knowledge/section_tree/mod.rs\<close>: what a node knows of the network, a map from the prefixes of
  the known sections to their signed authority providers, and the DAG of all section keys. A
  prefix is ordered as the crate orders it, lexicographically.

  An update returns the tree with the result, since some errors leave a changed tree behind.
\<close>

record 'm section_tree =
  sections :: "(prefix, signed_sap) bmap"
  sections_dag :: "'m sections_dag"

record 'm section_tree_update =
  up_signed_sap :: signed_sap
  up_proof_chain :: "'m sections_dag"

definition new_tree ::
  "'m dag_api \<Rightarrow> bls_api \<Rightarrow> signed_sap \<Rightarrow> ('m section_tree, nk_error) result" where
  "new_tree M B genesis_sap =
     (if sap_prefix (sd_value genesis_sap) \<noteq> [] then Err NonGenesisSap
      else
        (let genesis_pk = section_key B (sd_value genesis_sap) in
         Ok \<lparr> sections = [([], genesis_sap)], sections_dag = new_dag M genesis_pk \<rparr>))"

definition tree_genesis_key :: "'m section_tree \<Rightarrow> public_key" where
  "tree_genesis_key T = genesis_key (sections_dag T)"

definition tree_prefixes :: "'m section_tree \<Rightarrow> prefix list" where
  "tree_prefixes T = bm_keys (sections T)"

definition closest :: "xor_api \<Rightarrow> 'm section_tree \<Rightarrow> xor_name \<Rightarrow> prefix option \<Rightarrow> signed_sap option" where
  "closest X T name exclude =
     map_option snd
       (min_by (\<lambda>a b. px_cmp_distance X (fst a) (fst b) name)
          (filter (\<lambda>e. Some (fst e) \<noteq> exclude) (sections T)))"

definition tree_get_signed :: "'m section_tree \<Rightarrow> prefix \<Rightarrow> signed_sap option" where
  "tree_get_signed T p = bm_get (sections T) p"

definition tree_get :: "'m section_tree \<Rightarrow> prefix \<Rightarrow> sap option" where
  "tree_get T p = map_option sd_value (tree_get_signed T p)"

definition get_signed_by_key :: "bls_api \<Rightarrow> 'm section_tree \<Rightarrow> public_key \<Rightarrow> signed_sap option" where
  "get_signed_by_key B T key = find (\<lambda>s. section_key B (sd_value s) = key) (bm_values (sections T))"

definition get_signed_by_name ::
  "xor_api \<Rightarrow> 'm section_tree \<Rightarrow> xor_name \<Rightarrow> (signed_sap, nk_error) result" where
  "get_signed_by_name X T name =
     map_ok snd (ok_or (max_by_key (\<lambda>e. px_common_prefix X (fst e) name) (sections T)) NoMatchingSection)"

definition get_signed_by_prefix ::
  "xor_api \<Rightarrow> 'm section_tree \<Rightarrow> prefix \<Rightarrow> (signed_sap, nk_error) result" where
  "get_signed_by_prefix X T p = get_signed_by_name X T (px_name X p)"

definition tree_section_keys :: "bls_api \<Rightarrow> 'm section_tree \<Rightarrow> public_key list" where
  "tree_section_keys B T = map (\<lambda>s. section_key B (sd_value s)) (bm_values (sections T))"

definition generate_section_tree_update ::
  "'m dag_api \<Rightarrow> bls_api \<Rightarrow> 'm section_tree \<Rightarrow> prefix
     \<Rightarrow> ('m section_tree_update, nk_error) result" where
  "generate_section_tree_update M B T p =
     and_then (ok_or (bm_get (sections T) p) NoMatchingSection)
       (\<lambda>ssap. map_ok (\<lambda>chain. \<lparr> up_signed_sap = ssap, up_proof_chain = chain \<rparr>)
          (partial_dag M (sections_dag T) (genesis_key (sections_dag T))
             (section_key B (sd_value ssap))))"

text \<open>
  The loop of \<open>prune\<close> pops one bit of the prefix a round, so as many rounds as the prefix has bits
  and one more are enough; \<open>None\<close> is a loop that does not end.
\<close>

fun prune_loop :: "xor_api \<Rightarrow> nat \<Rightarrow> prefix \<Rightarrow> (prefix, signed_sap) bmap \<Rightarrow> (prefix, signed_sap) bmap option" where
  "prune_loop X 0 p m = None"
| "prune_loop X (Suc fuel) p m =
     (let m' = bm_remove p m in
      if px_bit_count X p = 0 then Some m' else prune_loop X fuel (px_popped X p) m')"

definition prune :: "xor_api \<Rightarrow> prefix \<Rightarrow> (prefix, signed_sap) bmap \<Rightarrow> (prefix, signed_sap) bmap option" where
  "prune X p m = prune_loop X (px_bit_count X p + 1) p m"

definition tree_insert ::
  "xor_api \<Rightarrow> (prefix, signed_sap) bmap \<Rightarrow> signed_sap \<Rightarrow> ((prefix, signed_sap) bmap \<times> bool) option" where
  "tree_insert X m ssap =
     (let p = sap_prefix (sd_value ssap) in
      if list_ex (\<lambda>q. px_is_extension_of X q p) (bm_keys m) then Some (m, False)
      else
        (let m' = bm_insert p ssap m in
         if px_bit_count X p = 0 then Some (m', True)
         else map_option (\<lambda>m''. (m'', True)) (prune X (px_popped X p) m')))"

definition update_the_section_tree ::
  "'m dag_api \<Rightarrow> bls_api \<Rightarrow> xor_api \<Rightarrow> sap_codec \<Rightarrow> 'm section_tree \<Rightarrow> 'm section_tree_update
     \<Rightarrow> 'm section_tree \<times> (bool, nk_error) result" where
  "update_the_section_tree M B X E T update =
     (let ssap = up_signed_sap update;
          proof_chain = up_proof_chain update;
          key = section_key B (sd_value ssap);
          incoming_prefix = sap_prefix (sd_value ssap);
          covered = (case tree_get_signed T incoming_prefix of
             Some s \<Rightarrow>
               if has_key proof_chain (section_key B (sd_value s)) then None
               else Some SAPKeyNotCoveredByProofChain
           | None \<Rightarrow>
               if check_trust proof_chain (dag_keys M (sections_dag T)) then None
               else Some UntrustedProofChain)
      in
      if has_key (sections_dag T) key then (T, Ok False)
      else case covered of
        Some e \<Rightarrow> (T, Err e)
      | None \<Rightarrow>
        if \<not> signed_self_verify B E ssap then (T, Err UntrustedSectionAuthProvider)
        else if sg_public_key (sd_sig ssap) \<noteq> key then (T, Err UntrustedSectionAuthProvider)
        else case last_key M proof_chain of
          Err e \<Rightarrow> (T, Err e)
        | Ok l \<Rightarrow>
          if l \<noteq> key then (T, Err UntrustedProofChain)
          else case tree_insert X (sections T) ssap of
            None \<Rightarrow> (T, Err Diverges)
          | Some (m, False) \<Rightarrow> (T, Ok False)
          | Some (m, True) \<Rightarrow>
              (case merge M B (sections_dag T) proof_chain of
                 (D, Err e) \<Rightarrow> (T\<lparr>sections := m, sections_dag := D\<rparr>, Err e)
               | (D, Ok _) \<Rightarrow> (T\<lparr>sections := m, sections_dag := D\<rparr>, Ok True)))"

subsection \<open>Prefixes as a tree\<close>

locale prefix_space =
  fixes X :: xor_api
  assumes space: "xor_api_ok X"
begin

lemmas space_simps = xor_api_okD [OF space]

lemma extension_iff: "px_is_extension_of X p q \<longleftrightarrow> (\<exists>b bs. p = q @ b # bs)"
proof
  assume "px_is_extension_of X p q"
  then have "length q < length p" "take (length q) p = q" by (simp_all add: space_simps)
  then have "p = q @ drop (length q) p" "drop (length q) p \<noteq> []" by (metis append_take_drop_id, simp)
  then show "\<exists>b bs. p = q @ b # bs" by (metis list.exhaust)
qed (auto simp: space_simps)

lemma extension_take:
  "px_is_extension_of X p q \<longleftrightarrow> (\<exists>k < length p. q = take k p)"
proof
  assume "px_is_extension_of X p q"
  then show "\<exists>k < length p. q = take k p" by (auto simp: space_simps intro: exI [of _ "length q"])
next
  assume "\<exists>k < length p. q = take k p"
  then show "px_is_extension_of X p q" by (auto simp: space_simps)
qed

lemma prune_loop_get:
  assumes "length p < fuel" and "bm_wf m"
  shows "\<exists>m'. prune_loop X fuel p m = Some m' \<and> bm_wf m' \<and>
           (\<forall>q. bm_get m' q = (if \<exists>k \<le> length p. q = take k p then None else bm_get m q))"
  using assms
proof (induction fuel arbitrary: p m)
  case (Suc fuel)
  show ?case
  proof (cases "p = []")
    case True
    then show ?thesis
      using Suc.prems by (simp add: space_simps bm_get_remove bm_wf_remove Let_def)
  next
    case False
    then have len: "length (butlast p) < fuel" using Suc.prems(1) by (cases p) auto
    from Suc.IH [OF len bm_wf_remove [OF Suc.prems(2), of p]]
    obtain m' where m': "prune_loop X fuel (butlast p) (bm_remove p m) = Some m'" "bm_wf m'"
      and get: "\<forall>q. bm_get m' q = (if \<exists>k \<le> length (butlast p). q = take k (butlast p) then None
                  else bm_get (bm_remove p m) q)" by blast
    have "(\<exists>k \<le> length p. q = take k p) \<longleftrightarrow> q = p \<or> (\<exists>k \<le> length (butlast p). q = take k (butlast p))" for q
    proof -
      have "take k (butlast p) = take k p" if "k \<le> length p - 1" for k
        using that by (simp add: butlast_conv_take)
      moreover have "k \<le> length p \<longleftrightarrow> k = length p \<or> k \<le> length p - 1" for k using False by (cases p) auto
      ultimately show ?thesis by (metis length_butlast order_refl take_all)
    qed
    with get m' False show ?thesis by (auto simp: space_simps Let_def bm_get_remove)
  qed
qed simp

lemma tree_insert_get:
  assumes wf: "bm_wf m"
  shows "\<exists>m'. tree_insert X m s = Some (m', \<not> (\<exists>q \<in> dom (bm_get m). px_is_extension_of X q (sap_prefix (sd_value s)))) \<and>
    bm_wf m' \<and>
    (\<forall>q. bm_get m' q =
       (if \<exists>q \<in> dom (bm_get m). px_is_extension_of X q (sap_prefix (sd_value s)) then bm_get m q
        else if q = sap_prefix (sd_value s) then Some s
        else if px_is_extension_of X (sap_prefix (sd_value s)) q then None
        else bm_get m q))"
proof -
  let ?p = "sap_prefix (sd_value s)"
  have ex: "list_ex (\<lambda>q. px_is_extension_of X q ?p) (bm_keys m) \<longleftrightarrow> (\<exists>q \<in> dom (bm_get m). px_is_extension_of X q ?p)"
    by (auto simp: list_ex_iff bm_keys_set)
  show ?thesis
  proof (cases "\<exists>q \<in> dom (bm_get m). px_is_extension_of X q ?p")
    case True
    then show ?thesis using wf by (simp add: tree_insert_def Let_def ex)
  next
    case False
    note get = bm_get_insert [OF wf, of ?p s]
    show ?thesis
    proof (cases "?p = []")
      case True
      then have "tree_insert X m s = Some (bm_insert ?p s m, True)"
        using False ex by (simp add: tree_insert_def Let_def space_simps(1))
      moreover have "\<not> px_is_extension_of X ?p q" for q using True by (simp add: space_simps(3))
      ultimately show ?thesis using False bm_wf_insert [OF wf] by (simp add: get)
    next
      case nonempty: False
      obtain m' where m': "prune_loop X (length (butlast ?p) + 1) (butlast ?p) (bm_insert ?p s m) = Some m'" "bm_wf m'"
        and get': "\<forall>q. bm_get m' q = (if \<exists>k \<le> length (butlast ?p). q = take k (butlast ?p) then None
                     else bm_get (bm_insert ?p s m) q)"
        using prune_loop_get [of "butlast ?p" "length (butlast ?p) + 1" "bm_insert ?p s m"] bm_wf_insert [OF wf]
        by auto
      have "(\<exists>k \<le> length (butlast ?p). q = take k (butlast ?p)) \<longleftrightarrow> px_is_extension_of X ?p q" for q
      proof -
        have "take k (butlast ?p) = take k ?p" if "k < length ?p" for k
          using that by (simp add: butlast_conv_take)
        moreover have "k \<le> length (butlast ?p) \<longleftrightarrow> k < length ?p" for k using nonempty by (cases ?p) auto
        ultimately show ?thesis by (auto simp: extension_take)
      qed
      moreover have "\<not> px_is_extension_of X ?p ?p" by (simp add: space_simps)
      ultimately have "\<forall>q. bm_get m' q = (if q = ?p then Some s else if px_is_extension_of X ?p q then None else bm_get m q)"
        using get' by (simp add: get)
      moreover have "tree_insert X m s = Some (m', True)"
        using False ex nonempty m'(1) by (simp add: tree_insert_def Let_def space_simps(1,4) prune_def)
      ultimately show ?thesis using m'(2) False by simp
    qed
  qed
qed

end

interpretation ref_space: prefix_space ref_xor
  by unfold_locales (rule ref_xor_ok)

subsection \<open>Invariants\<close>

text \<open>
  The known sections are filed under their prefixes, and no known prefix extends another; the keys
  of the known sections are in the DAG, which is signed throughout.
\<close>

definition tree_wf :: "xor_api \<Rightarrow> (prefix, signed_sap) bmap \<Rightarrow> bool" where
  "tree_wf X m \<longleftrightarrow>
     bm_wf m \<and> (\<forall>p s. bm_get m p = Some s \<longrightarrow> sap_prefix (sd_value s) = p) \<and>
     (\<forall>p \<in> dom (bm_get m). \<forall>q \<in> dom (bm_get m). \<not> px_is_extension_of X p q)"

definition tree_trusted :: "'m dag_api \<Rightarrow> ('m \<Rightarrow> bool) \<Rightarrow> bls_api \<Rightarrow> 'm section_tree \<Rightarrow> bool" where
  "tree_trusted M ok B T \<longleftrightarrow>
     dag_wf M ok (sections_dag T) \<and> dag_signed M B (sections_dag T) \<and>
     (\<forall>p s. bm_get (sections T) p = Some s \<longrightarrow> has_key (sections_dag T) (section_key B (sd_value s)))"

lemma tree_wfD:
  assumes "tree_wf X m"
  shows tw_map: "bm_wf m"
    and tw_prefix: "bm_get m p = Some s \<Longrightarrow> sap_prefix (sd_value s) = p"
    and tw_chain: "bm_get m p = Some s \<Longrightarrow> bm_get m q = Some s' \<Longrightarrow> \<not> px_is_extension_of X p q"
  using assms unfolding tree_wf_def by (auto simp: dom_def)

context prefix_space
begin

lemma tree_insert_wf:
  assumes wf: "tree_wf X m" and ins: "tree_insert X m s = Some (m', b)"
  shows "tree_wf X m'"
proof -
  let ?p = "sap_prefix (sd_value s)"
  obtain m1 where m1: "tree_insert X m s = Some (m1, \<not> (\<exists>q \<in> dom (bm_get m). px_is_extension_of X q ?p))" "bm_wf m1"
    and get: "\<forall>q. bm_get m1 q = (if \<exists>q \<in> dom (bm_get m). px_is_extension_of X q ?p then bm_get m q
        else if q = ?p then Some s else if px_is_extension_of X ?p q then None else bm_get m q)"
    using tree_insert_get [OF tw_map [OF wf]] by blast
  have eq: "m' = m1" using m1(1) ins by simp
  show ?thesis
  proof (cases "\<exists>q \<in> dom (bm_get m). px_is_extension_of X q ?p")
    case True
    then show ?thesis using wf m1(2) get unfolding eq tree_wf_def by (simp add: dom_def)
  next
    case False
    then have get': "bm_get m1 q = Some s' \<Longrightarrow> (q = ?p \<and> s' = s) \<or> (\<not> px_is_extension_of X ?p q \<and> bm_get m q = Some s')" for q s'
      using get by (metis option.distinct(1) option.inject)
    have irr: "\<not> px_is_extension_of X ?p ?p" by (simp add: space_simps)
    show ?thesis
      unfolding eq tree_wf_def
    proof (intro conjI allI impI ballI)
      show "bm_wf m1" by (rule m1(2))
      fix q s' assume "bm_get m1 q = Some s'"
      then show "sap_prefix (sd_value s') = q" using get' tw_prefix [OF wf] by blast
    next
      fix q r assume "q \<in> dom (bm_get m1)" "r \<in> dom (bm_get m1)"
      then obtain s1 s2 where "bm_get m1 q = Some s1" "bm_get m1 r = Some s2" by blast
      from get' [OF this(1)] get' [OF this(2)] show "\<not> px_is_extension_of X q r"
        using False irr tw_chain [OF wf] by (metis domI)
    qed
  qed
qed

end

text \<open>
  \<open>insert\<close> is total: when a known prefix extends the new one nothing changes; otherwise the new
  section is filed under its prefix, exactly the strict ancestors of that prefix are removed, and
  every other entry stays. No known prefix ever extends another.
\<close>

theorem tree_insert_correct:
  assumes X: "xor_api_ok X" and wf: "tree_wf X m"
  shows "let p = sap_prefix (sd_value s) in
         \<exists>m'. tree_insert X m s = Some (m', \<not> (\<exists>q \<in> dom (bm_get m). px_is_extension_of X q p)) \<and>
           tree_wf X m' \<and>
           (\<forall>q. bm_get m' q =
              (if \<exists>q \<in> dom (bm_get m). px_is_extension_of X q p then bm_get m q
               else if q = p then Some s
               else if px_is_extension_of X p q then None else bm_get m q))"
  using prefix_space.tree_insert_get [OF prefix_space.intro [OF X] tw_map [OF wf], of s]
    prefix_space.tree_insert_wf [OF prefix_space.intro [OF X] wf, of s]
  unfolding Let_def by blast

definition sample_sap :: "prefix \<Rightarrow> public_key_set \<Rightarrow> sap" where
  "sample_sap p ks = new_sap [NodeId [1] 1] p [] ks 0"

definition sample_codec :: sap_codec where
  "sample_codec s = Some [of_nat (sap_public_key_set s)]"

definition sample_signed :: "prefix \<Rightarrow> public_key_set \<Rightarrow> signed_sap" where
  "sample_signed p ks = \<lparr> sd_value = sample_sap p ks,
     sd_sig = \<lparr> sg_public_key = ks, sg_signature = ref_sign ks [of_nat ks] \<rparr> \<rparr>"

lemma sample_signed_simps [simp]:
  "sap_prefix (sd_value (sample_signed p ks)) = p"
  "section_key ref_bls (sd_value (sample_signed p ks)) = ks"
  "sg_public_key (sd_sig (sample_signed p ks)) = ks"
  by (simp_all add: sample_signed_def sample_sap_def new_sap_def section_key_def ref_bls_def)

lemma ref_extension: "px_is_extension_of ref_xor p q \<longleftrightarrow> length q < length p \<and> take (length q) p = q"
  by (simp add: ref_xor_def)

lemma singleton_tree_wf: "tree_wf ref_xor [(p, sample_signed p ks)]"
  by (auto simp: tree_wf_def bm_wf_def ref_extension split: if_splits)

theorem tree_insert_correct_witness:
  "\<exists>m'. tree_insert ref_xor [([], sample_signed [] 1)] (sample_signed [True] 2) = Some (m', True) \<and>
     bm_get m' [] = None"
  using tree_insert_correct [OF ref_xor_ok singleton_tree_wf [of "[]" 1], of "sample_signed [True] 2"]
  by (auto simp: ref_extension dom_def Let_def)

subsection \<open>Routing by name\<close>

text \<open>\<open>common_prefix\<close> of the crate counts the leading bits of the prefix that the name shares.\<close>

definition common_bits :: "xor_api \<Rightarrow> prefix \<Rightarrow> xor_name \<Rightarrow> nat" where
  "common_bits X p n = length (takeWhile (\<lambda>i. xn_bit X n i = p ! i) [0..<length p])"

locale name_routing = prefix_space +
  assumes common: "\<And>p n. px_common_prefix X p n = common_bits X p n"
begin

lemma common_le: "k \<le> length p \<Longrightarrow> k \<le> px_common_prefix X p n \<longleftrightarrow> (\<forall>i < k. xn_bit X n i = p ! i)"
  unfolding common common_bits_def by (rule le_length_takeWhile_upt)

lemma common_bound: "px_common_prefix X p n \<le> length p"
  unfolding common common_bits_def using length_takeWhile_le [of _ "[0..<length p]"] by simp

lemma common_match: "px_matches X p n \<longleftrightarrow> px_common_prefix X p n = length p"
  using common_le [of "length p" p n] common_bound [of p n] unfolding space_simps by (metis le_antisym order_refl)

lemma common_less:
  assumes m: "px_matches X p n" and ne: "q \<noteq> p"
    and chain: "\<not> px_is_extension_of X p q" "\<not> px_is_extension_of X q p"
  shows "px_common_prefix X q n < px_common_prefix X p n"
proof (rule ccontr)
  assume "\<not> ?thesis"
  then have ge: "length p \<le> px_common_prefix X q n" using common_match [of p n] m by simp
  then have len: "length p \<le> length q" using common_bound [of q n] by simp
  then have "\<forall>i < length p. p ! i = q ! i"
    using ge common_le [OF len, of n] m by (auto simp: space_simps)
  then have "take (length p) q = p" using len by (intro nth_equalityI) auto
  with ne chain(2) len show False by (cases "length p = length q") (auto simp: space_simps)
qed

end

lemma fold_max_key:
  fixes f :: "'a \<Rightarrow> nat"
  assumes "x = best \<or> x \<in> set xs" and "\<forall>y \<in> insert best (set xs). y \<noteq> x \<longrightarrow> f y < f x"
  shows "fold (\<lambda>y best. if f y < f best then best else y) xs best = x"
  using assms by (induction xs arbitrary: best) auto

lemma max_by_key_unique:
  fixes f :: "'a \<Rightarrow> nat"
  assumes "x \<in> set xs" and "\<forall>y \<in> set xs. y \<noteq> x \<longrightarrow> f y < f x"
  shows "max_by_key f xs = Some x"
  using assms fold_max_key [of x "hd xs" "tl xs" f] by (cases xs) auto

text \<open>
  \<open>get_signed_by_name\<close> finds the section a name belongs to: when a known prefix matches the name
  it is the only one that does, and its section is returned, whatever else is known.
\<close>

theorem get_signed_by_name_matching:
  assumes X: "xor_api_ok X" and common: "\<And>p n. px_common_prefix X p n = common_bits X p n"
    and wf: "tree_wf X (sections T)"
    and known: "bm_get (sections T) p = Some s" and match: "px_matches X p name"
  shows "get_signed_by_name X T name = Ok s"
proof -
  have nr: "name_routing X" by (intro name_routing.intro prefix_space.intro name_routing_axioms.intro X common)
  have "px_common_prefix X (fst e) name < px_common_prefix X p name"
    if e: "e \<in> set (sections T)" "e \<noteq> (p, s)" for e
  proof -
    obtain q s' where q: "e = (q, s')" by (cases e)
    have "bm_get (sections T) q = Some s'" using e(1) bm_in_set_iff [OF tw_map [OF wf]] by (simp add: q)
    then show ?thesis
      using name_routing.common_less [OF nr match] tw_chain [OF wf] known e(2) by (metis fst_conv option.inject q)
  qed
  moreover have "(p, s) \<in> set (sections T)" using known bm_in_set_iff [OF tw_map [OF wf]] by simp
  ultimately have "max_by_key (\<lambda>e. px_common_prefix X (fst e) name) (sections T) = Some (p, s)"
    by (intro max_by_key_unique) auto
  then show ?thesis by (simp add: get_signed_by_name_def)
qed

lemma ref_common_bits: "px_common_prefix ref_xor p n = common_bits ref_xor p n"
proof -
  have "ref_common p n i = length (takeWhile (\<lambda>j. ref_bit n (i + j) = p ! j) [0..<length p])" for i
  proof (induction p arbitrary: i)
    case (Cons b p)
    have "[0..<length (b # p)] = 0 # map Suc [0..<length p]" by (simp only: list.size upt_conv_Cons map_Suc_upt zero_less_Suc add_Suc_right add_0_right)
    with Cons show ?case by (simp add: takeWhile_map comp_def)
  qed simp
  from this [of 0] show ?thesis by (simp add: ref_xor_def common_bits_def)
qed

interpretation ref_routing: name_routing ref_xor
  by unfold_locales (rule ref_common_bits)

definition sample_tree :: "dag_node list section_tree" where
  "sample_tree = \<lparr> sections = [([], sample_signed [] 1)], sections_dag = new_dag sample_register 1 \<rparr>"

lemma sample_tree_wf: "tree_wf ref_xor (sections sample_tree)"
  by (simp add: sample_tree_def singleton_tree_wf)

theorem get_signed_by_name_matching_witness:
  "get_signed_by_name ref_xor sample_tree [7] = Ok (sample_signed [] 1)"
  by (rule get_signed_by_name_matching [OF ref_xor_ok ref_common_bits sample_tree_wf, of "[]"])
    (simp_all add: sample_tree_def ref_xor_def)

end
