(* ===== verification/Handover.thy ===== *)
theory Handover
  imports Membership Section_Tree
begin

section \<open>Handover consensus\<close>

text \<open>
  \<open>sn_node/src/node/handover/handover_consensus.rs\<close>: the elders agree on the next authority of their
  section. A round of consensus may end with the empty set, which is a failed round: it is filed under
  its generation and a new round starts.

  The order of \<open>SapCandidate\<close> is derived from those of the keys and signatures of the \<open>bls\<close> crate, so
  it is the parameter \<open>cmp\<close>. A proposal carries the faults the round has seen, which
  \<open>cs_sign_proposal\<close> adds.
\<close>

datatype handover_error =
    FaultyProposal | HoRequestAntiEntropy | CorruptedHandoverHistory nat nat | ConsensusFault

record 'c handover =
  ho_consensus :: 'c
  ho_failed_consensus_rounds :: "(nat, 'c \<times> sap_candidate decision) bmap"
  ho_gen :: nat

type_synonym ('c, 'v, 'r) sap_consensus = "('c, 'v, 'r, sap_candidate) consensus_api"

definition handover_from ::
  "('c, 'v, 'r) sap_consensus \<Rightarrow> nat \<Rightarrow> public_key_set \<Rightarrow> nat \<Rightarrow> 'c handover" where
  "handover_from A secret_key elders n_elders =
     \<lparr> ho_consensus = cs_from A secret_key elders n_elders, ho_failed_consensus_rounds = [], ho_gen = 0 \<rparr>"

definition ho_cast_vote ::
  "('c, 'v, 'r) sap_consensus \<Rightarrow> 'c handover \<Rightarrow> 'v \<Rightarrow> 'c handover \<times> ('v, handover_error) result" where
  "ho_cast_vote A S signed_vote =
     (let (c, r) = cs_cast_vote A (ho_consensus S) signed_vote in
      (S\<lparr>ho_consensus := c\<rparr>, ok_or r ConsensusFault))"

definition ho_propose ::
  "('c, 'v, 'r) sap_consensus \<Rightarrow> 'c handover \<Rightarrow> sap_candidate
     \<Rightarrow> 'c handover \<times> ('v, handover_error) result" where
  "ho_propose A S proposal =
     (let keys = candidate_public_key_sets proposal in
      if cs_elders A (ho_consensus S) \<in> set keys \<and> length keys = 1 then (S, Err FaultyProposal)
      else case cs_sign_proposal A (ho_consensus S) (ho_gen S) proposal of
        None \<Rightarrow> (S, Err ConsensusFault)
      | Some signed_vote \<Rightarrow>
          if cs_is_byzantine A (ho_consensus S) signed_vote then (S, Err FaultyProposal)
          else ho_cast_vote A S signed_vote)"

fun collect_proofs :: "'v option list \<Rightarrow> ('v list, handover_error) result" where
  "collect_proofs [] = Ok []"
| "collect_proofs (v # vs) =
     and_then (ok_or v ConsensusFault) (\<lambda>x. map_ok (Cons x) (collect_proofs vs))"

definition ho_anti_entropy ::
  "('c, 'v, 'r) sap_consensus \<Rightarrow> 'c handover \<Rightarrow> nat \<Rightarrow> ('v list, handover_error) result" where
  "ho_anti_entropy A S from_gen =
     map_ok (\<lambda>proof_votes. proof_votes @ cs_votes A (ho_consensus S))
       (collect_proofs (map (\<lambda>(gen, c, _). cs_super_majority_vote A c gen)
          (filter (\<lambda>(gen, _). gen \<ge> from_gen) (ho_failed_consensus_rounds S))))"

definition handle_empty_set_decision :: "('c, 'v, 'r) sap_consensus \<Rightarrow> 'c handover \<Rightarrow> 'c handover" where
  "handle_empty_set_decision A S =
     (let c = ho_consensus S in
      case cs_decision A c of
        Some d \<Rightarrow>
          if proposals d = [] then
            S\<lparr>ho_consensus := cs_from A (cs_secret_key A c) (cs_elders A c) (cs_n_elders A c),
              ho_failed_consensus_rounds := bm_insert (ho_gen S) (c, d) (ho_failed_consensus_rounds S),
              ho_gen := ho_gen S + 1\<rparr>
          else S
      | None \<Rightarrow> S)"

definition handle_outdated_signed_vote ::
  "('c, 'v, 'r) sap_consensus \<Rightarrow> 'c handover \<Rightarrow> 'v \<Rightarrow> 'c handover \<times> ('r, handover_error) result" where
  "handle_outdated_signed_vote A S signed_vote =
     (let gen = vote_gen A signed_vote in
      case bm_get (ho_failed_consensus_rounds S) gen of
        Some (c, d) \<Rightarrow>
          (let (c', r) = cs_handle_signed_vote A c signed_vote in
           (S\<lparr>ho_failed_consensus_rounds := bm_insert gen (c', d) (ho_failed_consensus_rounds S)\<rparr>,
            ok_or r ConsensusFault))
      | None \<Rightarrow> (S, Err (CorruptedHandoverHistory gen (ho_gen S))))"

definition ho_handle_signed_vote ::
  "('c, 'v, 'r) sap_consensus \<Rightarrow> 'c handover \<Rightarrow> 'v \<Rightarrow> 'c handover \<times> ('r, handover_error) result" where
  "ho_handle_signed_vote A S signed_vote =
     (case cmp_of (vote_gen A signed_vote) (ho_gen S) of
        Less \<Rightarrow> handle_outdated_signed_vote A S signed_vote
      | Greater \<Rightarrow> (S, Err HoRequestAntiEntropy)
      | Equal \<Rightarrow>
          (let (c, r) = cs_handle_signed_vote A (ho_consensus S) signed_vote in
           (S\<lparr>ho_consensus := c\<rparr>, ok_or r ConsensusFault)))"

definition consensus_value ::
  "(sap_candidate \<Rightarrow> sap_candidate \<Rightarrow> ordering) \<Rightarrow> ('c, 'v, 'r) sap_consensus \<Rightarrow> 'c handover
     \<Rightarrow> sap_candidate option" where
  "consensus_value cmp A S =
     (case cs_decision A (ho_consensus S) of
        Some d \<Rightarrow> min_by cmp (bm_keys (proposals d))
      | None \<Rightarrow> None)"

section \<open>Properties of the handover\<close>

subsection \<open>The rounds of a handover\<close>

text \<open>What the node does with its handover, in any order, is a step.\<close>

inductive handover_step :: "('c, 'v, 'r) sap_consensus \<Rightarrow> 'c handover \<Rightarrow> 'c handover \<Rightarrow> bool"
  for A :: "('c, 'v, 'r) sap_consensus" where
  propose: "ho_propose A S proposal = (S', r) \<Longrightarrow> handover_step A S S'"
| vote: "ho_handle_signed_vote A S v = (S', r) \<Longrightarrow> handover_step A S S'"
| empty_set: "handover_step A S (handle_empty_set_decision A S)"

text \<open>The failed rounds are those of the generations below the current one, and each ended empty.\<close>

definition handover_wf :: "'c handover \<Rightarrow> bool" where
  "handover_wf S \<longleftrightarrow>
     map fst (ho_failed_consensus_rounds S) = [0..<ho_gen S] \<and>
     (\<forall>(g, c, d) \<in> set (ho_failed_consensus_rounds S). proposals d = [])"

lemma handover_wf_map: "handover_wf S \<Longrightarrow> bm_wf (ho_failed_consensus_rounds S)"
  unfolding handover_wf_def bm_wf_def by (simp only: sorted_wrt_upt)

lemma handover_wf_get:
  "handover_wf S \<Longrightarrow> bm_get (ho_failed_consensus_rounds S) g \<noteq> None \<longleftrightarrow> g < ho_gen S"
  unfolding handover_wf_def
  by (metis atLeastLessThan_iff list.set_map map_of_eq_None_iff set_upt zero_le)

lemma handover_wf_consensus [simp]: "handover_wf (S\<lparr>ho_consensus := c\<rparr>) = handover_wf S"
  by (simp add: handover_wf_def)

lemma outdated_vote_known:
  assumes wf: "handover_wf S" and lt: "vote_gen A v < ho_gen S"
    and res: "handle_outdated_signed_vote A S v = (S', r)"
  shows "handover_wf S' \<and> ho_gen S' = ho_gen S \<and> ho_consensus S' = ho_consensus S \<and>
    r \<noteq> Err (CorruptedHandoverHistory g n)"
proof -
  let ?g = "vote_gen A v"
  obtain c d where get: "bm_get (ho_failed_consensus_rounds S) ?g = Some (c, d)"
    using handover_wf_get [OF wf, of ?g] lt by auto
  obtain c' r' where h: "cs_handle_signed_vote A c v = (c', r')" by fastforce
  have ins: "bm_insert ?g (c', d) (ho_failed_consensus_rounds S)
      = map (\<lambda>e. if fst e = ?g then (?g, c', d) else e) (ho_failed_consensus_rounds S)"
    by (rule bm_insert_replace [OF handover_wf_map [OF wf] get])
  have "proposals d = []" using wf map_of_SomeD [OF get] by (auto simp: handover_wf_def)
  moreover have "map fst (map (\<lambda>e. if fst e = ?g then (?g, c', d) else e) (ho_failed_consensus_rounds S))
      = map fst (ho_failed_consensus_rounds S)" by auto
  ultimately have "handover_wf (S\<lparr>ho_failed_consensus_rounds := bm_insert ?g (c', d) (ho_failed_consensus_rounds S)\<rparr>)"
    using wf unfolding ins handover_wf_def by (auto simp del: map_map split: if_splits)
  with res show ?thesis by (auto simp: handle_outdated_signed_vote_def get h Let_def)
qed

lemma vote_keeps:
  assumes wf: "handover_wf S" and res: "ho_handle_signed_vote A S v = (S', r)"
  shows "handover_wf S' \<and> ho_gen S' = ho_gen S \<and> r \<noteq> Err (CorruptedHandoverHistory g m) \<and>
    (r = Err HoRequestAntiEntropy \<longleftrightarrow> ho_gen S < vote_gen A v) \<and> (ho_gen S < vote_gen A v \<longrightarrow> S' = S)"
proof (cases "vote_gen A v < ho_gen S")
  case True
  then have out: "handle_outdated_signed_vote A S v = (S', r)"
    using res by (simp add: ho_handle_signed_vote_def cmp_of_def)
  then have "r \<noteq> Err HoRequestAntiEntropy"
    by (auto simp: handle_outdated_signed_vote_def Let_def split: option.splits prod.splits)
  with outdated_vote_known [OF wf True out] True show ?thesis by simp
next
  case False
  with wf res show ?thesis
    by (auto simp: ho_handle_signed_vote_def cmp_of_def Let_def split: if_splits prod.splits)
qed

lemma empty_set_keeps:
  assumes wf: "handover_wf S"
  shows "handover_wf (handle_empty_set_decision A S)"
proof (cases "\<exists>d. cs_decision A (ho_consensus S) = Some d \<and> proposals d = []")
  case True
  then obtain d where d: "cs_decision A (ho_consensus S) = Some d" "proposals d = []" by blast
  have "bm_insert (ho_gen S) (ho_consensus S, d) (ho_failed_consensus_rounds S)
      = ho_failed_consensus_rounds S @ [(ho_gen S, ho_consensus S, d)]"
    using wf by (intro bm_insert_last) (simp add: handover_wf_def)
  then show ?thesis using wf d by (simp add: handle_empty_set_decision_def Let_def handover_wf_def)
next
  case False
  then show ?thesis using wf by (auto simp: handle_empty_set_decision_def Let_def split: option.splits)
qed

lemma handover_step_keeps: "handover_step A S S' \<Longrightarrow> handover_wf S \<Longrightarrow> handover_wf S'"
proof (induction rule: handover_step.induct)
  case (propose S proposal S' r)
  then show ?case
    by (auto simp: ho_propose_def ho_cast_vote_def Let_def split: if_splits option.splits prod.splits)
next
  case (vote S v S' r)
  show ?case by (rule vote_keeps [OF vote.prems vote.hyps, THEN conjunct1])
next
  case (empty_set S)
  then show ?case by (rule empty_set_keeps)
qed

lemma handover_reachable_wf:
  assumes "(handover_step A)\<^sup>*\<^sup>* (handover_from A sk elders n) S"
  shows "handover_wf S"
  using assms
proof (induction rule: rtranclp_induct)
  case base
  show ?case by (simp add: handover_from_def handover_wf_def)
next
  case (step S S')
  then show ?case by (blast intro: handover_step_keeps)
qed

text \<open>
  C24. However proposals, votes and failed rounds interleave, the handover history is never corrupted:
  in every state that is reached from a new handover, a failed round with an empty decision is filed
  for exactly the generations below the current one, so that no vote, of whatever generation, is
  answered with \<open>CorruptedHandoverHistory\<close>; a vote of a later generation asks for anti-entropy and
  changes nothing.
\<close>

theorem handover_history_sound:
  assumes "(handover_step A)\<^sup>*\<^sup>* (handover_from A sk elders n) S"
  shows "handover_wf S \<and>
    (case ho_handle_signed_vote A S v of (S', r) \<Rightarrow>
       handover_wf S' \<and> ho_gen S' = ho_gen S \<and> (\<forall>g m. r \<noteq> Err (CorruptedHandoverHistory g m)) \<and>
       (r = Err HoRequestAntiEntropy \<longleftrightarrow> ho_gen S < vote_gen A v) \<and> (ho_gen S < vote_gen A v \<longrightarrow> S' = S))"
proof -
  have wf: "handover_wf S" by (rule handover_reachable_wf [OF assms])
  obtain S' r where res: "ho_handle_signed_vote A S v = (S', r)" by fastforce
  show ?thesis using wf vote_keeps [OF wf res] by (simp add: res)
qed

text \<open>A consensus whose first vote decides on the empty set, to evaluate on.\<close>

definition empty_consensus :: "(sap_candidate decision option, nat, unit) sap_consensus" where
  "empty_consensus = \<lparr> cs_from = (\<lambda>_ _ _. None), cs_secret_key = (\<lambda>_. 0), cs_elders = (\<lambda>_. 0),
     cs_n_elders = (\<lambda>_. 1), cs_decision = (\<lambda>c. c),
     cs_handle_signed_vote = (\<lambda>c v. (Some (Decision v [] 0), Some ())),
     cs_sign_proposal = (\<lambda>c g n. Some g), cs_is_byzantine = (\<lambda>_ _. False),
     cs_cast_vote = (\<lambda>c v. (c, Some v)), cs_votes = (\<lambda>_. []), cs_super_majority_vote = (\<lambda>_ _. None),
     cs_processed = (\<lambda>_ _. False), vote_gen = (\<lambda>v. v), vote_proposals = (\<lambda>v. []),
     vote_signed_for = (\<lambda>_ _. True) \<rparr>"

theorem handover_history_sound_witness:
  "ho_gen (handle_empty_set_decision empty_consensus
     (fst (ho_handle_signed_vote empty_consensus (handover_from empty_consensus 0 0 1) 0))) = 1 \<and>
   snd (ho_handle_signed_vote empty_consensus (handle_empty_set_decision empty_consensus
     (fst (ho_handle_signed_vote empty_consensus (handover_from empty_consensus 0 0 1) 0))) 2)
     = Err HoRequestAntiEntropy"
proof -
  let ?S0 = "handover_from empty_consensus 0 0 1"
  let ?S1 = "fst (ho_handle_signed_vote empty_consensus ?S0 0)"
  let ?S2 = "handle_empty_set_decision empty_consensus ?S1"
  have "handover_step empty_consensus ?S0 ?S1" by (rule handover_step.vote) (rule surjective_pairing)
  then have "(handover_step empty_consensus)\<^sup>*\<^sup>* ?S0 ?S2"
    by (blast intro: handover_step.empty_set rtranclp.rtrancl_into_rtrancl)
  from handover_history_sound [OF this, of 2]
  have "ho_gen ?S2 < vote_gen empty_consensus 2 \<longrightarrow>
      snd (ho_handle_signed_vote empty_consensus ?S2 2) = Err HoRequestAntiEntropy"
    by (auto split: prod.splits)
  moreover have "ho_gen ?S2 = 1"
    by (simp add: handover_from_def ho_handle_signed_vote_def empty_consensus_def cmp_of_def
        handle_empty_set_decision_def)
  moreover have "vote_gen empty_consensus 2 = 2" by (simp add: empty_consensus_def)
  ultimately show ?thesis by simp
qed

subsection \<open>The winner\<close>

text \<open>
  Elders that decide on the same set of proposals hand over to the same candidate: \<open>consensus_value\<close>
  is one of the proposals, there is one as soon as a nonempty set is decided, and it does not depend
  on the order in which the proposals are held or on anything else of the handover.
\<close>

theorem consensus_value_agrees:
  assumes cmp: "total_order cmp" and antisym: "\<And>a b. a \<in> set (bm_keys (proposals d1)) \<Longrightarrow> b \<in> set (bm_keys (proposals d1)) \<Longrightarrow> cmp a b \<noteq> Greater \<Longrightarrow> cmp b a \<noteq> Greater \<Longrightarrow> a = b"
    and d1: "cs_decision A (ho_consensus S1) = Some d1" and d2: "cs_decision A (ho_consensus S2) = Some d2"
    and same: "set (bm_keys (proposals d1)) = set (bm_keys (proposals d2))"
  shows "consensus_value cmp A S1 = consensus_value cmp A S2 \<and>
    (case consensus_value cmp A S1 of
       Some s \<Rightarrow> s \<in> set (bm_keys (proposals d1)) | None \<Rightarrow> proposals d1 = [])"
proof -
  let ?k1 = "bm_keys (proposals d1)" and ?k2 = "bm_keys (proposals d2)"
  have none: "min_by cmp ks = None \<longleftrightarrow> ks = []" for ks by (cases ks) auto
  have v: "consensus_value cmp A S1 = min_by cmp ?k1" "consensus_value cmp A S2 = min_by cmp ?k2"
    by (simp_all add: consensus_value_def d1 d2)
  show ?thesis
  proof (cases "min_by cmp ?k1")
    case None
    then have "?k1 = []" "?k2 = []" using same by (simp_all add: none)
    then show ?thesis unfolding v by (simp add: bm_keys_def)
  next
    case (Some m1)
    then have "?k2 \<noteq> []" using same none [of ?k1] by auto
    then obtain m2 where m2: "min_by cmp ?k2 = Some m2" using none [of ?k2] by auto
    have "m1 = m2"
      using min_by_least [OF cmp Some] min_by_least [OF cmp m2] same antisym by auto
    with Some m2 min_by_least [OF cmp Some] show ?thesis unfolding v by simp
  qed
qed

fun candidate_rank :: "sap_candidate \<Rightarrow> nat" where
  "candidate_rank (ElderHandover s) = sap_public_key_set (sd_value s)"
| "candidate_rank (SectionSplit s t) = sap_public_key_set (sd_value s)"

definition rank_cmp :: "sap_candidate \<Rightarrow> sap_candidate \<Rightarrow> ordering" where
  "rank_cmp a b = cmp_of (candidate_rank a) (candidate_rank b)"

definition sample_decided :: "nat list \<Rightarrow> sap_candidate decision" where
  "sample_decided ks = Decision 0 (map (\<lambda>k. (ElderHandover (sample_signed [] k), 0)) ks) 0"

definition decided_on :: "nat list \<Rightarrow> sap_candidate decision option handover" where
  "decided_on ks = (handover_from empty_consensus 0 0 1)\<lparr>ho_consensus := Some (sample_decided ks)\<rparr>"

theorem consensus_value_agrees_witness:
  "consensus_value rank_cmp empty_consensus (decided_on [2, 3]) =
     consensus_value rank_cmp empty_consensus (decided_on [3, 2])"
proof -
  have "total_order rank_cmp" by (auto simp: total_order_def rank_cmp_def cmp_of_def split: if_splits)
  moreover have "cs_decision empty_consensus (ho_consensus (decided_on ks)) = Some (sample_decided ks)" for ks
    by (simp add: decided_on_def empty_consensus_def)
  moreover have "a = b" if "a \<in> set (bm_keys (proposals (sample_decided [2, 3])))"
    "b \<in> set (bm_keys (proposals (sample_decided [2, 3])))" "rank_cmp a b \<noteq> Greater" "rank_cmp b a \<noteq> Greater" for a b
    using that by (auto simp: sample_decided_def bm_keys_def rank_cmp_def cmp_of_def sample_signed_def
        sample_sap_def new_sap_def split: if_splits)
  moreover have "set (bm_keys (proposals (sample_decided [2, 3]))) = set (bm_keys (proposals (sample_decided [3, 2])))"
    by (auto simp: sample_decided_def bm_keys_def)
  ultimately show ?thesis
    using consensus_value_agrees [of rank_cmp "sample_decided [2, 3]" empty_consensus "decided_on [2, 3]"
        "decided_on [3, 2]" "sample_decided [3, 2]"] by blast
qed

end
