(* ===== verification/Disk.thy ===== *)
theory Disk
  imports Prelude
begin

section \<open>The file system\<close>

text \<open>
  What the storage uses of \<open>std::fs\<close>, \<open>tokio::fs\<close> and \<open>walkdir\<close>. A path is the list of its components.
  A disk holds files and directories; the list of the files is in the order in which a walk meets
  them, which is arbitrary. Any call may fail for a reason outside of the program: \<open>io_faults\<close> says
  which calls fail, and how many bytes a failing write leaves in the file.
\<close>

type_synonym path = "string list"

record disk =
  disk_files :: "(path \<times> bytes) list"
  disk_dirs :: "path list"
  disk_dir_len :: nat

datatype io_error = NotFound | IsADirectory | NotADirectory | OtherIo

datatype io_call = CreateDir | CreateFile | WriteFile | SyncFile | ReadFile | Metadata | RemoveFile

record io_faults =
  fails :: "io_call \<Rightarrow> path \<Rightarrow> bool"
  written :: "path \<Rightarrow> nat"

definition no_faults :: io_faults where
  "no_faults = \<lparr> fails = (\<lambda>_ _. False), written = (\<lambda>_. 0) \<rparr>"

abbreviation file_of :: "disk \<Rightarrow> path \<Rightarrow> bytes option" where
  "file_of D \<equiv> map_of (disk_files D)"

definition fs_exists :: "disk \<Rightarrow> path \<Rightarrow> bool" where
  "fs_exists D p \<longleftrightarrow> p \<in> set (disk_dirs D) \<or> file_of D p \<noteq> None"

text \<open>A file keeps its place in the walk when it is written again; a new one is met last.\<close>

fun put_file :: "path \<Rightarrow> bytes \<Rightarrow> (path \<times> bytes) list \<Rightarrow> (path \<times> bytes) list" where
  "put_file p bs [] = [(p, bs)]"
| "put_file p bs ((q, cs) # fs) = (if p = q then (p, bs) # fs else (q, cs) # put_file p bs fs)"

definition create_dir_all :: "io_faults \<Rightarrow> disk \<Rightarrow> path \<Rightarrow> disk \<times> (unit, io_error) result" where
  "create_dir_all F D p =
     (let ps = map (\<lambda>n. take n p) [0..<length p + 1] in
      if fails F CreateDir p then (D, Err OtherIo)
      else if list_ex (\<lambda>q. file_of D q \<noteq> None) ps then (D, Err NotADirectory)
      else (D\<lparr>disk_dirs := filter (\<lambda>q. q \<notin> set (disk_dirs D)) ps @ disk_dirs D\<rparr>, Ok ()))"

definition fs_create :: "io_faults \<Rightarrow> disk \<Rightarrow> path \<Rightarrow> disk \<times> (unit, io_error) result" where
  "fs_create F D p =
     (if fails F CreateFile p then (D, Err OtherIo)
      else if p \<in> set (disk_dirs D) then (D, Err IsADirectory)
      else if butlast p \<notin> set (disk_dirs D) then (D, Err NotFound)
      else (D\<lparr>disk_files := put_file p [] (disk_files D)\<rparr>, Ok ()))"

definition fs_write_all :: "io_faults \<Rightarrow> disk \<Rightarrow> path \<Rightarrow> bytes \<Rightarrow> disk \<times> (unit, io_error) result" where
  "fs_write_all F D p bs =
     (if fails F WriteFile p
      then (D\<lparr>disk_files := put_file p (take (written F p) bs) (disk_files D)\<rparr>, Err OtherIo)
      else (D\<lparr>disk_files := put_file p bs (disk_files D)\<rparr>, Ok ()))"

definition fs_sync :: "io_faults \<Rightarrow> path \<Rightarrow> (unit, io_error) result" where
  "fs_sync F p = (if fails F SyncFile p then Err OtherIo else Ok ())"

definition fs_read :: "io_faults \<Rightarrow> disk \<Rightarrow> path \<Rightarrow> (bytes, io_error) result" where
  "fs_read F D p =
     (if fails F ReadFile p then Err OtherIo
      else case file_of D p of
        Some bs \<Rightarrow> Ok bs
      | None \<Rightarrow> if p \<in> set (disk_dirs D) then Err IsADirectory else Err NotFound)"

definition fs_metadata_len :: "io_faults \<Rightarrow> disk \<Rightarrow> path \<Rightarrow> (nat, io_error) result" where
  "fs_metadata_len F D p =
     (if fails F Metadata p then Err OtherIo
      else case file_of D p of
        Some bs \<Rightarrow> Ok (length bs)
      | None \<Rightarrow> if p \<in> set (disk_dirs D) then Ok (disk_dir_len D) else Err NotFound)"

definition fs_remove_file :: "io_faults \<Rightarrow> disk \<Rightarrow> path \<Rightarrow> disk \<times> (unit, io_error) result" where
  "fs_remove_file F D p =
     (if fails F RemoveFile p then (D, Err OtherIo)
      else case file_of D p of
        Some _ \<Rightarrow> (D\<lparr>disk_files := filter (\<lambda>f. fst f \<noteq> p) (disk_files D)\<rparr>, Ok ())
      | None \<Rightarrow> (D, Err (if p \<in> set (disk_dirs D) then IsADirectory else NotFound)))"

definition list_files_in :: "disk \<Rightarrow> path \<Rightarrow> path list" where
  "list_files_in D p =
     (if fs_exists D p then filter (\<lambda>q. take (length p) q = p) (map fst (disk_files D)) else [])"

section \<open>Properties of the file system\<close>

text \<open>
  No path is twice a file, or a file and a directory; what holds a file is a directory, and so is what
  holds a directory.
\<close>

definition disk_wf :: "disk \<Rightarrow> bool" where
  "disk_wf D \<longleftrightarrow>
     distinct (map fst (disk_files D)) \<and>
     (\<forall>p \<in> fst ` set (disk_files D). p \<noteq> [] \<and> p \<notin> set (disk_dirs D) \<and> butlast p \<in> set (disk_dirs D)) \<and>
     (\<forall>d \<in> set (disk_dirs D). \<forall>n. take n d \<in> set (disk_dirs D))"

lemma file_of_put [simp]: "map_of (put_file p bs fs) = (map_of fs)(p \<mapsto> bs)"
  by (induction p bs fs rule: put_file.induct) (auto simp: fun_eq_iff)

lemma fst_put: "fst ` set (put_file p bs fs) = insert p (fst ` set fs)"
  by (induction p bs fs rule: put_file.induct) auto

lemma distinct_put: "distinct (map fst fs) \<Longrightarrow> distinct (map fst (put_file p bs fs))"
  by (induction p bs fs rule: put_file.induct) (auto simp: fst_put)

lemma file_of_filter: "map_of (filter (\<lambda>f. fst f \<noteq> p) fs) = (map_of fs)(p := None)"
  by (induction fs) (auto simp: fun_eq_iff)

lemma sum_put:
  "distinct (map fst fs) \<Longrightarrow>
   sum_list (map (length \<circ> snd) (put_file p bs fs)) + (case map_of fs p of Some cs \<Rightarrow> length cs | None \<Rightarrow> 0) =
     sum_list (map (length \<circ> snd) fs) + length bs"
proof (induction p bs fs rule: put_file.induct)
  case (2 p bs q cs fs)
  then show ?case by (auto simp: map_of_eq_None_iff split: option.splits)
qed simp

lemma sum_filter:
  "distinct (map fst fs) \<Longrightarrow> map_of fs p = Some cs \<Longrightarrow>
   sum_list (map (length \<circ> snd) (filter (\<lambda>f. fst f \<noteq> p) fs)) + length cs = sum_list (map (length \<circ> snd) fs)"
proof (induction fs)
  case (Cons f fs)
  obtain q ds where f: "f = (q, ds)" by (cases f)
  show ?case
  proof (cases "q = p")
    case True
    then have "filter (\<lambda>f. fst f \<noteq> p) fs = fs" using Cons.prems(1) by (auto simp: f filter_id_conv)
    then show ?thesis using True Cons.prems(2) by (simp add: f)
  next
    case False
    then show ?thesis using Cons by (simp add: f)
  qed
qed simp

lemma fs_create_files:
  assumes "fs_create F D p = (D', Ok u)"
  shows "disk_files D' = put_file p [] (disk_files D)" "disk_dirs D' = disk_dirs D" "disk_dir_len D' = disk_dir_len D"
    "p \<notin> set (disk_dirs D)"
  using assms by (auto simp: fs_create_def split: if_splits)

lemma create_dir_all_files:
  "create_dir_all F D p = (D', r) \<Longrightarrow> disk_files D' = disk_files D"
  by (auto simp: create_dir_all_def Let_def split: if_splits)

lemma create_dir_all_ok:
  assumes "create_dir_all F D p = (D', Ok u)"
  shows "set (disk_dirs D') = set (disk_dirs D) \<union> (\<lambda>n. take n p) ` {..length p}"
proof -
  let ?ps = "map (\<lambda>n. take n p) [0..<length p + 1]"
  have "disk_dirs D' = filter (\<lambda>q. q \<notin> set (disk_dirs D)) ?ps @ disk_dirs D"
    using assms by (auto simp: create_dir_all_def Let_def split: if_splits)
  moreover have "set ?ps = (\<lambda>n. take n p) ` {..length p}"
    by (simp add: atLeast0LessThan lessThan_Suc_atMost del: upt_Suc)
  ultimately show ?thesis by (simp add: set_eq_iff del: upt_Suc set_map) blast
qed

text \<open>Every call keeps the disk well formed, whether it fails or not.\<close>

lemma disk_wf_create_dir_all:
  assumes wf: "disk_wf D" and call: "create_dir_all F D p = (D', r)"
  shows "disk_wf D'"
proof (cases r)
  case (Err e)
  then show ?thesis using assms by (auto simp: create_dir_all_def Let_def split: if_splits)
next
  case (Ok u)
  let ?ps = "(\<lambda>n. take n p) ` {..length p}"
  have files: "disk_files D' = disk_files D" by (rule create_dir_all_files [OF call])
  have dirs: "set (disk_dirs D') = set (disk_dirs D) \<union> ?ps"
    by (rule create_dir_all_ok [of F _ _ _ u]) (simp add: call Ok)
  have none: "file_of D (take n p) = None" if "n \<le> length p" for n
    using call Ok that by (simp add: create_dir_all_def Let_def list_ex_iff split: if_splits del: upt_Suc)
  have new: "q \<notin> ?ps" if "q \<in> fst ` set (disk_files D)" for q
    using none that unfolding map_of_eq_None_iff by blast
  have sub: "take m d \<in> ?ps" if d: "d \<in> ?ps" for m d
  proof -
    from d obtain n where "d = take n p" "n \<le> length p" by auto
    then show ?thesis by (intro image_eqI [of _ _ "min m n"]) (auto simp: min_def)
  qed
  have "q \<noteq> [] \<and> q \<notin> set (disk_dirs D') \<and> butlast q \<in> set (disk_dirs D')" if "q \<in> fst ` set (disk_files D)" for q
    using that wf new [OF that] by (force simp: disk_wf_def dirs)
  moreover have "take m d \<in> set (disk_dirs D')" if "d \<in> set (disk_dirs D')" for m d
    using that wf sub by (auto simp only: dirs disk_wf_def Un_iff)
  moreover have "distinct (map fst (disk_files D'))" using wf by (simp add: disk_wf_def files)
  ultimately show ?thesis by (simp add: disk_wf_def files)
qed

lemma disk_wf_create:
  assumes wf: "disk_wf D" and call: "fs_create F D p = (D', r)"
  shows "disk_wf D'"
proof (cases r)
  case (Err e)
  then show ?thesis using assms by (auto simp: fs_create_def split: if_splits)
next
  case (Ok u)
  then have p: "p \<notin> set (disk_dirs D)" "butlast p \<in> set (disk_dirs D)"
    and D': "D' = D\<lparr>disk_files := put_file p [] (disk_files D)\<rparr>"
    using call by (auto simp: fs_create_def split: if_splits)
  then have "p \<noteq> []" by auto
  then show ?thesis using wf p by (auto simp: D' disk_wf_def fst_put distinct_put)
qed

lemma disk_wf_write:
  assumes wf: "disk_wf D" and kept: "file_of D p \<noteq> None" and call: "fs_write_all F D p bs = (D', r)"
  shows "disk_wf D'"
proof -
  have "p \<in> fst ` set (disk_files D)" using kept by (simp add: map_of_eq_None_iff)
  then have "disk_wf (D\<lparr>disk_files := put_file p cs (disk_files D)\<rparr>)" for cs
    using wf by (auto simp: disk_wf_def fst_put distinct_put)
  then show ?thesis using call by (auto simp: fs_write_all_def split: if_splits)
qed

lemma disk_wf_remove:
  assumes wf: "disk_wf D" and call: "fs_remove_file F D p = (D', r)"
  shows "disk_wf D'"
proof -
  have "disk_wf (D\<lparr>disk_files := filter (\<lambda>f. fst f \<noteq> p) (disk_files D)\<rparr>)"
    using wf by (auto simp: disk_wf_def distinct_map_filter)
  then show ?thesis using wf call by (auto simp: fs_remove_file_def split: if_splits option.splits)
qed

lemmas disk_wf_calls = disk_wf_create_dir_all disk_wf_create disk_wf_remove

lemma disk_wf_file_not_dir: "disk_wf D \<Longrightarrow> file_of D p \<noteq> None \<Longrightarrow> p \<notin> set (disk_dirs D)"
  by (auto simp: disk_wf_def map_of_eq_None_iff image_iff)

text \<open>What is below a path that does not exist is nothing.\<close>

lemma disk_wf_parent:
  assumes wf: "disk_wf D" and p: "p \<in> fst ` set (disk_files D)" and n: "n < length p"
  shows "take n p \<in> set (disk_dirs D)"
proof -
  have "butlast p \<in> set (disk_dirs D)" using wf p by (auto simp: disk_wf_def)
  then have "take n (butlast p) \<in> set (disk_dirs D)" using wf by (simp add: disk_wf_def)
  moreover have "take n (butlast p) = take n p" using n by (simp add: take_butlast)
  ultimately show ?thesis by simp
qed

lemma list_files_in_wf:
  assumes wf: "disk_wf D"
  shows "list_files_in D p = filter (\<lambda>q. take (length p) q = p) (map fst (disk_files D))"
proof (cases "fs_exists D p")
  case False
  have "take (length p) q \<noteq> p" if q: "q \<in> fst ` set (disk_files D)" for q
  proof
    assume tk: "take (length p) q = p"
    consider "length p < length q" | "q = p" using tk by (cases "length p < length q") auto
    then show False
    proof cases
      case 1
      with disk_wf_parent [OF wf q] tk False show ?thesis by (metis fs_exists_def)
    next
      case 2
      with q False show ?thesis by (simp add: fs_exists_def map_of_eq_None_iff)
    qed
  qed
  then show ?thesis using False by (auto simp: list_files_in_def filter_empty_conv)
qed (simp add: list_files_in_def)

end
