(* ===== verification/Floats.thy ===== *)
theory Floats
  imports Complex_Main "HOL-Library.Log_Nat"
begin

section \<open>Floating-point numbers\<close>

text \<open>
  The types \<open>f32\<close> and \<open>f64\<close> of the language. A finite number is the rational it stands for; every
  operation gives the exact result rounded to the nearest number with a significand of 24 or 53
  bits, ties to even, as IEEE 754 has it. Overflow to infinity and subnormal results are outside of
  the model, since the code counts issues and multiplies by weights between 1 and 2.5, and takes the
  ratio of two sizes; the division by zero it may do for the latter is in the model.
\<close>

type_synonym f32 = rat

definition pow2 :: "int \<Rightarrow> rat" where
  "pow2 e = (if 0 \<le> e then 2 ^ nat e else 1 / 2 ^ nat (- e))"

text \<open>The exponent of a positive rational: \<open>pow2 (exponent x) \<le> x < pow2 (exponent x + 1)\<close>.\<close>

definition exponent :: "rat \<Rightarrow> int" where
  "exponent x =
     (let (a, b) = quotient_of x; e = bitlen a - bitlen b in
      if pow2 e \<le> x then e else e - 1)"

definition round_half_even :: "rat \<Rightarrow> int" where
  "round_half_even x =
     (let n = \<lfloor>x\<rfloor>; r = x - of_int n in
      if r < 1 / 2 \<or> (r = 1 / 2 \<and> even n) then n else n + 1)"

definition fl_round :: "int \<Rightarrow> rat \<Rightarrow> rat" where
  "fl_round bits x =
     (if x = 0 then 0
      else (let e = exponent \<bar>x\<bar> - (bits - 1);
                n = of_int (round_half_even (\<bar>x\<bar> / pow2 e)) * pow2 e
            in if x < 0 then - n else n))"

abbreviation f32_round :: "rat \<Rightarrow> f32" where
  "f32_round \<equiv> fl_round 24"

abbreviation f64_round :: "rat \<Rightarrow> rat" where
  "f64_round \<equiv> fl_round 53"

definition f32_add :: "f32 \<Rightarrow> f32 \<Rightarrow> f32" where
  "f32_add a b = f32_round (a + b)"

definition f32_sub :: "f32 \<Rightarrow> f32 \<Rightarrow> f32" where
  "f32_sub a b = f32_round (a - b)"

definition f32_mul :: "f32 \<Rightarrow> f32 \<Rightarrow> f32" where
  "f32_mul a b = f32_round (a * b)"

definition f32_div :: "f32 \<Rightarrow> f32 \<Rightarrow> f32" where
  "f32_div a b = f32_round (a / b)"

function isqrt :: "int \<Rightarrow> int" where
  "isqrt n =
     (if n \<le> 0 then 0
      else (let r = 2 * isqrt (n div 4) in if (r + 1) * (r + 1) \<le> n then r + 1 else r))"
  by auto

termination by (relation "measure nat") auto

declare isqrt.simps [simp del]

text \<open>
  The square root of a number with 24 bits is never half way between two such numbers, so that the
  comparison with the half decides the rounding.
\<close>

definition f32_sqrt :: "f32 \<Rightarrow> f32" where
  "f32_sqrt x =
     (if x \<le> 0 then 0
      else (let e = exponent x div 2 - 23;
                y = x / (pow2 e * pow2 e);
                s = isqrt \<lfloor>y\<rfloor>;
                h = of_int s + 1 / 2
            in of_int (if h * h < y then s + 1 else s) * pow2 e))"

definition f32_of_nat :: "nat \<Rightarrow> f32" where
  "f32_of_nat n = f32_round (of_nat n)"

definition f32_ceil :: "f32 \<Rightarrow> f32" where
  "f32_ceil x = of_int \<lceil>x\<rceil>"

text \<open>The cast to \<open>usize\<close> drops the fraction and saturates.\<close>

definition f32_to_usize :: "f32 \<Rightarrow> nat" where
  "f32_to_usize x = nat (min \<lfloor>x\<rfloor> (2 ^ 64 - 1))"

definition f32_sum :: "f32 list \<Rightarrow> f32" where
  "f32_sum xs = foldl f32_add 0 xs"

text \<open>A nonnegative number of type \<open>f64\<close>, where a quotient by zero is infinite or not a number.\<close>

datatype f64 = Finite rat | Infinite | NaN

definition f64_div_nat :: "nat \<Rightarrow> nat \<Rightarrow> f64" where
  "f64_div_nat a b =
     (if b = 0 then (if a = 0 then NaN else Infinite)
      else Finite (f64_round (f64_round (of_nat a) / f64_round (of_nat b))))"

fun f64_mul :: "f64 \<Rightarrow> rat \<Rightarrow> f64" where
  "f64_mul (Finite x) y = Finite (f64_round (x * y))"
| "f64_mul Infinite y = (if y = 0 then NaN else Infinite)"
| "f64_mul NaN y = NaN"

fun f64_to_usize :: "f64 \<Rightarrow> nat" where
  "f64_to_usize (Finite x) = nat (min \<lfloor>x\<rfloor> (2 ^ 64 - 1))"
| "f64_to_usize Infinite = 2 ^ 64 - 1"
| "f64_to_usize NaN = 0"

fun f64_greater :: "rat \<Rightarrow> f64 \<Rightarrow> bool" where
  "f64_greater y (Finite x) = (y > x)"
| "f64_greater y _ = False"

subsection \<open>The exponent, and what rounding keeps\<close>

lemma pow2_pos [simp]: "0 < pow2 e"
  by (simp add: pow2_def)

lemma fl_round_0 [simp]: "fl_round bits 0 = 0"
  by (simp add: fl_round_def)

lemma f32_zero [simp]: "f32_add 0 0 = 0" "f32_mul 0 x = 0" "f32_of_nat 0 = 0" "f32_to_usize 0 = 0"
  by (simp_all add: f32_add_def f32_mul_def f32_of_nat_def f32_to_usize_def)

lemma isqrt_correct: "0 \<le> n \<Longrightarrow> 0 \<le> isqrt n \<and> isqrt n * isqrt n \<le> n \<and> n < (isqrt n + 1) * (isqrt n + 1)"
proof (induction n rule: isqrt.induct)
  case (1 n)
  show ?case
  proof (cases "n = 0")
    case True
    then show ?thesis by (simp add: isqrt.simps)
  next
    case False
    let ?q = "isqrt (n div 4)"
    have q: "0 \<le> ?q" "?q * ?q \<le> n div 4" "n div 4 < (?q + 1) * (?q + 1)" using 1 False by auto
    then have "4 * (?q * ?q) \<le> n" "n < 4 * ((?q + 1) * (?q + 1))" by linarith+
    then have "(2 * ?q) * (2 * ?q) \<le> n" "n < (2 * ?q + 2) * (2 * ?q + 2)" by (simp_all add: algebra_simps)
    moreover have "isqrt n = (if (2 * ?q + 1) * (2 * ?q + 1) \<le> n then 2 * ?q + 1 else 2 * ?q)"
      using False 1 by (subst isqrt.simps) (simp add: Let_def)
    ultimately show ?thesis using q(1) by (auto simp: algebra_simps)
  qed
qed

lemma round_half_even_int [simp]: "round_half_even (of_int n) = n"
  by (simp add: round_half_even_def)

lemma exponent_int:
  assumes "0 < n" and "n < 2 ^ nat bits" and "0 < bits"
  shows "exponent (of_int n) \<le> bits - 1"
proof -
  have "bitlen n \<le> bits" using assms by (simp add: bitlen_le_iff_power)
  moreover have "bitlen 1 = 1" by (simp add: bitlen_alt_def)
  ultimately show ?thesis by (simp add: exponent_def quotient_of_int Let_def)
qed

text \<open>Integers that fit the significand are numbers of the type, so that arithmetic on them that stays there is exact.\<close>

lemma fl_round_int:
  assumes "\<bar>n\<bar> < 2 ^ nat bits" and "0 < bits"
  shows "fl_round bits (of_int n) = of_int n"
proof (cases "n = 0")
  case False
  let ?e = "exponent (of_int \<bar>n\<bar>) - (bits - 1)"
  have "?e \<le> 0" using exponent_int [of "\<bar>n\<bar>" bits] assms False by simp
  then have p: "pow2 ?e = 1 / 2 ^ nat (- ?e)" by (simp add: pow2_def)
  have "of_int \<bar>n\<bar> / pow2 ?e = of_int (\<bar>n\<bar> * 2 ^ nat (- ?e))" unfolding p by simp
  then have "round_half_even (of_int \<bar>n\<bar> / pow2 ?e) = \<bar>n\<bar> * 2 ^ nat (- ?e)"
    by (simp only: round_half_even_int)
  then have "of_int (round_half_even (of_int \<bar>n\<bar> / pow2 ?e)) * pow2 ?e = of_int \<bar>n\<bar>"
    unfolding p by simp
  then show ?thesis using False by (cases "n < 0") (simp_all add: fl_round_def Let_def)
qed simp

lemma f32_round_numeral [simp]:
  "numeral w < (2 ^ 24 :: int) \<Longrightarrow> f32_round (numeral w) = numeral w"
  "numeral w < (2 ^ 24 :: int) \<Longrightarrow> f32_round (- numeral w) = - numeral w"
  "f32_round 1 = 1" "f32_round (- 1) = - 1"
  using fl_round_int [of "numeral w" 24] fl_round_int [of "- numeral w" 24] fl_round_int [of 1 24]
    fl_round_int [of "- 1" 24]
  by simp_all

lemma f64_round_numeral [simp]:
  "numeral w < (2 ^ 53 :: int) \<Longrightarrow> f64_round (numeral w) = numeral w" "f64_round 1 = 1"
  using fl_round_int [of "numeral w" 53] fl_round_int [of 1 53] by simp_all

end
