(* ===== verification/Used_Space.thy ===== *)
theory Used_Space
  imports Xor_Space Floats
begin

section \<open>Used space\<close>

text \<open>
  \<open>sn_node/src/storage/used_space.rs\<close>: how many bytes the node has stored, and the storage levels it
  reports as they grow. A \<open>usize\<close> is a 64-bit word, so that the atomic additions and subtractions wrap.
  The operations run one after the other.
\<close>

datatype storage_level = Updated u8 | NoChange

record used_space =
  us_min_capacity :: u64
  us_max_capacity :: u64
  us_last_seen_level :: u8
  us_used_space :: u64

definition used_space_new :: "u64 \<Rightarrow> u64 \<Rightarrow> used_space" where
  "used_space_new min_capacity max_capacity =
     \<lparr> us_min_capacity = min_capacity, us_max_capacity = max_capacity, us_last_seen_level = 0,
       us_used_space = 0 \<rparr>"

definition used_space_default :: used_space where
  "used_space_default = used_space_new (1024 * 1024 * 1024) (2 * (1024 * 1024 * 1024))"

definition ratio :: "used_space \<Rightarrow> f64" where
  "ratio U = f64_div_nat (unat (us_used_space U)) (unat (us_min_capacity U))"

text \<open>The division panics, which is \<open>None\<close>, when the recommended section size has been set to zero.\<close>

definition to_storage_level :: "string option \<Rightarrow> f64 \<Rightarrow> u8 option" where
  "to_storage_level env val =
     (if recommended_section_size env = 0 then None
      else Some (of_nat (f64_to_usize (f64_mul val 100) div recommended_section_size env)))"

definition increase :: "string option \<Rightarrow> used_space \<Rightarrow> u64 \<Rightarrow> (used_space \<times> storage_level) option" where
  "increase env U sz =
     (let U1 = U\<lparr>us_used_space := us_used_space U + sz\<rparr> in
      case to_storage_level env (ratio U1) of
        None \<Rightarrow> None
      | Some current_level \<Rightarrow>
          if us_last_seen_level U1 > current_level then Some (U1, NoChange)
          else if current_level > us_last_seen_level U1
          then Some (U1\<lparr>us_last_seen_level := current_level\<rparr>, Updated current_level)
          else Some (U1, NoChange))"

definition decrease :: "used_space \<Rightarrow> u64 \<Rightarrow> used_space" where
  "decrease U sz = U\<lparr>us_used_space := us_used_space U - sz\<rparr>"

definition can_add :: "used_space \<Rightarrow> u64 \<Rightarrow> bool" where
  "can_add U sz \<longleftrightarrow> us_used_space U + sz \<le> us_max_capacity U"

definition has_reached_min_capacity :: "used_space \<Rightarrow> bool" where
  "has_reached_min_capacity U \<longleftrightarrow> us_used_space U \<ge> us_min_capacity U"

section \<open>Properties of the used space\<close>

lemma increase_fields:
  assumes "increase env U sz = Some (U', l)"
  shows "us_used_space U' = us_used_space U + sz" "us_min_capacity U' = us_min_capacity U"
    "us_max_capacity U' = us_max_capacity U"
  using assms by (auto simp: increase_def Let_def split: option.splits if_splits)

lemma increase_level:
  assumes "increase env U sz = Some (U', l)"
  shows "case l of Updated n \<Rightarrow> us_last_seen_level U < n \<and> us_last_seen_level U' = n
         | NoChange \<Rightarrow> us_last_seen_level U' = us_last_seen_level U"
  using assms by (auto simp: increase_def Let_def split: option.splits if_splits)

lemma increase_returns:
  assumes "recommended_section_size env \<noteq> 0"
  shows "\<exists>U' l. increase env U sz = Some (U', l)"
proof -
  have "increase env U sz \<noteq> None" using assms by (simp add: increase_def to_storage_level_def Let_def)
  then show ?thesis by auto
qed

subsection \<open>Every level is reported once\<close>

datatype space_op = Increase u64 | Decrease u64

fun run_space :: "string option \<Rightarrow> used_space \<Rightarrow> space_op list \<Rightarrow> (used_space \<times> u8 list) option" where
  "run_space env U [] = Some (U, [])"
| "run_space env U (Increase sz # ops) =
     (case increase env U sz of
        None \<Rightarrow> None
      | Some (U1, l) \<Rightarrow>
          map_option (\<lambda>(U2, ls). (U2, (case l of Updated n \<Rightarrow> n # ls | NoChange \<Rightarrow> ls))) (run_space env U1 ops))"
| "run_space env U (Decrease sz # ops) = run_space env (decrease U sz) ops"

lemma run_space_levels:
  "run_space env U ops = Some (U', ls) \<Longrightarrow> sorted_wrt (<) (us_last_seen_level U # ls) \<and>
     us_last_seen_level U' = List.last (us_last_seen_level U # ls)"
proof (induction ops arbitrary: U ls)
  case (Cons op ops)
  show ?case
  proof (cases op)
    case (Increase sz)
    then obtain U1 l ls1 where inc: "increase env U sz = Some (U1, l)"
      and run: "run_space env U1 ops = Some (U', ls1)" and ls: "ls = (case l of Updated n \<Rightarrow> n # ls1 | NoChange \<Rightarrow> ls1)"
      using Cons.prems by (auto split: option.splits)
    show ?thesis
      using Cons.IH [OF run] increase_level [OF inc] ls by (cases l) (auto dest: less_trans split: if_splits)
  next
    case (Decrease sz)
    then have "run_space env (decrease U sz) ops = Some (U', ls)" using Cons.prems by simp
    from Cons.IH [OF this] show ?thesis by (simp add: decrease_def)
  qed
qed simp

text \<open>
  A level is reported once, however the used space rises and falls: over any sequence of increases
  and decreases the levels that \<open>increase\<close> reports grow strictly, from above the level seen before to
  the level seen last. The sequence ends without a panic unless the section size is set to zero.
\<close>

theorem levels_reported_once:
  assumes "recommended_section_size env \<noteq> 0"
  shows "\<exists>U' ls. run_space env U ops = Some (U', ls) \<and> sorted_wrt (<) (us_last_seen_level U # ls) \<and>
    us_last_seen_level U' = List.last (us_last_seen_level U # ls)"
proof -
  have "run_space env U ops \<noteq> None"
    using assms
  proof (induction ops arbitrary: U)
    case (Cons op ops)
    show ?case
    proof (cases op)
      case (Increase sz)
      obtain U1 l where "increase env U sz = Some (U1, l)" using increase_returns [OF Cons.prems] by blast
      then show ?thesis using Cons.IH [OF Cons.prems, of U1] by (auto simp: Increase)
    next
      case (Decrease sz)
      then show ?thesis using Cons.IH [OF Cons.prems] by simp
    qed
  qed simp
  then obtain U' ls where "run_space env U ops = Some (U', ls)" by auto
  with run_space_levels [OF this] show ?thesis by blast
qed

theorem levels_reported_once_witness:
  "\<exists>U' ls. run_space None (used_space_new 100 200) [Increase 50, Decrease 50, Increase 60] = Some (U', ls) \<and>
     sorted_wrt (<) (0 # ls)"
  using levels_reported_once [of None "used_space_new 100 200" "[Increase 50, Decrease 50, Increase 60]"]
  by (auto simp: recommended_section_size_def elder_count_def DEFAULT_ELDER_COUNT_def used_space_new_def)

text \<open>
  The levels are not the percentage points the documentation of \<open>StorageLevel\<close> has: with the default
  section size of 14, a node that has filled its minimum capacity is at level 7, not at 98, and there
  are 7 increments up to it, not one per node of the section.
\<close>

theorem full_node_level:
  "to_storage_level None (ratio (used_space_default\<lparr>us_used_space := us_min_capacity used_space_default\<rparr>)) = Some 7 \<and>
   recommended_section_size None = 14"
  by (simp add: to_storage_level_def ratio_def used_space_default_def used_space_new_def f64_div_nat_def recommended_section_size_def
      elder_count_def DEFAULT_ELDER_COUNT_def)

end
