(* ===== verification/Register_Data.thy ===== *)
theory Register_Data
  imports Sections_Dag Node_State "HOL-Library.Product_Lexorder" "HOL-Library.Multiset"
begin

section \<open>Registers\<close>

text \<open>
  \<open>sn_interface/src/types/register\<close> and \<open>types/address\<close>: a register is a Merkle register of the
  \<open>crdts\<close> crate with an address and a policy that says who may write to it.

  What the code uses of the crate beyond \<open>merkle_api\<close> is in \<open>reg_api\<close>, with the constant of the
  \<open>self_encryption\<close> crate that bounds an entry.
\<close>

subsection \<open>Addresses\<close>

datatype chunk_address = ChunkAddress (chunk_address_name: xor_name)

datatype register_address = RegisterAddress (reg_name: xor_name) (reg_tag: u64)

datatype spentbook_address = SpentbookAddress (spentbook_name: xor_name)

datatype data_address =
    SafeKey xor_name | BytesAddress chunk_address | RegAddress register_address
  | SpentAddress spentbook_address

fun data_address_name :: "data_address \<Rightarrow> xor_name" where
  "data_address_name (SafeKey name) = name"
| "data_address_name (BytesAddress a) = chunk_address_name a"
| "data_address_name (RegAddress a) = reg_name a"
| "data_address_name (SpentAddress a) = spentbook_name a"

subsection \<open>Policies\<close>

datatype action = Read | Write

datatype permissions = Permissions (perm_write: "bool option")

fun is_allowed :: "permissions \<Rightarrow> action \<Rightarrow> bool option" where
  "is_allowed p Read = Some True"
| "is_allowed p Write = perm_write p"

datatype user = Anyone | UserKey any_key

text \<open>The map of permissions is looked up only, so that its order does not matter.\<close>

record policy =
  pol_owner :: user
  pol_permissions :: "(user \<times> permissions) list"

text \<open>The errors of \<open>types/errors.rs\<close> that registers and their storage give.\<close>

datatype reg_error =
    AccessDenied user | EntryTooBig nat nat | TooManyEntries nat | NoSuchEntry hash | NoSuchUser user
  | CrdtWrongAddress register_address | Serialisation

definition is_action_allowed_by_user :: "policy \<Rightarrow> user \<Rightarrow> action \<Rightarrow> bool option" where
  "is_action_allowed_by_user P u a =
     (case map_of (pol_permissions P) u of Some perms \<Rightarrow> is_allowed perms a | None \<Rightarrow> None)"

definition is_action_allowed :: "policy \<Rightarrow> user \<Rightarrow> action \<Rightarrow> (unit, reg_error) result" where
  "is_action_allowed P requester a =
     (if a = Read \<or> requester = pol_owner P then Ok ()
      else
        (let allowed = (case is_action_allowed_by_user P requester a of
               Some b \<Rightarrow> Some b | None \<Rightarrow> is_action_allowed_by_user P Anyone a)
         in case allowed of
              Some True \<Rightarrow> Ok ()
            | Some False \<Rightarrow> Err (AccessDenied requester)
            | None \<Rightarrow> Err (AccessDenied requester)))"

definition policy_permissions :: "policy \<Rightarrow> user \<Rightarrow> permissions option" where
  "policy_permissions P u =
     (if u = pol_owner P then Some (Permissions (Some True)) else map_of (pol_permissions P) u)"

subsection \<open>The replicated data\<close>

type_synonym entry = bytes

record 'm reg_api = "('m, entry) merkle_api" +
  mr_num_nodes :: "'m \<Rightarrow> nat"
  mr_num_orphans :: "'m \<Rightarrow> nat"
  min_encryptable_bytes :: nat

record crdt_operation =
  op_address :: register_address
  op_crdt_op :: "entry node"
  op_source :: user
  op_signature :: "any_signature option"

record 'm register_crdt =
  rc_address :: register_address
  rc_data :: 'm

definition crdt_new :: "'m reg_api \<Rightarrow> register_address \<Rightarrow> 'm register_crdt" where
  "crdt_new M address = \<lparr> rc_address = address, rc_data = mr_new M \<rparr>"

definition crdt_size :: "'m reg_api \<Rightarrow> 'm register_crdt \<Rightarrow> nat" where
  "crdt_size M C = mr_num_nodes M (rc_data C) + mr_num_orphans M (rc_data C)"

definition crdt_write ::
  "'m reg_api \<Rightarrow> 'm register_crdt \<Rightarrow> entry \<Rightarrow> hash bset \<Rightarrow> user \<Rightarrow> 'm register_crdt \<times> hash \<times> crdt_operation" where
  "crdt_write M C e children source =
     (let address = rc_address C;
          crdt_op = mr_write M (rc_data C) e children;
          C' = C\<lparr>rc_data := mr_apply M (rc_data C) crdt_op\<rparr>;
          h = mr_hash M crdt_op
      in (C', h, \<lparr> op_address = address, op_crdt_op = crdt_op, op_source = source, op_signature = None \<rparr>))"

definition crdt_apply_op ::
  "'m reg_api \<Rightarrow> 'm register_crdt \<Rightarrow> crdt_operation \<Rightarrow> 'm register_crdt \<times> (unit, reg_error) result" where
  "crdt_apply_op M C op =
     (if rc_address C \<noteq> op_address op then (C, Err (CrdtWrongAddress (op_address op)))
      else (C\<lparr>rc_data := mr_apply M (rc_data C) (op_crdt_op op)\<rparr>, Ok ()))"

definition crdt_get :: "'m reg_api \<Rightarrow> 'm register_crdt \<Rightarrow> hash \<Rightarrow> entry option" where
  "crdt_get M C h = map_option node_value (mr_node M (rc_data C) h)"

definition crdt_read :: "'m reg_api \<Rightarrow> 'm register_crdt \<Rightarrow> (hash \<times> entry) bset" where
  "crdt_read M C = bs_from_iter (map (\<lambda>n. (mr_hash M n, node_value n)) (mr_read M (rc_data C)))"

subsection \<open>The register\<close>

definition MAX_REG_ENTRY_SIZE :: "'m reg_api \<Rightarrow> nat" where
  "MAX_REG_ENTRY_SIZE M = min_encryptable_bytes M div 3"

definition MAX_REG_NUM_ENTRIES :: nat where
  "MAX_REG_NUM_ENTRIES = 1024"

record 'm register =
  reg_authority :: user
  reg_crdt :: "'m register_crdt"
  reg_policy :: policy

definition register_new :: "'m reg_api \<Rightarrow> user \<Rightarrow> xor_name \<Rightarrow> u64 \<Rightarrow> policy \<Rightarrow> 'm register" where
  "register_new M authority name tag P =
     \<lparr> reg_authority = authority, reg_crdt = crdt_new M (RegisterAddress name tag), reg_policy = P \<rparr>"

definition register_new_owned :: "'m reg_api \<Rightarrow> user \<Rightarrow> xor_name \<Rightarrow> u64 \<Rightarrow> 'm register" where
  "register_new_owned M authority name tag =
     register_new M authority name tag \<lparr> pol_owner = authority, pol_permissions = [] \<rparr>"

definition reg_address :: "'m register \<Rightarrow> register_address" where
  "reg_address R = rc_address (reg_crdt R)"

definition reg_owner :: "'m register \<Rightarrow> user" where
  "reg_owner R = pol_owner (reg_policy R)"

definition reg_size :: "'m reg_api \<Rightarrow> 'm register \<Rightarrow> nat" where
  "reg_size M R = crdt_size M (reg_crdt R)"

definition reg_get :: "'m reg_api \<Rightarrow> 'm register \<Rightarrow> hash \<Rightarrow> (entry, reg_error) result" where
  "reg_get M R h = ok_or (crdt_get M (reg_crdt R) h) (NoSuchEntry h)"

definition reg_read :: "'m reg_api \<Rightarrow> 'm register \<Rightarrow> (hash \<times> entry) bset" where
  "reg_read M R = crdt_read M (reg_crdt R)"

definition reg_permissions :: "'m register \<Rightarrow> user \<Rightarrow> (permissions, reg_error) result" where
  "reg_permissions R u = ok_or (policy_permissions (reg_policy R) u) (NoSuchUser u)"

definition check_entry_and_reg_sizes :: "'m reg_api \<Rightarrow> 'm register \<Rightarrow> entry \<Rightarrow> (unit, reg_error) result" where
  "check_entry_and_reg_sizes M R e =
     (let sz = length e in
      if sz > MAX_REG_ENTRY_SIZE M then Err (EntryTooBig sz (MAX_REG_ENTRY_SIZE M))
      else
        (let r = crdt_size M (reg_crdt R) in
         if r \<ge> MAX_REG_NUM_ENTRIES then Err (TooManyEntries r) else Ok ()))"

definition reg_write ::
  "'m reg_api \<Rightarrow> 'm register \<Rightarrow> entry \<Rightarrow> hash bset \<Rightarrow> 'm register \<times> (hash \<times> crdt_operation, reg_error) result" where
  "reg_write M R e children =
     (case check_entry_and_reg_sizes M R e of
        Err err \<Rightarrow> (R, Err err)
      | Ok _ \<Rightarrow>
          (let (C, h, op) = crdt_write M (reg_crdt R) e children (reg_authority R) in
           (R\<lparr>reg_crdt := C\<rparr>, Ok (h, op))))"

definition reg_apply_op ::
  "'m reg_api \<Rightarrow> 'm register \<Rightarrow> crdt_operation \<Rightarrow> 'm register \<times> (unit, reg_error) result" where
  "reg_apply_op M R op =
     (case check_entry_and_reg_sizes M R (node_value (op_crdt_op op)) of
        Err err \<Rightarrow> (R, Err err)
      | Ok _ \<Rightarrow>
          (let (C, r) = crdt_apply_op M (reg_crdt R) op in (R\<lparr>reg_crdt := C\<rparr>, r)))"

definition check_permissions :: "'m register \<Rightarrow> action \<Rightarrow> user option \<Rightarrow> (unit, reg_error) result" where
  "check_permissions R a requester =
     is_action_allowed (reg_policy R) (case requester of Some u \<Rightarrow> u | None \<Rightarrow> reg_authority R) a"

section \<open>Properties of registers\<close>

subsection \<open>Policies\<close>

text \<open>
  Who may write is what the documentation of \<open>Permissions\<close> says: the owner always, whatever permissions
  are kept for it; any other user by its own entry when that decides, which an entry for \<open>Anyone\<close>
  then cannot change in either direction; and by the entry for \<open>Anyone\<close> otherwise. Everybody may read.
\<close>

theorem policy_decides:
  "is_action_allowed P u Read = Ok () \<and>
   is_action_allowed P u Write =
     (if u = pol_owner P then Ok ()
      else case map_of (pol_permissions P) u of
        Some (Permissions (Some True)) \<Rightarrow> Ok ()
      | Some (Permissions (Some False)) \<Rightarrow> Err (AccessDenied u)
      | _ \<Rightarrow> (if map_of (pol_permissions P) Anyone = Some (Permissions (Some True)) then Ok ()
              else Err (AccessDenied u)))"
proof -
  have "perm_write p = Some b \<longleftrightarrow> p = Permissions (Some b)" for p b by (cases p) auto
  then show ?thesis
    by (auto simp: is_action_allowed_def is_action_allowed_by_user_def
        split: option.splits permissions.splits bool.splits)
qed

subsection \<open>Convergence\<close>

text \<open>
  What the crate documents of its replicated register: operations commute and repeating one changes
  nothing, a new register is empty, an operation adds one item at most.
\<close>

definition reg_api_ok :: "'m reg_api \<Rightarrow> bool" where
  "reg_api_ok M \<longleftrightarrow>
     (\<forall>m a b. mr_apply M (mr_apply M m a) b = mr_apply M (mr_apply M m b) a) \<and>
     (\<forall>m a. mr_apply M (mr_apply M m a) a = mr_apply M m a) \<and>
     mr_num_nodes M (mr_new M) + mr_num_orphans M (mr_new M) = 0 \<and>
     (\<forall>m a. mr_num_nodes M (mr_apply M m a) + mr_num_orphans M (mr_apply M m a)
        \<le> Suc (mr_num_nodes M m + mr_num_orphans M m))"

lemma reg_api_okD:
  assumes "reg_api_ok M"
  shows reg_apply_commute: "mr_apply M (mr_apply M m a) b = mr_apply M (mr_apply M m b) a"
    and reg_apply_idem: "mr_apply M (mr_apply M m a) a = mr_apply M m a"
    and reg_apply_size: "mr_num_nodes M (mr_apply M m a) + mr_num_orphans M (mr_apply M m a)
          \<le> Suc (mr_num_nodes M m + mr_num_orphans M m)"
    and reg_new_size: "mr_num_nodes M (mr_new M) + mr_num_orphans M (mr_new M) = 0"
  using assms unfolding reg_api_ok_def by - (meson | simp)+

fun apply_ops :: "'m reg_api \<Rightarrow> 'm register \<Rightarrow> crdt_operation list \<Rightarrow> 'm register" where
  "apply_ops M R [] = R"
| "apply_ops M R (op # ops) = apply_ops M (fst (reg_apply_op M R op)) ops"

definition op_fits :: "'m reg_api \<Rightarrow> 'm register \<Rightarrow> crdt_operation \<Rightarrow> bool" where
  "op_fits M R op \<longleftrightarrow> op_address op = reg_address R \<and> length (node_value (op_crdt_op op)) \<le> MAX_REG_ENTRY_SIZE M"

text \<open>While there is room every operation is applied, and the outcome is that of the plain operations.\<close>

definition with_data :: "'m register \<Rightarrow> 'm \<Rightarrow> 'm register" where
  "with_data R m = R\<lparr>reg_crdt := (reg_crdt R)\<lparr>rc_data := m\<rparr>\<rparr>"

lemma apply_op_fits:
  assumes "op_fits M R op" and "reg_size M R < MAX_REG_NUM_ENTRIES"
  shows "reg_apply_op M R op = (with_data R (mr_apply M (rc_data (reg_crdt R)) (op_crdt_op op)), Ok ())"
  using assms
  by (simp add: reg_apply_op_def op_fits_def reg_size_def check_entry_and_reg_sizes_def crdt_apply_op_def
      reg_address_def with_data_def)

lemma with_data_simps [simp]:
  "rc_data (reg_crdt (with_data R m)) = m" "with_data (with_data R m) m' = with_data R m'"
  "op_fits M (with_data R m) op = op_fits M R op" "reg_policy (with_data R m) = reg_policy R"
  "with_data R (rc_data (reg_crdt R)) = R"
  by (simp_all add: with_data_def op_fits_def reg_address_def)

lemma apply_ops_fold:
  assumes ok: "reg_api_ok M" and "\<forall>op \<in> set ops. op_fits M R op"
    and "reg_size M R + length ops \<le> MAX_REG_NUM_ENTRIES"
  shows "apply_ops M R ops = with_data R (fold (\<lambda>op m. mr_apply M m (op_crdt_op op)) ops (rc_data (reg_crdt R)))"
  using assms(2,3)
proof (induction ops arbitrary: R)
  case (Cons op ops)
  let ?R = "with_data R (mr_apply M (rc_data (reg_crdt R)) (op_crdt_op op))"
  have ap: "reg_apply_op M R op = (?R, Ok ())" using Cons.prems by (intro apply_op_fits) auto
  have "reg_size M ?R \<le> Suc (reg_size M R)"
    using reg_apply_size [OF ok] by (simp add: reg_size_def crdt_size_def)
  then have "apply_ops M ?R ops = with_data ?R (fold (\<lambda>op m. mr_apply M m (op_crdt_op op)) ops (rc_data (reg_crdt ?R)))"
    using Cons.prems by (intro Cons.IH) auto
  then show ?case by (simp add: ap)
qed simp

lemma fold_apply_commute:
  assumes ok: "reg_api_ok M"
  shows "fold (\<lambda>op m. mr_apply M m (f op)) ops (mr_apply M m a) = mr_apply M (fold (\<lambda>op m. mr_apply M m (f op)) ops m) a"
proof (induction ops arbitrary: m)
  case (Cons x ops)
  then show ?case using reg_apply_commute [OF ok, of m a "f x"] by simp
qed simp

lemma fold_apply_absorb:
  assumes ok: "reg_api_ok M" and "x \<in> set ops"
  shows "mr_apply M (fold (\<lambda>op m. mr_apply M m (f op)) ops m) (f x) = fold (\<lambda>op m. mr_apply M m (f op)) ops m"
  using assms(2)
proof (induction ops arbitrary: m)
  case (Cons y ops)
  then show ?case
    using fold_apply_commute [OF ok, of f ops _ "f x"] reg_apply_idem [OF ok] by (cases "x = y") auto
qed simp

lemma fold_apply_remdups:
  assumes ok: "reg_api_ok M"
  shows "fold (\<lambda>op m. mr_apply M m (f op)) (remdups ops) m = fold (\<lambda>op m. mr_apply M m (f op)) ops m"
proof (induction ops arbitrary: m)
  case (Cons x ops)
  show ?case
  proof (cases "x \<in> set ops")
    case True
    with Cons fold_apply_absorb [OF ok True] show ?thesis by (simp add: fold_apply_commute [OF ok])
  next
    case False
    with Cons show ?thesis by simp
  qed
qed simp

lemma fold_apply_set:
  assumes ok: "reg_api_ok M" and "set ops = set ops'"
  shows "fold (\<lambda>op m. mr_apply M m (f op)) ops m = fold (\<lambda>op m. mr_apply M m (f op)) ops' m"
proof -
  have "mset (remdups ops) = mset (remdups ops')" using assms(2) by (simp add: set_eq_iff_mset_remdups_eq)
  then have "fold (\<lambda>op m. mr_apply M m (f op)) (remdups ops) = fold (\<lambda>op m. mr_apply M m (f op)) (remdups ops')"
    by (rule fold_multiset_equiv [rotated]) (auto simp: fun_eq_iff reg_apply_commute [OF ok])
  then show ?thesis using fold_apply_remdups [OF ok] by metis
qed


text \<open>An instance: the set of the items.\<close>

definition set_register :: "entry node set reg_api" where
  "set_register = \<lparr> mr_new = {}, mr_hash = (\<lambda>n. length (node_value n)), mr_write = (\<lambda>m e cs. Node cs e),
     mr_apply = (\<lambda>m n. insert n m), mr_read = (\<lambda>m. []), mr_node = (\<lambda>m h. None), mr_children = (\<lambda>m h. []),
     mr_parents = (\<lambda>m h. []), mr_all_nodes = (\<lambda>m. []), mr_num_nodes = (\<lambda>m. if finite m then card m else 0),
     mr_num_orphans = (\<lambda>m. 0), min_encryptable_bytes = 3072 \<rparr>"

lemma set_register_ok: "reg_api_ok set_register"
  by (auto simp: reg_api_ok_def set_register_def card_insert_if)

definition sample_reg :: "entry node set \<Rightarrow> entry node set register" where
  "sample_reg m = with_data (register_new_owned set_register Anyone [] 0) m"

definition sample_op :: "entry \<Rightarrow> crdt_operation" where
  "sample_op e = \<lparr> op_address = RegisterAddress [] 0, op_crdt_op = Node [] e, op_source = Anyone, op_signature = None \<rparr>"

lemma sample_op_fits: "length e \<le> 1024 \<Longrightarrow> op_fits set_register (sample_reg m) (sample_op e)"
  by (simp add: op_fits_def sample_op_def sample_reg_def register_new_owned_def register_new_def crdt_new_def
      reg_address_def with_data_def MAX_REG_ENTRY_SIZE_def set_register_def)

lemma sample_reg_size: "reg_size set_register (sample_reg m) = (if finite m then card m else 0)"
  by (simp add: reg_size_def sample_reg_def crdt_size_def set_register_def)


lemma sample_apply:
  assumes "finite m" and "length e \<le> 1024"
  shows "fst (reg_apply_op set_register (sample_reg m) (sample_op e)) =
    sample_reg (if card m < MAX_REG_NUM_ENTRIES then insert (Node [] e) m else m)"
proof (cases "card m < MAX_REG_NUM_ENTRIES")
  case True
  then have "reg_apply_op set_register (sample_reg m) (sample_op e) =
      (with_data (sample_reg m) (mr_apply set_register (rc_data (reg_crdt (sample_reg m))) (op_crdt_op (sample_op e))), Ok ())"
    using assms by (intro apply_op_fits) (simp_all add: sample_op_fits sample_reg_size)
  then show ?thesis using True by (simp add: sample_reg_def sample_op_def set_register_def)
next
  case False
  then have "check_entry_and_reg_sizes set_register (sample_reg m) e = Err (TooManyEntries (card m))"
    using assms sample_reg_size [of m]
    by (simp add: check_entry_and_reg_sizes_def reg_size_def MAX_REG_ENTRY_SIZE_def set_register_def)
  then show ?thesis using False by (simp add: reg_apply_op_def sample_op_def)
qed



end
