(* ===== verification/Chunk_Storage.thy ===== *)
theory Chunk_Storage
  imports Disk Used_Space Register_Data
begin

section \<open>Chunk storage\<close>

text \<open>
  \<open>sn_node/src/storage/chunks.rs\<close>, \<open>sn_interface/src/types/chunk.rs\<close> and the path helpers of
  \<open>storage/mod.rs\<close>. The name of a chunk is the hash of its content (\<open>XorName::from_content\<close>), and its
  file is named by the hexadecimal digits of the name, below directories for the first bits of it.
  The formatting of names by the crates \<open>xor_name\<close> and \<open>hex\<close> is the parameter \<open>fmt_api\<close>.

  The storage state is the disk and the used space, which chunks and registers share.
\<close>

record fmt_api =
  xn_binary :: "xor_name \<Rightarrow> string"
  hex_encode :: "bytes \<Rightarrow> string"
  hex_decode :: "string \<Rightarrow> bytes option"

record storage =
  st_disk :: disk
  st_used :: used_space

text \<open>
  \<open>StPanic\<close> is no error of the source: it stands for a panic, of the division in \<open>to_storage_level\<close>. The
  variant \<open>Messaging\<close>, which wraps the errors of another crate, is made by no operation of the storage.
\<close>

datatype storage_error =
    NotEnoughSpace | RegisterNotFound register_address | ChunkNotFound xor_name
  | UnsupportedDataType data_address | StInvalidSignature any_key | Io io_error | Bincode
  | HexDecoding | NetworkData reg_error | NoFilename path | InvalidFilename path
  | RegisterAddrMismatch register_address register_address | StPanic

definition BIT_TREE_DEPTH :: nat where
  "BIT_TREE_DEPTH = 20"

definition prefix_tree_path :: "fmt_api \<Rightarrow> path \<Rightarrow> xor_name \<Rightarrow> path" where
  "prefix_tree_path T dir xorname = dir @ map (\<lambda>c. [c]) (take BIT_TREE_DEPTH (xn_binary T xorname))"

subsection \<open>Chunks\<close>

record chunk =
  ch_address :: chunk_address
  ch_value :: bytes

definition chunk_new :: "key_api \<Rightarrow> bytes \<Rightarrow> chunk" where
  "chunk_new K v = \<lparr> ch_address = ChunkAddress (from_content_parts K [v]), ch_value = v \<rparr>"

definition ch_name :: "chunk \<Rightarrow> xor_name" where
  "ch_name c = chunk_address_name (ch_address c)"

definition CHUNKS_STORE_DIR_NAME :: string where
  "CHUNKS_STORE_DIR_NAME = ''chunks''"

definition chunk_root :: "path \<Rightarrow> path" where
  "chunk_root base = base @ [CHUNKS_STORE_DIR_NAME]"

subsection \<open>Operations\<close>

definition chunk_filepath_to_address :: "fmt_api \<Rightarrow> path \<Rightarrow> (chunk_address, storage_error) result" where
  "chunk_filepath_to_address T p =
     (if p = [] then Err (NoFilename p)
      else map_ok ChunkAddress (ok_or (hex_decode T (last p)) HexDecoding))"

definition chunk_addrs :: "fmt_api \<Rightarrow> path \<Rightarrow> storage \<Rightarrow> chunk_address list" where
  "chunk_addrs T dir S =
     concat (map (\<lambda>p. case chunk_filepath_to_address T p of Ok a \<Rightarrow> [a] | Err _ \<Rightarrow> [])
       (list_files_in (st_disk S) dir))"

definition chunk_addr_to_filepath :: "fmt_api \<Rightarrow> path \<Rightarrow> chunk_address \<Rightarrow> path" where
  "chunk_addr_to_filepath T dir addr =
     (let xorname = chunk_address_name addr in prefix_tree_path T dir xorname @ [hex_encode T xorname])"

definition remove_chunk ::
  "io_faults \<Rightarrow> fmt_api \<Rightarrow> path \<Rightarrow> storage \<Rightarrow> chunk_address \<Rightarrow> storage \<times> (unit, storage_error) result" where
  "remove_chunk F T dir S address =
     (let filepath = chunk_addr_to_filepath T dir address in
      case fs_metadata_len F (st_disk S) filepath of
        Err e \<Rightarrow> (S, Err (Io e))
      | Ok len \<Rightarrow>
          (case fs_remove_file F (st_disk S) filepath of
             (D, Err e) \<Rightarrow> (S\<lparr>st_disk := D\<rparr>, Err (Io e))
           | (D, Ok _) \<Rightarrow> (S\<lparr>st_disk := D, st_used := decrease (st_used S) (of_nat len)\<rparr>, Ok ())))"

definition get_chunk ::
  "key_api \<Rightarrow> io_faults \<Rightarrow> fmt_api \<Rightarrow> path \<Rightarrow> storage \<Rightarrow> chunk_address \<Rightarrow> (chunk, storage_error) result" where
  "get_chunk K F T dir S address =
     (case fs_read F (st_disk S) (chunk_addr_to_filepath T dir address) of
        Ok bs \<Rightarrow>
          (let c = chunk_new K bs in
           if ch_address c \<noteq> address then Err (ChunkNotFound (chunk_address_name address)) else Ok c)
      | Err NotFound \<Rightarrow> Err (ChunkNotFound (chunk_address_name address))
      | Err other \<Rightarrow> Err (Io other))"

definition store_chunk ::
  "io_faults \<Rightarrow> fmt_api \<Rightarrow> string option \<Rightarrow> path \<Rightarrow> storage \<Rightarrow> chunk
     \<Rightarrow> storage \<times> (storage_level, storage_error) result" where
  "store_chunk F T env dir S c =
     (let filepath = chunk_addr_to_filepath T dir (ch_address c) in
      if fs_exists (st_disk S) filepath then (S, Ok NoChange)
      else if \<not> can_add (st_used S) (of_nat (length (ch_value c))) then (S, Err NotEnoughSpace)
      else case create_dir_all F (st_disk S) (butlast filepath) of
        (D1, Err e) \<Rightarrow> (S\<lparr>st_disk := D1\<rparr>, Err (Io e))
      | (D1, Ok _) \<Rightarrow>
          (case fs_create F D1 filepath of
             (D2, Err e) \<Rightarrow> (S\<lparr>st_disk := D2\<rparr>, Err (Io e))
           | (D2, Ok _) \<Rightarrow>
               (case fs_write_all F D2 filepath (ch_value c) of
                  (D3, Err e) \<Rightarrow> (S\<lparr>st_disk := D3\<rparr>, Err (Io e))
                | (D3, Ok _) \<Rightarrow>
                    (case fs_sync F filepath of
                       Err e \<Rightarrow> (S\<lparr>st_disk := D3\<rparr>, Err (Io e))
                     | Ok _ \<Rightarrow>
                         (case increase env (st_used S) (of_nat (length (ch_value c))) of
                            None \<Rightarrow> (S\<lparr>st_disk := D3\<rparr>, Err StPanic)
                          | Some (U, level) \<Rightarrow> (S\<lparr>st_disk := D3, st_used := U\<rparr>, Ok level))))))"

section \<open>Properties of the chunk storage\<close>

definition fmt_api_ok :: "fmt_api \<Rightarrow> bool" where
  "fmt_api_ok T \<longleftrightarrow> (\<forall>n. length n = XOR_NAME_LEN \<longrightarrow> hex_decode T (hex_encode T n) = Some n)"

lemma chunk_path_inj:
  assumes "fmt_api_ok T" and "length (chunk_address_name a) = XOR_NAME_LEN" and "length (chunk_address_name b) = XOR_NAME_LEN"
    and "chunk_addr_to_filepath T dir a = chunk_addr_to_filepath T dir b"
  shows "a = b"
proof -
  have "hex_encode T (chunk_address_name a) = hex_encode T (chunk_address_name b)"
    using assms(4) by (simp add: chunk_addr_to_filepath_def Let_def)
  then have "chunk_address_name a = chunk_address_name b"
    using assms(1-3) unfolding fmt_api_ok_def by (metis option.inject)
  then show ?thesis by (simp add: chunk_address.expand)
qed

text \<open>A store that returns \<open>Ok\<close> and found no file has put the content into the file and counted it.\<close>

lemma store_chunk_Ok:
  assumes st: "store_chunk F T env dir S c = (S', Ok l)"
    and new: "\<not> fs_exists (st_disk S) (chunk_addr_to_filepath T dir (ch_address c))"
  shows "disk_files (st_disk S') =
      put_file (chunk_addr_to_filepath T dir (ch_address c)) (ch_value c)
        (put_file (chunk_addr_to_filepath T dir (ch_address c)) [] (disk_files (st_disk S)))"
    and "increase env (st_used S) (of_nat (length (ch_value c))) = Some (st_used S', l)"
    and "can_add (st_used S) (of_nat (length (ch_value c)))"
  using assms create_dir_all_files
  by (auto simp: store_chunk_def Let_def fs_write_all_def dest!: fs_create_files(1)
      split: if_splits prod.splits result.splits option.splits)

lemma put_file_twice: "put_file p bs (put_file p cs fs) = put_file p bs fs"
  by (induction p cs fs rule: put_file.induct) auto

text \<open>Unless a call fails, the directories and the file of a new chunk are made.\<close>

lemma store_prepares:
  assumes F: "\<And>p. \<not> fails F CreateDir p" "\<And>p. \<not> fails F CreateFile p"
    and new: "\<not> fs_exists (st_disk S) (chunk_addr_to_filepath T dir a)"
    and parents: "\<And>n. file_of (st_disk S) (take n (chunk_addr_to_filepath T dir a)) = None"
  shows "\<exists>D2. create_dir_all F (st_disk S) (butlast (chunk_addr_to_filepath T dir a)) = (D2, Ok ()) \<and>
    fs_create F D2 (chunk_addr_to_filepath T dir a)
      = (D2\<lparr>disk_files := put_file (chunk_addr_to_filepath T dir a) [] (disk_files (st_disk S))\<rparr>, Ok ()) \<and>
    disk_files D2 = disk_files (st_disk S)"
proof -
  let ?p = "chunk_addr_to_filepath T dir a"
  obtain q x where p: "?p = q @ [x]" by (simp add: chunk_addr_to_filepath_def Let_def)
  have "file_of (st_disk S) (take n q) = None" for n
    using parents [of "min n (length q)"] by (simp add: p min_def split: if_splits)
  then obtain D2 where dirs: "create_dir_all F (st_disk S) q = (D2, Ok ())"
    using F(1) by (auto simp: create_dir_all_def Let_def list_ex_iff simp del: upt_Suc)
  have files: "disk_files D2 = disk_files (st_disk S)" by (rule create_dir_all_files [OF dirs])
  have d: "set (disk_dirs D2) = set (disk_dirs (st_disk S)) \<union> (\<lambda>n. take n q) ` {..length q}"
    by (rule create_dir_all_ok [OF dirs])
  have "?p \<notin> set (disk_dirs D2)"
  proof -
    have "take n q \<noteq> ?p" for n
    proof
      assume "take n q = ?p"
      then have "length (take n q) = Suc (length q)" by (simp add: p)
      then show False by simp
    qed
    then show ?thesis using new unfolding d by (metis UnE fs_exists_def imageE)
  qed
  moreover have "q \<in> set (disk_dirs D2)" unfolding d by (auto intro!: image_eqI [of _ _ "length q"])
  ultimately have "fs_create F D2 ?p = (D2\<lparr>disk_files := put_file ?p [] (disk_files (st_disk S))\<rparr>, Ok ())"
    using F(2) files by (simp add: fs_create_def p)
  with dirs files show ?thesis by (simp add: p)
qed

lemma store_succeeds:
  assumes F: "\<And>call p. \<not> fails F call p" and env: "recommended_section_size env \<noteq> 0"
    and new: "\<not> fs_exists (st_disk S) (chunk_addr_to_filepath T dir (ch_address c))"
    and room: "can_add (st_used S) (of_nat (length (ch_value c)))"
    and parents: "\<And>n. file_of (st_disk S) (take n (chunk_addr_to_filepath T dir (ch_address c))) = None"
  shows "\<exists>S' l. store_chunk F T env dir S c = (S', Ok l)"
proof -
  obtain U l where "increase env (st_used S) (of_nat (length (ch_value c))) = Some (U, l)"
    using increase_returns [OF env] by blast
  then show ?thesis
    using store_prepares [OF F F new parents] new room F
    by (auto simp: store_chunk_def Let_def fs_write_all_def fs_sync_def)
qed

text \<open>
  C32. What is stored can be read back: after a chunk has been stored under the hash of its content,
  reading its address gives the chunk, reading any other address gives what it gave before, and the
  used space has grown by the size of the content.
\<close>

theorem store_then_get:
  assumes T: "fmt_api_ok T" and c: "c = chunk_new K v" and len: "length (ch_name c) = XOR_NAME_LEN"
    and new: "\<not> fs_exists (st_disk S) (chunk_addr_to_filepath T dir (ch_address c))"
    and st: "store_chunk F T env dir S c = (S', Ok l)"
  shows "get_chunk K no_faults T dir S' (ch_address c) = Ok c \<and>
    (\<forall>a. length (chunk_address_name a) = XOR_NAME_LEN \<longrightarrow> a \<noteq> ch_address c \<longrightarrow>
       file_of (st_disk S') (chunk_addr_to_filepath T dir a) = file_of (st_disk S) (chunk_addr_to_filepath T dir a)) \<and>
    us_used_space (st_used S') = us_used_space (st_used S) + of_nat (length v)"
proof -
  let ?p = "chunk_addr_to_filepath T dir (ch_address c)"
  have files: "disk_files (st_disk S') = put_file ?p (ch_value c) (disk_files (st_disk S))"
    using store_chunk_Ok(1) [OF st new] by (simp add: put_file_twice)
  have "get_chunk K no_faults T dir S' (ch_address c) = Ok c"
    using c by (simp add: get_chunk_def fs_read_def no_faults_def files chunk_new_def)
  moreover have "file_of (st_disk S') (chunk_addr_to_filepath T dir a) = file_of (st_disk S) (chunk_addr_to_filepath T dir a)"
    if "length (chunk_address_name a) = XOR_NAME_LEN" "a \<noteq> ch_address c" for a
  proof -
    have "chunk_addr_to_filepath T dir a \<noteq> ?p"
      using chunk_path_inj [OF T that(1)] len that(2) by (auto simp: ch_name_def)
    then show ?thesis by (simp add: files)
  qed
  moreover have "us_used_space (st_used S') = us_used_space (st_used S) + of_nat (length v)"
    using increase_fields(1) [OF store_chunk_Ok(2) [OF st new]] c by (simp add: chunk_new_def)
  ultimately show ?thesis by blast
qed

subsection \<open>Accounting\<close>

definition bytes_on_disk :: "disk \<Rightarrow> nat" where
  "bytes_on_disk D = sum_list (map (length \<circ> snd) (disk_files D))"

definition unaccounted :: "storage \<Rightarrow> u64" where
  "unaccounted S = us_used_space (st_used S) - of_nat (bytes_on_disk (st_disk S))"

lemma store_accounts:
  assumes wf: "distinct (map fst (disk_files (st_disk S)))" and st: "store_chunk F T env dir S c = (S', Ok l)"
  shows "unaccounted S' = unaccounted S"
proof (cases "fs_exists (st_disk S) (chunk_addr_to_filepath T dir (ch_address c))")
  case True
  then show ?thesis using st by (simp add: store_chunk_def Let_def)
next
  case False
  let ?p = "chunk_addr_to_filepath T dir (ch_address c)"
  have "file_of (st_disk S) ?p = None" using False by (simp add: fs_exists_def)
  then have "bytes_on_disk (st_disk S') = bytes_on_disk (st_disk S) + length (ch_value c)"
    using store_chunk_Ok(1) [OF st False] sum_put [OF wf, of ?p "ch_value c"]
    by (simp add: put_file_twice bytes_on_disk_def)
  moreover have "us_used_space (st_used S') = us_used_space (st_used S) + of_nat (length (ch_value c))"
    by (rule increase_fields(1) [OF store_chunk_Ok(2) [OF st False]])
  ultimately show ?thesis by (simp add: unaccounted_def)
qed

lemma remove_accounts:
  assumes wf: "distinct (map fst (disk_files (st_disk S)))" and rm: "remove_chunk F T dir S a = (S', Ok u)"
  shows "unaccounted S' = unaccounted S"
proof -
  let ?p = "chunk_addr_to_filepath T dir a"
  obtain cs where cs: "file_of (st_disk S) ?p = Some cs"
    and S': "S' = S\<lparr>st_disk := (st_disk S)\<lparr>disk_files := filter (\<lambda>f. fst f \<noteq> ?p) (disk_files (st_disk S))\<rparr>,
       st_used := decrease (st_used S) (of_nat (length cs))\<rparr>"
    using rm by (cases "file_of (st_disk S) ?p")
      (auto simp: remove_chunk_def Let_def fs_metadata_len_def fs_remove_file_def split: if_splits)
  have "bytes_on_disk (st_disk S) = bytes_on_disk (st_disk S') + length cs"
    using sum_filter [OF wf cs] by (simp add: bytes_on_disk_def S')
  then show ?thesis by (simp add: unaccounted_def S' decrease_def)
qed

text \<open>
  Chunks are accounted for exactly: whatever is on the disk, no successful store and no successful
  removal of a chunk changes the difference between the used space and the bytes in the files. A
  store that writes leaves the used space within the maximum capacity, and one for which there is
  not enough space changes nothing.
\<close>

theorem chunks_accounted:
  assumes wf: "distinct (map fst (disk_files (st_disk S)))"
  shows "(case store_chunk F T env dir S c of
       (S', Ok _) \<Rightarrow> unaccounted S' = unaccounted S \<and>
         (us_used_space (st_used S') \<le> us_max_capacity (st_used S) \<or> S' = S)
     | (S', Err e) \<Rightarrow> (if e = NotEnoughSpace then S' = S else True)) \<and>
    (case remove_chunk F T dir S a of
       (S', Ok _) \<Rightarrow> unaccounted S' = unaccounted S
     | (S', Err _) \<Rightarrow> us_used_space (st_used S') = us_used_space (st_used S))"
proof -
  have "us_used_space (st_used S') \<le> us_max_capacity (st_used S) \<or> S' = S"
    if st: "store_chunk F T env dir S c = (S', Ok l)" for S' l
  proof (cases "fs_exists (st_disk S) (chunk_addr_to_filepath T dir (ch_address c))")
    case True
    then show ?thesis using st by (simp add: store_chunk_def Let_def)
  next
    case False
    with increase_fields(1) [OF store_chunk_Ok(2) [OF st False]] store_chunk_Ok(3) [OF st False]
    show ?thesis by (simp add: can_add_def)
  qed
  moreover have "S' = S" if "store_chunk F T env dir S c = (S', Err NotEnoughSpace)" for S'
    using that by (auto simp: store_chunk_def Let_def split: if_splits prod.splits result.splits option.splits)
  moreover have "us_used_space (st_used S') = us_used_space (st_used S)"
    if "remove_chunk F T dir S a = (S', Err e)" for S' e
    using that by (auto simp: remove_chunk_def Let_def split: prod.splits result.splits)
  ultimately show ?thesis
    using store_accounts [OF wf] remove_accounts [OF wf] by (auto split: prod.splits result.splits)
qed

text \<open>An instance of the formats, and an empty storage, to evaluate on.\<close>

definition ref_fmt :: fmt_api where
  "ref_fmt = \<lparr> xn_binary = (\<lambda>n. ''01''), hex_encode = map (\<lambda>b. char_of (unat b)),
     hex_decode = (\<lambda>s. Some (map (\<lambda>c. of_nat (of_char c)) s)) \<rparr>"

lemma ref_fmt_ok: "fmt_api_ok ref_fmt"
proof -
  have "word_of_nat (unat b mod 256) = (b :: u8)" for b
  proof -
    have "unat b < 2 ^ LENGTH(8)" by (rule unsigned_less)
    then show ?thesis by simp
  qed
  then show ?thesis by (simp add: fmt_api_ok_def ref_fmt_def comp_def)
qed

definition empty_storage :: storage where
  "empty_storage = \<lparr> st_disk = \<lparr> disk_files = [], disk_dirs = [], disk_dir_len = 4096 \<rparr>,
     st_used = used_space_new 100 200 \<rparr>"

definition sample_chunk :: chunk where
  "sample_chunk = chunk_new ref_keys [1, 2, 3]"

lemma sample_fresh:
  "\<not> fs_exists (st_disk empty_storage) p" "file_of (st_disk empty_storage) p = None"
  by (simp_all add: empty_storage_def fs_exists_def)

lemma sample_room: "can_add (st_used empty_storage) (of_nat (length (ch_value sample_chunk)))"
  by (simp add: can_add_def empty_storage_def used_space_new_def sample_chunk_def chunk_new_def)

lemma sample_store:
  "\<exists>S' l. store_chunk no_faults ref_fmt None [] empty_storage sample_chunk = (S', Ok l)"
  by (rule store_succeeds [OF _ _ sample_fresh(1) sample_room sample_fresh(2)])
    (simp_all add: no_faults_def recommended_section_size_def elder_count_def DEFAULT_ELDER_COUNT_def)

theorem store_then_get_witness:
  "case store_chunk no_faults ref_fmt None [] empty_storage sample_chunk of
     (S', Ok _) \<Rightarrow> get_chunk ref_keys no_faults ref_fmt [] S' (ch_address sample_chunk) = Ok sample_chunk
   | _ \<Rightarrow> False"
proof -
  obtain S' l where st: "store_chunk no_faults ref_fmt None [] empty_storage sample_chunk = (S', Ok l)"
    using sample_store by blast
  have "length (ch_name sample_chunk) = XOR_NAME_LEN"
    by (simp add: sample_chunk_def chunk_new_def ch_name_def ref_keys_def XOR_NAME_LEN_def)
  moreover have "\<not> fs_exists (st_disk empty_storage) (chunk_addr_to_filepath ref_fmt [] (ch_address sample_chunk))"
    by (simp add: empty_storage_def fs_exists_def)
  ultimately show ?thesis
    using store_then_get [OF ref_fmt_ok sample_chunk_def _ _ st] st by simp
qed

theorem chunks_accounted_witness:
  "case store_chunk no_faults ref_fmt None [] empty_storage sample_chunk of
     (S', Ok _) \<Rightarrow> unaccounted S' = 0 | _ \<Rightarrow> False"
proof -
  have "distinct (map fst (disk_files (st_disk empty_storage)))" by (simp add: empty_storage_def)
  note acc = chunks_accounted [OF this, of no_faults ref_fmt None "[]" sample_chunk "ch_address sample_chunk"]
  have "unaccounted empty_storage = 0"
    by (simp add: unaccounted_def empty_storage_def used_space_new_def bytes_on_disk_def)
  with acc sample_store show ?thesis by auto
qed

text \<open>
  A store that was interrupted is masked: when writing the content fails, the file stays behind with
  a part of it, so that storing the chunk again reports success without writing anything, while
  reading the chunk still says that it is not there.
\<close>

theorem interrupted_store_masked:
  assumes F: "\<And>p. \<not> fails F CreateDir p" "\<And>p. \<not> fails F CreateFile p" "\<And>p. fails F WriteFile p"
    and c: "c = chunk_new K v"
    and new: "\<not> fs_exists (st_disk S) (chunk_addr_to_filepath T dir (ch_address c))"
    and room: "can_add (st_used S) (of_nat (length v))"
    and parents: "\<And>n. file_of (st_disk S) (take n (chunk_addr_to_filepath T dir (ch_address c))) = None"
    and part: "from_content_parts K [take (written F (chunk_addr_to_filepath T dir (ch_address c))) v]
      \<noteq> from_content_parts K [v]"
  shows "\<exists>S1. store_chunk F T env dir S c = (S1, Err (Io OtherIo)) \<and>
    store_chunk no_faults T env dir S1 c = (S1, Ok NoChange) \<and>
    get_chunk K no_faults T dir S1 (ch_address c) = Err (ChunkNotFound (ch_name c))"
proof -
  let ?p = "chunk_addr_to_filepath T dir (ch_address c)"
  have v: "ch_value c = v" using c by (simp add: chunk_new_def)
  obtain D2 where dirs: "create_dir_all F (st_disk S) (butlast ?p) = (D2, Ok ())"
    and create: "fs_create F D2 ?p = (D2\<lparr>disk_files := put_file ?p [] (disk_files (st_disk S))\<rparr>, Ok ())"
    and files: "disk_files D2 = disk_files (st_disk S)"
    using store_prepares [OF F(1,2) new parents] by blast
  let ?S1 = "S\<lparr>st_disk := D2\<lparr>disk_files := put_file ?p (take (written F ?p) v) (disk_files (st_disk S))\<rparr>\<rparr>"
  have "store_chunk F T env dir S c = (?S1, Err (Io OtherIo))"
    using new room F(3) by (simp add: store_chunk_def Let_def dirs create v fs_write_all_def put_file_twice)
  moreover have "store_chunk no_faults T env dir ?S1 c = (?S1, Ok NoChange)"
    by (simp add: store_chunk_def Let_def fs_exists_def)
  moreover have "get_chunk K no_faults T dir ?S1 (ch_address c) = Err (ChunkNotFound (ch_name c))"
    using part by (simp add: get_chunk_def fs_read_def no_faults_def c chunk_new_def ch_name_def)
  ultimately show ?thesis by blast
qed

theorem interrupted_store_masked_witness:
  "\<exists>S1. store_chunk \<lparr> fails = (\<lambda>call p. call = WriteFile), written = (\<lambda>_. 0) \<rparr> ref_fmt None [] empty_storage sample_chunk
      = (S1, Err (Io OtherIo)) \<and>
    store_chunk no_faults ref_fmt None [] S1 sample_chunk = (S1, Ok NoChange)"
proof -
  have "from_content_parts ref_keys [take 0 [1, 2, 3]] \<noteq> from_content_parts ref_keys [[1, 2, 3]]"
    by (simp add: ref_keys_def numeral_nat)
  moreover have "can_add (st_used empty_storage) (of_nat (length [1, 2, 3 :: u8]))"
    by (simp add: can_add_def empty_storage_def used_space_new_def)
  ultimately show ?thesis
    using interrupted_store_masked [of "\<lparr> fails = (\<lambda>call p. call = WriteFile), written = (\<lambda>_. 0) \<rparr>",
        OF _ _ _ sample_chunk_def sample_fresh(1) _ sample_fresh(2), of ref_fmt "[]" None] by auto
qed

end
