(* ===== verification/Data_Messages.thy ===== *)
theory Data_Messages
  imports Chunk_Storage
begin

section \<open>Messages about data\<close>

text \<open>
  \<open>sn_interface/src/messaging/data\<close> and \<open>types/mod.rs\<close>: the commands and queries of clients about
  chunks, registers and spentbooks, and the responses to them. The transaction, proofs and fees of a
  spend are values of the \<open>sn_dbc\<close> crate that are only handed on here; they are one opaque value.
  The text of \<open>InvalidOperation\<close> is left out.
\<close>

type_synonym spend_details = nat
type_synonym spent_proof_share = nat
type_synonym required_fee = nat

subsection \<open>Errors\<close>

datatype data_error =
    InconsistentStorageNodeResponses | DataAccessDenied user | DataNotFound data_address
  | FailedToWriteFile | InsufficientNodeCount prefix u8 u8 | DataNoSuchEntry hash
  | DataNoSuchUser user | InvalidOperation | SpentProofUnknownSectionKey public_key
  | NoCorrespondingCmdError

fun data_error_of_types :: "reg_error \<Rightarrow> data_error" where
  "data_error_of_types (NoSuchEntry h) = DataNoSuchEntry h"
| "data_error_of_types (NoSuchUser u) = DataNoSuchUser u"
| "data_error_of_types (AccessDenied u) = DataAccessDenied u"
| "data_error_of_types other = InvalidOperation"

fun data_error_of_storage :: "storage_error \<Rightarrow> data_error" where
  "data_error_of_storage NotEnoughSpace = FailedToWriteFile"
| "data_error_of_storage (RegisterNotFound a) = DataNotFound (RegAddress a)"
| "data_error_of_storage (ChunkNotFound n) = DataNotFound (BytesAddress (ChunkAddress n))"
| "data_error_of_storage (NetworkData e) = data_error_of_types e"
| "data_error_of_storage other = InvalidOperation"

subsection \<open>Register commands and queries\<close>

record client_auth =
  ca_public_key :: any_key
  ca_signature :: any_signature

definition verify_authority :: "key_api \<Rightarrow> bls_api \<Rightarrow> client_auth \<Rightarrow> bytes \<Rightarrow> (client_auth, unit) result" where
  "verify_authority K B auth payload =
     and_then (map_err (\<lambda>_. ()) (any_key_verify K B (ca_public_key auth) (ca_signature auth) payload)) (\<lambda>_. Ok auth)"

record create_register =
  cr_name :: xor_name
  cr_tag :: u64
  cr_policy :: policy

definition cr_owner :: "create_register \<Rightarrow> user" where
  "cr_owner c = pol_owner (cr_policy c)"

definition cr_address :: "create_register \<Rightarrow> register_address" where
  "cr_address c = RegisterAddress (cr_name c) (cr_tag c)"

record edit_register =
  er_address :: register_address
  er_edit :: crdt_operation

datatype register_cmd =
    CreateCmd (create_op: create_register) (create_auth: client_auth) (create_section_sig: section_sig)
  | EditCmd (edit_op: edit_register) (edit_auth: client_auth)

fun cmd_dst_address :: "register_cmd \<Rightarrow> register_address" where
  "cmd_dst_address (CreateCmd op auth sg) = cr_address op"
| "cmd_dst_address (EditCmd op auth) = er_address op"

definition cmd_name :: "register_cmd \<Rightarrow> xor_name" where
  "cmd_name c = reg_name (cmd_dst_address c)"

datatype register_query =
    GetReg register_address | ReadReg register_address | GetEntry register_address hash
  | GetPolicy register_address | GetUserPermissions register_address user | GetOwner register_address

fun register_query_address :: "register_query \<Rightarrow> register_address" where
  "register_query_address (GetReg a) = a"
| "register_query_address (ReadReg a) = a"
| "register_query_address (GetPolicy a) = a"
| "register_query_address (GetUserPermissions a u) = a"
| "register_query_address (GetEntry a h) = a"
| "register_query_address (GetOwner a) = a"

subsection \<open>Responses\<close>

datatype 'm query_response =
    GetChunkR "(chunk, data_error) result"
  | GetRegisterR "('m register, data_error) result"
  | GetRegisterEntryR "(entry, data_error) result"
  | GetRegisterOwnerR "(user, data_error) result"
  | ReadRegisterR "((hash \<times> entry) bset, data_error) result"
  | GetRegisterPolicyR "(policy, data_error) result"
  | GetRegisterUserPermissionsR "(permissions, data_error) result"
  | GetSpentProofSharesR "(spent_proof_share list, data_error) result"
  | GetFeesR "(required_fee, data_error) result"

fun response_is_error :: "'m query_response \<Rightarrow> bool" where
  "response_is_error (GetChunkR r) = (\<not> is_ok r)"
| "response_is_error (GetRegisterR r) = (\<not> is_ok r)"
| "response_is_error (GetRegisterEntryR r) = (\<not> is_ok r)"
| "response_is_error (GetRegisterOwnerR r) = (\<not> is_ok r)"
| "response_is_error (ReadRegisterR r) = (\<not> is_ok r)"
| "response_is_error (GetRegisterPolicyR r) = (\<not> is_ok r)"
| "response_is_error (GetRegisterUserPermissionsR r) = (\<not> is_ok r)"
| "response_is_error (GetSpentProofSharesR r) = (\<not> is_ok r)"
| "response_is_error (GetFeesR r) = (\<not> is_ok r)"

fun err_is :: "(data_error \<Rightarrow> bool) \<Rightarrow> ('a, data_error) result \<Rightarrow> bool" where
  "err_is P (Ok _) = False"
| "err_is P (Err e) = P e"

definition not_found :: "data_error \<Rightarrow> bool" where
  "not_found e = (case e of DataNotFound _ \<Rightarrow> True | _ \<Rightarrow> False)"

definition no_such_entry :: "data_error \<Rightarrow> bool" where
  "no_such_entry e = (case e of DataNoSuchEntry _ \<Rightarrow> True | _ \<Rightarrow> False)"

definition no_such_user :: "data_error \<Rightarrow> bool" where
  "no_such_user e = (case e of DataNoSuchUser _ \<Rightarrow> True | _ \<Rightarrow> False)"

fun is_data_not_found :: "'m query_response \<Rightarrow> bool" where
  "is_data_not_found (GetChunkR r) = err_is not_found r"
| "is_data_not_found (GetRegisterR r) = err_is not_found r"
| "is_data_not_found (GetRegisterEntryR r) = err_is (\<lambda>e. not_found e \<or> no_such_entry e) r"
| "is_data_not_found (GetRegisterOwnerR r) = err_is (\<lambda>e. not_found e \<or> no_such_user e) r"
| "is_data_not_found (ReadRegisterR r) = err_is not_found r"
| "is_data_not_found (GetRegisterPolicyR r) = err_is (\<lambda>e. not_found e \<or> no_such_user e) r"
| "is_data_not_found (GetRegisterUserPermissionsR r) = err_is (\<lambda>e. not_found e \<or> no_such_user e) r"
| "is_data_not_found (GetSpentProofSharesR r) = err_is not_found r"
| "is_data_not_found (GetFeesR r) = False"

datatype cmd_response =
    StoreChunkR "(unit, data_error) result" | CreateRegisterR "(unit, data_error) result"
  | EditRegisterR "(unit, data_error) result" | SpendKeyR "(unit, data_error) result"

fun cmd_response_result :: "cmd_response \<Rightarrow> (unit, data_error) result" where
  "cmd_response_result (StoreChunkR r) = r"
| "cmd_response_result (CreateRegisterR r) = r"
| "cmd_response_result (EditRegisterR r) = r"
| "cmd_response_result (SpendKeyR r) = r"

fun register_cmd_error_response :: "register_cmd \<Rightarrow> data_error \<Rightarrow> cmd_response" where
  "register_cmd_error_response (CreateCmd _ _ _) e = CreateRegisterR (Err e)"
| "register_cmd_error_response (EditCmd _ _) e = EditRegisterR (Err e)"

fun register_query_error_response :: "register_query \<Rightarrow> data_error \<Rightarrow> 'm query_response" where
  "register_query_error_response (GetReg _) e = GetRegisterR (Err e)"
| "register_query_error_response (ReadReg _) e = ReadRegisterR (Err e)"
| "register_query_error_response (GetPolicy _) e = GetRegisterPolicyR (Err e)"
| "register_query_error_response (GetUserPermissions _ _) e = GetRegisterUserPermissionsR (Err e)"
| "register_query_error_response (GetEntry _ _) e = GetRegisterEntryR (Err e)"
| "register_query_error_response (GetOwner _) e = GetRegisterOwnerR (Err e)"

subsection \<open>Spentbook\<close>

datatype spend_query = GetFees public_key | GetSpentProofShares spentbook_address

datatype spentbook_cmd = Spend (spend_public_key: public_key) (spend_details: spend_details)

definition spentbook_cmd_address :: "key_api \<Rightarrow> bls_api \<Rightarrow> spentbook_cmd \<Rightarrow> spentbook_address" where
  "spentbook_cmd_address K B c = SpentbookAddress (from_content_parts K [pk_to_bytes B (spend_public_key c)])"

definition spentbook_cmd_error_response :: "spentbook_cmd \<Rightarrow> data_error \<Rightarrow> cmd_response" where
  "spentbook_cmd_error_response c e = SpendKeyR (Err e)"

fun spend_query_error_response :: "spend_query \<Rightarrow> data_error \<Rightarrow> 'm query_response" where
  "spend_query_error_response (GetFees _) e = GetFeesR (Err e)"
| "spend_query_error_response (GetSpentProofShares _) e = GetSpentProofSharesR (Err e)"

fun spend_query_address :: "key_api \<Rightarrow> bls_api \<Rightarrow> spend_query \<Rightarrow> spentbook_address" where
  "spend_query_address K B (GetFees dbc_id) = SpentbookAddress (from_content_parts K [pk_to_bytes B dbc_id])"
| "spend_query_address K B (GetSpentProofShares a) = a"

subsection \<open>Data commands, queries and replicated data\<close>

datatype data_cmd = StoreChunkCmd chunk | RegisterCmd register_cmd | SpentbookCmd spentbook_cmd

fun data_cmd_dst_name :: "key_api \<Rightarrow> bls_api \<Rightarrow> data_cmd \<Rightarrow> xor_name" where
  "data_cmd_dst_name K B (StoreChunkCmd c) = ch_name c"
| "data_cmd_dst_name K B (RegisterCmd c) = cmd_name c"
| "data_cmd_dst_name K B (SpentbookCmd c) = spentbook_name (spentbook_cmd_address K B c)"

fun data_cmd_error_response :: "data_cmd \<Rightarrow> data_error \<Rightarrow> cmd_response" where
  "data_cmd_error_response (StoreChunkCmd c) e = StoreChunkR (Err e)"
| "data_cmd_error_response (RegisterCmd c) e = register_cmd_error_response c e"
| "data_cmd_error_response (SpentbookCmd c) e = spentbook_cmd_error_response c e"

datatype data_query = GetChunkQ chunk_address | RegisterQ register_query | SpentbookQ spend_query

fun data_query_dst_name :: "key_api \<Rightarrow> bls_api \<Rightarrow> data_query \<Rightarrow> xor_name" where
  "data_query_dst_name K B (GetChunkQ a) = chunk_address_name a"
| "data_query_dst_name K B (RegisterQ q) = reg_name (register_query_address q)"
| "data_query_dst_name K B (SpentbookQ q) = spentbook_name (spend_query_address K B q)"

record replicated_register_log =
  rl_address :: register_address
  rl_op_log :: "register_cmd list"

datatype replicated_data =
    ChunkData chunk | RegisterWrite register_cmd | RegisterLog replicated_register_log
  | SpentbookWrite register_cmd | SpentbookLog replicated_register_log

fun replicated_name :: "replicated_data \<Rightarrow> xor_name" where
  "replicated_name (ChunkData c) = ch_name c"
| "replicated_name (RegisterLog l) = reg_name (rl_address l)"
| "replicated_name (RegisterWrite c) = reg_name (cmd_dst_address c)"
| "replicated_name (SpentbookLog l) = reg_name (rl_address l)"
| "replicated_name (SpentbookWrite c) = reg_name (cmd_dst_address c)"

fun replicated_address :: "replicated_data \<Rightarrow> data_address" where
  "replicated_address (ChunkData c) = BytesAddress (ch_address c)"
| "replicated_address (RegisterLog l) = RegAddress (rl_address l)"
| "replicated_address (RegisterWrite c) = RegAddress (cmd_dst_address c)"
| "replicated_address (SpentbookLog l) = SpentAddress (SpentbookAddress (reg_name (rl_address l)))"
| "replicated_address (SpentbookWrite c) = SpentAddress (SpentbookAddress (reg_name (cmd_dst_address c)))"

text \<open>\<open>CmdResponse::ok\<close> and \<open>CmdResponse::err\<close>: the response to the command some data comes from.\<close>

fun cmd_response_for :: "replicated_data \<Rightarrow> (unit, data_error) result \<Rightarrow> (cmd_response, data_error) result" where
  "cmd_response_for (ChunkData _) r = Ok (StoreChunkR r)"
| "cmd_response_for (RegisterWrite (CreateCmd _ _ _)) r = Ok (CreateRegisterR r)"
| "cmd_response_for (RegisterWrite (EditCmd _ _)) r = Ok (EditRegisterR r)"
| "cmd_response_for (SpentbookWrite _) r = Ok (SpendKeyR r)"
| "cmd_response_for (RegisterLog _) r = Err NoCorrespondingCmdError"
| "cmd_response_for (SpentbookLog _) r = Err NoCorrespondingCmdError"

definition cmd_response_ok :: "replicated_data \<Rightarrow> (cmd_response, data_error) result" where
  "cmd_response_ok d = cmd_response_for d (Ok ())"

definition cmd_response_err :: "replicated_data \<Rightarrow> data_error \<Rightarrow> (cmd_response, data_error) result" where
  "cmd_response_err d e = cmd_response_for d (Err e)"

section \<open>Properties of the messages\<close>

lemma replicated_address_name: "data_address_name (replicated_address d) = replicated_name d"
  by (cases d) (simp_all add: ch_name_def)

text \<open>An error response is of the kind of the request, and is an error.\<close>

lemma register_query_error_is_error: "response_is_error (register_query_error_response q e)"
  by (cases q) simp_all

lemma data_cmd_error_result: "cmd_response_result (data_cmd_error_response c e) = Err e"
proof (cases c)
  case (RegisterCmd x)
  then show ?thesis by (cases x) simp_all
qed (simp_all add: spentbook_cmd_error_response_def)

text \<open>What is reported as not found is an error.\<close>

lemma err_is_not_ok: "err_is P r \<Longrightarrow> \<not> is_ok r"
  by (cases r) auto

lemma data_not_found_is_error: "is_data_not_found r \<Longrightarrow> response_is_error r"
  by (cases r) (auto dest: err_is_not_ok)

end
