(* ===== verification/Dkg_Voter.thy ===== *)
theory Dkg_Voter
  imports Handover Data_Messages
begin

section \<open>Distributed key generation: the voter\<close>

text \<open>
  \<open>sn_node/src/node/dkg/mod.rs\<close>. The candidates of a session first exchange keys that serve for the session
  only, each signed by the node's own key. When a participant has the keys of all, it starts the protocol
  of the crate \<open>sn_sdkg\<close>, whose state is the parameter \<open>dkg_api\<close>. What is random is an argument: the new
  secret key. The tables of the voter are of type \<open>HashMap\<close>.
\<close>

subsection \<open>Hash maps\<close>

text \<open>A \<open>HashMap\<close> is the list of its entries in the order its iterator yields, which is arbitrary.\<close>

type_synonym ('k, 'v) hmap = "('k \<times> 'v) list"

abbreviation hm_get :: "('k, 'v) hmap \<Rightarrow> 'k \<Rightarrow> 'v option" where
  "hm_get m k \<equiv> map_of m k"

fun hm_insert :: "'k \<Rightarrow> 'v \<Rightarrow> ('k, 'v) hmap \<Rightarrow> ('k, 'v) hmap" where
  "hm_insert k v [] = [(k, v)]"
| "hm_insert k v ((k', v') # m) = (if k = k' then (k, v) # m else (k', v') # hm_insert k v m)"

definition hm_remove :: "'k \<Rightarrow> ('k, 'v) hmap \<Rightarrow> ('k, 'v) hmap" where
  "hm_remove k m = filter (\<lambda>e. fst e \<noteq> k) m"

definition hm_wf :: "('k, 'v) hmap \<Rightarrow> bool" where
  "hm_wf m = distinct (map fst m)"

lemma hm_get_insert [simp]: "hm_get (hm_insert k v m) = (hm_get m)(k \<mapsto> v)"
  by (induction k v m rule: hm_insert.induct) (auto simp: fun_eq_iff)

lemma hm_get_remove [simp]: "hm_get (hm_remove k m) = (hm_get m)(k := None)"
  by (induction m) (auto simp: hm_remove_def fun_eq_iff)

lemma hm_insert_fst: "fst ` set (hm_insert k v m) = insert k (fst ` set m)"
  by (induction k v m rule: hm_insert.induct) auto

lemma hm_wf_insert: "hm_wf m \<Longrightarrow> hm_wf (hm_insert k v m)"
proof (induction k v m rule: hm_insert.induct)
  case (2 k v k' v' m)
  then show ?case using hm_insert_fst [of k v m] by (auto simp: hm_wf_def)
qed (simp add: hm_wf_def)

lemma hm_wf_remove: "hm_wf m \<Longrightarrow> hm_wf (hm_remove k m)"
  by (simp add: hm_wf_def hm_remove_def distinct_map_filter)

interpretation hashed: keyed_store hm_get hm_insert hm_remove hm_wf
  by unfold_locales (simp_all add: hm_wf_insert hm_wf_remove fun_eq_iff)

subsection \<open>Errors of the node\<close>

text \<open>\<open>sn_node/src/node/error.rs\<close>, those that the modelled code returns, and \<open>sn_interface/src/messaging/errors.rs\<close>.\<close>

datatype messaging_error =
    Serialisation_msg | FailedToParse | InvalidSignature_msg | UnsupportedVersion u16

datatype rejoin_reason = JoinsDisallowed | RemovedFromSection

datatype node_error =
    NoMembershipFound | InvalidDkgParticipant | InvalidMessage | InvalidSignatureShare_node | InvalidSignature_node
  | InvalidKeyShareSectionKey | InvalidRelocationDetails | NoMatchingSection_node
  | RejoinRequired rejoin_reason
  | Messaging messaging_error | Membership_node membership_error | HandoverError handover_error
  | NetworkKnowledge_node nk_error | Bincode_node
  | InvalidXorname xor_name | DkgEphemeralKeyAlreadyGenerated | NodeNotInDkgSession xor_name
  | NoDkgKeysForSession dkg_session_id
  | DoubleKeyAttackDetected xor_name public_key ed_signature public_key ed_signature
  | DkgError | NoDkgStateForSession dkg_session_id
  | RequestHandoverAntiEntropy nat | InvalidMembershipGeneration | FailedToGetSAPforPrefix prefix
  | InvalidElderCandidates | InvalidSplitCandidates | InvalidSectionPrefixForCandidate
  | InvalidSectionPrefixForSplitCandidates | InvalidDkgPrefix | UntrustedSectionAuthProvider_node
  | Panicked | NoClientResponseStream | ClientMsg_node data_error

subsection \<open>The state of a session\<close>

type_synonym dkg_signed_vote = nat
type_synonym bls_secret_key = nat
type_synonym secret_key_share = nat
type_synonym ed_keypair = nat

datatype vote_response =
    WaitingForMoreVotes | RequestAntiEntropy_dkg | BroadcastVote dkg_signed_vote
  | DkgComplete public_key_set secret_key_share

record 'd dkg_api =
  ds_new :: "u8 \<Rightarrow> bls_secret_key \<Rightarrow> (u8, public_key) bmap \<Rightarrow> nat \<Rightarrow> 'd option"
  ds_id :: "'d \<Rightarrow> u8"
  ds_first_vote :: "'d \<Rightarrow> 'd \<times> dkg_signed_vote option"
  ds_handle_signed_vote :: "'d \<Rightarrow> dkg_signed_vote \<Rightarrow> 'd \<times> vote_response list option"
  ds_all_votes :: "'d \<Rightarrow> dkg_signed_vote list"
  ds_reached_termination :: "'d \<Rightarrow> bool option"
  ds_outcome :: "'d \<Rightarrow> (public_key_set \<times> secret_key_share) option option"
  ds_force_termination :: "'d \<Rightarrow> 'd \<times> (public_key_set \<times> secret_key_share) option option"

text \<open>What the voter uses of other crates: the keys of nodes and sessions, the hash, the protocol.\<close>

record 'd dkg_env =
  de_keys :: key_api
  de_bls :: bls_api
  de_xor :: xor_api
  de_sha3 :: "bytes \<Rightarrow> bytes"
  de_ed_from_bytes :: "bytes \<Rightarrow> ed_key option"
  de_ed_public :: "ed_keypair \<Rightarrow> ed_key"
  de_ed_sign :: "ed_keypair \<Rightarrow> bytes \<Rightarrow> ed_signature"
  de_sk_public_key :: "bls_secret_key \<Rightarrow> public_key"
  de_state :: "'d dkg_api"

abbreviation dk_hash :: "'d dkg_env \<Rightarrow> dkg_session_id \<Rightarrow> bytes" where
  "dk_hash G s \<equiv> session_hash (de_sha3 G) (de_xor G) s"

definition node_name :: "'d dkg_env \<Rightarrow> ed_keypair \<Rightarrow> xor_name" where
  "node_name G kp = ed_to_bytes (de_keys G) (de_ed_public G kp)"

definition ed25519_pub_key :: "'d dkg_env \<Rightarrow> xor_name \<Rightarrow> ed_key option" where
  "ed25519_pub_key G name = de_ed_from_bytes G name"

subsection \<open>The voter\<close>

type_synonym dkg_pub_keys = "(xor_name, public_key \<times> ed_signature) bmap"

record dkg_ephemeral_keys =
  ek_secret_key :: bls_secret_key
  ek_pub_keys :: dkg_pub_keys

record 'd dkg_voter =
  dv_dkg_ephemeral_keys :: "(bytes, dkg_ephemeral_keys) hmap"
  dv_dkg_states :: "(bytes, 'd) hmap"
  dv_last_received_dkg_msg_time :: "nat option"

definition default_voter :: "'d dkg_voter" where
  "default_voter = \<lparr> dv_dkg_ephemeral_keys = [], dv_dkg_states = [], dv_last_received_dkg_msg_time = None \<rparr>"

fun session_public_keys ::
  "dkg_session_id \<Rightarrow> dkg_pub_keys \<Rightarrow> (u8, public_key) bmap \<Rightarrow> ((u8, public_key) bmap, node_error) result" where
  "session_public_keys s [] public_keys = Ok public_keys"
| "session_public_keys s ((name, ephemeral_pk, _) # rest) public_keys =
     (case elder_index s name of
        Some index \<Rightarrow> session_public_keys s rest (bm_insert (of_nat index) ephemeral_pk public_keys)
      | None \<Rightarrow> Err (NodeNotInDkgSession name))"

definition create_dkg_state ::
  "'d dkg_env \<Rightarrow> dkg_session_id \<Rightarrow> nat \<Rightarrow> bls_secret_key \<Rightarrow> dkg_pub_keys \<Rightarrow> ('d, node_error) result" where
  "create_dkg_state G s participant_index secret_key ephemeral_bls_pks =
     and_then (session_public_keys s ephemeral_bls_pks [])
       (\<lambda>public_keys. ok_or
          (ds_new (de_state G) (of_nat participant_index) secret_key public_keys (threshold (length (dk_elders s))))
          DkgError)"

definition check_ephemeral_dkg_key ::
  "'d dkg_env \<Rightarrow> dkg_session_id \<Rightarrow> xor_name \<Rightarrow> public_key \<Rightarrow> ed_signature \<Rightarrow> (unit, node_error) result" where
  "check_ephemeral_dkg_key G s key_owner key key_sig =
     (if \<not> bm_has (dk_elders s) key_owner then Err (NodeNotInDkgSession key_owner)
      else and_then (ok_or (ed25519_pub_key G key_owner) (InvalidXorname key_owner))
        (\<lambda>sender_pubkey. and_then (ok_or (pk_serialize (de_bls G) key) Bincode_node)
           (\<lambda>serialized_key. if ed_verify (de_keys G) sender_pubkey serialized_key key_sig then Ok ()
              else Err InvalidSignature_node)))"

definition gen_ephemeral_key ::
  "'d dkg_env \<Rightarrow> bls_secret_key \<Rightarrow> 'd dkg_voter \<Rightarrow> dkg_session_id \<Rightarrow> xor_name \<Rightarrow> ed_keypair
     \<Rightarrow> 'd dkg_voter \<times> (public_key \<times> ed_signature, node_error) result" where
  "gen_ephemeral_key G new_secret_key V s our_name keypair =
     (if hm_get (dv_dkg_ephemeral_keys V) (dk_hash G s) \<noteq> None then (V, Err DkgEphemeralKeyAlreadyGenerated)
      else
        (let new_pub_key = de_sk_public_key G new_secret_key in
         case pk_serialize (de_bls G) new_pub_key of
           None \<Rightarrow> (V, Err Bincode_node)
         | Some serialized_key \<Rightarrow>
             (let key_sig = de_ed_sign G keypair serialized_key;
                  ephemeral_keys = \<lparr> ek_secret_key = new_secret_key,
                    ek_pub_keys = bm_from_iter [(our_name, (new_pub_key, key_sig))] \<rparr>
              in (V\<lparr>dv_dkg_ephemeral_keys :=
                      hm_insert (dk_hash G s) ephemeral_keys (dv_dkg_ephemeral_keys V)\<rparr>,
                  Ok (new_pub_key, key_sig)))))"

definition learned_something_from_message :: "nat \<Rightarrow> 'd dkg_voter \<Rightarrow> 'd dkg_voter" where
  "learned_something_from_message now V = V\<lparr>dv_last_received_dkg_msg_time := Some now\<rparr>"

definition clear_dkg_msg_timer :: "'d dkg_voter \<Rightarrow> 'd dkg_voter" where
  "clear_dkg_msg_timer V = V\<lparr>dv_last_received_dkg_msg_time := None\<rparr>"

text \<open>The argument of \<open>or_insert\<close> is evaluated, and its error returned, also when there is a state already.\<close>

definition initialize_dkg_state ::
  "'d dkg_env \<Rightarrow> 'd dkg_voter \<Rightarrow> dkg_session_id \<Rightarrow> nat
     \<Rightarrow> 'd dkg_voter \<times> (dkg_signed_vote \<times> dkg_pub_keys, node_error) result" where
  "initialize_dkg_state G V s participant_index =
     (case hm_get (dv_dkg_ephemeral_keys V) (dk_hash G s) of
        None \<Rightarrow> (V, Err (NoDkgKeysForSession s))
      | Some our_keys \<Rightarrow>
          (case create_dkg_state G s participant_index (ek_secret_key our_keys) (ek_pub_keys our_keys) of
             Err e \<Rightarrow> (V, Err e)
           | Ok new_state \<Rightarrow>
               (let dkg_state = (case hm_get (dv_dkg_states V) (dk_hash G s) of
                       Some st \<Rightarrow> st | None \<Rightarrow> new_state);
                    (dkg_state', first_vote) = ds_first_vote (de_state G) dkg_state
                in (V\<lparr>dv_dkg_states := hm_insert (dk_hash G s) dkg_state' (dv_dkg_states V)\<rparr>,
                    map_ok (\<lambda>v. (v, ek_pub_keys our_keys)) (ok_or first_vote DkgError)))))"

text \<open>
  \<open>save_key\<close> calls \<open>insert\<close> only when the owner has no key yet, so that \<open>insert(..).is_some()\<close> is false.
\<close>

definition save_key ::
  "'d dkg_env \<Rightarrow> nat \<Rightarrow> 'd dkg_voter \<Rightarrow> dkg_session_id \<Rightarrow> xor_name \<Rightarrow> public_key \<Rightarrow> ed_signature
     \<Rightarrow> 'd dkg_voter \<times> (bool, node_error) result" where
  "save_key G now V s key_owner key key_sig =
     (case check_ephemeral_dkg_key G s key_owner key key_sig of
        Err e \<Rightarrow> (V, Err e)
      | Ok _ \<Rightarrow>
          (case hm_get (dv_dkg_ephemeral_keys V) (dk_hash G s) of
             None \<Rightarrow> (V, Err (NoDkgKeysForSession s))
           | Some our_keys \<Rightarrow>
               (case bm_get (ek_pub_keys our_keys) key_owner of
                  Some (already_had, old_sig) \<Rightarrow>
                    if already_had \<noteq> key
                    then (V, Err (DoubleKeyAttackDetected key_owner key key_sig already_had old_sig))
                    else (V, Ok False)
                | None \<Rightarrow>
                    (let did_insert = (bm_get (ek_pub_keys our_keys) key_owner \<noteq> None);
                         our_keys' = our_keys\<lparr>ek_pub_keys :=
                           bm_insert key_owner (key, key_sig) (ek_pub_keys our_keys)\<rparr>;
                         what_we_have = bm_keys (ek_pub_keys our_keys');
                         what_we_need = bm_keys (dk_elders s);
                         V' = V\<lparr>dv_dkg_ephemeral_keys :=
                           hm_insert (dk_hash G s) our_keys' (dv_dkg_ephemeral_keys V)\<rparr>
                     in (if did_insert then learned_something_from_message now V' else V',
                         Ok (what_we_have = what_we_need))))))"

definition try_init_dkg ::
  "'d dkg_env \<Rightarrow> nat \<Rightarrow> 'd dkg_voter \<Rightarrow> dkg_session_id \<Rightarrow> nat \<Rightarrow> public_key \<Rightarrow> ed_signature \<Rightarrow> xor_name
     \<Rightarrow> 'd dkg_voter \<times> ((dkg_signed_vote \<times> dkg_pub_keys) option, node_error) result" where
  "try_init_dkg G now V s participant_index ephemeral_pub_key key_sig sender =
     (case save_key G now V s sender ephemeral_pub_key key_sig of
        (V', Err e) \<Rightarrow> (V', Err e)
      | (V', Ok just_completed) \<Rightarrow>
          if \<not> just_completed then (V', Ok None)
          else (let (V'', r) = initialize_dkg_state G V' s participant_index in (V'', map_ok Some r)))"

text \<open>Collecting results stops at the first error.\<close>

fun save_keys ::
  "'d dkg_env \<Rightarrow> nat \<Rightarrow> 'd dkg_voter \<Rightarrow> dkg_session_id \<Rightarrow> dkg_pub_keys
     \<Rightarrow> 'd dkg_voter \<times> (bool list, node_error) result" where
  "save_keys G now V s [] = (V, Ok [])"
| "save_keys G now V s ((name, key, key_sig) # keys) =
     (case save_key G now V s name key key_sig of
        (V', Err e) \<Rightarrow> (V', Err e)
      | (V', Ok b) \<Rightarrow>
          (let (V'', r) = save_keys G now V' s keys in (V'', map_ok (Cons b) r)))"

definition check_keys ::
  "'d dkg_env \<Rightarrow> nat \<Rightarrow> 'd dkg_voter \<Rightarrow> dkg_session_id \<Rightarrow> dkg_pub_keys
     \<Rightarrow> 'd dkg_voter \<times> (dkg_pub_keys \<times> bool, node_error) result" where
  "check_keys G now V s keys =
     (case hm_get (dv_dkg_ephemeral_keys V) (dk_hash G s) of
        None \<Rightarrow> (V, Err (NoDkgKeysForSession s))
      | Some our_keys \<Rightarrow>
          if keys = ek_pub_keys our_keys then (V, Ok (keys, False))
          else (let (V', completed) = save_keys G now V s keys
                in (V', map_ok (\<lambda>bs. (keys, list_ex id bs)) completed)))"

definition get_dkg_keys ::
  "'d dkg_env \<Rightarrow> 'd dkg_voter \<Rightarrow> dkg_session_id \<Rightarrow> (dkg_pub_keys, node_error) result" where
  "get_dkg_keys G V s =
     map_ok ek_pub_keys
       (ok_or (hm_get (dv_dkg_ephemeral_keys V) (dk_hash G s)) (NoDkgKeysForSession s))"

definition get_all_votes ::
  "'d dkg_env \<Rightarrow> 'd dkg_voter \<Rightarrow> dkg_session_id \<Rightarrow> (dkg_signed_vote list, node_error) result" where
  "get_all_votes G V s =
     map_ok (ds_all_votes (de_state G))
       (ok_or (hm_get (dv_dkg_states V) (dk_hash G s)) (NoDkgStateForSession s))"

definition handle_dkg_vote ::
  "'d dkg_env \<Rightarrow> 'd dkg_voter \<Rightarrow> dkg_session_id \<Rightarrow> dkg_signed_vote
     \<Rightarrow> 'd dkg_voter \<times> (vote_response list, node_error) result" where
  "handle_dkg_vote G V s vote =
     (case hm_get (dv_dkg_states V) (dk_hash G s) of
        Some state \<Rightarrow>
          (let (state', r) = ds_handle_signed_vote (de_state G) state vote
           in (V\<lparr>dv_dkg_states := hm_insert (dk_hash G s) state' (dv_dkg_states V)\<rparr>, ok_or r DkgError))
      | None \<Rightarrow> (V, Err (NoDkgStateForSession s)))"

definition reached_termination ::
  "'d dkg_env \<Rightarrow> 'd dkg_voter \<Rightarrow> dkg_session_id \<Rightarrow> (bool, node_error) result" where
  "reached_termination G V s =
     (case hm_get (dv_dkg_states V) (dk_hash G s) of
        Some state \<Rightarrow> ok_or (ds_reached_termination (de_state G) state) DkgError
      | None \<Rightarrow> Ok False)"

definition dkg_outcome ::
  "'d dkg_env \<Rightarrow> 'd dkg_voter \<Rightarrow> dkg_session_id
     \<Rightarrow> ((u8 \<times> public_key_set \<times> secret_key_share) option, node_error) result" where
  "dkg_outcome G V s =
     (case hm_get (dv_dkg_states V) (dk_hash G s) of
        Some state \<Rightarrow>
          map_ok (map_option (Pair (ds_id (de_state G) state))) (ok_or (ds_outcome (de_state G) state) DkgError)
      | None \<Rightarrow> Err (NoDkgStateForSession s))"

definition force_termination ::
  "'d dkg_env \<Rightarrow> 'd dkg_voter \<Rightarrow> dkg_session_id
     \<Rightarrow> 'd dkg_voter \<times> ((u8 \<times> public_key_set \<times> secret_key_share) option, node_error) result" where
  "force_termination G V s =
     (case hm_get (dv_dkg_states V) (dk_hash G s) of
        Some state \<Rightarrow>
          (let (state', r) = ds_force_termination (de_state G) state
           in (V\<lparr>dv_dkg_states := hm_insert (dk_hash G s) state' (dv_dkg_states V)\<rparr>,
               map_ok (map_option (Pair (ds_id (de_state G) state))) (ok_or r DkgError)))
      | None \<Rightarrow> (V, Err (NoDkgStateForSession s)))"

definition voter_remove :: "'d dkg_voter \<Rightarrow> bytes \<Rightarrow> 'd dkg_voter" where
  "voter_remove V hash =
     V\<lparr>dv_dkg_ephemeral_keys := hm_remove hash (dv_dkg_ephemeral_keys V),
       dv_dkg_states := hm_remove hash (dv_dkg_states V)\<rparr>"

section \<open>Properties of the voter\<close>

text \<open>The keys a voter has for a session are those that \<open>kf\<close> gives to the names of \<open>S\<close>.\<close>

definition has_keys ::
  "'d dkg_env \<Rightarrow> 'd dkg_voter \<Rightarrow> dkg_session_id \<Rightarrow> xor_name set \<Rightarrow> (xor_name \<Rightarrow> public_key \<times> ed_signature) \<Rightarrow> bool" where
  "has_keys G V s S kf \<longleftrightarrow>
     (\<exists>our_keys. hm_get (dv_dkg_ephemeral_keys V) (dk_hash G s) = Some our_keys \<and> bm_wf (ek_pub_keys our_keys) \<and>
        (\<forall>n. bm_get (ek_pub_keys our_keys) n = (if n \<in> S then Some (kf n) else None)))"

abbreviation session_names :: "dkg_session_id \<Rightarrow> xor_name set" where
  "session_names s \<equiv> set (elder_names s)"

definition all_session_keys ::
  "dkg_session_id \<Rightarrow> (xor_name \<Rightarrow> public_key \<times> ed_signature) \<Rightarrow> dkg_pub_keys" where
  "all_session_keys s kf = map (\<lambda>n. (n, kf n)) (elder_names s)"

text \<open>The public keys of the participants by their indices.\<close>

definition indexed_keys ::
  "dkg_session_id \<Rightarrow> (xor_name \<Rightarrow> public_key \<times> ed_signature) \<Rightarrow> (u8, public_key) bmap" where
  "indexed_keys s kf = bm_from_iter (map (\<lambda>(k, n). (of_nat k, fst (kf n))) (enumerate 0 (elder_names s)))"

text \<open>The first vote in a session as the crate gives it, with the keys of all participants.\<close>

definition first_vote_of ::
  "'d dkg_env \<Rightarrow> dkg_session_id \<Rightarrow> nat \<Rightarrow> bls_secret_key \<Rightarrow> (xor_name \<Rightarrow> public_key \<times> ed_signature)
     \<Rightarrow> ((dkg_signed_vote \<times> dkg_pub_keys) option, node_error) result" where
  "first_vote_of G s i sk kf =
     map_ok (\<lambda>v. Some (v, all_session_keys s kf))
       (and_then (ok_or (ds_new (de_state G) (of_nat i) sk (indexed_keys s kf) (threshold (length (dk_elders s)))) DkgError)
         (\<lambda>st. ok_or (snd (ds_first_vote (de_state G) st)) DkgError))"

definition session_secret :: "'d dkg_env \<Rightarrow> 'd dkg_voter \<Rightarrow> dkg_session_id \<Rightarrow> bls_secret_key option" where
  "session_secret G V s = map_option ek_secret_key (hm_get (dv_dkg_ephemeral_keys V) (dk_hash G s))"

lemma bm_keys_eq_iff:
  assumes "bm_wf m" and "bm_wf m'"
  shows "bm_keys m = bm_keys m' \<longleftrightarrow> dom (bm_get m) = dom (bm_get m')"
proof
  have "bs_wf (bm_keys m)" and "bs_wf (bm_keys m')" using assms by (simp_all add: bm_wf_def bs_wf_def bm_keys_def)
  then show "bm_keys m = bm_keys m'" if "dom (bm_get m) = dom (bm_get m')"
    using that by (intro bs_unique) (simp_all add: bm_keys_set)
  show "dom (bm_get m) = dom (bm_get m')" if "bm_keys m = bm_keys m'"
    using arg_cong [OF that, of set] by (simp add: bm_keys_set)
qed

lemma bm_all_session_keys:
  assumes wf: "bm_wf m" and el: "bm_wf (dk_elders s)"
    and get: "\<And>n. bm_get m n = (if n \<in> session_names s then Some (kf n) else None)"
  shows "m = all_session_keys s kf"
proof -
  have "dom (bm_get m) = session_names s" by (auto simp: get split: if_splits)
  then have keys: "bm_keys m = elder_names s"
    using bm_keys_eq_iff [OF wf el] by (simp add: elder_names_def bm_keys_set)
  have "snd e = kf (fst e)" if "e \<in> set m" for e
    using that get [of "fst e"] bm_in_set_iff [OF wf, of "fst e" "snd e"] by (simp split: if_splits)
  then have "map (\<lambda>n. (n, kf n)) (bm_keys m) = map id m"
    unfolding bm_keys_def map_map by (intro map_cong) (auto simp: prod_eq_iff)
  then show ?thesis by (simp add: keys all_session_keys_def)
qed

lemma save_key_valid:
  assumes has: "has_keys G V s S kf" and el: "bm_wf (dk_elders s)"
    and ok: "check_ephemeral_dkg_key G s n (fst (kf n)) (snd (kf n)) = Ok ()"
  shows "\<exists>V'. save_key G now V s n (fst (kf n)) (snd (kf n))
             = (V', Ok (n \<notin> S \<and> insert n S = session_names s)) \<and>
           has_keys G V' s (insert n S) kf \<and> dv_dkg_states V' = dv_dkg_states V \<and>
           session_secret G V' s = session_secret G V s"
proof -
  obtain our where our: "hm_get (dv_dkg_ephemeral_keys V) (dk_hash G s) = Some our"
    and wf: "bm_wf (ek_pub_keys our)"
    and get: "\<And>n. bm_get (ek_pub_keys our) n = (if n \<in> S then Some (kf n) else None)"
    using has by (auto simp: has_keys_def)
  show ?thesis
  proof (cases "n \<in> S")
    case True
    then show ?thesis
      using has by (simp add: save_key_def ok our get split_beta insert_absorb)
  next
    case False
    let ?m = "bm_insert n (kf n) (ek_pub_keys our)"
    have "dom (bm_get ?m) = insert n S" by (auto simp: bm_get_insert [OF wf] get split: if_splits)
    then have "bm_keys ?m = bm_keys (dk_elders s) \<longleftrightarrow> insert n S = session_names s"
      using bm_keys_eq_iff [OF bm_wf_insert [OF wf] el] by (simp add: elder_names_def bm_keys_set)
    with False show ?thesis
      by (simp add: save_key_def ok our get Let_def has_keys_def session_secret_def bm_wf_insert [OF wf] bm_get_insert [OF wf])
  qed
qed

lemma position_nth: "distinct xs \<Longrightarrow> k < length xs \<Longrightarrow> position (xs ! k) xs i = Some (i + k)"
proof (induction xs arbitrary: i k)
  case (Cons x xs)
  then show ?case by (cases k) (auto simp: nth_Cons')
qed simp

lemma session_public_keys_extend:
  assumes "set ns \<subseteq> session_names s"
  shows "session_public_keys s (map (\<lambda>n. (n, kf n)) ns) acc =
    Ok (bm_extend (map (\<lambda>n. (of_nat (the (elder_index s n)), fst (kf n))) ns) acc)"
  using assms
proof (induction ns arbitrary: acc)
  case (Cons n ns)
  then obtain k where k: "elder_index s n = Some k"
    using position_None [of n "sort (elder_names s)" 0] by (auto simp: elder_index_def)
  then have "session_public_keys s (map (\<lambda>n. (n, kf n)) (n # ns)) acc =
      session_public_keys s (map (\<lambda>n. (n, kf n)) ns) (bm_insert (of_nat k) (fst (kf n)) acc)"
    by (cases "kf n") simp
  with Cons k show ?case by (simp add: bm_extend_def)
qed (simp add: bm_extend_def)

lemma session_public_keys_ok:
  assumes el: "bm_wf (dk_elders s)"
  shows "session_public_keys s (all_session_keys s kf) [] = Ok (indexed_keys s kf)"
proof -
  have dist: "distinct (elder_names s)" using bm_wf_distinct [OF el] by (simp add: elder_names_def bm_keys_def)
  have "elder_index s (elder_names s ! k) = Some k" if "k < length (elder_names s)" for k
    using position_nth [OF dist that, of 0] sort_bm_keys [OF el] by (simp add: elder_index_def elder_names_def)
  then have "map (\<lambda>n. (of_nat (the (elder_index s n)) :: u8, fst (kf n))) (elder_names s) =
      map (\<lambda>(k, n). (of_nat k, fst (kf n))) (enumerate 0 (elder_names s))"
    by (intro nth_equalityI) (simp_all add: nth_enumerate_eq)
  then show ?thesis
    using session_public_keys_extend [of "elder_names s" s kf "[]"] by (simp add: all_session_keys_def indexed_keys_def)
qed

subsection \<open>Every session starts\<close>

lemma initialize_complete:
  assumes has: "has_keys G V s (session_names s) kf" and el: "bm_wf (dk_elders s)"
    and sk: "session_secret G V s = Some sk" and new: "hm_get (dv_dkg_states V) (dk_hash G s) = None"
  shows "\<exists>V' r. initialize_dkg_state G V s i = (V', r) \<and> map_ok Some r = first_vote_of G s i sk kf \<and>
           has_keys G V' s (session_names s) kf"
proof -
  obtain our where our: "hm_get (dv_dkg_ephemeral_keys V) (dk_hash G s) = Some our"
    and wf: "bm_wf (ek_pub_keys our)"
    and get: "\<And>n. bm_get (ek_pub_keys our) n = (if n \<in> session_names s then Some (kf n) else None)"
    using has by (auto simp: has_keys_def)
  have keys: "ek_pub_keys our = all_session_keys s kf" by (rule bm_all_session_keys [OF wf el get])
  have create: "create_dkg_state G s i (ek_secret_key our) (ek_pub_keys our) =
      ok_or (ds_new (de_state G) (of_nat i) sk (indexed_keys s kf) (threshold (length (dk_elders s)))) DkgError"
    using sk our by (simp add: create_dkg_state_def keys session_public_keys_ok [OF el] session_secret_def)
  obtain V' r where r: "initialize_dkg_state G V s i = (V', r)" by (cases "initialize_dkg_state G V s i")
  have comp: "map_ok Some (map_ok g x) = map_ok (\<lambda>v. Some (g v)) x"
    for g :: "dkg_signed_vote \<Rightarrow> dkg_signed_vote \<times> dkg_pub_keys" and x :: "(dkg_signed_vote, node_error) result"
    by (cases x) simp_all
  from r have "map_ok Some r = first_vote_of G s i sk kf" and "dv_dkg_ephemeral_keys V' = dv_dkg_ephemeral_keys V"
    unfolding initialize_dkg_state_def our option.case create first_vote_of_def
    by (auto simp: new keys Let_def split_beta comp split: option.splits result.splits)
  with r has show ?thesis unfolding has_keys_def by auto
qed

text \<open>The results of a list of messages with the keys of their senders.\<close>

fun receive_keys ::
  "'d dkg_env \<Rightarrow> nat \<Rightarrow> 'd dkg_voter \<Rightarrow> dkg_session_id \<Rightarrow> nat \<Rightarrow> (xor_name \<Rightarrow> public_key \<times> ed_signature)
     \<Rightarrow> xor_name list \<Rightarrow> ((dkg_signed_vote \<times> dkg_pub_keys) option, node_error) result list" where
  "receive_keys G now V s i kf [] = []"
| "receive_keys G now V s i kf (n # ns) =
     (let (V', r) = try_init_dkg G now V s i (fst (kf n)) (snd (kf n)) n
      in r # receive_keys G now V' s i kf ns)"

lemma receive_keys_completed:
  assumes el: "bm_wf (dk_elders s)"
    and ok: "\<And>n. n \<in> set ns \<Longrightarrow> check_ephemeral_dkg_key G s n (fst (kf n)) (snd (kf n)) = Ok ()"
    and has: "has_keys G V s (session_names s) kf" and sub: "set ns \<subseteq> session_names s"
  shows "receive_keys G now V s i kf ns = map (\<lambda>_. Ok None) ns"
  using ok has sub
proof (induction ns arbitrary: V)
  case (Cons n ns)
  obtain V' where V': "save_key G now V s n (fst (kf n)) (snd (kf n)) = (V', Ok False)"
    and has': "has_keys G V' s (session_names s) kf"
    using save_key_valid [OF Cons.prems(2) el Cons.prems(1) [of n], where now = now] Cons.prems(3)
    by (auto simp: insert_absorb)
  with Cons.IH [of V'] Cons.prems show ?case by (simp add: try_init_dkg_def)
qed simp

lemma receive_keys_results:
  assumes el: "bm_wf (dk_elders s)"
    and ok: "\<And>n. n \<in> set ns \<Longrightarrow> check_ephemeral_dkg_key G s n (fst (kf n)) (snd (kf n)) = Ok ()"
    and has: "has_keys G V s S kf" and sk: "session_secret G V s = Some sk"
    and new: "hm_get (dv_dkg_states V) (dk_hash G s) = None"
    and sub: "S \<union> set ns \<subseteq> session_names s" and incomplete: "S \<noteq> session_names s"
    and j: "j < length ns"
  shows "receive_keys G now V s i kf ns ! j =
         (if S \<union> set (take (Suc j) ns) = session_names s \<and> S \<union> set (take j ns) \<noteq> session_names s
          then first_vote_of G s i sk kf else Ok None)"
  using ok has sk new sub incomplete j
proof (induction ns arbitrary: V S j)
  case (Cons n ns)
  let ?done = "n \<notin> S \<and> insert n S = session_names s"
  obtain V' where V': "save_key G now V s n (fst (kf n)) (snd (kf n)) = (V', Ok ?done)"
    and has': "has_keys G V' s (insert n S) kf" and new': "hm_get (dv_dkg_states V') (dk_hash G s) = None"
    and sk': "session_secret G V' s = Some sk"
    using save_key_valid [OF Cons.prems(2) el Cons.prems(1) [of n], where now = now] Cons.prems(3,4) by auto
  show ?case
  proof (cases "insert n S = session_names s")
    case True
    then have "n \<notin> S" using Cons.prems(6) by auto
    obtain V'' r where init: "initialize_dkg_state G V' s i = (V'', r)" "map_ok Some r = first_vote_of G s i sk kf"
      and has'': "has_keys G V'' s (session_names s) kf"
      using initialize_complete [OF _ el sk' new'] has' True by metis
    have rest: "receive_keys G now V'' s i kf ns = map (\<lambda>_. Ok None) ns"
      using Cons.prems(1,5) by (intro receive_keys_completed [OF el _ has'']) auto
    have full: "S \<union> set (take k (n # ns)) = session_names s" if "0 < k" for k
    proof (rule antisym)
      show "S \<union> set (take k (n # ns)) \<subseteq> session_names s"
        using Cons.prems(5) set_take_subset [of k "n # ns"] by blast
      have "n \<in> set (take k (n # ns))" using that by (cases k) auto
      then show "session_names s \<subseteq> S \<union> set (take k (n # ns))" using True by auto
    qed
    have step: "receive_keys G now V s i kf (n # ns) = first_vote_of G s i sk kf # map (\<lambda>_. Ok None) ns"
      using True \<open>n \<notin> S\<close> V' init rest by (simp add: try_init_dkg_def)
    show ?thesis
    proof (cases j)
      case 0
      then show ?thesis using full [of 1] Cons.prems(6) unfolding step by simp
    next
      case (Suc j')
      then show ?thesis using full [of j] Cons.prems(7) unfolding step by simp
    qed
  next
    case False
    then show ?thesis
    proof (cases j)
      case 0
      with False V' show ?thesis by (simp add: try_init_dkg_def)
    next
      case (Suc j')
      have eq: "receive_keys G now V s i kf (n # ns) ! j = receive_keys G now V' s i kf ns ! j'"
        using False V' Suc by (simp add: try_init_dkg_def)
      show ?thesis
        unfolding eq using Cons.IH [OF _ has' sk' new' _ False, of j'] Cons.prems(1,5,7) by (simp add: Suc)
    qed
  qed
qed simp

lemma gen_has_keys:
  assumes "gen_ephemeral_key G sk V0 s us kp = (V, Ok (kf us))"
  shows "has_keys G V s {us} kf" and "session_secret G V s = Some sk"
  using assms by (auto simp: gen_ephemeral_key_def has_keys_def session_secret_def Let_def bm_extend_def bm_wf_def
      split: if_splits option.splits)


text \<open>An instance of the parameters: names are keys, and the protocol's state is not looked at.\<close>

definition ref_dkg :: "nat dkg_api" where
  "ref_dkg = \<lparr> ds_new = (\<lambda>i sk keys t. Some 0), ds_id = (\<lambda>_. 0), ds_first_vote = (\<lambda>st. (1, Some 7)),
     ds_handle_signed_vote = (\<lambda>st v. (st, Some [])), ds_all_votes = (\<lambda>_. [7]),
     ds_reached_termination = (\<lambda>_. Some False), ds_outcome = (\<lambda>_. Some None),
     ds_force_termination = (\<lambda>st. (st, Some None)) \<rparr>"

definition ref_dkg_env :: "nat dkg_env" where
  "ref_dkg_env = \<lparr> de_keys = ref_keys, de_bls = ref_bls, de_xor = ref_xor, de_sha3 = (\<lambda>bs. bs),
     de_ed_from_bytes = (\<lambda>bs. Some (unat (last bs))), de_ed_public = (\<lambda>kp. kp mod 256),
     de_ed_sign = (\<lambda>kp. ref_sign (kp mod 256)), de_sk_public_key = (\<lambda>sk. sk), de_state = ref_dkg \<rparr>"

definition sample_session :: dkg_session_id where
  "sample_session = \<lparr> dk_prefix = [], dk_elders = map (\<lambda>k. (ed_to_bytes ref_keys k, k)) [1, 2, 3],
     dk_section_chain_len = 1, dk_bootstrap_members = [], dk_membership_gen = 0 \<rparr>"

definition sample_key :: "xor_name \<Rightarrow> public_key \<times> ed_signature" where
  "sample_key n = (let k = unat (last n) in (k, ref_sign k [of_nat k]))"

abbreviation sample_elder :: "nat \<Rightarrow> xor_name" where
  "sample_elder k \<equiv> ed_to_bytes ref_keys k"

lemma replicate_less: "replicate n x @ [a] < replicate n x @ [b] \<longleftrightarrow> a < b" for a :: "'a::linorder"
  by (induction n) auto

lemma sample_elders_order [simp]:
  "sample_elder 1 < sample_elder 2" "sample_elder 2 < sample_elder 3" "sample_elder 1 < sample_elder 3"
  by (simp_all add: ref_keys_def replicate_less)

lemma sample_names: "elder_names sample_session = map sample_elder [1, 2, 3]"
  by (simp add: sample_session_def elder_names_def bm_keys_def)

lemma sample_session_wf: "bm_wf (dk_elders sample_session)"
  using sample_names sample_elders_order by (simp add: bm_wf_def elder_names_def bm_keys_def)

lemma sample_last: "k \<in> {1, 2, 3} \<Longrightarrow> unat (last (sample_elder k)) = k"
  by (auto simp: ref_keys_def)

lemma sample_check:
  assumes "k \<in> {1, 2, 3}"
  shows "check_ephemeral_dkg_key ref_dkg_env sample_session (sample_elder k)
    (fst (sample_key (sample_elder k))) (snd (sample_key (sample_elder k))) = Ok ()"
proof -
  have "bm_has (dk_elders sample_session) (sample_elder k)"
    using assms by (auto simp: sample_session_def bm_has_def)
  moreover have "sample_key (sample_elder k) = (k, ref_sign k [of_nat k])"
    using sample_last [OF assms] by (simp add: sample_key_def)
  moreover have "ed_verify ref_keys k bs sg = (sg = ref_sign k bs)" for bs sg by (simp add: ref_keys_def)
  moreover have "pk_serialize ref_bls k = Some [of_nat k]" by (simp add: ref_bls_def)
  ultimately show ?thesis
    using sample_last [OF assms] by (simp add: check_ephemeral_dkg_key_def ed25519_pub_key_def ref_dkg_env_def)
qed

definition sample_voter :: "nat dkg_voter" where
  "sample_voter = fst (gen_ephemeral_key ref_dkg_env 1 default_voter sample_session (sample_elder 1) 1)"

lemma sample_gen:
  "gen_ephemeral_key ref_dkg_env 1 default_voter sample_session (sample_elder 1) 1
     = (sample_voter, Ok (sample_key (sample_elder 1)))"
proof -
  have "sample_key (sample_elder 1) = (1, ref_sign 1 [1])"
    using sample_last [of 1] by (simp add: sample_key_def)
  then show ?thesis
    by (simp add: sample_voter_def gen_ephemeral_key_def default_voter_def ref_dkg_env_def ref_bls_def Let_def)
qed


subsection \<open>The keys of a session are their owners'\<close>

text \<open>What a node does with its voter, in any order, is a step.\<close>

inductive voter_step :: "'d dkg_env \<Rightarrow> 'd dkg_voter \<Rightarrow> 'd dkg_voter \<Rightarrow> bool"
  for G :: "'d dkg_env" where
  generate: "bm_has (dk_elders s) (node_name G kp)
    \<Longrightarrow> gen_ephemeral_key G sk V s (node_name G kp) kp = (V', r) \<Longrightarrow> voter_step G V V'"
| receive: "try_init_dkg G now V s i key sg n = (V', r) \<Longrightarrow> voter_step G V V'"
| catch_up: "check_keys G now V s keys = (V', r) \<Longrightarrow> voter_step G V V'"
| initialize: "initialize_dkg_state G V s i = (V', r) \<Longrightarrow> voter_step G V V'"
| vote: "handle_dkg_vote G V s v = (V', r) \<Longrightarrow> voter_step G V V'"
| terminate: "force_termination G V s = (V', r) \<Longrightarrow> voter_step G V V'"
| learned: "voter_step G V (learned_something_from_message now V)"
| cleared: "voter_step G V (clear_dkg_msg_timer V)"
| forget: "voter_step G V (voter_remove V h)"

definition keys_checked :: "'d dkg_env \<Rightarrow> 'd dkg_voter \<Rightarrow> bool" where
  "keys_checked G V \<longleftrightarrow>
     (\<forall>h our_keys. hm_get (dv_dkg_ephemeral_keys V) h = Some our_keys \<longrightarrow> bm_wf (ek_pub_keys our_keys) \<and>
        (\<forall>n key sg. bm_get (ek_pub_keys our_keys) n = Some (key, sg) \<longrightarrow>
           (\<exists>s. dk_hash G s = h \<and> check_ephemeral_dkg_key G s n key sg = Ok ())))"

text \<open>As long as a session is not removed, its keys stay.\<close>

definition keys_kept :: "'d dkg_voter \<Rightarrow> 'd dkg_voter \<Rightarrow> bool" where
  "keys_kept V V' \<longleftrightarrow>
     (\<forall>h our_keys our_keys'. hm_get (dv_dkg_ephemeral_keys V) h = Some our_keys \<longrightarrow>
        hm_get (dv_dkg_ephemeral_keys V') h = Some our_keys' \<longrightarrow>
        ek_secret_key our_keys' = ek_secret_key our_keys \<and> bm_get (ek_pub_keys our_keys) \<subseteq>\<^sub>m bm_get (ek_pub_keys our_keys'))"

lemma keys_same:
  assumes "dv_dkg_ephemeral_keys V' = dv_dkg_ephemeral_keys V"
  shows "keys_checked G V' = keys_checked G V" and "keys_kept V V'"
  using assms by (simp_all add: keys_checked_def keys_kept_def)

lemma save_key_keeps:
  assumes ck: "keys_checked G V" and sv: "save_key G now V s n key sg = (V', r)"
  shows "keys_checked G V' \<and> keys_kept V V' \<and> dom (hm_get (dv_dkg_ephemeral_keys V')) = dom (hm_get (dv_dkg_ephemeral_keys V))"
proof (cases "V' = V")
  case True
  then show ?thesis using ck keys_same by metis
next
  case False
  then obtain our where our: "hm_get (dv_dkg_ephemeral_keys V) (dk_hash G s) = Some our"
    and none: "bm_get (ek_pub_keys our) n = None"
    and ok: "check_ephemeral_dkg_key G s n key sg = Ok ()"
    and V': "dv_dkg_ephemeral_keys V' = hm_insert (dk_hash G s)
      (our\<lparr>ek_pub_keys := bm_insert n (key, sg) (ek_pub_keys our)\<rparr>) (dv_dkg_ephemeral_keys V)"
    using sv by (auto simp: save_key_def Let_def split: result.splits option.splits if_splits)
  have wf: "bm_wf (ek_pub_keys our)" using ck our by (simp add: keys_checked_def)
  have "keys_checked G V'"
    using ck our ok wf unfolding keys_checked_def V'
    by (auto simp: bm_wf_insert bm_get_insert split: if_splits)
  moreover have "keys_kept V V'"
    using our none wf unfolding keys_kept_def V' by (auto simp: bm_get_insert map_le_def)
  moreover have "dom (hm_get (dv_dkg_ephemeral_keys V')) = dom (hm_get (dv_dkg_ephemeral_keys V))"
    unfolding V' hm_get_insert dom_fun_upd
    using domI [where m = "hm_get (dv_dkg_ephemeral_keys V)", OF our] by (simp only: option.distinct if_False insert_absorb)
  ultimately show ?thesis by blast
qed

lemma keys_kept_trans:
  assumes "keys_kept V V'" and "keys_kept V' V''"
    and "dom (hm_get (dv_dkg_ephemeral_keys V)) \<subseteq> dom (hm_get (dv_dkg_ephemeral_keys V'))"
  shows "keys_kept V V''"
  unfolding keys_kept_def
proof (intro allI impI)
  fix h our our''
  assume V: "hm_get (dv_dkg_ephemeral_keys V) h = Some our" and V'': "hm_get (dv_dkg_ephemeral_keys V'') h = Some our''"
  then obtain our' where "hm_get (dv_dkg_ephemeral_keys V') h = Some our'" using assms(3) by blast
  then show "ek_secret_key our'' = ek_secret_key our \<and> bm_get (ek_pub_keys our) \<subseteq>\<^sub>m bm_get (ek_pub_keys our'')"
    using assms(1) [unfolded keys_kept_def, rule_format, OF V] assms(2) [unfolded keys_kept_def, rule_format, OF _ V'']
      map_le_trans by fastforce
qed

lemma save_keys_keeps:
  assumes "keys_checked G V" and "save_keys G now V s keys = (V', r)"
  shows "keys_checked G V' \<and> keys_kept V V'"
  using assms
proof (induction G now V s keys arbitrary: r rule: save_keys.induct)
  case (1 G now V s)
  then show ?case using keys_same(2) [of V V] by simp
next
  case (2 G now V s name key sg keys)
  obtain V1 r1 where V1: "save_key G now V s name key sg = (V1, r1)" by fastforce
  note kept = save_key_keeps [OF 2(2) V1]
  show ?case
  proof (cases r1)
    case (Err e)
    then show ?thesis using V1 2(3) kept by simp
  next
    case (Ok b)
    obtain r2 where "save_keys G now V1 s keys = (V', r2)"
      using V1 2(3) Ok by (auto split: prod.splits)
    with 2(1) [OF V1 [symmetric] Ok] kept have "keys_checked G V' \<and> keys_kept V1 V'" by blast
    with kept keys_kept_trans [of V V1 V'] show ?thesis by simp
  qed
qed

lemma initialize_same_keys:
  "initialize_dkg_state G V s i = (V', r) \<Longrightarrow> dv_dkg_ephemeral_keys V' = dv_dkg_ephemeral_keys V"
  by (auto simp: initialize_dkg_state_def Let_def split: option.splits result.splits prod.splits)

text \<open>What is assumed of the nodes' keys: a signature verifies, and a key can be read from its bytes.\<close>

definition ed_ok :: "'d dkg_env \<Rightarrow> bool" where
  "ed_ok G \<longleftrightarrow>
     (\<forall>kp bs. ed_verify (de_keys G) (de_ed_public G kp) bs (de_ed_sign G kp bs)) \<and>
     (\<forall>kp. de_ed_from_bytes G (node_name G kp) = Some (de_ed_public G kp))"

lemma gen_key_keeps:
  assumes laws: "ed_ok G" and ck: "keys_checked G V" and us: "bm_has (dk_elders s) (node_name G kp)"
    and gen: "gen_ephemeral_key G sk V s (node_name G kp) kp = (V', r)"
  shows "keys_checked G V' \<and> keys_kept V V'"
proof (cases "V' = V")
  case True
  then show ?thesis using ck keys_same by metis
next
  case False
  let ?pk = "de_sk_public_key G sk"
  obtain bs where new: "hm_get (dv_dkg_ephemeral_keys V) (dk_hash G s) = None"
    and bs: "pk_serialize (de_bls G) ?pk = Some bs"
    and V': "dv_dkg_ephemeral_keys V' = hm_insert (dk_hash G s) \<lparr> ek_secret_key = sk,
      ek_pub_keys = bm_from_iter [(node_name G kp, (?pk, de_ed_sign G kp bs))] \<rparr> (dv_dkg_ephemeral_keys V)"
    using gen False by (auto simp: gen_ephemeral_key_def Let_def split: if_splits option.splits)
  have "check_ephemeral_dkg_key G s (node_name G kp) ?pk (de_ed_sign G kp bs) = Ok ()"
    using laws us bs by (simp add: check_ephemeral_dkg_key_def ed25519_pub_key_def node_name_def ed_ok_def)
  then have "keys_checked G V'"
    using ck unfolding keys_checked_def V' by (auto simp: bm_extend_def bm_wf_def split: if_splits)
  moreover have "keys_kept V V'" using new unfolding keys_kept_def V' by (auto split: if_splits)
  ultimately show ?thesis by blast
qed

lemma voter_step_keeps:
  assumes laws: "ed_ok G" and step: "voter_step G V V'" and ck: "keys_checked G V"
  shows "keys_checked G V' \<and> keys_kept V V'"
  using step ck
proof (induction rule: voter_step.induct)
  case (generate s kp sk V V' r)
  then show ?case by (rule gen_key_keeps [OF laws, rotated 1])
next
  case (receive now V s i key sg n V' r)
  obtain V1 r1 where V1: "save_key G now V s n key sg = (V1, r1)" by fastforce
  have "dv_dkg_ephemeral_keys V' = dv_dkg_ephemeral_keys V1"
    using receive V1 initialize_same_keys
    by (auto simp: try_init_dkg_def split: result.splits if_splits prod.splits)
  then show ?case using save_key_keeps [OF receive.prems V1] keys_same keys_kept_def by metis
next
  case (catch_up now V s keys V' r)
  then show ?case
    using save_keys_keeps [of G V now s keys] keys_same [of V V]
    by (auto simp: check_keys_def split: option.splits if_splits prod.splits)
next
  case (initialize V s i V' r)
  then show ?case using keys_same initialize_same_keys by metis
next
  case (vote V s v V' r)
  then have "dv_dkg_ephemeral_keys V' = dv_dkg_ephemeral_keys V"
    by (auto simp: handle_dkg_vote_def split: option.splits prod.splits)
  then show ?case using vote keys_same by metis
next
  case (terminate V s V' r)
  then have "dv_dkg_ephemeral_keys V' = dv_dkg_ephemeral_keys V"
    by (auto simp: force_termination_def split: option.splits prod.splits)
  then show ?case using terminate keys_same by metis
next
  case (learned V now)
  then show ?case using keys_same by (metis dkg_voter.ext_inject dkg_voter.surjective dkg_voter.update_convs(3) learned_something_from_message_def)
next
  case (cleared V)
  then show ?case using keys_same by (metis dkg_voter.ext_inject dkg_voter.surjective dkg_voter.update_convs(3) clear_dkg_msg_timer_def)
next
  case (forget V h)
  then show ?case by (auto simp: keys_checked_def keys_kept_def voter_remove_def split: if_splits)
qed

text \<open>
  C9. A participant can only be given a key by itself, and only one per session. In every voter that
  is reached from the empty one by any sequence of operations on any messages, each key kept for a session
  was signed by its owner, an elder candidate of the session; and the next operation neither changes nor
  drops a key, nor the own secret key, of a session that it does not remove.
\<close>

theorem dkg_keys_authentic:
  assumes laws: "ed_ok G" and reach: "(voter_step G)\<^sup>*\<^sup>* default_voter V" and step: "voter_step G V V'"
  shows "(\<forall>h our_keys n key sg. hm_get (dv_dkg_ephemeral_keys V) h = Some our_keys \<longrightarrow>
            bm_get (ek_pub_keys our_keys) n = Some (key, sg) \<longrightarrow>
            (\<exists>s. dk_hash G s = h \<and> check_ephemeral_dkg_key G s n key sg = Ok ())) \<and>
         keys_kept V V'"
proof -
  have "keys_checked G V"
    using reach
  proof (induction rule: rtranclp_induct)
    case base
    then show ?case by (simp add: keys_checked_def default_voter_def)
  next
    case (step V V')
    then show ?case using voter_step_keeps [OF laws] by blast
  qed
  with voter_step_keeps [OF laws step] show ?thesis unfolding keys_checked_def by blast
qed

lemma ref_ed_ok: "ed_ok ref_dkg_env"
  by (simp add: ed_ok_def ref_dkg_env_def node_name_def ref_keys_def unat_of_nat take_bit_eq_mod)

theorem dkg_keys_authentic_witness:
  "\<exists>our_keys. hm_get (dv_dkg_ephemeral_keys sample_voter) (dk_hash ref_dkg_env sample_session) = Some our_keys \<and>
     bm_get (ek_pub_keys our_keys) (sample_elder 1) = Some (sample_key (sample_elder 1)) \<and>
     (\<exists>s. dk_hash ref_dkg_env s = dk_hash ref_dkg_env sample_session \<and>
        check_ephemeral_dkg_key ref_dkg_env s (sample_elder 1)
          (fst (sample_key (sample_elder 1))) (snd (sample_key (sample_elder 1))) = Ok ())"
proof -
  have name: "node_name ref_dkg_env 1 = sample_elder 1" by (simp add: node_name_def ref_dkg_env_def)
  have "bm_has (dk_elders sample_session) (sample_elder 1)" by (simp add: sample_session_def bm_has_def)
  then have "voter_step ref_dkg_env default_voter sample_voter"
    using voter_step.generate [of sample_session ref_dkg_env 1, unfolded name] sample_gen by blast
  then have reach: "(voter_step ref_dkg_env)\<^sup>*\<^sup>* default_voter sample_voter" by blast
  note auth = dkg_keys_authentic [OF ref_ed_ok reach voter_step.cleared, THEN conjunct1, rule_format]
  obtain our where our: "hm_get (dv_dkg_ephemeral_keys sample_voter) (dk_hash ref_dkg_env sample_session) = Some our"
    "bm_get (ek_pub_keys our) (sample_elder 1) = Some (sample_key (sample_elder 1))"
    using gen_has_keys [where kf = sample_key, OF sample_gen] by (auto simp: has_keys_def)
  moreover obtain k sg where "sample_key (sample_elder 1) = (k, sg)" by fastforce
  ultimately show ?thesis using auth [OF our(1)] by auto
qed

text \<open>A key that is received never restarts the timer of the session.\<close>

lemma save_key_timer:
  "save_key G now V s n key sg = (V', r) \<Longrightarrow> dv_last_received_dkg_msg_time V' = dv_last_received_dkg_msg_time V"
  by (auto simp: save_key_def Let_def split: result.splits option.splits if_splits)

end
