(* ===== verification/Sig_Aggregator.thy ===== *)
theory Sig_Aggregator
  imports Section_Auth
begin

section \<open>Aggregating signature shares\<close>

text \<open>
  \<open>messaging/signature_aggregator.rs\<close>: shares of a section signature are collected per payload and
  public key until there are enough of them to combine. \<open>SignatureAggregator\<close> asks for more than the
  threshold of the key set, \<open>TotalParticipationAggregator\<close> for a given number; the rest of their
  code is the same, \<open>aggregate\<close>. The hash function is the parameter \<open>digest\<close>.
\<close>

datatype sig_share = SigShare (sh_key_set: public_key_set) (sh_index: nat) (sh_share: signature_share)

text \<open>The derived order of \<open>SectionSigShare\<close>: by its fields in turn.\<close>

definition sig_share_cmp :: "sig_share \<Rightarrow> sig_share \<Rightarrow> ordering" where
  "sig_share_cmp a b =
     (case cmp_of (sh_key_set a) (sh_key_set b) of
        Equal \<Rightarrow> (case cmp_of (sh_index a) (sh_index b) of
                    Equal \<Rightarrow> cmp_of (sh_share a) (sh_share b) | c \<Rightarrow> c)
      | c \<Rightarrow> c)"

instantiation sig_share :: linorder
begin

definition less_eq_sig_share :: "sig_share \<Rightarrow> sig_share \<Rightarrow> bool" where
  "less_eq_sig_share a b \<longleftrightarrow> sig_share_cmp a b \<noteq> Greater"

definition less_sig_share :: "sig_share \<Rightarrow> sig_share \<Rightarrow> bool" where
  "less_sig_share a b \<longleftrightarrow> sig_share_cmp a b = Less"

instance
  by standard
    (auto simp: less_eq_sig_share_def less_sig_share_def sig_share_cmp_def cmp_of_def
      intro: sig_share.expand split: if_splits)

end

datatype aggregator_error = InvalidSigShare | FailedToCombineSigShares

type_synonym aggregator = "(nat, sig_share bset) bmap"

definition sig_share_verify :: "bls_api \<Rightarrow> sig_share \<Rightarrow> bytes \<Rightarrow> bool" where
  "sig_share_verify B s payload = pks_verify_share B (sh_key_set s) (sh_index s) (sh_share s) payload"

definition entry_key :: "bls_api \<Rightarrow> (bytes \<Rightarrow> nat) \<Rightarrow> bytes \<Rightarrow> sig_share \<Rightarrow> nat" where
  "entry_key B digest payload s = digest (payload @ pk_to_bytes B (pks_public_key B (sh_key_set s)))"

definition aggregate ::
  "bls_api \<Rightarrow> (bytes \<Rightarrow> nat) \<Rightarrow> (nat \<Rightarrow> bool) \<Rightarrow> aggregator \<Rightarrow> bytes \<Rightarrow> sig_share
     \<Rightarrow> aggregator \<times> (section_sig option, aggregator_error) result" where
  "aggregate B digest enough m payload share =
     (if \<not> sig_share_verify B share payload then (m, Err InvalidSigShare)
      else
        (let pk = pks_public_key B (sh_key_set share);
             h = entry_key B digest payload share;
             current_shares = bs_insert share (case bm_get m h of Some s \<Rightarrow> s | None \<Rightarrow> []);
             m' = bm_insert h current_shares m
         in
         if enough (length current_shares) then
           (case pks_combine B (sh_key_set share) (map (\<lambda>s. (sh_index s, sh_share s)) current_shares) of
              None \<Rightarrow> (m', Err FailedToCombineSigShares)
            | Some sig \<Rightarrow>
                (bm_remove h m', Ok (Some \<lparr> sg_public_key = pk, sg_signature = sig \<rparr>)))
         else (m', Ok None)))"

definition try_aggregate ::
  "bls_api \<Rightarrow> (bytes \<Rightarrow> nat) \<Rightarrow> aggregator \<Rightarrow> bytes \<Rightarrow> sig_share
     \<Rightarrow> aggregator \<times> (section_sig option, aggregator_error) result" where
  "try_aggregate B digest m payload share =
     aggregate B digest (\<lambda>n. n > pks_threshold B (sh_key_set share)) m payload share"

definition try_aggregate_total ::
  "bls_api \<Rightarrow> (bytes \<Rightarrow> nat) \<Rightarrow> aggregator \<Rightarrow> bytes \<Rightarrow> sig_share \<Rightarrow> nat
     \<Rightarrow> aggregator \<times> (section_sig option, aggregator_error) result" where
  "try_aggregate_total B digest m payload share total_participants =
     aggregate B digest (\<lambda>n. n = total_participants) m payload share"

text \<open>\<open>SectionSig::try_authorize\<close> wraps the combined signature.\<close>

definition try_authorize ::
  "bls_api \<Rightarrow> (bytes \<Rightarrow> nat) \<Rightarrow> aggregator \<Rightarrow> sig_share \<Rightarrow> bytes
     \<Rightarrow> aggregator \<times> (section_sig option, aggregator_error) result" where
  "try_authorize B digest m share payload = try_aggregate B digest m payload share"

text \<open>
  What the crates document: keys are encoded in a fixed number of bytes; a share is determined by
  the key set, the index and the message; more valid shares of one key set than its threshold,
  with different indices, combine into a signature that the public key verifies. The hash tells
  inputs apart.
\<close>

definition bls_threshold_ok :: "bls_api \<Rightarrow> bool" where
  "bls_threshold_ok B \<longleftrightarrow>
     (\<forall>k k'. length (pk_to_bytes B k) = length (pk_to_bytes B k')) \<and>
     (\<forall>ks i s s' m. pks_verify_share B ks i s m \<longrightarrow> pks_verify_share B ks i s' m \<longrightarrow> s = s') \<and>
     (\<forall>ks m shares. distinct (map fst shares) \<longrightarrow>
        (\<forall>(i, s) \<in> set shares. pks_verify_share B ks i s m) \<longrightarrow> pks_threshold B ks < length shares \<longrightarrow>
        (\<exists>sig. pks_combine B ks shares = Some sig \<and> bls_verify B (pks_public_key B ks) sig m))"

locale share_collection =
  fixes B :: bls_api and digest :: "bytes \<Rightarrow> nat"
  assumes threshold_laws: "bls_threshold_ok B" and digest_inj: "digest x = digest y \<Longrightarrow> x = y"
begin

lemma entry_key_payload:
  "entry_key B digest payload s = entry_key B digest payload' s' \<Longrightarrow> payload = payload'"
  "entry_key B digest payload s = entry_key B digest payload' s' \<Longrightarrow>
     pk_to_bytes B (pks_public_key B (sh_key_set s)) = pk_to_bytes B (pks_public_key B (sh_key_set s'))"
  using threshold_laws by (auto simp: entry_key_def bls_threshold_ok_def dest!: digest_inj)

lemma share_unique:
  "sig_share_verify B s m \<Longrightarrow> sig_share_verify B s' m \<Longrightarrow> sh_key_set s = sh_key_set s'
     \<Longrightarrow> sh_index s = sh_index s' \<Longrightarrow> s = s'"
  using threshold_laws unfolding bls_threshold_ok_def sig_share_verify_def
  by (metis sig_share.expand)

lemma combine_law:
  "distinct (map fst shares) \<Longrightarrow> \<forall>(i, s) \<in> set shares. pks_verify_share B ks i s m
     \<Longrightarrow> pks_threshold B ks < length shares
     \<Longrightarrow> \<exists>sig. pks_combine B ks shares = Some sig \<and> bls_verify B (pks_public_key B ks) sig m"
  using threshold_laws unfolding bls_threshold_ok_def by simp

lemma combines:
  assumes "distinct S" and "\<forall>s \<in> set S. sig_share_verify B s m \<and> sh_key_set s = ks"
    and "pks_threshold B ks < length S"
  shows "\<exists>sig. pks_combine B ks (map (\<lambda>s. (sh_index s, sh_share s)) S) = Some sig \<and>
           bls_verify B (pks_public_key B ks) sig m"
proof -
  have "inj_on sh_index (set S)" using share_unique assms(2) by (intro inj_onI) metis
  then have "distinct (map fst (map (\<lambda>s. (sh_index s, sh_share s)) S))"
    using assms(1) by (simp add: distinct_map comp_def)
  moreover have "\<forall>(i, s) \<in> set (map (\<lambda>s. (sh_index s, sh_share s)) S). pks_verify_share B ks i s m"
    using assms(2) by (auto simp: sig_share_verify_def)
  ultimately show ?thesis using combine_law assms(3) by simp
qed

text \<open>The shares collected in an entry are verified for the payload of the entry.\<close>

definition collected_ok :: "aggregator \<Rightarrow> bool" where
  "collected_ok m \<longleftrightarrow> bm_wf m \<and>
     (\<forall>h S. bm_get m h = Some S \<longrightarrow> bs_wf S \<and>
        (\<forall>s \<in> set S. \<exists>payload. sig_share_verify B s payload \<and> h = entry_key B digest payload s))"

lemma collected_entry:
  assumes "collected_ok m" and "bm_get m (entry_key B digest payload share) = Some S" and "s \<in> set S"
  shows "sig_share_verify B s payload"
    and "pk_to_bytes B (pks_public_key B (sh_key_set s)) = pk_to_bytes B (pks_public_key B (sh_key_set share))"
  using assms entry_key_payload unfolding collected_ok_def by metis+

lemma collected_Nil: "collected_ok []"
  by (simp add: collected_ok_def bm_wf_Nil)

lemma collected_insert:
  assumes "collected_ok m" and "sig_share_verify B share payload"
  shows "collected_ok (bm_insert (entry_key B digest payload share)
           (bs_insert share (case bm_get m (entry_key B digest payload share) of Some s \<Rightarrow> s | None \<Rightarrow> [])) m)"
  using assms unfolding collected_ok_def
  by (auto simp: bm_wf_insert bm_get_insert set_bs_insert bs_wf_insert bs_wf_Nil split: option.splits if_splits)
    metis

lemma collected_remove: "collected_ok m \<Longrightarrow> collected_ok (bm_remove h m)"
  by (auto simp: collected_ok_def bm_wf_remove bm_get_remove)

lemma aggregate_keeps:
  assumes ok: "collected_ok m" and ag: "aggregate B digest enough m payload share = (m', r)"
  shows "collected_ok m' \<and>
    (\<forall>h. h \<noteq> entry_key B digest payload share \<longrightarrow> bm_get m' h = bm_get m h)"
proof (cases "sig_share_verify B share payload")
  case False
  then show ?thesis using ok ag by (auto simp: aggregate_def)
next
  case True
  let ?h = "entry_key B digest payload share"
  let ?m = "bm_insert ?h (bs_insert share (case bm_get m ?h of Some s \<Rightarrow> s | None \<Rightarrow> [])) m"
  have "m' = ?m \<or> m' = bm_remove ?h ?m"
    using ag True by (auto simp: aggregate_def Let_def split: if_splits option.splits)
  moreover have "collected_ok ?m" by (rule collected_insert [OF ok True])
  moreover have "bm_wf m" using ok by (simp add: collected_ok_def)
  ultimately show ?thesis
    using collected_remove [of ?m ?h] by (auto simp: bm_get_insert bm_get_remove)
qed

lemma aggregate_signature:
  assumes ok: "collected_ok m" and ag: "aggregate B digest enough m payload share = (m', Ok (Some sg))"
  shows "\<exists>S. distinct S \<and> share \<in> set S \<and> enough (length S) \<and>
    (\<forall>s \<in> set S. sig_share_verify B s payload) \<and>
    (\<forall>s \<in> set S. pk_to_bytes B (pks_public_key B (sh_key_set s)) = pk_to_bytes B (pks_public_key B (sh_key_set share))) \<and>
    sg_public_key sg = pks_public_key B (sh_key_set share) \<and>
    pks_combine B (sh_key_set share) (map (\<lambda>s. (sh_index s, sh_share s)) S) = Some (sg_signature sg) \<and>
    (\<forall>s \<in> set S. s = share \<or> (\<exists>S'. bm_get m (entry_key B digest payload share) = Some S' \<and> s \<in> set S')) \<and>
    bm_get m' (entry_key B digest payload share) = None"
proof -
  let ?h = "entry_key B digest payload share"
  let ?old = "case bm_get m ?h of Some s \<Rightarrow> s | None \<Rightarrow> []"
  let ?S = "bs_insert share ?old"
  have v: "sig_share_verify B share payload"
    using ag by (auto simp: aggregate_def split: if_splits)
  then have parts: "enough (length ?S)" "sg_public_key sg = pks_public_key B (sh_key_set share)"
    "pks_combine B (sh_key_set share) (map (\<lambda>s. (sh_index s, sh_share s)) ?S) = Some (sg_signature sg)"
    "m' = bm_remove ?h (bm_insert ?h ?S m)"
    using ag by (auto simp: aggregate_def Let_def split: if_splits option.splits)
  have "bs_wf ?old" using ok by (auto simp: collected_ok_def bs_wf_Nil split: option.splits)
  then have "distinct ?S" by (simp add: bs_wf_distinct bs_wf_insert)
  moreover have "\<forall>s \<in> set ?S. sig_share_verify B s payload"
    using v collected_entry(1) [OF ok, of payload share] by (cases "bm_get m ?h") (auto simp: set_bs_insert)
  moreover have "\<forall>s \<in> set ?S. pk_to_bytes B (pks_public_key B (sh_key_set s)) = pk_to_bytes B (pks_public_key B (sh_key_set share))"
    using collected_entry(2) [OF ok, of payload share] by (cases "bm_get m ?h") (auto simp: set_bs_insert)
  moreover have "\<forall>s \<in> set ?S. s = share \<or> (\<exists>S'. bm_get m ?h = Some S' \<and> s \<in> set S')"
    by (cases "bm_get m ?h") (auto simp: set_bs_insert)
  moreover have "share \<in> set ?S" by (simp add: set_bs_insert)
  moreover have "bm_get m' ?h = None" by (simp add: parts(4) bm_get_remove)
  ultimately show ?thesis using parts(1-3) by blast
qed

text \<open>One share more, when there are not yet enough.\<close>

lemma aggregate_collects:
  assumes wf: "bm_wf m" and v: "sig_share_verify B share payload"
    and ne: "\<not> enough (length (bs_insert share (case bm_get m (entry_key B digest payload share) of Some s \<Rightarrow> s | None \<Rightarrow> [])))"
  shows "\<exists>m'. aggregate B digest enough m payload share = (m', Ok None) \<and> bm_wf m' \<and>
    bm_get m' = (bm_get m)(entry_key B digest payload share \<mapsto>
      bs_insert share (case bm_get m (entry_key B digest payload share) of Some s \<Rightarrow> s | None \<Rightarrow> []))"
  using ne v by (simp add: aggregate_def Let_def bm_wf_insert [OF wf] bm_get_insert [OF wf])

end

text \<open>Feeding an aggregator a sequence of shares of one payload.\<close>

fun aggregate_all ::
  "bls_api \<Rightarrow> (bytes \<Rightarrow> nat) \<Rightarrow> aggregator \<Rightarrow> bytes \<Rightarrow> sig_share list
     \<Rightarrow> aggregator \<times> (section_sig option, aggregator_error) result list" where
  "aggregate_all B digest m payload [] = (m, [])"
| "aggregate_all B digest m payload (s # ss) =
     (let (m1, r) = try_aggregate B digest m payload s;
          (m2, rs) = aggregate_all B digest m1 payload ss
      in (m2, r # rs))"

context share_collection
begin

abbreviation held :: "aggregator \<Rightarrow> nat \<Rightarrow> sig_share set" where
  "held m h \<equiv> (case bm_get m h of Some s \<Rightarrow> set s | None \<Rightarrow> {})"

lemma entry_key_set: "sh_key_set s = sh_key_set s' \<Longrightarrow> entry_key B digest payload s = entry_key B digest payload s'"
  by (simp add: entry_key_def)

lemma aggregate_all_completes:
  assumes "collected_ok m" and "ss \<noteq> []" and "distinct ss"
    and "\<forall>s \<in> set ss. sig_share_verify B s payload \<and> sh_key_set s = ks \<and> entry_key B digest payload s = h"
    and "\<forall>s \<in> held m h. sh_key_set s = ks" and "held m h \<inter> set ss = {}"
    and "card (held m h) + length ss = pks_threshold B ks + 1"
  shows "\<exists>m' sg. aggregate_all B digest m payload ss
             = (m', replicate (length ss - 1) (Ok None) @ [Ok (Some sg)]) \<and>
           sg_public_key sg = pks_public_key B ks \<and> section_sig_verify B sg payload \<and>
           bm_get m' = (bm_get m)(h := None)"
  using assms
proof (induction ss arbitrary: m)
  case (Cons s ss)
  have s: "sig_share_verify B s payload" "sh_key_set s = ks" "entry_key B digest payload s = h"
    using Cons.prems(4) by auto
  let ?old = "case bm_get m h of Some s \<Rightarrow> s | None \<Rightarrow> []"
  have wf: "bm_wf m" "bs_wf ?old"
    using Cons.prems(1) by (auto simp: collected_ok_def bs_wf_Nil split: option.splits)
  have old: "set ?old = held m h" by (simp split: option.splits)
  have len: "length (bs_insert s ?old) = card (held m h) + 1"
    using length_bs_insert [OF wf(2), of s] bs_wf_distinct [OF wf(2)] Cons.prems(6) old
    by (simp add: distinct_card [symmetric])
  show ?case
  proof (cases ss)
    case Nil
    let ?S = "bs_insert s ?old"
    have "distinct ?S" using bs_wf_insert [OF wf(2)] by (simp add: bs_wf_distinct)
    moreover have "\<forall>x \<in> set ?S. sig_share_verify B x payload \<and> sh_key_set x = ks"
      using s Cons.prems(5) collected_entry [OF Cons.prems(1), of payload s]
      by (cases "bm_get m h") (auto simp: set_bs_insert)
    moreover have enough: "pks_threshold B ks < length ?S" using len Cons.prems(7) Nil by simp
    ultimately obtain sig where "pks_combine B ks (map (\<lambda>s. (sh_index s, sh_share s)) ?S) = Some sig"
      "bls_verify B (pks_public_key B ks) sig payload" using combines by blast
    then show ?thesis using s enough Nil
      by (auto simp: try_aggregate_def aggregate_def Let_def section_sig_verify_def
          bm_get_remove bm_get_insert [OF wf(1)] fun_eq_iff)
  next
    case (Cons t ts)
    then have "\<not> pks_threshold B ks < length (bs_insert s ?old)" using len Cons.prems(7) by simp
    then obtain m1 where m1: "try_aggregate B digest m payload s = (m1, Ok None)"
      and get: "bm_get m1 = (bm_get m)(h \<mapsto> bs_insert s ?old)"
      using aggregate_collects [OF wf(1) s(1), of "\<lambda>n. n > pks_threshold B ks"]
      by (auto simp: try_aggregate_def s)
    have ok1: "collected_ok m1" using aggregate_keeps [OF Cons.prems(1)] m1 by (metis try_aggregate_def)
    have held1: "held m1 h = insert s (held m h)" by (simp add: get set_bs_insert old)
    have "s \<notin> held m h" using Cons.prems(6) by auto
    moreover have "finite (held m h)" by (simp split: option.splits)
    ultimately have card: "card (held m1 h) + length ss = pks_threshold B ks + 1"
      unfolding held1 using Cons.prems(7) by simp
    have prems: "ss \<noteq> []" "distinct ss" "\<forall>s \<in> held m1 h. sh_key_set s = ks" "held m1 h \<inter> set ss = {}"
      "\<forall>s \<in> set ss. sig_share_verify B s payload \<and> sh_key_set s = ks \<and> entry_key B digest payload s = h"
      unfolding held1 using Cons Cons.prems(3-6) s(2) by auto
    obtain m' sg where "aggregate_all B digest m1 payload ss
        = (m', replicate (length ss - 1) (Ok None) @ [Ok (Some sg)])"
      "sg_public_key sg = pks_public_key B ks" "section_sig_verify B sg payload"
      "bm_get m' = (bm_get m1)(h := None)"
      using Cons.IH [OF ok1 prems(1,2,5,3,4) card] by blast
    moreover obtain n where "length ss = Suc n" using Cons by simp
    ultimately show ?thesis by (auto simp: m1 get fun_eq_iff)
  qed
qed simp

end

definition ref_digest :: "bytes \<Rightarrow> nat" where
  "ref_digest bs = list_encode (map unat bs)"

lemma ref_digest_inj: "ref_digest x = ref_digest y \<Longrightarrow> x = y"
proof -
  assume "ref_digest x = ref_digest y"
  then have "map unat x = map unat y" by (simp add: ref_digest_def list_encode_eq)
  moreover have "inj (unat :: u8 \<Rightarrow> nat)" by (simp add: inj_def word_unat_eq_iff)
  ultimately show "x = y" by (metis inj_map_eq_map)
qed

lemma ref_threshold_ok: "bls_threshold_ok ref_bls"
  unfolding bls_threshold_ok_def
proof (intro conjI allI impI)
  fix ks m and shares :: "(nat \<times> signature_share) list"
  assume v: "\<forall>(i, s) \<in> set shares. pks_verify_share ref_bls ks i s m"
    and t: "pks_threshold ref_bls ks < length shares"
  then obtain i s x rest where sh: "shares = (i, s) # x # rest"
    by (cases shares; cases "tl shares") (auto simp: ref_bls_def)
  with v have "s = i + ref_msg m" by (simp add: ref_bls_def)
  with sh show "\<exists>sig. pks_combine ref_bls ks shares = Some sig \<and> bls_verify ref_bls (pks_public_key ref_bls ks) sig m"
    by (simp add: ref_bls_def ref_sign_def)
qed (simp_all add: ref_bls_def)

interpretation ref_shares: share_collection ref_bls ref_digest
  by unfold_locales (rule ref_threshold_ok, rule ref_digest_inj)

subsection \<open>Properties\<close>

definition shares_ok :: "bls_api \<Rightarrow> (bytes \<Rightarrow> nat) \<Rightarrow> aggregator \<Rightarrow> bool" where
  "shares_ok B digest m \<longleftrightarrow> bm_wf m \<and>
     (\<forall>h S. bm_get m h = Some S \<longrightarrow> bs_wf S \<and>
        (\<forall>s \<in> set S. \<exists>payload. sig_share_verify B s payload \<and> h = entry_key B digest payload s))"

lemma shares_ok_collected:
  "share_collection B digest \<Longrightarrow> share_collection.collected_ok B digest m \<longleftrightarrow> shares_ok B digest m"
  by (simp add: share_collection.collected_ok_def shares_ok_def)

text \<open>
  C7. Whatever the aggregator returns for a payload was made from more different shares than the
  threshold, the last one included, each of which verifies for that very payload; shares for other
  payloads or other public keys are not touched, and the entry is cleared. When all of them are of one key set,
  the signature returned verifies.
\<close>

theorem try_aggregate_sound:
  assumes B: "bls_threshold_ok B" and inj: "\<And>x y. digest x = digest y \<Longrightarrow> x = y"
    and ok: "shares_ok B digest m"
    and ag: "try_aggregate B digest m payload share = (m', Ok (Some sg))"
  shows "(\<exists>S. distinct S \<and> share \<in> set S \<and> pks_threshold B (sh_key_set share) < length S \<and>
            (\<forall>s \<in> set S. sig_share_verify B s payload) \<and>
            pks_combine B (sh_key_set share) (map (\<lambda>s. (sh_index s, sh_share s)) S) = Some (sg_signature sg) \<and>
            ((\<forall>s \<in> set S. sh_key_set s = sh_key_set share) \<longrightarrow> section_sig_verify B sg payload)) \<and>
         shares_ok B digest m' \<and>
         bm_get m' = (bm_get m)(entry_key B digest payload share := None)"
proof -
  have sc: "share_collection B digest" using B inj by unfold_locales
  note ok' = ok [folded shares_ok_collected [OF sc]]
  note ag' = ag [unfolded try_aggregate_def]
  obtain S where S: "distinct S" "share \<in> set S" "pks_threshold B (sh_key_set share) < length S"
    "\<forall>s \<in> set S. sig_share_verify B s payload" "sg_public_key sg = pks_public_key B (sh_key_set share)"
    "pks_combine B (sh_key_set share) (map (\<lambda>s. (sh_index s, sh_share s)) S) = Some (sg_signature sg)"
    "bm_get m' (entry_key B digest payload share) = None"
    using share_collection.aggregate_signature [OF sc ok' ag'] by blast
  have "section_sig_verify B sg payload" if "\<forall>s \<in> set S. sh_key_set s = sh_key_set share"
    using share_collection.combines [OF sc S(1), of payload "sh_key_set share"] that S(3-6)
    by (auto simp: section_sig_verify_def)
  moreover have "shares_ok B digest m'" and "bm_get m' = (bm_get m)(entry_key B digest payload share := None)"
    using share_collection.aggregate_keeps [OF sc ok' ag'] S(7)
    by (auto simp: shares_ok_collected [OF sc] fun_eq_iff)
  ultimately show ?thesis using S by blast
qed

definition sample_share :: "nat \<Rightarrow> sig_share" where
  "sample_share i = SigShare 5 i (i + ref_msg [1])"

theorem try_aggregate_sound_witness:
  "\<exists>m' sg. try_aggregate ref_bls ref_digest
       [(entry_key ref_bls ref_digest [1] (sample_share 0), [sample_share 0])] [1] (sample_share 2)
         = (m', Ok (Some sg)) \<and> bm_get m' = (\<lambda>_. None)"
proof -
  let ?h = "entry_key ref_bls ref_digest [1] (sample_share 0)"
  let ?m = "[(?h, [sample_share 0])]"
  have h: "entry_key ref_bls ref_digest [1] (sample_share 2) = ?h"
    by (simp add: entry_key_def sample_share_def)
  have v: "sig_share_verify ref_bls (sample_share i) [1]" for i
    by (simp add: sig_share_verify_def sample_share_def ref_bls_def)
  have ok: "shares_ok ref_bls ref_digest ?m"
    using v by (auto simp: shares_ok_def bm_wf_def bs_wf_def split: if_splits)
  have "\<exists>m' sg. try_aggregate ref_bls ref_digest ?m [1] (sample_share 2) = (m', Ok (Some sg))"
    using v [of 2] by (simp add: try_aggregate_def aggregate_def Let_def h)
      (simp add: sample_share_def less_sig_share_def sig_share_cmp_def cmp_of_def ref_bls_def)
  then obtain m' sg where r: "try_aggregate ref_bls ref_digest ?m [1] (sample_share 2) = (m', Ok (Some sg))" by blast
  from try_aggregate_sound [OF ref_threshold_ok ref_digest_inj ok this]
  have "bm_get m' = (\<lambda>_. None)" by (auto simp: h fun_eq_iff)
  with r show ?thesis by blast
qed

text \<open>
  C35. Aggregation completes: from an aggregator with nothing collected for a payload, any sequence
  of one share more than the threshold, all different and valid and of one key set, gives nothing
  until the last share and then a signature that verifies, and leaves nothing behind.
\<close>

theorem aggregation_completes:
  assumes B: "bls_threshold_ok B" and inj: "\<And>x y. digest x = digest y \<Longrightarrow> x = y"
    and ok: "shares_ok B digest m"
    and shares: "distinct shares" "length shares = pks_threshold B ks + 1"
      "\<forall>s \<in> set shares. sig_share_verify B s payload \<and> sh_key_set s = ks"
    and fresh: "bm_get m (entry_key B digest payload (hd shares)) = None"
  shows "\<exists>m' sg. aggregate_all B digest m payload shares
             = (m', replicate (pks_threshold B ks) (Ok None) @ [Ok (Some sg)]) \<and>
           sg_public_key sg = pks_public_key B ks \<and> section_sig_verify B sg payload \<and>
           bm_get m' = bm_get m"
proof -
  have sc: "share_collection B digest" using B inj by unfold_locales
  let ?h = "entry_key B digest payload (hd shares)"
  have ne: "shares \<noteq> []" using shares(2) by auto
  then have "\<forall>s \<in> set shares. sig_share_verify B s payload \<and> sh_key_set s = ks \<and> entry_key B digest payload s = ?h"
    using shares(3) by (auto simp: entry_key_def)
  from share_collection.aggregate_all_completes [OF sc ok [folded shares_ok_collected [OF sc]] ne shares(1) this]
  obtain m' sg where "aggregate_all B digest m payload shares
        = (m', replicate (pks_threshold B ks) (Ok None) @ [Ok (Some sg)])"
    "sg_public_key sg = pks_public_key B ks" "section_sig_verify B sg payload"
    "bm_get m' = (bm_get m)(?h := None)"
    using fresh shares(2) by auto
  moreover have "(bm_get m)(?h := None) = bm_get m" using fresh by (simp add: fun_upd_idem)
  ultimately show ?thesis by auto
qed

theorem aggregation_completes_witness:
  "\<exists>m' sg. aggregate_all ref_bls ref_digest [] [1] [sample_share 2, sample_share 0]
     = (m', [Ok None, Ok (Some sg)]) \<and> section_sig_verify ref_bls sg [1]"
proof -
  have "\<forall>s \<in> set [sample_share 2, sample_share 0]. sig_share_verify ref_bls s [1] \<and> sh_key_set s = 5"
    by (simp add: sig_share_verify_def sample_share_def ref_bls_def)
  then show ?thesis
    using aggregation_completes [where digest = ref_digest, OF ref_threshold_ok ref_digest_inj, of "[]" "[sample_share 2, sample_share 0]" 5 "[1]"]
    by (auto simp: shares_ok_def bm_wf_Nil sample_share_def) (auto simp: ref_bls_def)
qed

end
