(* ===== verification/Tree_Update.thy ===== *)
theory Tree_Update
  imports Section_Tree
begin

section \<open>Updating the section tree\<close>

text \<open>
  What an update proves and keeps: only sections whose key is connected to known keys by signatures
  enter the tree; and two ways in which the code goes further than that.
\<close>

definition compatible :: "'m dag_api \<Rightarrow> 'm sections_dag \<Rightarrow> 'm sections_dag \<Rightarrow> bool" where
  "compatible M D P \<longleftrightarrow>
     (if has_key D (genesis_key P) then agrees M D P else agrees M P D)"

text \<open>Either nothing changed, or the checks passed and the section was inserted before the merge.\<close>

lemma update_cases:
  assumes up: "update_the_section_tree M B X E T u = (T', r)"
  obtains (same) "T' = T" "r \<noteq> Ok True"
  | (inserted) m D res where "tree_insert X (sections T) (up_signed_sap u) = Some (m, True)"
      "\<not> has_key (sections_dag T) (section_key B (sd_value (up_signed_sap u)))"
      "signed_self_verify B E (up_signed_sap u)"
      "sg_public_key (sd_sig (up_signed_sap u)) = section_key B (sd_value (up_signed_sap u))"
      "last_key M (up_proof_chain u) = Ok (section_key B (sd_value (up_signed_sap u)))"
      "merge M B (sections_dag T) (up_proof_chain u) = (D, res)"
      "T' = T\<lparr>sections := m, sections_dag := D\<rparr>" "r = map_ok (\<lambda>_. True) res"
proof -
  let ?s = "up_signed_sap u" and ?P = "up_proof_chain u"
  let ?k = "section_key B (sd_value ?s)"
  have "T' = T \<and> r \<noteq> Ok True \<or> (\<exists>m D res. tree_insert X (sections T) ?s = Some (m, True) \<and>
      \<not> has_key (sections_dag T) ?k \<and> signed_self_verify B E ?s \<and> sg_public_key (sd_sig ?s) = ?k \<and>
      last_key M ?P = Ok ?k \<and> merge M B (sections_dag T) ?P = (D, res) \<and>
      T' = T\<lparr>sections := m, sections_dag := D\<rparr> \<and> r = map_ok (\<lambda>_. True) res)"
    using up unfolding update_the_section_tree_def Let_def
    by (auto split: if_splits option.splits result.splits prod.splits bool.splits)
  then show ?thesis using same inserted by blast
qed

text \<open>After an insertion every filed section is the new one or an old one.\<close>

lemma inserted_tree:
  assumes X: "xor_api_ok X" and wf: "tree_wf X m" and ins: "tree_insert X m s = Some (m', True)"
    and old: "\<And>q s'. bm_get m q = Some s' \<Longrightarrow> Q s'" and new: "Q s"
  shows "tree_wf X m' \<and> bm_get m' (sap_prefix (sd_value s)) = Some s \<and>
    (\<forall>q s'. bm_get m' q = Some s' \<longrightarrow> Q s')"
proof -
  note ps = prefix_space.intro [OF X]
  let ?p = "sap_prefix (sd_value s)"
  obtain m1 where m1: "tree_insert X m s = Some (m1, \<not> (\<exists>q \<in> dom (bm_get m). px_is_extension_of X q ?p))"
    and get: "\<forall>q. bm_get m1 q = (if \<exists>q \<in> dom (bm_get m). px_is_extension_of X q ?p then bm_get m q
      else if q = ?p then Some s else if px_is_extension_of X ?p q then None else bm_get m q)"
    using prefix_space.tree_insert_get [OF ps tw_map [OF wf], of s] by blast
  have "m1 = m'" "\<not> (\<exists>q \<in> dom (bm_get m). px_is_extension_of X q ?p)" using m1 ins by auto
  then have get': "bm_get m' q = (if q = ?p then Some s else if px_is_extension_of X ?p q then None else bm_get m q)" for q
    using get by simp
  then have "Q s'" if "bm_get m' q = Some s'" for q s'
    using that old new by (metis option.distinct(1) option.inject)
  then show ?thesis using get' prefix_space.tree_insert_wf [OF ps wf ins] by simp
qed

lemma update_tree_spec:
  assumes laws: "merkle_ok M ok" and X: "xor_api_ok X" and wf: "tree_wf X (sections T)"
    and tr: "tree_trusted M ok B T" and wfp: "dag_wf M ok (up_proof_chain u)"
    and co: "compatible M (sections_dag T) (up_proof_chain u)"
  shows "case update_the_section_tree M B X E T u of
      (T', Ok True) \<Rightarrow> tree_wf X (sections T') \<and> tree_trusted M ok B T' \<and>
        bm_get (sections T') (sap_prefix (sd_value (up_signed_sap u))) = Some (up_signed_sap u) \<and>
        signed_verify B E (up_signed_sap u) (sections_dag T') \<and>
        (\<forall>k. has_key (sections_dag T') k \<longleftrightarrow>
           has_key (sections_dag T) k \<or> has_key (up_proof_chain u) k)
    | (T', Ok False) \<Rightarrow> T' = T
    | (T', Err e) \<Rightarrow> sections_dag T' = sections_dag T \<and>
        (T' = T \<or> \<not> dag_signed M B (up_proof_chain u) \<or>
         \<not> has_key (sections_dag T) (genesis_key (up_proof_chain u)) \<and>
         \<not> has_key (up_proof_chain u) (genesis_key (sections_dag T)))"
proof -
  let ?D = "sections_dag T" and ?P = "up_proof_chain u" and ?s = "up_signed_sap u"
  obtain T' r where up: "update_the_section_tree M B X E T u = (T', r)" by fastforce
  note dc = dag_context.intro [OF laws]
  from up show ?thesis
  proof (cases rule: update_cases)
    case same
    then show ?thesis by (auto simp: up split: result.splits bool.splits)
  next
    case (inserted m D res)
    have wfd: "dag_wf M ok ?D" and sgd: "dag_signed M B ?D" using tr by (auto simp: tree_trusted_def)
    note spec = dag_context.merge_spec [OF dc wfd sgd wfp]
    show ?thesis
    proof (cases "dag_signed M B ?P \<and> (has_key ?D (genesis_key ?P) \<or> has_key ?P (genesis_key ?D))")
      case False
      then have "D = ?D" "is_ok res = False"
        using spec inserted(6) by (auto split: if_splits)
      then show ?thesis using False inserted(7,8) by (cases res) (auto simp: up)
    next
      case True
      have D: "dag_wf M ok D" "dag_signed M B D" "res = Ok ()"
        and keys: "\<forall>k. has_key D k \<longleftrightarrow> has_key ?D k \<or> has_key ?P k"
        using spec True inserted(6) co by (auto simp: compatible_def Let_def split: if_splits)
      have key: "has_key D (section_key B (sd_value ?s))"
        using dag_context.last_key_has [OF dc wfp inserted(5)] keys by blast
      have old: "has_key D (section_key B (sd_value s'))" if "bm_get (sections T) q = Some s'" for q s'
        using that tr keys by (auto simp: tree_trusted_def)
      note m = inserted_tree [OF X wf inserted(1), of "\<lambda>s. has_key D (section_key B (sd_value s))", OF old key]
      then have "tree_trusted M ok B T'" using D by (simp add: tree_trusted_def inserted(7))
      with m show ?thesis
        using D(3) inserted(3,4,7,8) keys key by (simp add: up signed_verify_def)
    qed
  qed
qed

text \<open>
  C2. An update whose proof chain does not contradict the tree's DAG either changes nothing, or files
  a section whose own key has signed it, whose key is now in the DAG and connected to the genesis
  key by signatures, the DAG having exactly the keys of the two; what was known stays trusted.
  After an error the DAG is as before, and the known sections are too unless the chain was
  unsigned or shared no genesis key.
\<close>

theorem update_tree_correct:
  assumes laws: "merkle_ok M ok" and X: "xor_api_ok X" and wf: "tree_wf X (sections T)"
    and tr: "tree_trusted M ok B T" and wfp: "dag_wf M ok (up_proof_chain u)"
    and co: "compatible M (sections_dag T) (up_proof_chain u)"
  shows "case update_the_section_tree M B X E T u of
      (T', Ok True) \<Rightarrow> tree_wf X (sections T') \<and> tree_trusted M ok B T' \<and>
        bm_get (sections T') (sap_prefix (sd_value (up_signed_sap u))) = Some (up_signed_sap u) \<and>
        signed_verify B E (up_signed_sap u) (sections_dag T') \<and>
        (\<forall>k. has_key (sections_dag T') k \<longleftrightarrow>
           has_key (sections_dag T) k \<or> has_key (up_proof_chain u) k)
    | (T', Ok False) \<Rightarrow> T' = T
    | (T', Err e) \<Rightarrow> sections_dag T' = sections_dag T \<and>
        (T' = T \<or> \<not> dag_signed M B (up_proof_chain u) \<or>
         \<not> has_key (sections_dag T) (genesis_key (up_proof_chain u)) \<and>
         \<not> has_key (up_proof_chain u) (genesis_key (sections_dag T)))"
  by (rule update_tree_spec [OF laws X wf tr wfp co])

definition sample_update :: "dag_node list section_tree_update" where
  "sample_update = \<lparr> up_signed_sap = sample_signed [] 2, up_proof_chain = sample_dag1 \<rparr>"

lemma sample_tree_trusted: "tree_trusted sample_register distinct ref_bls sample_tree"
  using sample.new_dag_wf sample.new_dag_signed
  by (auto simp: tree_trusted_def sample_tree_def has_key_def new_dag_def split: if_splits)

lemma sample_self_verify: "signed_self_verify ref_bls sample_codec (sample_signed p ks)"
  by (simp add: signed_self_verify_def sample_codec_def section_sig_verify_def sample_signed_def
      ref_bls_def sample_sap_def new_sap_def)

lemma sample_insert: "tree_insert ref_xor (sections sample_tree) (sample_signed [] ks) = Some ([([], sample_signed [] ks)], True)"
  by (simp add: tree_insert_def Let_def ref_extension bm_keys_def sample_tree_def) (simp add: ref_xor_def)

lemma sample_compatible: "compatible sample_register (sections_dag sample_tree) sample_dag1"
  by (auto simp: compatible_def agrees_def sample_tree_def sample_dag1_def new_dag_def has_key_def
      stored_def sample_register_def ref_merkle_def split: if_splits)

lemma sample_last_key: "last_key sample_register sample_dag1 = Ok 2"
  by (simp add: last_key_def leaf_keys_def non_genesis_leaf_sections_def sample_dag1_def
      sample_register_def ref_merkle_def bs_from_iter_def Let_def)

lemma sample_update_ok:
  "\<exists>T'. update_the_section_tree sample_register ref_bls ref_xor sample_codec sample_tree sample_update = (T', Ok True)"
proof -
  have "\<exists>D'. merge sample_register ref_bls (sections_dag sample_tree) sample_dag1 = (D', Ok ())"
  proof -
    have "agrees sample_register (sections_dag sample_tree) sample_dag1"
      "has_key (sections_dag sample_tree) (genesis_key sample_dag1)"
      using sample_compatible by (simp_all add: compatible_def sample_genesis sample_tree_def has_key_def new_dag_def)
    then show ?thesis
      using sample.merge_union [OF _ _ sample_wf1 sample_signed1] sample_tree_trusted
      unfolding tree_trusted_def by blast
  qed
  moreover have "tree_get_signed sample_tree [] = Some (sample_signed [] 1)"
    "has_key (sections_dag sample_tree) k \<longleftrightarrow> k = 1" for k
    by (simp_all add: tree_get_signed_def sample_tree_def new_dag_def has_key_def bm_has_def)
  ultimately show ?thesis
    by (auto simp: update_the_section_tree_def sample_update_def Let_def sample_self_verify sample_insert
        sample_last_key sample_keys1)
qed

theorem update_tree_correct_witness:
  "\<exists>T'. update_the_section_tree sample_register ref_bls ref_xor sample_codec sample_tree sample_update
     = (T', Ok True) \<and> tree_trusted sample_register distinct ref_bls T' \<and> has_key (sections_dag T') 2"
proof -
  obtain T' where T': "update_the_section_tree sample_register ref_bls ref_xor sample_codec sample_tree
      sample_update = (T', Ok True)" using sample_update_ok by blast
  have "dag_wf sample_register distinct (up_proof_chain sample_update)"
    "compatible sample_register (sections_dag sample_tree) (up_proof_chain sample_update)"
    by (simp_all add: sample_update_def sample_wf1 sample_compatible)
  from update_tree_correct [OF sample_laws ref_xor_ok sample_tree_wf sample_tree_trusted this, of sample_codec]
  show ?thesis using T' by (simp add: sample_update_def sample_keys1)
qed

subsection \<open>Where the code goes further\<close>

lemma sample_tree_facts:
  "tree_get_signed sample_tree [] = Some (sample_signed [] 1)"
  "has_key (sections_dag sample_tree) k \<longleftrightarrow> k = 1"
  "genesis_key (sections_dag sample_tree) = 1"
  by (simp_all add: tree_get_signed_def sample_tree_def new_dag_def has_key_def bm_has_def)

text \<open>A chain from the genesis key 1 to the key 2 with a signature that is none.\<close>

definition forged_chain :: "dag_node list sections_dag" where
  "forged_chain = \<lparr> genesis_key = 1, dag = [Node [] \<lparr> si_key = 2, si_sig = 0 \<rparr>],
     dag_root = [2], hashes = [(2, dag_hash (Node [] \<lparr> si_key = 2, si_sig = 0 \<rparr>))] \<rparr>"

lemma forged_insert:
  "insert_trusted_key sample_register (new_dag sample_register 1) 1 2 0 = Ok forged_chain"
  by (simp add: sample_simps forged_chain_def)

lemma forged_wf: "dag_wf sample_register distinct forged_chain"
  by (rule sample.insert_wf [OF sample.new_dag_wf _ forged_insert])
    (simp add: insertable_def new_dag_def)

lemma forged_unsigned: "\<not> dag_signed sample_register ref_bls forged_chain"
proof -
  let ?n = "Node [] \<lparr> si_key = 2, si_sig = 0 \<rparr>"
  have st: "stored sample_register (dag forged_chain) ?n"
    by (simp add: stored_def forged_chain_def sample_register_def ref_merkle_def)
  moreover have "parent_of sample_register forged_chain ?n = 1"
    by (simp add: parent_of_def parent_node_def forged_chain_def sample_register_def ref_merkle_def)
  moreover have "\<not> verify_sig ref_bls 1 2 0" by (simp add: sample_simps)
  ultimately show ?thesis unfolding dag_signed_def by (metis node.sel(2) section_info.select_convs)
qed

text \<open>
  An update that is refused because its proof chain is not signed has already been filed: the
  section is inserted before the chain is verified, so that after the error the tree answers with
  a section whose key nobody trusted has signed.
\<close>

theorem refused_update_is_filed:
  "\<exists>T'. update_the_section_tree sample_register ref_bls ref_xor sample_codec sample_tree
       \<lparr> up_signed_sap = sample_signed [] 2, up_proof_chain = forged_chain \<rparr>
         = (T', Err UntrustedProofChain) \<and>
     tree_get_signed T' [] = Some (sample_signed [] 2) \<and> \<not> has_key (sections_dag T') 2"
proof -
  have "last_key sample_register forged_chain = Ok 2"
    by (simp add: last_key_def leaf_keys_def non_genesis_leaf_sections_def forged_chain_def
        sample_register_def ref_merkle_def bs_from_iter_def Let_def)
  moreover have "has_key forged_chain 1" by (simp add: has_key_def forged_chain_def)
  ultimately have "update_the_section_tree sample_register ref_bls ref_xor sample_codec sample_tree
      \<lparr> up_signed_sap = sample_signed [] 2, up_proof_chain = forged_chain \<rparr>
        = (sample_tree\<lparr>sections := [([], sample_signed [] 2)]\<rparr>, Err UntrustedProofChain)"
    using sample.merge_untrusted [OF forged_wf forged_unsigned, of "sections_dag sample_tree"]
    by (simp add: update_the_section_tree_def Let_def sample_tree_facts sample_self_verify sample_insert)
  then show ?thesis by (simp add: tree_get_signed_def sample_tree_facts(2))
qed

text \<open>A chain with another key, 9, above the genesis key 1, and the signed key 2 below it.\<close>

definition rerooted_chain1 :: "dag_node list sections_dag" where
  "rerooted_chain1 = \<lparr> genesis_key = 9, dag = [Node [] \<lparr> si_key = 1, si_sig = 9257 \<rparr>],
     dag_root = [1], hashes = [(1, dag_hash (Node [] \<lparr> si_key = 1, si_sig = 9257 \<rparr>))] \<rparr>"

definition rerooted_chain :: "dag_node list sections_dag" where
  "rerooted_chain =
     (let h = dag_hash (Node [] \<lparr> si_key = 1, si_sig = 9257 \<rparr>);
          n = Node [h] \<lparr> si_key = 2, si_sig = 1258 \<rparr> in
      \<lparr> genesis_key = 9, dag = [Node [] \<lparr> si_key = 1, si_sig = 9257 \<rparr>, n],
        dag_root = [1], hashes = [(1, h), (2, dag_hash n)] \<rparr>)"

lemma rerooted_insert1:
  "insert_trusted_key sample_register (new_dag sample_register 9) 9 1 9257 = Ok rerooted_chain1"
  by (simp add: sample_simps rerooted_chain1_def)

lemma rerooted_insert2: "insert_trusted_key sample_register rerooted_chain1 1 2 1258 = Ok rerooted_chain"
  by (simp add: sample_simps rerooted_chain1_def rerooted_chain_def)

lemma rerooted_wf: "dag_wf sample_register distinct rerooted_chain"
proof (rule sample.insert_wf [OF _ _ rerooted_insert2])
  show "dag_wf sample_register distinct rerooted_chain1"
    by (rule sample.insert_wf [OF sample.new_dag_wf _ rerooted_insert1])
      (simp add: insertable_def new_dag_def)
qed (simp add: insertable_def rerooted_chain1_def)

lemma rerooted_signed: "dag_signed sample_register ref_bls rerooted_chain"
proof (rule sample.insert_signed [OF _ _ sample_sig1 rerooted_insert2])
  show "dag_wf sample_register distinct rerooted_chain1"
    by (rule sample.insert_wf [OF sample.new_dag_wf _ rerooted_insert1])
      (simp add: insertable_def new_dag_def)
  show "dag_signed sample_register ref_bls rerooted_chain1"
    by (rule sample.insert_signed [OF sample.new_dag_wf sample.new_dag_signed _ rerooted_insert1])
      (simp add: sample_simps)
qed

text \<open>
  The genesis key of a node's DAG can be replaced from outside. Anyone can put a key of their own
  above the genesis key in the proof chain of a genuine update, since it is the upper key that
  signs: for a known prefix only the presence of the section's current key is checked, and \<open>merge\<close>
  then takes the chain as the upper DAG.
\<close>

theorem update_replaces_genesis_key:
  "\<exists>T'. update_the_section_tree sample_register ref_bls ref_xor sample_codec sample_tree
       \<lparr> up_signed_sap = sample_signed [] 2, up_proof_chain = rerooted_chain \<rparr> = (T', Ok True) \<and>
     tree_genesis_key sample_tree = 1 \<and> tree_genesis_key T' = 9"
proof -
  have last: "last_key sample_register rerooted_chain = Ok 2"
    by (simp add: last_key_def leaf_keys_def non_genesis_leaf_sections_def rerooted_chain_def
        sample_register_def ref_merkle_def bs_from_iter_def Let_def)
  have key: "has_key rerooted_chain 1" "genesis_key rerooted_chain = 9"
    by (simp_all add: has_key_def rerooted_chain_def bm_has_def Let_def)
  have "agrees sample_register rerooted_chain (sections_dag sample_tree)"
    by (simp add: agrees_def sample_tree_def new_dag_def stored_def sample_register_def ref_merkle_def)
  with sample.merge_spec [OF _ _ rerooted_wf, of "sections_dag sample_tree"] sample_tree_trusted rerooted_signed
  obtain D' where "merge sample_register ref_bls (sections_dag sample_tree) rerooted_chain = (D', Ok ())"
    "genesis_key D' = 9"
    unfolding tree_trusted_def by (simp add: sample_tree_facts key key(1) [simplified] Let_def) blast
  with last key show ?thesis
    by (simp add: update_the_section_tree_def Let_def sample_tree_facts sample_self_verify sample_insert
        tree_genesis_key_def)
qed

text \<open>
  \<open>insert\<close> drops a section as soon as one section below it is known, not when it is fully
  covered: after the section of prefix 0 is inserted into a tree that knows the whole network by
  one section, no known section matches a name that starts with 1.
\<close>

theorem insert_uncovers_names:
  "\<exists>m'. tree_insert ref_xor [([], sample_signed [] 1)] (sample_signed [False] 2) = Some (m', True) \<and>
     px_matches ref_xor [] [255] \<and> list_all (\<lambda>p. \<not> px_matches ref_xor p [255]) (bm_keys m')"
proof -
  have "tree_insert ref_xor [([], sample_signed [] 1)] (sample_signed [False] 2)
      = Some ([([False], sample_signed [False] 2)], True)"
    by (simp add: tree_insert_def Let_def bm_keys_def ref_extension)
      (simp add: ref_xor_def prune_def bm_remove_def)
  moreover have "px_matches ref_xor [] [255]" "\<not> px_matches ref_xor [False] [255]"
    by (simp_all add: ref_xor_def ref_bit_def)
  ultimately show ?thesis by (auto simp: bm_keys_def)
qed

end
