(* ===== verification/Network_Knowledge.thy ===== *)
theory Network_Knowledge
  imports Tree_Update Member_History
begin

section \<open>Network knowledge\<close>

text \<open>
  \<open>network_knowledge/mod.rs\<close>: what a node knows, the signed authority of its own section, the history
  of its members and the section tree, and the operations that keep the three in step. The
  parameters are those of the components: the Merkle register \<open>M\<close>, the signatures \<open>B\<close>, the prefixes
  \<open>X\<close>, the encodings \<open>E\<close> and \<open>C\<close>, and the check of decisions.
\<close>

record 'm network_knowledge =
  nk_signed_sap :: signed_sap
  nk_section_members :: member_history
  nk_section_tree :: "'m section_tree"

abbreviation nk_dag :: "'m network_knowledge \<Rightarrow> 'm sections_dag" where
  "nk_dag K \<equiv> sections_dag (nk_section_tree K)"

definition nk_new :: "prefix \<Rightarrow> 'm section_tree \<Rightarrow> ('m network_knowledge, nk_error) result" where
  "nk_new p tree =
     map_ok (\<lambda>s. \<lparr> nk_signed_sap = s,
        nk_section_members = reset_initial_members new_history (sap_members (sd_value s)),
        nk_section_tree = tree \<rparr>)
       (ok_or (tree_get_signed tree p) NoMatchingSection)"

definition create_first_sig ::
  "bls_api \<Rightarrow> (nat \<Rightarrow> bytes \<Rightarrow> signature_share) \<Rightarrow> ('t \<Rightarrow> bytes option) \<Rightarrow> public_key_set \<Rightarrow> nat \<Rightarrow> 't
     \<Rightarrow> (section_sig, nk_error) result" where
  "create_first_sig B sign enc pk_set sk_share payload =
     and_then (ok_or (enc payload) InvalidPayload)
       (\<lambda>bs. map_ok (\<lambda>sig. \<lparr> sg_public_key = pks_public_key B pk_set, sg_signature = sig \<rparr>)
          (ok_or (pks_combine B pk_set [(0, sign sk_share bs)]) InvalidSignatureShare))"

definition create_first_section_authority_provider ::
  "bls_api \<Rightarrow> (nat \<Rightarrow> bytes \<Rightarrow> signature_share) \<Rightarrow> sap_codec \<Rightarrow> public_key_set \<Rightarrow> nat \<Rightarrow> node_id
     \<Rightarrow> (signed_sap, nk_error) result" where
  "create_first_section_authority_provider B sign E pk_set sk_share i =
     (let section_auth = new_sap [i] [] [joined i None] pk_set 0 in
      map_ok (\<lambda>sg. \<lparr> sd_value = section_auth, sd_sig = sg \<rparr>)
        (create_first_sig B sign E pk_set sk_share section_auth))"

definition first_node ::
  "'m dag_api \<Rightarrow> bls_api \<Rightarrow> (nat \<Rightarrow> bytes \<Rightarrow> signature_share) \<Rightarrow> sap_codec \<Rightarrow> node_id
     \<Rightarrow> public_key_set \<Rightarrow> nat \<Rightarrow> ('m network_knowledge \<times> section_key_share, nk_error) result" where
  "first_node M B sign E i pk_set sk_share =
     and_then (create_first_section_authority_provider B sign E pk_set sk_share i)
       (\<lambda>genesis_signed_sap. and_then (new_tree M B genesis_signed_sap)
          (\<lambda>tree. map_ok
             (\<lambda>K. (K\<lparr>nk_section_members := reset_initial_members (nk_section_members K) [joined i None]\<rparr>,
                \<lparr> ks_public_key_set = pk_set, ks_index = 0, ks_secret_key_share = sk_share \<rparr>))
             (nk_new [] tree)))"

definition switch_section ::
  "'m network_knowledge \<Rightarrow> signed_sap \<Rightarrow> ('m network_knowledge, nk_error) result" where
  "switch_section K dst_sap =
     (if tree_get (nk_section_tree K) (sap_prefix (sd_value dst_sap)) = None then Err NoMatchingSection
      else Ok (K\<lparr>nk_section_members :=
                   reset_initial_members (nk_section_members K) (sap_members (sd_value dst_sap)),
                 nk_signed_sap := dst_sap\<rparr>))"

text \<open>
  The two operations after the switch of members may fail and then leave the knowledge as it is
  at that point; the knowledge is returned with the result.
\<close>

definition update_sap_knowledge_if_valid ::
  "'m dag_api \<Rightarrow> bls_api \<Rightarrow> xor_api \<Rightarrow> sap_codec \<Rightarrow> codec_api \<Rightarrow> 'm network_knowledge
     \<Rightarrow> 'm section_tree_update \<Rightarrow> xor_name \<Rightarrow> 'm network_knowledge \<times> (bool, nk_error) result" where
  "update_sap_knowledge_if_valid M B X E C K update our_name =
     (let s = up_signed_sap update;
          sap_p = sap_prefix (sd_value s);
          key = section_key B (sd_value s);
          (tree', r) = update_the_section_tree M B X E (nk_section_tree K) update;
          K1 = K\<lparr>nk_section_tree := tree'\<rparr>
      in case r of
        Err e \<Rightarrow> (K1, Err e)
      | Ok False \<Rightarrow> (K1, Ok False)
      | Ok True \<Rightarrow>
          if \<not> px_matches X sap_p our_name then (K1, Ok True)
          else
            (let K2 = K1\<lparr>nk_section_members := history_retain X
                  (reset_initial_members (nk_section_members K1) (sap_members (sd_value s))) sap_p\<rparr>
             in case partial_dag M (sections_dag tree') (tree_genesis_key tree') key of
                  Err e \<Rightarrow> (K2, Err e)
                | Ok proof_chain \<Rightarrow>
                    (case prune_members_archive M B C (nk_section_members K2) proof_chain key of
                       Err e \<Rightarrow> (K2, Err e)
                     | Ok H \<Rightarrow> (K2\<lparr>nk_section_members := H, nk_signed_sap := s\<rparr>, Ok True))))"

definition nk_update_members ::
  "bls_api \<Rightarrow> validator \<Rightarrow> 'm network_knowledge \<Rightarrow> ns_decision list \<Rightarrow> 'm network_knowledge \<times> bool" where
  "nk_update_members B validate K peers =
     (let (H, b) = history_update_peers validate (nk_section_members K)
        (section_key B (sd_value (nk_signed_sap K))) peers
      in (K\<lparr>nk_section_members := H\<rparr>, b))"

definition update_section_member_knowledge ::
  "bls_api \<Rightarrow> validator \<Rightarrow> 'm network_knowledge \<Rightarrow> ns_decision list option \<Rightarrow> 'm network_knowledge \<times> bool" where
  "update_section_member_knowledge B validate K updated_members =
     (case updated_members of
        Some members \<Rightarrow> nk_update_members B validate K members
      | None \<Rightarrow> (K, False))"

definition try_update_member ::
  "bls_api \<Rightarrow> validator \<Rightarrow> 'm network_knowledge \<Rightarrow> ns_decision
     \<Rightarrow> ('m network_knowledge \<times> bool, nk_error) result" where
  "try_update_member B validate K d =
     map_ok (\<lambda>(H, b). (K\<lparr>nk_section_members := H\<rparr>, b))
       (history_update validate (nk_section_members K) (section_key B (sd_value (nk_signed_sap K))) d)"

definition nk_prefix :: "'m network_knowledge \<Rightarrow> prefix" where
  "nk_prefix K = sap_prefix (sd_value (nk_signed_sap K))"

definition nk_section_key :: "bls_api \<Rightarrow> 'm network_knowledge \<Rightarrow> public_key" where
  "nk_section_key B K = section_key B (sd_value (nk_signed_sap K))"

definition section_auth_by_name ::
  "xor_api \<Rightarrow> 'm network_knowledge \<Rightarrow> xor_name \<Rightarrow> (sap, nk_error) result" where
  "section_auth_by_name X K name = map_ok sd_value (get_signed_by_name X (nk_section_tree K) name)"

definition section_auth_by_prefix ::
  "xor_api \<Rightarrow> 'm network_knowledge \<Rightarrow> prefix \<Rightarrow> (sap, nk_error) result" where
  "section_auth_by_prefix X K p = map_ok sd_value (get_signed_by_prefix X (nk_section_tree K) p)"

text \<open>The argument of \<open>unwrap_or\<close> is evaluated first, and its \<open>?\<close> returns from the function.\<close>

definition closest_signed_sap :: "xor_api \<Rightarrow> 'm network_knowledge \<Rightarrow> xor_name \<Rightarrow> signed_sap option" where
  "closest_signed_sap X K name =
     (case tree_get_signed (nk_section_tree K) (nk_prefix K) of
        None \<Rightarrow> None
      | Some own \<Rightarrow>
          (case closest X (nk_section_tree K) name (Some (nk_prefix K)) of
             Some s \<Rightarrow> Some s
           | None \<Rightarrow> Some own))"

definition closest_signed_sap_with_chain ::
  "'m dag_api \<Rightarrow> bls_api \<Rightarrow> xor_api \<Rightarrow> 'm network_knowledge \<Rightarrow> xor_name
     \<Rightarrow> (signed_sap \<times> 'm sections_dag) option" where
  "closest_signed_sap_with_chain M B X K name =
     (case closest_signed_sap X K name of
        None \<Rightarrow> None
      | Some s \<Rightarrow>
          (case partial_dag M (nk_dag K) (genesis_key (nk_dag K)) (section_key B (sd_value s)) of
             Ok chain \<Rightarrow> Some (s, chain)
           | Err _ \<Rightarrow> None))"

definition get_proof_chain_to_current_section ::
  "'m dag_api \<Rightarrow> bls_api \<Rightarrow> 'm network_knowledge \<Rightarrow> public_key \<Rightarrow> ('m sections_dag, nk_error) result" where
  "get_proof_chain_to_current_section M B K from_key =
     partial_dag M (nk_dag K) from_key (nk_section_key B K)"

definition section_chain :: "'m dag_api \<Rightarrow> bls_api \<Rightarrow> 'm network_knowledge \<Rightarrow> 'm sections_dag" where
  "section_chain M B K =
     (case get_proof_chain_to_current_section M B K (genesis_key (nk_dag K)) of
        Ok chain \<Rightarrow> chain
      | Err _ \<Rightarrow> new_dag M (genesis_key (nk_dag K)))"

definition section_chain_len :: "'m dag_api \<Rightarrow> bls_api \<Rightarrow> 'm network_knowledge \<Rightarrow> nat" where
  "section_chain_len M B K = length (dag_keys M (section_chain M B K))"

definition has_chain_key :: "'m dag_api \<Rightarrow> bls_api \<Rightarrow> 'm network_knowledge \<Rightarrow> public_key \<Rightarrow> bool" where
  "has_chain_key M B K key = has_key (section_chain M B K) key"

definition verify_section_key_is_known :: "'m network_knowledge \<Rightarrow> public_key \<Rightarrow> bool" where
  "verify_section_key_is_known K key = has_key (nk_dag K) key"

definition nk_is_elder :: "'m network_knowledge \<Rightarrow> xor_name \<Rightarrow> bool" where
  "nk_is_elder K name = contains_elder (sd_value (nk_signed_sap K)) name"

definition nk_elders :: "'m network_knowledge \<Rightarrow> node_id bset" where
  "nk_elders K = sap_elders (sd_value (nk_signed_sap K))"

definition adults :: "'m network_knowledge \<Rightarrow> node_id bset" where
  "adults K =
     fold (\<lambda>n live_adults. if \<not> nk_is_elder K (ns_name n) then bs_insert (ns_node_id n) live_adults
        else live_adults) (history_members (nk_section_members K)) []"

definition nk_members :: "'m network_knowledge \<Rightarrow> node_id bset" where
  "nk_members K = bs_from_iter (nk_elders K @ adults K)"

definition is_adult :: "'m network_knowledge \<Rightarrow> xor_name \<Rightarrow> bool" where
  "is_adult K name = list_ex (\<lambda>a. nid_name a = name) (adults K)"

record dst =
  dst_name :: xor_name
  dst_section_key :: public_key

definition generate_dst ::
  "bls_api \<Rightarrow> xor_api \<Rightarrow> 'm network_knowledge \<Rightarrow> xor_name \<Rightarrow> (dst, nk_error) result" where
  "generate_dst B X K recipient =
     map_ok (\<lambda>s. \<lparr> dst_name = recipient, dst_section_key = section_key B s \<rparr>)
       (section_auth_by_name X K recipient)"

definition get_section_member :: "'m network_knowledge \<Rightarrow> xor_name \<Rightarrow> node_state option" where
  "get_section_member K name = history_get (nk_section_members K) name"

definition is_section_member :: "'m network_knowledge \<Rightarrow> xor_name \<Rightarrow> bool" where
  "is_section_member K name = history_is_member (nk_section_members K) name"

definition nk_members_at_gen :: "'m network_knowledge \<Rightarrow> nat \<Rightarrow> (xor_name, node_state) bmap" where
  "nk_members_at_gen K gen = members_at_gen (nk_section_members K) gen"

definition nk_archived_members :: "'m network_knowledge \<Rightarrow> node_state list" where
  "nk_archived_members K = archived_members (nk_section_members K)"

subsection \<open>Invariant\<close>

definition nk_inv ::
  "'m dag_api \<Rightarrow> ('m \<Rightarrow> bool) \<Rightarrow> bls_api \<Rightarrow> xor_api \<Rightarrow> 'm network_knowledge \<Rightarrow> bool" where
  "nk_inv M ok B X K \<longleftrightarrow>
     tree_wf X (sections (nk_section_tree K)) \<and> tree_trusted M ok B (nk_section_tree K) \<and>
     has_key (nk_dag K) (nk_section_key B K) \<and> history_wf (nk_section_members K)"

context dag_context
begin

text \<open>From the genesis key to any known key there is a proof chain, and the archive can be pruned along it.\<close>

lemma chain_from_genesis:
  assumes wf: "dag_wf M ok D" and sg: "dag_signed M B D" and k: "has_key D k"
  shows "\<exists>P as. partial_dag M D (genesis_key D) k = Ok P \<and> dag_wf M ok P \<and> dag_signed M B P \<and>
    genesis_key P = genesis_key D \<and> last_key M P = Ok k \<and> get_ancestors M P k = Ok as \<and>
    (\<forall>x. has_key P x \<longleftrightarrow> x \<in> set (k # as))"
proof -
  obtain as where as: "get_ancestors M D k = Ok as" "last (k # as) = genesis_key D"
    using get_ancestors_signed [OF wf sg k] by blast
  then have "genesis_key D \<in> set (k # as)" by (metis last_in_set list.distinct(1))
  from partial_dag_is_branch [OF wf as(1) this] sg show ?thesis by blast
qed

lemma prune_along_chain:
  assumes "get_ancestors M P k = Ok as" and "history_wf H"
  shows "\<exists>H'. prune_members_archive M B C H P k = Ok H' \<and> history_wf H' \<and>
    initial_members H' = initial_members H \<and> decisions H' = decisions H"
  using assms retain_archive_wf by (simp add: prune_members_archive_def Let_def)

end

lemma nk_invD:
  assumes "nk_inv M ok B X K"
  shows "tree_wf X (sections (nk_section_tree K))" and "tree_trusted M ok B (nk_section_tree K)"
    and "has_key (nk_dag K) (nk_section_key B K)" and "history_wf (nk_section_members K)"
  using assms by (simp_all add: nk_inv_def)

text \<open>
  The comment in \<open>section_chain\<close> is right on knowledge that satisfies the invariant: the proof chain
  from the genesis key to the current section key exists, so that the fallback is never used, it
  starts at the genesis key, ends at the section key and is signed throughout.
\<close>

theorem section_chain_exists:
  assumes laws: "merkle_ok M ok" and inv: "nk_inv M ok B X K"
  shows "get_proof_chain_to_current_section M B K (genesis_key (nk_dag K)) = Ok (section_chain M B K) \<and>
         genesis_key (section_chain M B K) = genesis_key (nk_dag K) \<and>
         last_key M (section_chain M B K) = Ok (nk_section_key B K) \<and>
         dag_wf M ok (section_chain M B K) \<and> dag_signed M B (section_chain M B K) \<and>
         has_chain_key M B K (nk_section_key B K)"
proof -
  have "dag_wf M ok (nk_dag K)" "dag_signed M B (nk_dag K)"
    using nk_invD(2) [OF inv] by (auto simp: tree_trusted_def)
  from dag_context.chain_from_genesis [OF dag_context.intro [OF laws] this nk_invD(3) [OF inv]]
  show ?thesis
    by (auto simp: section_chain_def get_proof_chain_to_current_section_def has_chain_key_def)
qed

definition sample_knowledge :: "dag_node list network_knowledge" where
  "sample_knowledge = \<lparr> nk_signed_sap = sample_signed [] 1, nk_section_members = new_history,
     nk_section_tree = sample_tree \<rparr>"

lemma sample_knowledge_inv: "nk_inv sample_register distinct ref_bls ref_xor sample_knowledge"
  by (simp add: nk_inv_def sample_knowledge_def sample_tree_wf sample_tree_trusted nk_section_key_def
      sample_tree_facts history_wf_def new_history_def bm_wf_Nil)

theorem section_chain_exists_witness:
  "last_key sample_register (section_chain sample_register ref_bls sample_knowledge) = Ok 1"
  using section_chain_exists [OF sample_laws sample_knowledge_inv]
  by (simp add: nk_section_key_def sample_knowledge_def)

lemma update_sap_tree:
  "nk_section_tree (fst (update_sap_knowledge_if_valid M B X E C K u name))
     = fst (update_the_section_tree M B X E (nk_section_tree K) u)"
  by (simp add: update_sap_knowledge_if_valid_def Let_def split: prod.splits result.splits bool.splits)

lemma update_sap_unchanged:
  assumes "update_the_section_tree M B X E (nk_section_tree K) u = (T', r)"
    and "r \<noteq> Ok True \<or> \<not> px_matches X (sap_prefix (sd_value (up_signed_sap u))) name"
  shows "update_sap_knowledge_if_valid M B X E C K u name = (K\<lparr>nk_section_tree := T'\<rparr>, r)"
  using assms by (auto simp: update_sap_knowledge_if_valid_def Let_def split: result.splits bool.splits)

lemma update_sap_own:
  assumes laws: "merkle_ok M ok" and hw: "history_wf (nk_section_members K)"
    and up: "update_the_section_tree M B X E (nk_section_tree K) u = (T', Ok True)"
    and tr: "tree_trusted M ok B T'" and k: "has_key (sections_dag T') (section_key B (sd_value (up_signed_sap u)))"
    and m: "px_matches X (sap_prefix (sd_value (up_signed_sap u))) name"
  shows "\<exists>H. update_sap_knowledge_if_valid M B X E C K u name =
           (K\<lparr>nk_section_tree := T', nk_section_members := H, nk_signed_sap := up_signed_sap u\<rparr>, Ok True) \<and>
         history_wf H \<and> initial_members H = sap_members (sd_value (up_signed_sap u)) \<and> decisions H = []"
proof -
  note dc = dag_context.intro [OF laws]
  let ?key = "section_key B (sd_value (up_signed_sap u))"
  let ?H = "history_retain X (reset_initial_members (nk_section_members K) (sap_members (sd_value (up_signed_sap u))))
      (sap_prefix (sd_value (up_signed_sap u)))"
  have "dag_wf M ok (sections_dag T')" "dag_signed M B (sections_dag T')" using tr by (auto simp: tree_trusted_def)
  from dag_context.chain_from_genesis [OF dc this k] obtain P as where
    P: "partial_dag M (sections_dag T') (genesis_key (sections_dag T')) ?key = Ok P"
    "get_ancestors M P ?key = Ok as" by blast
  have "history_wf ?H" unfolding history_retain_def by (rule retain_archive_wf [OF reset_wf [OF hw]])
  from dag_context.prune_along_chain [OF dc P(2) this, of B C] obtain H where
    "prune_members_archive M B C ?H P ?key = Ok H" "history_wf H" "initial_members H = initial_members ?H"
    "decisions H = decisions ?H" by blast
  with P(1) m show ?thesis
    by (intro exI [of _ H], simp add: update_sap_knowledge_if_valid_def Let_def up tree_genesis_key_def)
      (simp add: history_retain_def reset_initial_members_def)
qed


definition sample_state_codec :: codec_api where
  "sample_state_codec = \<lparr> enc_node_state = (\<lambda>n. Some (ns_name n)), enc_relocation_info = (\<lambda>i. Some (ri_new_name i)) \<rparr>"

lemma sample_update_compatible:
  "dag_wf sample_register distinct (up_proof_chain sample_update)"
  "compatible sample_register (nk_dag sample_knowledge) (up_proof_chain sample_update)"
  by (simp_all add: sample_update_def sample_wf1 sample_compatible sample_knowledge_def)

lemma sample_sap_update:
  "\<exists>K'. update_sap_knowledge_if_valid sample_register ref_bls ref_xor sample_codec sample_state_codec
     sample_knowledge sample_update name = (K', Ok True) \<and> nk_signed_sap K' = sample_signed [] 2"
proof -
  obtain T' where T': "update_the_section_tree sample_register ref_bls ref_xor sample_codec
      (nk_section_tree sample_knowledge) sample_update = (T', Ok True)"
    using sample_update_ok by (auto simp: sample_knowledge_def)
  have "tree_trusted sample_register distinct ref_bls T'"
    "bm_get (sections T') [] = Some (up_signed_sap sample_update)"
    using update_tree_spec [OF sample_laws ref_xor_ok nk_invD(1,2) [OF sample_knowledge_inv]
        sample_update_compatible, where E = sample_codec, unfolded T']
    by (simp_all add: sample_update_def)
  moreover from this have "has_key (sections_dag T') (section_key ref_bls (sd_value (up_signed_sap sample_update)))"
    by (simp add: tree_trusted_def)
  moreover have "px_matches ref_xor (sap_prefix (sd_value (up_signed_sap sample_update))) name"
    by (simp add: sample_update_def ref_xor_def)
  ultimately show ?thesis
    using update_sap_own [OF sample_laws nk_invD(4) [OF sample_knowledge_inv] T', where C = sample_state_codec and name = name]
    by (auto simp: sample_update_def)
qed


subsection \<open>Members\<close>

lemma set_adults: "set (adults K) = {ns_node_id n | n. n \<in> set (history_members (nk_section_members K)) \<and>
    \<not> nk_is_elder K (ns_name n)}"
proof -
  have "set (fold (\<lambda>n acc. if \<not> nk_is_elder K (ns_name n) then bs_insert (ns_node_id n) acc else acc) ns acc)
      = set acc \<union> {ns_node_id n | n. n \<in> set ns \<and> \<not> nk_is_elder K (ns_name n)}" for ns acc
    by (induction ns arbitrary: acc) (auto simp: set_bs_insert)
  then show ?thesis by (simp add: adults_def)
qed

text \<open>
  The members of a section are its elders and its adults, and a name is never both: an adult is
  a joined member that is not an elder.
\<close>

theorem members_elders_adults:
  "set (nk_members K) = set (nk_elders K) \<union> set (adults K) \<and> \<not> (nk_is_elder K name \<and> is_adult K name) \<and>
   (is_adult K name \<longleftrightarrow> is_section_member K name \<and> \<not> nk_is_elder K name)"
proof -
  let ?H = "nk_section_members K"
  have adult: "is_adult K name \<longleftrightarrow>
      (\<exists>n \<in> set (history_members ?H). ns_name n = name) \<and> \<not> nk_is_elder K name"
    unfolding is_adult_def list_ex_iff set_adults by auto
  have "is_section_member K name \<longleftrightarrow> (\<exists>n \<in> set (history_members ?H). ns_name n = name)"
    by (auto simp: is_section_member_def history_is_member_def history_get_def find_None_iff)
  with adult show ?thesis by (auto simp: nk_members_def set_bs_from_iter)
qed

subsection \<open>The fallback of the closest section\<close>

text \<open>
  \<open>closest_signed_sap\<close> evaluates its fallback first: when the node's own prefix is no longer in the
  tree, as after a section below it has been inserted, the result is \<open>None\<close> although the tree knows
  a closest section.
\<close>

theorem closest_needs_own_section:
  "\<exists>m s. tree_insert ref_xor (sections sample_tree) (sample_signed [False] 2) = Some (m, True) \<and>
     closest ref_xor (sample_tree\<lparr>sections := m\<rparr>) [7] (Some (nk_prefix sample_knowledge)) = Some s \<and>
     closest_signed_sap ref_xor (sample_knowledge\<lparr>nk_section_tree := sample_tree\<lparr>sections := m\<rparr>\<rparr>) [7] = None"
proof -
  have "tree_insert ref_xor (sections sample_tree) (sample_signed [False] 2)
      = Some ([([False], sample_signed [False] 2)], True)"
    by (simp add: tree_insert_def Let_def bm_keys_def ref_extension sample_tree_def)
      (simp add: ref_xor_def prune_def bm_remove_def)
  moreover have "nk_prefix sample_knowledge = []" by (simp add: nk_prefix_def sample_knowledge_def)
  ultimately show ?thesis
    by (simp add: closest_def closest_signed_sap_def tree_get_signed_def nk_prefix_def)
qed

end
