(* ===== verification/Node_Msgs.thy ===== *)
theory Node_Msgs
  imports Dkg_Voter Sig_Aggregator Network_Knowledge Data_Messages
begin

section \<open>Messages between nodes\<close>

text \<open>
  \<open>sn_interface/src/messaging\<close>: the kinds of messages of the network, what nodes say to each other
  (\<open>system\<close>), and the messages by which they bring each other up to date (\<open>anti_entropy.rs\<close>). A vote of one
  of the two consensus rounds is an opaque value.
\<close>

type_synonym signed_vote = nat
type_synonym msg_id = bytes
type_synonym network_bytes = "bytes \<times> bytes \<times> bytes"

datatype join_response = Approved ns_decision | JoinsDisallowed_response | UnderConsideration

datatype node_data_cmd =
    StoreData replicated_data
  | ReplicateDataBatch "replicated_data list"
  | SendAnyMissingRelevantData "data_address list"

datatype node_event = CouldNotStoreData any_key data_address bool

datatype node_msg =
    PrepareToRelocate "node_state relocation_trigger"
  | ProceedRelocation "node_state relocation_trigger"
  | CompleteRelocation "node_state section_signed"
  | MembershipVotes "signed_vote list"
  | MembershipAE nat
  | TryJoin "relocation_proof option"
  | JoinResponse join_response
  | DkgStart dkg_session_id sig_share
  | DkgEphemeralPubKey dkg_session_id section_sig public_key ed_signature
  | DkgVotes dkg_session_id dkg_pub_keys "dkg_signed_vote list"
  | DkgAE dkg_session_id
  | RequestHandover sap sig_share
  | HandoverVotes "signed_vote list"
  | HandoverAE nat
  | SectionHandoverPromotion signed_sap sig_share
  | SectionSplitPromotion signed_sap sig_share signed_sap sig_share
  | ProposeNodeOff node_state sig_share
  | NodeEvent node_event
  | NodeDataCmd node_data_cmd

fun is_join :: "node_msg \<Rightarrow> bool" where
  "is_join (TryJoin _) = True"
| "is_join _ = False"

datatype anti_entropy_kind =
    Retry network_bytes | Redirect network_bytes | Update "ns_decision list"

datatype 'm anti_entropy_msg =
    Probe public_key
  | AntiEntropy anti_entropy_kind "'m section_tree_update"

datatype client_msg = ClientCmd data_cmd | ClientQuery data_query

datatype 'r data_response =
    NetworkIssue data_error
  | QueryResponse "'r query_response" msg_id
  | CmdResponse cmd_response msg_id

datatype ('m, 'r) network_msg =
    AntiEntropyMsg "'m anti_entropy_msg"
  | ClientNetworkMsg client_auth client_msg
  | NodeNetworkMsg node_msg
  | DataResponseMsg "'r data_response"

datatype msg_kind =
    AntiEntropyKind xor_name
  | ClientKind client_auth bool "nat option"
  | NodeKind xor_name bool
  | DataResponseKind xor_name

fun is_ae_msg :: "msg_kind \<Rightarrow> bool" where
  "is_ae_msg (AntiEntropyKind _) = True"
| "is_ae_msg _ = False"

fun is_client_spend :: "msg_kind \<Rightarrow> bool" where
  "is_client_spend (ClientKind _ is_spend _) = is_spend"
| "is_client_spend _ = False"

fun query_index :: "msg_kind \<Rightarrow> nat option" where
  "query_index (ClientKind _ _ i) = i"
| "query_index _ = None"

end
