(* ===== verification/Wire_Msg.thy ===== *)
theory Wire_Msg
  imports Node_Msgs
begin

section \<open>Messages on the wire\<close>

text \<open>
  \<open>sn_interface/src/messaging/serialisation\<close>: a message travels as three byte strings, header, destination
  and payload. The header starts with its own length and the version of the protocol, two 16-bit numbers,
  and goes on with the envelope, which says how to read the payload.

  The encodings are those of the crates \<open>bincode\<close> (the two numbers) and \<open>rmp_serde\<close> (all else), the parameter
  \<open>wire_codec\<close>. A panic of the code is the outcome \<open>Panics\<close>.
\<close>

datatype 'a outcome = Returns 'a | Panics

definition MESSAGING_PROTO_VERSION :: u16 where
  "MESSAGING_PROTO_VERSION = 1"

record msg_envelope =
  me_msg_id :: msg_id
  me_kind :: msg_kind

record wire_msg_header =
  wh_version :: u16
  wh_msg_envelope :: msg_envelope

record header_meta =
  hm_header_len :: u16
  hm_version :: u16

record ('m, 'r) wire_codec =
  wc_meta_enc :: "header_meta \<Rightarrow> bytes option"
  wc_meta_dec :: "bytes \<Rightarrow> header_meta option"
  wc_envelope_enc :: "msg_envelope \<Rightarrow> bytes option"
  wc_envelope_dec :: "bytes \<Rightarrow> msg_envelope option"
  wc_dst_enc :: "dst \<Rightarrow> bytes option"
  wc_dst_dec :: "bytes \<Rightarrow> dst option"
  wc_ae_enc :: "'m anti_entropy_msg \<Rightarrow> bytes option"
  wc_ae_dec :: "bytes \<Rightarrow> 'm anti_entropy_msg option"
  wc_client_enc :: "client_msg \<Rightarrow> bytes option"
  wc_client_dec :: "bytes \<Rightarrow> client_msg option"
  wc_node_enc :: "node_msg \<Rightarrow> bytes option"
  wc_node_dec :: "bytes \<Rightarrow> node_msg option"
  wc_response_enc :: "'r data_response \<Rightarrow> bytes option"
  wc_response_dec :: "bytes \<Rightarrow> 'r data_response option"

subsection \<open>Header\<close>

definition HeaderMeta_SIZE :: nat where
  "HeaderMeta_SIZE = 4"

definition header_new :: "msg_id \<Rightarrow> msg_kind \<Rightarrow> wire_msg_header" where
  "header_new i kind =
     \<lparr> wh_version = MESSAGING_PROTO_VERSION, wh_msg_envelope = \<lparr> me_msg_id = i, me_kind = kind \<rparr> \<rparr>"

text \<open>A range of a slice that starts after its end panics.\<close>

definition header_from ::
  "('m, 'r) wire_codec \<Rightarrow> bytes \<Rightarrow> (wire_msg_header, messaging_error) result outcome" where
  "header_from W bs =
     (case wc_meta_dec W bs of
        None \<Rightarrow> Returns (Err FailedToParse)
      | Some meta \<Rightarrow>
          if unat (hm_header_len meta) > length bs then Returns (Err FailedToParse)
          else if hm_version meta \<noteq> MESSAGING_PROTO_VERSION
            then Returns (Err (UnsupportedVersion (hm_version meta)))
          else if HeaderMeta_SIZE > unat (hm_header_len meta) then Panics
          else
            (case wc_envelope_dec W (drop HeaderMeta_SIZE (take (unat (hm_header_len meta)) bs)) of
               None \<Rightarrow> Returns (Err FailedToParse)
             | Some envelope \<Rightarrow>
                 Returns (Ok \<lparr> wh_version = hm_version meta, wh_msg_envelope = envelope \<rparr>)))"

text \<open>The length of the header is cast to 16 bits.\<close>

definition header_serialize ::
  "('m, 'r) wire_codec \<Rightarrow> wire_msg_header \<Rightarrow> (bytes, messaging_error) result" where
  "header_serialize W h =
     and_then (ok_or (wc_envelope_enc W (wh_msg_envelope h)) Serialisation_msg)
       (\<lambda>envelope_bytes. map_ok (\<lambda>meta_bytes. meta_bytes @ envelope_bytes)
          (ok_or (wc_meta_enc W
             \<lparr> hm_header_len = of_nat (HeaderMeta_SIZE + length envelope_bytes), hm_version = wh_version h \<rparr>)
             Serialisation_msg))"

subsection \<open>Messages\<close>

record wire_msg =
  wm_header :: wire_msg_header
  wm_serialized_header :: "bytes option"
  wm_payload :: bytes
  wm_dst :: dst
  wm_serialized_dst :: "bytes option"

definition wire_msg_eq :: "wire_msg \<Rightarrow> wire_msg \<Rightarrow> bool" where
  "wire_msg_eq w w' \<longleftrightarrow> wm_header w = wm_header w' \<and> wm_payload w = wm_payload w'"

definition serialize_dst_payload :: "('m, 'r) wire_codec \<Rightarrow> dst \<Rightarrow> (bytes, messaging_error) result" where
  "serialize_dst_payload W d = ok_or (wc_dst_enc W d) Serialisation_msg"

definition new_msg :: "msg_id \<Rightarrow> bytes \<Rightarrow> msg_kind \<Rightarrow> dst \<Rightarrow> wire_msg" where
  "new_msg i payload kind d =
     \<lparr> wm_header = header_new i kind, wm_serialized_header = None, wm_payload = payload,
       wm_dst = d, wm_serialized_dst = None \<rparr>"

definition wire_from ::
  "('m, 'r) wire_codec \<Rightarrow> network_bytes \<Rightarrow> (wire_msg, messaging_error) result outcome" where
  "wire_from W bs =
     (case bs of (header_bytes, dst_bytes, payload) \<Rightarrow>
        (case header_from W header_bytes of
           Panics \<Rightarrow> Panics
         | Returns (Err e) \<Rightarrow> Returns (Err e)
         | Returns (Ok header) \<Rightarrow>
             Returns (map_ok (\<lambda>d. \<lparr> wm_header = header, wm_serialized_header = Some header_bytes,
                 wm_payload = payload, wm_dst = d, wm_serialized_dst = Some dst_bytes \<rparr>)
               (ok_or (wc_dst_dec W dst_bytes) FailedToParse))))"

definition header_bytes_of :: "('m, 'r) wire_codec \<Rightarrow> wire_msg \<Rightarrow> (bytes, messaging_error) result" where
  "header_bytes_of W w =
     (case wm_serialized_header w of Some bs \<Rightarrow> Ok bs | None \<Rightarrow> header_serialize W (wm_header w))"

definition dst_bytes_of :: "('m, 'r) wire_codec \<Rightarrow> wire_msg \<Rightarrow> (bytes, messaging_error) result" where
  "dst_bytes_of W w =
     (case wm_serialized_dst w of Some bs \<Rightarrow> Ok bs | None \<Rightarrow> serialize_dst_payload W (wm_dst w))"

definition wire_serialize ::
  "('m, 'r) wire_codec \<Rightarrow> wire_msg \<Rightarrow> (network_bytes, messaging_error) result" where
  "wire_serialize W w =
     and_then (header_bytes_of W w)
       (\<lambda>header. map_ok (\<lambda>d. (header, d, wm_payload w)) (dst_bytes_of W w))"

definition serialize_and_cache_bytes ::
  "('m, 'r) wire_codec \<Rightarrow> wire_msg \<Rightarrow> wire_msg \<times> (network_bytes, messaging_error) result" where
  "serialize_and_cache_bytes W w =
     (case header_bytes_of W w of
        Err e \<Rightarrow> (w, Err e)
      | Ok header \<Rightarrow>
          (let w' = w\<lparr>wm_serialized_header := Some header\<rparr> in
           case dst_bytes_of W w' of
             Err e \<Rightarrow> (w', Err e)
           | Ok d \<Rightarrow> (w'\<lparr>wm_serialized_dst := Some d\<rparr>, Ok (header, d, wm_payload w))))"

definition serialize_with_new_dst ::
  "('m, 'r) wire_codec \<Rightarrow> wire_msg \<Rightarrow> dst \<Rightarrow> (network_bytes, messaging_error) result" where
  "serialize_with_new_dst W w d =
     and_then (header_bytes_of W w)
       (\<lambda>header. map_ok (\<lambda>d'. (header, d', wm_payload w)) (serialize_dst_payload W d))"

abbreviation wm_kind :: "wire_msg \<Rightarrow> msg_kind" where
  "wm_kind w \<equiv> me_kind (wh_msg_envelope (wm_header w))"

abbreviation wm_msg_id :: "wire_msg \<Rightarrow> msg_id" where
  "wm_msg_id w \<equiv> me_msg_id (wh_msg_envelope (wm_header w))"

definition into_msg ::
  "key_api \<Rightarrow> bls_api \<Rightarrow> ('m, 'r) wire_codec \<Rightarrow> wire_msg \<Rightarrow> (('m, 'r) network_msg, messaging_error) result" where
  "into_msg K B W w =
     (case wm_kind w of
        AntiEntropyKind _ \<Rightarrow> map_ok AntiEntropyMsg (ok_or (wc_ae_dec W (wm_payload w)) FailedToParse)
      | ClientKind auth _ _ \<Rightarrow>
          and_then (ok_or (wc_client_dec W (wm_payload w)) FailedToParse)
            (\<lambda>msg. map_ok (\<lambda>auth. ClientNetworkMsg auth msg)
               (map_err (\<lambda>_. InvalidSignature_msg) (verify_authority K B auth (wm_payload w))))
      | DataResponseKind _ \<Rightarrow> map_ok DataResponseMsg (ok_or (wc_response_dec W (wm_payload w)) FailedToParse)
      | NodeKind _ _ \<Rightarrow> map_ok NodeNetworkMsg (ok_or (wc_node_dec W (wm_payload w)) FailedToParse))"

definition wire_deserialize ::
  "key_api \<Rightarrow> bls_api \<Rightarrow> ('m, 'r) wire_codec \<Rightarrow> network_bytes
     \<Rightarrow> (msg_id \<times> ('m, 'r) network_msg, messaging_error) result outcome" where
  "wire_deserialize K B W bs =
     (case wire_from W bs of
        Panics \<Rightarrow> Panics
      | Returns r \<Rightarrow> Returns (and_then r (\<lambda>w. map_ok (Pair (wm_msg_id w)) (into_msg K B W w))))"

text \<open>\<open>sn_node/src/node/messaging/serialize.rs\<close>. A node does not send messages of clients.\<close>

definition serialize_msg ::
  "('m, 'r) wire_codec \<Rightarrow> xor_name \<Rightarrow> ('m, 'r) network_msg \<Rightarrow> (msg_kind \<times> bytes, node_error) result" where
  "serialize_msg W our_name msg =
     (let ser = (\<lambda>kind bs. map_ok (Pair kind) (ok_or bs (Messaging Serialisation_msg))) in
      case msg of
        AntiEntropyMsg m \<Rightarrow> ser (AntiEntropyKind our_name) (wc_ae_enc W m)
      | NodeNetworkMsg m \<Rightarrow> ser (NodeKind our_name (is_join m)) (wc_node_enc W m)
      | DataResponseMsg m \<Rightarrow> ser (DataResponseKind our_name) (wc_response_enc W m)
      | ClientNetworkMsg _ _ \<Rightarrow> Err InvalidMessage)"

section \<open>Properties of messages on the wire\<close>

text \<open>What the encodings promise: what was written is read again, and the two numbers take four bytes.\<close>

definition wire_codec_ok :: "('m, 'r) wire_codec \<Rightarrow> bool" where
  "wire_codec_ok W \<longleftrightarrow>
     (\<forall>m. \<exists>bs. wc_meta_enc W m = Some bs \<and> length bs = HeaderMeta_SIZE \<and>
        (\<forall>rest. wc_meta_dec W (bs @ rest) = Some m)) \<and>
     (\<forall>e bs. wc_envelope_enc W e = Some bs \<longrightarrow> wc_envelope_dec W bs = Some e) \<and>
     (\<forall>d bs. wc_dst_enc W d = Some bs \<longrightarrow> wc_dst_dec W bs = Some d) \<and>
     (\<forall>m bs. wc_ae_enc W m = Some bs \<longrightarrow> wc_ae_dec W bs = Some m) \<and>
     (\<forall>m bs. wc_client_enc W m = Some bs \<longrightarrow> wc_client_dec W bs = Some m) \<and>
     (\<forall>m bs. wc_node_enc W m = Some bs \<longrightarrow> wc_node_dec W bs = Some m) \<and>
     (\<forall>m bs. wc_response_enc W m = Some bs \<longrightarrow> wc_response_dec W bs = Some m)"

lemma wire_codecD:
  assumes "wire_codec_ok W"
  shows wc_meta: "\<exists>bs. wc_meta_enc W m = Some bs \<and> length bs = HeaderMeta_SIZE \<and>
      (\<forall>rest. wc_meta_dec W (bs @ rest) = Some m)"
    and wc_envelope: "wc_envelope_enc W e = Some bs \<Longrightarrow> wc_envelope_dec W bs = Some e"
    and wc_dst: "wc_dst_enc W d = Some bs \<Longrightarrow> wc_dst_dec W bs = Some d"
    and wc_ae: "wc_ae_enc W ae = Some bs \<Longrightarrow> wc_ae_dec W bs = Some ae"
    and wc_node: "wc_node_enc W n = Some bs \<Longrightarrow> wc_node_dec W bs = Some n"
    and wc_response: "wc_response_enc W r = Some bs \<Longrightarrow> wc_response_dec W bs = Some r"
  using assms unfolding wire_codec_ok_def by simp_all

lemma into_msg_same:
  "wm_header w' = wm_header w \<Longrightarrow> wm_payload w' = wm_payload w \<Longrightarrow> into_msg K B W w' = into_msg K B W w"
  by (simp add: into_msg_def split: msg_kind.split)

definition header_fits :: "('m, 'r) wire_codec \<Rightarrow> wire_msg_header \<Rightarrow> bool" where
  "header_fits W h \<longleftrightarrow>
     (\<forall>bs. wc_envelope_enc W (wh_msg_envelope h) = Some bs \<longrightarrow> HeaderMeta_SIZE + length bs < 2 ^ 16)"

lemma header_round_trip:
  assumes W: "wire_codec_ok W" and ser: "header_serialize W h = Ok bs" and fits: "header_fits W h"
    and version: "wh_version h = MESSAGING_PROTO_VERSION"
  shows "header_from W bs = Returns (Ok h)"
proof -
  obtain es where es: "wc_envelope_enc W (wh_msg_envelope h) = Some es"
    using ser by (auto simp: header_serialize_def)
  let ?meta = "\<lparr> hm_header_len = of_nat (HeaderMeta_SIZE + length es), hm_version = wh_version h \<rparr>"
  obtain ms where ms: "wc_meta_enc W ?meta = Some ms" "length ms = HeaderMeta_SIZE"
    and dec: "\<And>rest. wc_meta_dec W (ms @ rest) = Some ?meta"
    using wc_meta [OF W, of ?meta] by auto
  have bs: "bs = ms @ es" using ser ms(1) by (simp add: header_serialize_def es del: of_nat_add)
  have "unat (of_nat (HeaderMeta_SIZE + length es) :: u16) = HeaderMeta_SIZE + length es"
    using fits es by (simp add: header_fits_def unat_of_nat take_bit_nat_eq_self del: of_nat_add)
  then show ?thesis
    using ms(2) version wc_envelope [OF W es] by (simp add: header_from_def bs dec del: of_nat_add)
qed

lemma header_from_short:
  assumes W: "wire_codec_ok W" and meta: "wc_meta_enc W \<lparr> hm_header_len = n, hm_version = v \<rparr> = Some ms"
    and short: "unat n < HeaderMeta_SIZE" and version: "v = MESSAGING_PROTO_VERSION"
  shows "header_from W (ms @ rest) = Panics"
  using wc_meta [OF W, of "\<lparr> hm_header_len = n, hm_version = v \<rparr>"] meta short version
  by (auto simp: header_from_def)

text \<open>
  C17. A message survives the wire: what \<open>serialize\<close> makes of a new message, \<open>from\<close> reads as the same
  header, destination and payload, and so the same message; it is serialised to the same bytes again, as when
  it is bounced; and serialised for another destination it is read with that destination and nothing else
  changed. The header must be shorter than 65536 bytes, since its length is cast to 16 bits.
\<close>

theorem wire_msg_round_trip:
  assumes W: "wire_codec_ok W" and fits: "header_fits W (header_new i kind)"
    and w: "w = new_msg i payload kind d" and ser: "wire_serialize W w = Ok bs"
  shows "(\<exists>w'. wire_from W bs = Returns (Ok w') \<and> wm_header w' = wm_header w \<and> wm_dst w' = d \<and>
            wm_payload w' = payload \<and> into_msg K B W w' = into_msg K B W w \<and> wire_serialize W w' = Ok bs) \<and>
         (\<forall>d' bs'. serialize_with_new_dst W w d' = Ok bs' \<longrightarrow>
            (\<exists>w'. wire_from W bs' = Returns (Ok w') \<and> wm_header w' = wm_header w \<and> wm_dst w' = d' \<and>
               wm_payload w' = payload \<and> into_msg K B W w' = into_msg K B W w))"
proof -
  obtain hs ds where hs: "header_serialize W (header_new i kind) = Ok hs" and ds: "wc_dst_enc W d = Some ds"
    and bs: "bs = (hs, ds, payload)"
    using ser by (auto simp: wire_serialize_def header_bytes_of_def dst_bytes_of_def w new_msg_def
        serialize_dst_payload_def)
  have head: "header_from W hs = Returns (Ok (header_new i kind))"
    using header_round_trip [OF W hs fits] by (simp add: header_new_def)
  with wc_dst [OF W ds] have from_ok: "wire_from W (hs, ds, payload) = Returns (Ok \<lparr> wm_header = header_new i kind,
      wm_serialized_header = Some hs, wm_payload = payload, wm_dst = d, wm_serialized_dst = Some ds \<rparr>)"
    by (simp add: wire_from_def)
  have new_dst: "wire_from W bs' = Returns (Ok \<lparr> wm_header = header_new i kind, wm_serialized_header = Some hs,
      wm_payload = payload, wm_dst = d', wm_serialized_dst = Some (fst (snd bs')) \<rparr>)"
    if "serialize_with_new_dst W w d' = Ok bs'" for d' bs'
    using that head hs wc_dst [OF W]
    by (auto simp: serialize_with_new_dst_def serialize_dst_payload_def header_bytes_of_def w new_msg_def wire_from_def)
  show ?thesis
  proof (intro conjI allI impI)
    show "\<exists>w'. wire_from W bs = Returns (Ok w') \<and> wm_header w' = wm_header w \<and> wm_dst w' = d \<and>
        wm_payload w' = payload \<and> into_msg K B W w' = into_msg K B W w \<and> wire_serialize W w' = Ok bs"
      using from_ok by (intro exI conjI, simp add: bs)
        (simp_all add: bs w new_msg_def into_msg_same wire_serialize_def header_bytes_of_def dst_bytes_of_def)
    show "\<exists>w'. wire_from W bs' = Returns (Ok w') \<and> wm_header w' = wm_header w \<and> wm_dst w' = d' \<and>
        wm_payload w' = payload \<and> into_msg K B W w' = into_msg K B W w"
      if "serialize_with_new_dst W w d' = Ok bs'" for d' bs'
      by (intro exI conjI, rule new_dst [OF that]) (simp_all add: w new_msg_def into_msg_same)
  qed
qed

text \<open>
  C38. A header of four bytes can crash a node: when the length that a header claims is smaller than
  the four bytes of the length and version themselves, and the version is the supported one, the code
  slices the bytes with a range that ends before it starts, which panics. Nothing has been authenticated at
  that point.
\<close>

theorem short_header_panics:
  fixes n :: u16
  assumes W: "wire_codec_ok W" and short: "unat n < HeaderMeta_SIZE"
  shows "\<exists>ms. length ms = 4 \<and> wire_from W (ms, dst_bytes, payload) = Panics \<and>
           wire_deserialize K B W (ms, dst_bytes, payload) = Panics"
proof -
  let ?meta = "\<lparr> hm_header_len = n, hm_version = MESSAGING_PROTO_VERSION \<rparr>"
  obtain ms where ms: "wc_meta_enc W ?meta = Some ms" "length ms = HeaderMeta_SIZE"
    using wc_meta [OF W, of ?meta] by auto
  have "header_from W ms = Panics" using header_from_short [OF W ms(1) short, of "[]"] by simp
  with ms(2) show ?thesis by (auto simp: wire_from_def wire_deserialize_def HeaderMeta_SIZE_def)
qed


subsection \<open>Instances\<close>

definition be_bytes :: "u16 \<Rightarrow> bytes" where
  "be_bytes n = [of_nat (unat n div 256), of_nat (unat n mod 256)]"

definition sample_dst :: dst where
  "sample_dst = \<lparr> dst_name = [], dst_section_key = 1 \<rparr>"

definition sample_kind :: msg_kind where
  "sample_kind = NodeKind [] False"

definition sample_envelope :: msg_envelope where
  "sample_envelope = \<lparr> me_msg_id = [], me_kind = sample_kind \<rparr>"

text \<open>An encoding that can write one value of each type.\<close>

definition only :: "'a \<Rightarrow> bytes \<Rightarrow> 'a \<Rightarrow> bytes option" where
  "only x bs y = (if y = x then Some bs else None)"

definition only_dec :: "'a \<Rightarrow> bytes \<Rightarrow> bytes \<Rightarrow> 'a option" where
  "only_dec x bs cs = (if cs = bs then Some x else None)"

fun meta_of :: "bytes \<Rightarrow> header_meta option" where
  "meta_of (a # b # c # d # _) =
     Some \<lparr> hm_header_len = of_nat (unat a * 256 + unat b), hm_version = of_nat (unat c * 256 + unat d) \<rparr>"
| "meta_of _ = None"

definition sample_wire :: "(dag_node list, entry node set) wire_codec" where
  "sample_wire = \<lparr>
     wc_meta_enc = (\<lambda>m. Some (be_bytes (hm_header_len m) @ be_bytes (hm_version m))), wc_meta_dec = meta_of,
     wc_envelope_enc = only sample_envelope [1], wc_envelope_dec = only_dec sample_envelope [1],
     wc_dst_enc = only sample_dst [2], wc_dst_dec = only_dec sample_dst [2],
     wc_ae_enc = only (Probe 0) [3], wc_ae_dec = only_dec (Probe 0) [3],
     wc_client_enc = (\<lambda>_. None), wc_client_dec = (\<lambda>_. None),
     wc_node_enc = only (HandoverAE 100) [4], wc_node_dec = only_dec (HandoverAE 100) [4],
     wc_response_enc = (\<lambda>_. None), wc_response_dec = (\<lambda>_. None) \<rparr>"

lemma be_bytes_inverse:
  fixes n :: u16
  shows "(of_nat (unat (of_nat (unat n div 256) :: u8) * 256 + unat (of_nat (unat n mod 256) :: u8)) :: u16) = n"
proof -
  have "unat n < 65536" using unsigned_less [where 'a = nat, of n] by simp
  then have "unat (of_nat (unat n div 256) :: u8) = unat n div 256" "unat (of_nat (unat n mod 256) :: u8) = unat n mod 256"
    by (simp_all add: unat_of_nat take_bit_eq_mod less_mult_imp_div_less)
  then show ?thesis by (simp add: div_mult_mod_eq del: of_nat_add of_nat_mult)
qed

lemma sample_wire_ok: "wire_codec_ok sample_wire"
  unfolding wire_codec_ok_def
  by (simp add: sample_wire_def only_def only_dec_def be_bytes_def HeaderMeta_SIZE_def
      be_bytes_inverse del: of_nat_add of_nat_mult split: if_splits)

definition sample_msg :: wire_msg where
  "sample_msg = new_msg [] [4] sample_kind sample_dst"

lemma sample_header: "header_serialize sample_wire (header_new [] sample_kind) = Ok [0, 5, 0, 1, 1]"
  by (simp add: header_serialize_def header_new_def sample_wire_def sample_envelope_def only_def
      be_bytes_def HeaderMeta_SIZE_def MESSAGING_PROTO_VERSION_def)

lemma sample_serialized: "wire_serialize sample_wire sample_msg = Ok ([0, 5, 0, 1, 1], [2], [4])"
  using sample_header
  by (simp add: wire_serialize_def sample_msg_def new_msg_def header_bytes_of_def dst_bytes_of_def
      serialize_dst_payload_def) (simp add: sample_wire_def only_def)

theorem wire_msg_round_trip_witness:
  "\<exists>w'. wire_from sample_wire ([0, 5, 0, 1, 1], [2], [4]) = Returns (Ok w') \<and>
     wm_header w' = wm_header sample_msg \<and> wm_dst w' = sample_dst \<and>
     into_msg ref_keys ref_bls sample_wire w' = Ok (NodeNetworkMsg (HandoverAE 100))"
proof -
  have "header_fits sample_wire (header_new [] sample_kind)"
    by (simp add: header_fits_def sample_wire_def header_new_def only_def HeaderMeta_SIZE_def)
  moreover have "into_msg ref_keys ref_bls sample_wire sample_msg = Ok (NodeNetworkMsg (HandoverAE 100))"
    by (simp add: into_msg_def sample_msg_def new_msg_def header_new_def sample_kind_def sample_wire_def only_dec_def)
  ultimately show ?thesis
    using wire_msg_round_trip [OF sample_wire_ok _ sample_msg_def sample_serialized, of ref_keys ref_bls] by metis
qed

theorem short_header_panics_witness:
  "\<exists>ms. length ms = 4 \<and> wire_from sample_wire (ms, [2], [4]) = Panics"
  using short_header_panics [OF sample_wire_ok, of 0 "[2]" "[4]"] by (auto simp: HeaderMeta_SIZE_def)


end
