(* ===== verification/Fault_Detection.thy ===== *)
theory Fault_Detection
  imports Comparisons Floats
begin

section \<open>Fault detection\<close>

text \<open>
  \<open>sn_fault_detection/src\<close>: the issues that are logged against the nodes of a section, the score a node
  has by them, and the nodes that stand out. Instants are numbers of seconds and the current one is
  an argument of the operations that read the clock.
\<close>

subsection \<open>Tracking\<close>

datatype issue_type =
    AeProbeMsg | Dkg | ElderVoting | Communication | NetworkKnowledge | RequestOperation

type_synonym timed_tracker = "(xor_name, nat list) bmap"

record fault_detection =
  communication_issues :: timed_tracker
  dkg_issues :: timed_tracker
  elder_voting_issues :: timed_tracker
  probe_issues :: timed_tracker
  network_knowledge_issues :: timed_tracker
  unfulfilled_ops :: timed_tracker
  non_elder_nodes :: "xor_name bset"
  fd_elders :: "xor_name bset"

definition fd_new :: "xor_name bset \<Rightarrow> xor_name bset \<Rightarrow> fault_detection" where
  "fd_new nodes elders =
     \<lparr> communication_issues = [], dkg_issues = [], elder_voting_issues = [], probe_issues = [],
       network_knowledge_issues = [], unfulfilled_ops = [], non_elder_nodes = nodes, fd_elders = elders \<rparr>"

text \<open>\<open>entry(node_id).or_default()\<close> and \<open>push_back\<close>.\<close>

definition push_issue :: "xor_name \<Rightarrow> nat \<Rightarrow> timed_tracker \<Rightarrow> timed_tracker" where
  "push_issue node now t = bm_insert node (case_option [] id (bm_get t node) @ [now]) t"

fun track_issue :: "nat \<Rightarrow> fault_detection \<Rightarrow> xor_name \<Rightarrow> issue_type \<Rightarrow> fault_detection" where
  "track_issue now F node Dkg = F\<lparr>dkg_issues := push_issue node now (dkg_issues F)\<rparr>"
| "track_issue now F node ElderVoting = F\<lparr>elder_voting_issues := push_issue node now (elder_voting_issues F)\<rparr>"
| "track_issue now F node AeProbeMsg = F\<lparr>probe_issues := push_issue node now (probe_issues F)\<rparr>"
| "track_issue now F node Communication =
     F\<lparr>communication_issues := push_issue node now (communication_issues F)\<rparr>"
| "track_issue now F node NetworkKnowledge =
     F\<lparr>network_knowledge_issues := push_issue node now (network_knowledge_issues F)\<rparr>"
| "track_issue now F node RequestOperation = F\<lparr>unfulfilled_ops := push_issue node now (unfulfilled_ops F)\<rparr>"

text \<open>\<open>get_mut\<close> and \<open>pop_front\<close>: the oldest issue of the node is dropped.\<close>

definition pop_issue :: "xor_name \<Rightarrow> timed_tracker \<Rightarrow> timed_tracker" where
  "pop_issue node t = (case bm_get t node of Some v \<Rightarrow> bm_insert node (tl v) t | None \<Rightarrow> t)"

definition dkg_ack_fulfilled :: "fault_detection \<Rightarrow> xor_name \<Rightarrow> fault_detection" where
  "dkg_ack_fulfilled F node = F\<lparr>dkg_issues := pop_issue node (dkg_issues F)\<rparr>"

definition elder_vote_received :: "fault_detection \<Rightarrow> xor_name \<Rightarrow> fault_detection" where
  "elder_vote_received F node = F\<lparr>elder_voting_issues := pop_issue node (elder_voting_issues F)\<rparr>"

definition ae_update_msg_received :: "fault_detection \<Rightarrow> xor_name \<Rightarrow> fault_detection" where
  "ae_update_msg_received F node = F\<lparr>probe_issues := pop_issue node (probe_issues F)\<rparr>"

definition all_current_nodes :: "fault_detection \<Rightarrow> xor_name bset" where
  "all_current_nodes F = fold bs_insert (fd_elders F) (fold bs_insert (non_elder_nodes F) [])"

definition add_new_node :: "fault_detection \<Rightarrow> xor_name \<Rightarrow> fault_detection" where
  "add_new_node F node = F\<lparr>non_elder_nodes := bs_insert node (non_elder_nodes F)\<rparr>"

definition forget_node :: "xor_name \<Rightarrow> fault_detection \<Rightarrow> fault_detection" where
  "forget_node node F =
     F\<lparr>communication_issues := bm_remove node (communication_issues F),
       network_knowledge_issues := bm_remove node (network_knowledge_issues F),
       dkg_issues := bm_remove node (dkg_issues F),
       elder_voting_issues := bm_remove node (elder_voting_issues F),
       probe_issues := bm_remove node (probe_issues F),
       unfulfilled_ops := bm_remove node (unfulfilled_ops F)\<rparr>"

definition update_and_only_retain_members ::
  "fault_detection \<Rightarrow> xor_name bset \<Rightarrow> xor_name bset \<Rightarrow> fault_detection" where
  "update_and_only_retain_members F nodes elders =
     (let current_members = all_current_nodes F;
          F1 = F\<lparr>non_elder_nodes := nodes, fd_elders := elders\<rparr>;
          nodes_being_removed = filter (\<lambda>x. x \<notin> set nodes \<and> x \<notin> set elders) current_members
      in fold forget_node nodes_being_removed F1)"

definition get_mean_of :: "f32 list \<Rightarrow> f32 option" where
  "get_mean_of data =
     (let count = length data in
      if count > 0 then Some (f32_div (f32_sum data) (f32_of_nat count)) else None)"

definition std_deviation :: "f32 list \<Rightarrow> f32 option" where
  "std_deviation data =
     (case get_mean_of data of
        Some data_mean \<Rightarrow>
          if length data > 0 then
            (let variance = f32_div
                   (f32_sum (map (\<lambda>v. let diff = f32_sub data_mean v in f32_mul diff diff) data))
                   (f32_of_nat (length data))
             in Some (f32_sqrt variance))
          else None
      | None \<Rightarrow> None)"

subsection \<open>Scores\<close>

definition RECENT_ISSUE_DURATION :: nat where
  "RECENT_ISSUE_DURATION = 60 * 10"

definition STD_DEVS_AWAY :: nat where
  "STD_DEVS_AWAY = 3"

definition CONN_WEIGHTING :: f32 where "CONN_WEIGHTING = 3 / 2"
definition OP_WEIGHTING :: f32 where "OP_WEIGHTING = 1"
definition KNOWLEDGE_WEIGHTING :: f32 where "KNOWLEDGE_WEIGHTING = 2"
definition DKG_WEIGHTING :: f32 where "DKG_WEIGHTING = 2"
definition ELDER_VOTE_WEIGHTING :: f32 where "ELDER_VOTE_WEIGHTING = 5 / 2"
definition AE_PROBE_WEIGHTING :: f32 where "AE_PROBE_WEIGHTING = 5 / 2"

fun issues_of_type :: "fault_detection \<Rightarrow> issue_type \<Rightarrow> timed_tracker" where
  "issues_of_type F Communication = communication_issues F"
| "issues_of_type F Dkg = dkg_issues F"
| "issues_of_type F AeProbeMsg = probe_issues F"
| "issues_of_type F NetworkKnowledge = network_knowledge_issues F"
| "issues_of_type F ElderVoting = elder_voting_issues F"
| "issues_of_type F RequestOperation = unfulfilled_ops F"

definition get_node_issue_count_for_type :: "fault_detection \<Rightarrow> xor_name \<Rightarrow> issue_type \<Rightarrow> nat" where
  "get_node_issue_count_for_type F node ty =
     (case bm_get (issues_of_type F ty) node of Some issues \<Rightarrow> length issues | None \<Rightarrow> 0)"

definition calculate_node_score_for_type :: "fault_detection \<Rightarrow> xor_name \<Rightarrow> issue_type \<Rightarrow> f32" where
  "calculate_node_score_for_type F node ty =
     (let node_issue_count = get_node_issue_count_for_type F node ty in
      if node_issue_count = 0 then 0
      else
        (let other_node_counts = map (\<lambda>itr. f32_of_nat (get_node_issue_count_for_type F itr ty))
               (filter (\<lambda>itr. itr \<noteq> node) (non_elder_nodes F));
             average = case_option 1 id (get_mean_of other_node_counts)
         in f32_of_nat (node_issue_count - f32_to_usize average)))"

record score_results =
  communication_scores :: "(xor_name, f32) bmap"
  dkg_scores :: "(xor_name, f32) bmap"
  elder_voting_scores :: "(xor_name, f32) bmap"
  knowledge_scores :: "(xor_name, f32) bmap"
  op_scores :: "(xor_name, f32) bmap"
  probe_scores :: "(xor_name, f32) bmap"

definition score_nodes :: "fault_detection \<Rightarrow> xor_name bset \<Rightarrow> issue_type \<Rightarrow> (xor_name, f32) bmap" where
  "score_nodes F nodes ty =
     fold (\<lambda>node scores. bm_insert node (calculate_node_score_for_type F node ty) scores) nodes []"

definition calculate_scores :: "fault_detection \<Rightarrow> xor_name bset \<Rightarrow> score_results" where
  "calculate_scores F nodes_in_question =
     \<lparr> communication_scores = score_nodes F nodes_in_question Communication,
       dkg_scores = score_nodes F nodes_in_question Dkg,
       elder_voting_scores = score_nodes F nodes_in_question ElderVoting,
       knowledge_scores = score_nodes F nodes_in_question NetworkKnowledge,
       op_scores = score_nodes F nodes_in_question RequestOperation,
       probe_scores = score_nodes F nodes_in_question AeProbeMsg \<rparr>"

definition final_score :: "score_results \<Rightarrow> xor_name \<Rightarrow> f32 \<Rightarrow> f32" where
  "final_score scores name score =
     (let unwrap = (\<lambda>m. case_option 1 id (bm_get m name));
          ops_score = f32_mul score OP_WEIGHTING;
          conn_score = f32_mul (unwrap (communication_scores scores)) CONN_WEIGHTING;
          dkg_score = f32_mul (unwrap (dkg_scores scores)) DKG_WEIGHTING;
          elder_voting_score = f32_mul (unwrap (elder_voting_scores scores)) ELDER_VOTE_WEIGHTING;
          knowledge_score = f32_mul (unwrap (knowledge_scores scores)) KNOWLEDGE_WEIGHTING;
          probe_score = f32_mul (unwrap (probe_scores scores)) AE_PROBE_WEIGHTING
      in f32_add (f32_add (f32_add (f32_add (f32_add ops_score conn_score) knowledge_score)
           elder_voting_score) dkg_score) probe_score)"

definition score_threshold :: "f32 list \<Rightarrow> nat" where
  "score_threshold scores_only =
     (let mean = case_option 1 id (get_mean_of scores_only);
          std_dev = case_option 1 id (std_deviation scores_only);
          at_least_1_as_std_dev = (if std_dev < 1 then 1 else f32_ceil std_dev)
      in STD_DEVS_AWAY * f32_to_usize at_least_1_as_std_dev + f32_to_usize mean)"

definition get_weighted_scores :: "fault_detection \<Rightarrow> xor_name bset \<Rightarrow> (xor_name, nat) bmap" where
  "get_weighted_scores F nodes_in_question =
     (let scores = calculate_scores F nodes_in_question;
          scored = map (\<lambda>(name, score). (name, final_score scores name score)) (op_scores scores);
          pre_standardised_scores = bm_from_iter (map (\<lambda>(name, s). (name, f32_to_usize s)) scored);
          threshold = score_threshold (map snd scored)
      in bm_from_iter (filter (\<lambda>(name, score). score \<ge> threshold \<and> threshold > 1) pre_standardised_scores))"

definition retain_recent :: "nat \<Rightarrow> timed_tracker \<Rightarrow> timed_tracker" where
  "retain_recent now t = map (\<lambda>(node, issues). (node, filter (\<lambda>time. now - time < RECENT_ISSUE_DURATION) issues)) t"

definition cleanup_time_sensistive_checks :: "nat \<Rightarrow> fault_detection \<Rightarrow> fault_detection" where
  "cleanup_time_sensistive_checks now F =
     F\<lparr>communication_issues := retain_recent now (communication_issues F),
       probe_issues := retain_recent now (probe_issues F),
       network_knowledge_issues := retain_recent now (network_knowledge_issues F),
       dkg_issues := retain_recent now (dkg_issues F),
       unfulfilled_ops := retain_recent now (unfulfilled_ops F)\<rparr>"

definition highest_first :: "(xor_name, nat) bmap \<Rightarrow> xor_name list" where
  "highest_first scores = map fst (sort_by (\<lambda>a b. cmp_of (snd b) (snd a)) scores)"

definition get_faulty_nodes :: "nat \<Rightarrow> fault_detection \<Rightarrow> fault_detection \<times> xor_name list" where
  "get_faulty_nodes now F =
     (let F1 = cleanup_time_sensistive_checks now F;
          final_non_elder_scores = get_weighted_scores F1 (non_elder_nodes F1);
          final_elder_scores = get_weighted_scores F1 (fd_elders F1)
      in (F1, highest_first final_elder_scores @ highest_first final_non_elder_scores))"

section \<open>Properties of the fault detection\<close>

subsection \<open>Which nodes are reported\<close>

lemma threshold_ge_3: "3 \<le> score_threshold scores"
proof -
  have "1 \<le> f32_to_usize (if s < 1 then 1 else f32_ceil s)" for s
  proof (cases "s < 1")
    case False
    then have "1 \<le> \<lceil>s\<rceil>" by (simp add: le_ceiling_iff)
    then show ?thesis using False by (simp add: f32_to_usize_def f32_ceil_def le_nat_iff)
  qed (simp add: f32_to_usize_def)
  then show ?thesis by (simp add: score_threshold_def Let_def STD_DEVS_AWAY_def trans_le_add1)
qed

lemma score_nodes_map:
  assumes "bs_wf nodes"
  shows "score_nodes F nodes ty = map (\<lambda>n. (n, calculate_node_score_for_type F n ty)) nodes"
proof -
  have "score_nodes F nodes ty = bm_from_iter (map (\<lambda>n. (n, calculate_node_score_for_type F n ty)) nodes)"
    by (simp add: score_nodes_def bm_extend_def fold_map comp_def)
  then show ?thesis
    using assms bm_extend_sorted [of "[]" "map (\<lambda>n. (n, calculate_node_score_for_type F n ty)) nodes"]
    by (simp add: bm_wf_def bs_wf_def comp_def)
qed

text \<open>The score of a node, as \<open>get_weighted_scores\<close> computes it.\<close>

definition node_score :: "fault_detection \<Rightarrow> xor_name bset \<Rightarrow> xor_name \<Rightarrow> f32" where
  "node_score F nodes name =
     final_score (calculate_scores F nodes) name (calculate_node_score_for_type F name RequestOperation)"

lemma weighted_scores_eq:
  assumes "bs_wf nodes"
  shows "get_weighted_scores F nodes =
    filter (\<lambda>e. score_threshold (map (node_score F nodes) nodes) \<le> snd e)
      (map (\<lambda>n. (n, f32_to_usize (node_score F nodes n))) nodes)"
proof -
  let ?pre = "map (\<lambda>n. (n, f32_to_usize (node_score F nodes n))) nodes"
  have wf: "bm_wf ([] @ ?pre)" using assms by (simp add: bm_wf_def bs_wf_def comp_def)
  have scored: "map (\<lambda>(name, score). (name, final_score (calculate_scores F nodes) name score))
      (op_scores (calculate_scores F nodes)) = map (\<lambda>n. (n, node_score F nodes n)) nodes"
    by (simp add: calculate_scores_def [of F nodes, THEN arg_cong, of op_scores] score_nodes_map [OF assms] node_score_def)
  have gt: "Suc 0 < score_threshold scores" for scores using threshold_ge_3 [of scores] by simp
  have "get_weighted_scores F nodes =
      bm_from_iter (filter (\<lambda>e. score_threshold (map (node_score F nodes) nodes) \<le> snd e) (bm_from_iter ?pre))"
    unfolding get_weighted_scores_def Let_def scored by (simp add: comp_def gt case_prod_unfold)
  also have "\<dots> = filter (\<lambda>e. score_threshold (map (node_score F nodes) nodes) \<le> snd e) ?pre"
    using bm_extend_sorted [OF wf] bm_extend_sorted [of "[]" "filter (\<lambda>e. score_threshold (map (node_score F nodes) nodes) \<le> snd e) ?pre"]
      bm_wf_filter [OF wf] by simp
  finally show ?thesis .
qed

lemma no_issue_no_score:
  assumes "bs_wf nodes" "name \<in> set nodes" and "\<And>ty. get_node_issue_count_for_type F name ty = 0"
  shows "node_score F nodes name = 0"
proof -
  have "bm_get (score_nodes F nodes ty) name = Some 0" for ty
    using assms by (simp add: score_nodes_map map_of_map_restrict calculate_node_score_for_type_def)
  then show ?thesis
    using assms(3) by (simp add: node_score_def final_score_def calculate_scores_def calculate_node_score_for_type_def)
qed

lemma highest_first_order:
  "mset (highest_first scores) = mset (map fst scores) \<and>
   (\<exists>l. highest_first scores = map fst l \<and> set l = set scores \<and> sorted_wrt (\<lambda>a b. snd b \<le> snd a) l)"
proof -
  let ?cmp = "\<lambda>a b. cmp_of (snd b) (snd a) :: ordering"
  let ?l = "sort_by ?cmp scores"
  have "total_order ?cmp" by (auto simp: total_order_def cmp_of_def split: if_splits)
  then have "sorted_wrt (\<lambda>a b. ?cmp a b \<noteq> Greater) ?l" by (rule sorted_sort_by)
  then have "sorted_wrt (\<lambda>a b. snd b \<le> snd a) ?l"
    by (rule sorted_wrt_mono_rel [rotated]) (auto simp: cmp_of_def split: if_splits)
  then show ?thesis using mset_sort_by [of ?cmp scores]
    by (auto simp: highest_first_def set_sort_by)
qed

text \<open>The nodes of one role that are reported.\<close>

definition reported :: "fault_detection \<Rightarrow> xor_name bset \<Rightarrow> xor_name list \<Rightarrow> bool" where
  "reported F nodes names \<longleftrightarrow>
     distinct names \<and>
     set names = {n \<in> set nodes. score_threshold (map (node_score F nodes) nodes) \<le> f32_to_usize (node_score F nodes n)} \<and>
     sorted_wrt (\<lambda>a b. f32_to_usize (node_score F nodes b) \<le> f32_to_usize (node_score F nodes a)) names"

lemma highest_first_reported:
  assumes wf: "bs_wf nodes"
  shows "reported F nodes (highest_first (get_weighted_scores F nodes))"
proof -
  let ?w = "get_weighted_scores F nodes"
  obtain l where l: "highest_first ?w = map fst l" "set l = set ?w" "sorted_wrt (\<lambda>a b. snd b \<le> snd a) l"
    using highest_first_order by blast
  have score: "snd e = f32_to_usize (node_score F nodes (fst e))" if "e \<in> set l" for e
    using that unfolding l(2) weighted_scores_eq [OF wf] by auto
  have "distinct (map fst ?w)"
    using bs_wf_distinct [OF wf] by (simp add: weighted_scores_eq [OF wf] filter_map comp_def)
  then have "distinct (highest_first ?w)"
    using highest_first_order [of ?w] by (metis mset_eq_imp_distinct_iff)
  moreover have "set (highest_first ?w) = {n \<in> set nodes.
      score_threshold (map (node_score F nodes) nodes) \<le> f32_to_usize (node_score F nodes n)}"
  proof -
    have "set (highest_first ?w) = fst ` set ?w" using l(1,2) by simp
    also have "\<dots> = {n \<in> set nodes.
        score_threshold (map (node_score F nodes) nodes) \<le> f32_to_usize (node_score F nodes n)}"
      unfolding weighted_scores_eq [OF wf] by force
    finally show ?thesis .
  qed
  moreover have "sorted_wrt (\<lambda>a b. f32_to_usize (node_score F nodes b) \<le> f32_to_usize (node_score F nodes a))
      (highest_first ?w)"
    unfolding l(1) sorted_wrt_map by (rule sorted_wrt_mono_rel [OF _ l(3)]) (simp add: score)
  ultimately show ?thesis unfolding reported_def by blast
qed

lemma reported_has_issue:
  assumes "bs_wf nodes" and "reported F nodes names" and "n \<in> set names"
  shows "\<exists>ty. 0 < get_node_issue_count_for_type F n ty"
proof (rule ccontr)
  assume "\<not> ?thesis"
  then have "node_score F nodes n = 0" using assms by (intro no_issue_no_score) (auto simp: reported_def)
  with assms(2,3) threshold_ge_3 [of "map (node_score F nodes) nodes"] show False by (auto simp: reported_def)
qed

lemma cleanup_recent:
  assumes "ty \<noteq> ElderVoting" and "bm_get (issues_of_type (cleanup_time_sensistive_checks now F) ty) n = Some issues"
  shows "list_all (\<lambda>time. now - time < RECENT_ISSUE_DURATION) issues"
proof -
  have "list_all (\<lambda>time. now - time < RECENT_ISSUE_DURATION) issues"
    if "bm_get (retain_recent now t) n = Some issues" for t
    using that by (auto simp: retain_recent_def map_of_map list_all_iff)
  then show ?thesis using assms by (cases ty) (auto simp: cleanup_time_sensistive_checks_def)
qed

text \<open>
  C26. \<open>get_faulty_nodes\<close> reports the elders first and then the other nodes, of each role exactly the nodes
  whose weighted score reaches the threshold of the role, once and in the order of their scores.
  Whoever is reported has an issue: one of the last ten minutes, or an elder voting issue, whose age
  is not looked at.
\<close>

theorem faulty_nodes_reported:
  assumes wf: "bs_wf (non_elder_nodes F)" "bs_wf (fd_elders F)"
  shows "case get_faulty_nodes now F of (F', faulty) \<Rightarrow>
    \<exists>es ns. faulty = es @ ns \<and> reported F' (fd_elders F) es \<and> reported F' (non_elder_nodes F) ns \<and>
      (\<forall>n \<in> set faulty. \<exists>ty. 0 < get_node_issue_count_for_type F' n ty \<and>
         (ty = ElderVoting \<or> list_all (\<lambda>time. now - time < RECENT_ISSUE_DURATION)
            (the (bm_get (issues_of_type F' ty) n))))"
proof -
  let ?F = "cleanup_time_sensistive_checks now F"
  let ?es = "highest_first (get_weighted_scores ?F (fd_elders F))"
  let ?ns = "highest_first (get_weighted_scores ?F (non_elder_nodes F))"
  have sets: "non_elder_nodes ?F = non_elder_nodes F" "fd_elders ?F = fd_elders F"
    by (simp_all add: cleanup_time_sensistive_checks_def)
  have r: "reported ?F (fd_elders F) ?es" "reported ?F (non_elder_nodes F) ?ns"
    using highest_first_reported wf by blast+
  have "\<exists>ty. 0 < get_node_issue_count_for_type ?F n ty" if "n \<in> set (?es @ ?ns)" for n
    using that reported_has_issue [OF wf(2) r(1)] reported_has_issue [OF wf(1) r(2)] by auto
  moreover have "list_all (\<lambda>time. now - time < RECENT_ISSUE_DURATION) (the (bm_get (issues_of_type ?F ty) n))"
    if "0 < get_node_issue_count_for_type ?F n ty" "ty \<noteq> ElderVoting" for n ty
    using that cleanup_recent [OF that(2)]
    by (auto simp: get_node_issue_count_for_type_def split: option.splits)
  ultimately have "\<forall>n \<in> set (?es @ ?ns). \<exists>ty. 0 < get_node_issue_count_for_type ?F n ty \<and>
      (ty = ElderVoting \<or> list_all (\<lambda>time. now - time < RECENT_ISSUE_DURATION)
         (the (bm_get (issues_of_type ?F ty) n)))" by blast
  moreover have "get_faulty_nodes now F = (?F, ?es @ ?ns)" by (simp add: get_faulty_nodes_def Let_def sets)
  ultimately show ?thesis using r by auto
qed

text \<open>One node fails requests, and no other node has an issue.\<close>

definition failing :: "nat \<Rightarrow> fault_detection \<Rightarrow> fault_detection" where
  "failing k F = fold (\<lambda>_ F. track_issue 100 F [1] RequestOperation) [0..<k] F"

definition sample_nodes :: "nat \<Rightarrow> xor_name list" where
  "sample_nodes k = map (\<lambda>i. [word_of_nat i]) [1..<k + 1]"

lemma failing_fields:
  "failing k (fd_new ns es) =
     (fd_new ns es)\<lparr>unfulfilled_ops := if k = 0 then [] else [([1], replicate k 100)]\<rparr>"
proof (induction k)
  case (Suc k)
  then show ?case by (simp add: failing_def push_issue_def replicate_append_same fd_new_def)
qed (simp add: failing_def fd_new_def)

lemma failing_sets:
  "non_elder_nodes (failing k (fd_new ns es)) = ns" "fd_elders (failing k (fd_new ns es)) = es"
  unfolding failing_fields by (simp_all add: fd_new_def)

lemma cleanup_failing: "cleanup_time_sensistive_checks 100 (failing k (fd_new ns es)) = failing k (fd_new ns es)"
  unfolding failing_fields
  by (simp add: cleanup_time_sensistive_checks_def fd_new_def retain_recent_def
      RECENT_ISSUE_DURATION_def)

lemma failing_count:
  "get_node_issue_count_for_type (failing k (fd_new ns es)) n ty =
     (if ty = RequestOperation \<and> n = [1] then k else 0)"
  unfolding failing_fields by (cases ty) (simp_all add: get_node_issue_count_for_type_def fd_new_def)

theorem faulty_nodes_reported_witness:
  "case get_faulty_nodes 100 (failing 20 (fd_new (sample_nodes 3) [])) of (F', faulty) \<Rightarrow>
     \<exists>es ns. faulty = es @ ns \<and> reported F' [] es \<and> reported F' (sample_nodes 3) ns"
proof -
  let ?F = "failing 20 (fd_new (sample_nodes 3) [])"
  have "bs_wf (non_elder_nodes ?F)" "bs_wf (fd_elders ?F)"
    by (simp_all add: failing_sets bs_wf_def sample_nodes_def upt_rec)
  from faulty_nodes_reported [OF this, of 100] show ?thesis
    by (auto simp: failing_sets split: prod.splits)
qed

lemma failing_score:
  assumes "bs_wf nodes" and "n \<in> set nodes" and "\<bar>m\<bar> < 2 ^ 24"
    and "calculate_node_score_for_type (failing k (fd_new ns es)) [1] RequestOperation = of_int m"
  shows "node_score (failing k (fd_new ns es)) nodes n = (if n = [1] then of_int m else 0)"
proof -
  have "calculate_node_score_for_type (failing k (fd_new ns es)) n ty = 0"
    if "ty \<noteq> RequestOperation \<or> n \<noteq> [1]" for n ty
    using that by (auto simp: calculate_node_score_for_type_def failing_count)
  then show ?thesis using assms fl_round_int [of m 24]
    by (simp add: node_score_def final_score_def calculate_scores_def score_nodes_map map_of_map_restrict
        OP_WEIGHTING_def f32_add_def f32_mul_def)
qed

lemma filter_eq_distinct: "distinct xs \<Longrightarrow> filter (\<lambda>x. x = a) xs = (if a \<in> set xs then [a] else [])"
  by (induction xs) auto

lemma weighted_scores_failing:
  assumes "bs_wf nodes" and "\<bar>m\<bar> < 2 ^ 24"
    and "calculate_node_score_for_type (failing k (fd_new ns es)) [1] RequestOperation = of_int m"
  shows "get_weighted_scores (failing k (fd_new ns es)) nodes =
    (if [1] \<in> set nodes \<and> score_threshold (map (\<lambda>n. if n = [1] then of_int m else 0) nodes) \<le> f32_to_usize (of_int m)
     then [([1], f32_to_usize (of_int m))] else [])"
proof -
  let ?F = "failing k (fd_new ns es)"
  have s: "node_score ?F nodes n = (if n = [1] then of_int m else 0)" if "n \<in> set nodes" for n
    by (rule failing_score [OF assms(1) that assms(2,3)])
  have m: "map (node_score ?F nodes) nodes = map (\<lambda>n. if n = [1] then of_int m else 0) nodes"
    using s by simp
  let ?t = "score_threshold (map (\<lambda>n. if n = [1] then of_int m else 0) nodes)"
  have "get_weighted_scores ?F nodes =
      map (\<lambda>n. (n, f32_to_usize (node_score ?F nodes n))) (filter (\<lambda>n. ?t \<le> f32_to_usize (node_score ?F nodes n)) nodes)"
    unfolding weighted_scores_eq [OF assms(1)] m by (simp add: filter_map comp_def)
  also have "filter (\<lambda>n. ?t \<le> f32_to_usize (node_score ?F nodes n)) nodes
      = filter (\<lambda>n. n = [1] \<and> ?t \<le> f32_to_usize (of_int m)) nodes"
    using s threshold_ge_3 [of "map (\<lambda>n. if n = [1] then of_int m else 0) nodes"]
    by (intro filter_cong) (auto split: if_splits)
  also have "\<dots> = (if [1] \<in> set nodes \<and> ?t \<le> f32_to_usize (of_int m) then [[1]] else [])"
    using filter_eq_distinct [OF bs_wf_distinct [OF assms(1)], of "[1]"] by simp
  finally show ?thesis using s by simp
qed

text \<open>
  An elder that fails twenty-two requests while the other six elders of a section of the default size
  have no issue at all is not reported, since one score out of seven cannot be three standard
  deviations above the mean; twenty-four failures of one node out of twelve are reported.
\<close>

theorem failing_elder_unreported:
  "snd (get_faulty_nodes 100 (failing 22 (fd_new [] (sample_nodes 7)))) = [] \<and>
   snd (get_faulty_nodes 100 (failing 24 (fd_new (sample_nodes 12) []))) = [[1]]"
proof -
  let ?E = "failing 22 (fd_new [] (sample_nodes 7))" and ?N = "failing 24 (fd_new (sample_nodes 12) [])"
  have nodes: "sample_nodes 7 = [[1], [2], [3], [4], [5], [6], [7]]"
    "sample_nodes 12 = [[1], [2], [3], [4], [5], [6], [7], [8], [9], [10], [11], [12]]"
    by (simp_all add: sample_nodes_def upt_rec)
  have wf: "bs_wf (sample_nodes 7)" "bs_wf (sample_nodes 12)" by (simp_all add: bs_wf_def nodes)
  have sqrt: "\<not> f32_sqrt 54 < 1" "f32_ceil (f32_sqrt 54) = 8" "\<not> f32_sqrt 44 < 1" "f32_ceil (f32_sqrt 44) = 7"
    by code_simp+
  have c: "calculate_node_score_for_type ?E [1] RequestOperation = of_int 21"
    "calculate_node_score_for_type ?N [1] RequestOperation = of_int 24"
    by (simp_all add: calculate_node_score_for_type_def failing_count failing_sets get_mean_of_def f32_to_usize_def
        f32_of_nat_def nodes f32_sum_def f32_add_def f32_div_def)
  have t: "score_threshold (map (\<lambda>n. if n = [1] then of_int 21 else 0) (sample_nodes 7)) = 27"
    "score_threshold (map (\<lambda>n. if n = [1] then of_int 24 else 0) (sample_nodes 12)) = 23"
    by (simp_all add: score_threshold_def nodes get_mean_of_def std_deviation_def f32_sum_def f32_add_def f32_sub_def
        f32_mul_def f32_div_def f32_of_nat_def sqrt STD_DEVS_AWAY_def f32_to_usize_def)
  have "get_weighted_scores ?E (sample_nodes 7) = []" "get_weighted_scores ?N (sample_nodes 12) = [([1], 24)]"
    using weighted_scores_failing [OF wf(1) _ c(1)] weighted_scores_failing [OF wf(2) _ c(2)] t
    by (simp_all add: nodes f32_to_usize_def)
  moreover have "get_weighted_scores F [] = []" for F
    by (simp add: weighted_scores_eq bs_wf_Nil)
  ultimately show ?thesis
    by (simp add: get_faulty_nodes_def Let_def cleanup_failing failing_sets highest_first_def sort_by_def)
qed

subsection \<open>Following the members\<close>

lemma forget_issues: "bm_get (issues_of_type (forget_node m F) ty) = (bm_get (issues_of_type F ty))(m := None)"
  by (cases ty) (simp_all add: forget_node_def bm_get_remove fun_eq_iff)

lemma fold_forget:
  "bm_get (issues_of_type (fold forget_node ms F) ty) n =
     (if n \<in> set ms then None else bm_get (issues_of_type F ty) n)"
  "non_elder_nodes (fold forget_node ms F) = non_elder_nodes F"
  "fd_elders (fold forget_node ms F) = fd_elders F"
  by (induction ms arbitrary: F) (auto simp: forget_issues, simp_all add: forget_node_def)

text \<open>
  \<open>update_and_only_retain_members\<close> tracks exactly the given nodes. A node that was tracked and is
  no longer a member loses its issues of every type; no issue of any other node is touched.
\<close>

theorem retain_members_correct:
  "let F' = update_and_only_retain_members F nodes elders in
   non_elder_nodes F' = nodes \<and> fd_elders F' = elders \<and>
   (\<forall>ty n. bm_get (issues_of_type F' ty) n =
      (if n \<in> set (non_elder_nodes F) \<union> set (fd_elders F) - (set nodes \<union> set elders) then None
       else bm_get (issues_of_type F ty) n))"
proof -
  have issues: "issues_of_type (F\<lparr>non_elder_nodes := nodes, fd_elders := elders\<rparr>) ty = issues_of_type F ty" for ty
    by (cases ty) simp_all
  show ?thesis
    by (simp add: update_and_only_retain_members_def Let_def fold_forget issues all_current_nodes_def
        set_fold_bs_insert)
qed

end
