(* ===== verification/Register_Storage.thy ===== *)
theory Register_Storage
  imports Data_Messages
begin

section \<open>Register storage\<close>

text \<open>
  \<open>sn_node/src/storage/register_store.rs\<close> and \<open>registers.rs\<close>. A register is kept as the commands that
  make it, each in a file of its own in the directory of the register. A file is named by the hash
  of the serialised command. The register itself is reconstructed from the commands when it is
  needed.

  Serialisation (crate \<open>bincode\<close>), the hash (crate \<open>tiny_keccak\<close>) and the size of a command in memory are
  the parameter \<open>reg_codec\<close>.
\<close>

record reg_codec =
  enc_address :: "register_address \<Rightarrow> bytes option"
  enc_create :: "create_register \<Rightarrow> bytes option"
  enc_edit :: "edit_register \<Rightarrow> bytes option"
  enc_cmd :: "register_cmd \<Rightarrow> bytes option"
  dec_cmd :: "bytes \<Rightarrow> register_cmd option"
  sha3_64 :: "bytes \<Rightarrow> bytes"
  size_of_cmd :: nat

text \<open>The parameters of the storage, together.\<close>

record 'm reg_env =
  re_merkle :: "'m reg_api"
  re_keys :: key_api
  re_bls :: bls_api
  re_fmt :: fmt_api
  re_codec :: reg_codec
  re_env :: "string option"
  re_faults :: io_faults

record 'm stored_register =
  sr_state :: "'m register option"
  sr_op_log :: "register_cmd list"
  sr_op_log_path :: path

subsection \<open>The store on disk\<close>

definition address_to_filepath :: "'m reg_env \<Rightarrow> path \<Rightarrow> register_address \<Rightarrow> (path, storage_error) result" where
  "address_to_filepath P dir addr =
     and_then (ok_or (enc_address (re_codec P) addr) Bincode)
       (\<lambda>bs. let reg_id = from_content_parts (re_keys P) [bs] in
          Ok (prefix_tree_path (re_fmt P) dir reg_id @ [hex_encode (re_fmt P) reg_id]))"

fun collect_addrs ::
  "'m reg_env \<Rightarrow> storage \<Rightarrow> path list \<Rightarrow> (path, register_address) bmap \<Rightarrow> (path, register_address) bmap" where
  "collect_addrs P S [] addrs = addrs"
| "collect_addrs P S (op_file # rest) addrs =
     (let parent = butlast op_file in
      collect_addrs P S rest
        (if bm_has addrs parent then addrs
         else case fs_read (re_faults P) (st_disk S) op_file of
                Ok bs \<Rightarrow> (case dec_cmd (re_codec P) bs of
                    Some cmd \<Rightarrow> bm_insert parent (cmd_dst_address cmd) addrs | None \<Rightarrow> addrs)
              | Err _ \<Rightarrow> addrs))"

definition list_all_reg_addrs :: "'m reg_env \<Rightarrow> path \<Rightarrow> storage \<Rightarrow> register_address list" where
  "list_all_reg_addrs P dir S = bm_values (collect_addrs P S (list_files_in (st_disk S) dir) [])"

definition delete_data ::
  "'m reg_env \<Rightarrow> path \<Rightarrow> storage \<Rightarrow> register_address \<Rightarrow> storage \<times> (unit, storage_error) result" where
  "delete_data P dir S addr =
     (case address_to_filepath P dir addr of
        Err e \<Rightarrow> (S, Err e)
      | Ok filepath \<Rightarrow>
          (case fs_metadata_len (re_faults P) (st_disk S) filepath of
             Err e \<Rightarrow> (S, Err (Io e))
           | Ok len \<Rightarrow>
               (case fs_remove_file (re_faults P) (st_disk S) filepath of
                  (D, Err e) \<Rightarrow> (S\<lparr>st_disk := D\<rparr>, Err (Io e))
                | (D, Ok _) \<Rightarrow> (S\<lparr>st_disk := D, st_used := decrease (st_used S) (of_nat len)\<rparr>, Ok ()))))"

definition read_cmd :: "'m reg_env \<Rightarrow> storage \<Rightarrow> path \<Rightarrow> register_cmd option" where
  "read_cmd P S filepath =
     (case fs_read (re_faults P) (st_disk S) filepath of
        Ok bs \<Rightarrow> dec_cmd (re_codec P) bs | Err _ \<Rightarrow> None)"

definition push_cmd :: "'m reg_api \<Rightarrow> register_cmd \<Rightarrow> 'm stored_register \<Rightarrow> 'm stored_register" where
  "push_cmd M reg_cmd stored_reg =
     (let stored_reg1 = stored_reg\<lparr>sr_op_log := sr_op_log stored_reg @ [reg_cmd]\<rparr> in
      case reg_cmd of
        CreateCmd op auth sg \<Rightarrow>
          (if sr_state stored_reg1 = None
           then stored_reg1\<lparr>sr_state := Some (register_new M (pol_owner (cr_policy op)) (cr_name op) (cr_tag op) (cr_policy op))\<rparr>
           else stored_reg1)
      | EditCmd _ _ \<Rightarrow> stored_reg1)"

definition open_reg_log_from_disk ::
  "'m reg_env \<Rightarrow> path \<Rightarrow> storage \<Rightarrow> register_address \<Rightarrow> ('m stored_register, storage_error) result" where
  "open_reg_log_from_disk P dir S addr =
     and_then (address_to_filepath P dir addr)
       (\<lambda>path. let stored_reg = \<lparr> sr_state = None, sr_op_log = [], sr_op_log_path = path \<rparr> in
          if \<not> fs_exists (st_disk S) path then Ok stored_reg
          else Ok (fold (\<lambda>filepath s. case read_cmd P S filepath of
                  Some reg_cmd \<Rightarrow> push_cmd (re_merkle P) reg_cmd s | None \<Rightarrow> s)
                (list_files_in (st_disk S) path) stored_reg))"

definition register_operation_id :: "'m reg_env \<Rightarrow> register_cmd \<Rightarrow> (string, storage_error) result" where
  "register_operation_id P cmd =
     map_ok (\<lambda>bs. hex_encode (re_fmt P) (sha3_64 (re_codec P) bs)) (ok_or (enc_cmd (re_codec P) cmd) (NetworkData Serialisation))"

definition write_register_cmd ::
  "'m reg_env \<Rightarrow> storage \<Rightarrow> register_cmd \<Rightarrow> path \<Rightarrow> storage \<times> (storage_level, storage_error) result" where
  "write_register_cmd P S cmd path =
     (let F = re_faults P; required_space = of_nat (size_of_cmd (re_codec P)) in
      if \<not> can_add (st_used S) required_space then (S, Err NotEnoughSpace)
      else case register_operation_id P cmd of
        Err e \<Rightarrow> (S, Err e)
      | Ok reg_cmd_id \<Rightarrow>
          (let p = path @ [reg_cmd_id] in
           if fs_exists (st_disk S) p then (S, Ok NoChange)
           else case fs_create F (st_disk S) p of
             (D1, Err e) \<Rightarrow> (S\<lparr>st_disk := D1\<rparr>, Err (Io e))
           | (D1, Ok _) \<Rightarrow>
               (case enc_cmd (re_codec P) cmd of
                  None \<Rightarrow> (S\<lparr>st_disk := D1\<rparr>, Err (NetworkData Serialisation))
                | Some serialized_data \<Rightarrow>
                    (case fs_write_all F D1 p serialized_data of
                       (D2, Err e) \<Rightarrow> (S\<lparr>st_disk := D2\<rparr>, Err (Io e))
                     | (D2, Ok _) \<Rightarrow>
                         (case fs_sync F p of
                            Err e \<Rightarrow> (S\<lparr>st_disk := D2\<rparr>, Err (Io e))
                          | Ok _ \<Rightarrow>
                              (case increase (re_env P) (st_used S) required_space of
                                 None \<Rightarrow> (S\<lparr>st_disk := D2\<rparr>, Err StPanic)
                               | Some (U, level) \<Rightarrow> (S\<lparr>st_disk := D2, st_used := U\<rparr>, Ok level)))))))"

fun write_cmds ::
  "'m reg_env \<Rightarrow> path \<Rightarrow> storage \<Rightarrow> register_cmd list \<Rightarrow> storage_error option \<Rightarrow> storage_level
     \<Rightarrow> storage \<times> (storage_level, storage_error) result" where
  "write_cmds P path S [] last_err level = (S, case last_err of Some e \<Rightarrow> Err e | None \<Rightarrow> Ok level)"
| "write_cmds P path S (cmd # cmds) last_err level =
     (case write_register_cmd P S cmd path of
        (S1, Ok l) \<Rightarrow> write_cmds P path S1 cmds last_err
           (case (l, level) of (Updated _, NoChange) \<Rightarrow> l | _ \<Rightarrow> level)
      | (S1, Err e) \<Rightarrow> write_cmds P path S1 cmds (Some e) level)"

definition write_log_to_disk ::
  "'m reg_env \<Rightarrow> storage \<Rightarrow> register_cmd list \<Rightarrow> path \<Rightarrow> storage \<times> (storage_level, storage_error) result" where
  "write_log_to_disk P S cmds path =
     (if cmds = [] then (S, Ok NoChange)
      else case create_dir_all (re_faults P) (st_disk S) path of
        (D, Err e) \<Rightarrow> (S\<lparr>st_disk := D\<rparr>, Err (Io e))
      | (D, Ok _) \<Rightarrow> write_cmds P path (S\<lparr>st_disk := D\<rparr>) cmds None NoChange)"

subsection \<open>Applying commands\<close>

definition apply_cmd ::
  "'m reg_env \<Rightarrow> register_cmd \<Rightarrow> 'm register \<Rightarrow> 'm register \<times> (unit, storage_error) result" where
  "apply_cmd P cmd R =
     (let addr = cmd_dst_address cmd in
      if addr \<noteq> reg_address R then (R, Err (RegisterAddrMismatch addr (reg_address R)))
      else case cmd of
        CreateCmd _ _ _ \<Rightarrow> (R, Ok ())
      | EditCmd op auth \<Rightarrow>
          (let public_key = ca_public_key auth in
           case enc_edit (re_codec P) op of
             None \<Rightarrow> (R, Err Bincode)
           | Some bs \<Rightarrow>
               if \<not> is_ok (verify_authority (re_keys P) (re_bls P) auth bs)
               then (R, Err (StInvalidSignature public_key))
               else case check_permissions R Write (Some (UserKey public_key)) of
                 Err e \<Rightarrow> (R, Err (NetworkData e))
               | Ok _ \<Rightarrow>
                   (let (R', r) = reg_apply_op (re_merkle P) R (er_edit op) in (R', map_err NetworkData r))))"

fun apply_cmds ::
  "'m reg_env \<Rightarrow> register_cmd list \<Rightarrow> 'm register \<Rightarrow> ('m register, storage_error) result" where
  "apply_cmds P [] R = Ok R"
| "apply_cmds P (cmd # cmds) R =
     (case apply_cmd P cmd R of (R', Ok _) \<Rightarrow> apply_cmds P cmds R' | (R', Err e) \<Rightarrow> Err e)"

definition try_to_apply_cmd_against_register_state ::
  "'m reg_env \<Rightarrow> register_cmd \<Rightarrow> 'm stored_register \<Rightarrow> 'm stored_register \<times> (unit, storage_error) result" where
  "try_to_apply_cmd_against_register_state P cmd stored_reg =
     (let push = (\<lambda>s. s\<lparr>sr_op_log := sr_op_log s @ [cmd]\<rparr>) in
      case (sr_state stored_reg, cmd) of
        (Some _, CreateCmd _ _ _) \<Rightarrow> (stored_reg, Ok ())
      | (Some R, EditCmd _ _) \<Rightarrow>
          (case apply_cmd P cmd R of
             (R', Err e) \<Rightarrow> (stored_reg\<lparr>sr_state := Some R'\<rparr>, Err e)
           | (R', Ok _) \<Rightarrow> (push (stored_reg\<lparr>sr_state := Some R'\<rparr>), Ok ()))
      | (None, CreateCmd op auth _) \<Rightarrow>
          (case enc_create (re_codec P) op of
             None \<Rightarrow> (stored_reg, Err Bincode)
           | Some bs \<Rightarrow>
               if \<not> is_ok (verify_authority (re_keys P) (re_bls P) auth bs)
               then (stored_reg, Err (StInvalidSignature (ca_public_key auth)))
               else case apply_cmds P (sr_op_log stored_reg)
                      (register_new (re_merkle P) (pol_owner (cr_policy op)) (cr_name op) (cr_tag op) (cr_policy op)) of
                 Err e \<Rightarrow> (stored_reg, Err e)
               | Ok R \<Rightarrow> (push (stored_reg\<lparr>sr_state := Some R\<rparr>), Ok ()))
      | (None, EditCmd _ _) \<Rightarrow> (push stored_reg, Ok ()))"

fun replay_edits ::
  "'m reg_api \<Rightarrow> register_cmd list \<Rightarrow> 'm register \<Rightarrow> ('m register, storage_error) result" where
  "replay_edits M [] R = Ok R"
| "replay_edits M (CreateCmd _ _ _ # cmds) R = replay_edits M cmds R"
| "replay_edits M (EditCmd op _ # cmds) R =
     (case reg_apply_op M R (er_edit op) of
        (R', Ok _) \<Rightarrow> replay_edits M cmds R' | (_, Err e) \<Rightarrow> Err (NetworkData e))"

definition try_load_stored_register ::
  "'m reg_env \<Rightarrow> path \<Rightarrow> storage \<Rightarrow> register_address \<Rightarrow> ('m stored_register, storage_error) result" where
  "try_load_stored_register P dir S addr =
     and_then (open_reg_log_from_disk P dir S addr)
       (\<lambda>stored_reg. case sr_state stored_reg of
          None \<Rightarrow> Ok stored_reg
        | Some R \<Rightarrow> map_ok (\<lambda>R'. stored_reg\<lparr>sr_state := Some R'\<rparr>) (replay_edits (re_merkle P) (sr_op_log stored_reg) R))"

subsection \<open>Writing\<close>

definition REGISTER_STORE_DIR_NAME :: string where
  "REGISTER_STORE_DIR_NAME = ''register''"

definition register_root :: "path \<Rightarrow> path" where
  "register_root base = base @ [REGISTER_STORE_DIR_NAME]"

definition remove_register ::
  "'m reg_env \<Rightarrow> path \<Rightarrow> storage \<Rightarrow> register_address \<Rightarrow> storage \<times> (unit, storage_error) result" where
  "remove_register P dir S address = delete_data P dir S address"

definition get_register_replica ::
  "'m reg_env \<Rightarrow> path \<Rightarrow> storage \<Rightarrow> register_address \<Rightarrow> (replicated_register_log, storage_error) result" where
  "get_register_replica P dir S address =
     map_ok (\<lambda>stored_reg. \<lparr> rl_address = address, rl_op_log = sr_op_log stored_reg \<rparr>) (try_load_stored_register P dir S address)"

fun apply_replicated ::
  "'m reg_env \<Rightarrow> register_cmd list \<Rightarrow> 'm stored_register \<Rightarrow> register_cmd list \<Rightarrow> 'm stored_register \<times> register_cmd list" where
  "apply_replicated P [] stored_reg log_to_write = (stored_reg, log_to_write)"
| "apply_replicated P (cmd # cmds) stored_reg log_to_write =
     (case try_to_apply_cmd_against_register_state P cmd stored_reg of
        (stored_reg1, Err _) \<Rightarrow> apply_replicated P cmds stored_reg1 log_to_write
      | (stored_reg1, Ok _) \<Rightarrow> apply_replicated P cmds stored_reg1 (log_to_write @ [cmd]))"

definition update_register ::
  "'m reg_env \<Rightarrow> path \<Rightarrow> storage \<Rightarrow> replicated_register_log \<Rightarrow> storage \<times> (storage_level, storage_error) result" where
  "update_register P dir S data =
     (case try_load_stored_register P dir S (rl_address data) of
        Err e \<Rightarrow> (S, Err e)
      | Ok stored_reg \<Rightarrow>
          (let (stored_reg1, log_to_write) = apply_replicated P (rl_op_log data) stored_reg [] in
           write_log_to_disk P S log_to_write (sr_op_log_path stored_reg1)))"

definition write_register ::
  "'m reg_env \<Rightarrow> path \<Rightarrow> storage \<Rightarrow> register_cmd \<Rightarrow> storage \<times> (storage_level, storage_error) result" where
  "write_register P dir S cmd =
     (case try_load_stored_register P dir S (cmd_dst_address cmd) of
        Err e \<Rightarrow> (S, Err e)
      | Ok stored_reg \<Rightarrow>
          (case try_to_apply_cmd_against_register_state P cmd stored_reg of
             (_, Err e) \<Rightarrow> (S, Err e)
           | (stored_reg1, Ok _) \<Rightarrow> write_log_to_disk P S [cmd] (sr_op_log_path stored_reg1)))"

subsection \<open>Reading\<close>

definition get_register ::
  "'m reg_env \<Rightarrow> path \<Rightarrow> storage \<Rightarrow> register_address \<Rightarrow> action \<Rightarrow> user \<Rightarrow> ('m register, storage_error) result" where
  "get_register P dir S address a requester =
     and_then (try_load_stored_register P dir S address)
       (\<lambda>stored_reg. case sr_state stored_reg of
          Some R \<Rightarrow> map_ok (\<lambda>_. R) (map_err NetworkData (check_permissions R a (Some requester)))
        | None \<Rightarrow> Err (RegisterNotFound address))"

definition read_register_query ::
  "'m reg_env \<Rightarrow> path \<Rightarrow> storage \<Rightarrow> register_query \<Rightarrow> user \<Rightarrow> 'm query_response" where
  "read_register_query P dir S query requester =
     (let M = re_merkle P;
          get = (\<lambda>address. get_register P dir S address Read requester);
          conv = data_error_of_storage
      in case query of
        GetReg address \<Rightarrow> GetRegisterR (map_err conv (get address))
      | ReadReg address \<Rightarrow> ReadRegisterR (map_err conv (map_ok (reg_read M) (get address)))
      | GetOwner address \<Rightarrow> GetRegisterOwnerR (map_err conv (map_ok reg_owner (get address)))
      | GetEntry address h \<Rightarrow>
          GetRegisterEntryR (map_err conv (and_then (get address) (\<lambda>R. map_err NetworkData (reg_get M R h))))
      | GetPolicy address \<Rightarrow> GetRegisterPolicyR (map_err conv (map_ok reg_policy (get address)))
      | GetUserPermissions address u \<Rightarrow>
          GetRegisterUserPermissionsR (map_err conv (and_then (get address) (\<lambda>R. map_err NetworkData (reg_permissions R u)))))"

subsection \<open>Spentbook registers\<close>

definition SPENTBOOK_TYPE_TAG :: u64 where
  "SPENTBOOK_TYPE_TAG = 0"

text \<open>The key pair of the node signs (\<open>sign\<close>), and the section signature is made with a random key.\<close>

definition create_reg_w_policy ::
  "'m reg_env \<Rightarrow> (bytes \<Rightarrow> any_signature) \<Rightarrow> any_key \<Rightarrow> section_sig \<Rightarrow> xor_name \<Rightarrow> u64 \<Rightarrow> policy
     \<Rightarrow> (register_cmd, storage_error) result" where
  "create_reg_w_policy P sign node_key sg name tag pol =
     (let op = \<lparr> cr_name = name, cr_tag = tag, cr_policy = pol \<rparr> in
      map_ok (\<lambda>bs. CreateCmd op \<lparr> ca_public_key = node_key, ca_signature = sign bs \<rparr> sg)
        (ok_or (enc_create (re_codec P) op) Bincode))"

definition write_spentbook_register ::
  "'m reg_env \<Rightarrow> (bytes \<Rightarrow> any_signature) \<Rightarrow> any_key \<Rightarrow> section_sig \<Rightarrow> path \<Rightarrow> storage \<Rightarrow> register_cmd \<Rightarrow> any_key
     \<Rightarrow> storage \<times> (storage_level, storage_error) result" where
  "write_spentbook_register P sign node_key sg dir S cmd section_pk =
     (let address = cmd_dst_address cmd;
          pol = \<lparr> pol_owner = UserKey section_pk, pol_permissions = [(Anyone, Permissions (Some True))] \<rparr>
      in case create_reg_w_policy P sign node_key sg (reg_name address) SPENTBOOK_TYPE_TAG pol of
           Err e \<Rightarrow> (S, Err e)
         | Ok create_cmd \<Rightarrow> update_register P dir S \<lparr> rl_address = address, rl_op_log = [create_cmd, cmd] \<rparr>)"

end
