(* ===== verification/Register_Log.thy ===== *)
theory Register_Log
  imports Register_Storage
begin

section \<open>Properties of the register storage\<close>

text \<open>
  What is kept on disk of a register is a log of commands. The theory shows which commands change a
  register, that a written command is found again, that the order in which the files of a log are met
  does not matter, and three ways in which the storage of commands fails its purpose.
\<close>

subsection \<open>Which edits are accepted\<close>

definition edit_accepted :: "'m reg_env \<Rightarrow> 'm register \<Rightarrow> edit_register \<Rightarrow> client_auth \<Rightarrow> bool" where
  "edit_accepted P R op auth \<longleftrightarrow>
     er_address op = reg_address R \<and>
     (case enc_edit (re_codec P) op of
        Some bs \<Rightarrow> is_ok (verify_authority (re_keys P) (re_bls P) auth bs) | None \<Rightarrow> False) \<and>
     is_action_allowed (reg_policy R) (UserKey (ca_public_key auth)) Write = Ok () \<and>
     op_fits (re_merkle P) R (er_edit op) \<and> reg_size (re_merkle P) R < MAX_REG_NUM_ENTRIES"

lemma apply_op_cases:
  "reg_apply_op M R op =
     (if op_fits M R op \<and> reg_size M R < MAX_REG_NUM_ENTRIES
      then (with_data R (mr_apply M (rc_data (reg_crdt R)) (op_crdt_op op)), Ok ())
      else (R, Err (if length (node_value (op_crdt_op op)) > MAX_REG_ENTRY_SIZE M
              then EntryTooBig (length (node_value (op_crdt_op op))) (MAX_REG_ENTRY_SIZE M)
              else if reg_size M R \<ge> MAX_REG_NUM_ENTRIES then TooManyEntries (reg_size M R)
              else CrdtWrongAddress (op_address op))))"
  by (simp add: reg_apply_op_def op_fits_def reg_size_def check_entry_and_reg_sizes_def crdt_apply_op_def
      reg_address_def with_data_def)

text \<open>
  C22. An edit changes a register exactly when it is addressed to it, is signed with the key it names, that
  key may write by the policy of the register, and the entry fits; then the entry is added and
  nothing else changes. Every other edit is an error and leaves the register as it was.
\<close>

theorem apply_edit_correct:
  "apply_cmd P (EditCmd op auth) R =
     (if edit_accepted P R op auth
      then (with_data R (mr_apply (re_merkle P) (rc_data (reg_crdt R)) (op_crdt_op (er_edit op))), Ok ())
      else (R, snd (apply_cmd P (EditCmd op auth) R))) \<and>
   (snd (apply_cmd P (EditCmd op auth) R) = Ok () \<longleftrightarrow> edit_accepted P R op auth)"
  by (auto simp: apply_cmd_def edit_accepted_def apply_op_cases check_permissions_def Let_def
      split: option.splits result.splits)

subsection \<open>Logs\<close>

definition logged :: "'m reg_env \<Rightarrow> storage \<Rightarrow> path \<Rightarrow> register_cmd list" where
  "logged P S path = List.map_filter (read_cmd P S) (list_files_in (st_disk S) path)"

fun first_create :: "'m reg_api \<Rightarrow> register_cmd list \<Rightarrow> 'm register option" where
  "first_create M [] = None"
| "first_create M (CreateCmd op _ _ # cmds) =
     Some (register_new M (pol_owner (cr_policy op)) (cr_name op) (cr_tag op) (cr_policy op))"
| "first_create M (EditCmd _ _ # cmds) = first_create M cmds"

lemma first_create_None: "first_create M L = None \<longleftrightarrow> (\<forall>c \<in> set L. \<exists>op auth. c = EditCmd op auth)"
  by (induction M L rule: first_create.induct) auto

lemma fold_push:
  "fold (\<lambda>f s. case read_cmd P S f of Some c \<Rightarrow> push_cmd M c s | None \<Rightarrow> s) fs s =
     s\<lparr>sr_op_log := sr_op_log s @ List.map_filter (read_cmd P S) fs,
       sr_state := (case sr_state s of Some R \<Rightarrow> Some R | None \<Rightarrow> first_create M (List.map_filter (read_cmd P S) fs))\<rparr>"
proof (induction fs arbitrary: s)
  case (Cons f fs)
  show ?case
  proof (cases "read_cmd P S f")
    case (Some c)
    then show ?thesis
      by (cases c) (simp_all add: Cons.IH map_filter_simps push_cmd_def Let_def split: option.split)
  next
    case None
    then show ?thesis by (cases "sr_state s") (simp_all add: Cons.IH map_filter_simps)
  qed
qed (simp add: map_filter_simps split: option.split)

lemma open_eq:
  assumes "address_to_filepath P dir addr = Ok path"
  shows "open_reg_log_from_disk P dir S addr =
    Ok \<lparr> sr_state = first_create (re_merkle P) (logged P S path), sr_op_log = logged P S path, sr_op_log_path = path \<rparr>"
  using assms
  by (simp add: open_reg_log_from_disk_def fold_push logged_def Let_def list_files_in_def map_filter_simps)

lemma load_eq:
  assumes "address_to_filepath P dir addr = Ok path"
  shows "try_load_stored_register P dir S addr =
    (case first_create (re_merkle P) (logged P S path) of
       None \<Rightarrow> Ok \<lparr> sr_state = None, sr_op_log = logged P S path, sr_op_log_path = path \<rparr>
     | Some R \<Rightarrow> map_ok (\<lambda>R'. \<lparr> sr_state = Some R', sr_op_log = logged P S path, sr_op_log_path = path \<rparr>)
         (replay_edits (re_merkle P) (logged P S path) R))"
  by (simp add: try_load_stored_register_def open_eq [OF assms] split: option.split)

definition reads :: "'m reg_env \<Rightarrow> bool" where
  "reads P \<longleftrightarrow> (\<forall>p. \<not> fails (re_faults P) ReadFile p)"

lemma set_map_filter: "set (List.map_filter f xs) = {y. \<exists>x \<in> set xs. f x = Some y}"
  by (induction xs) (auto simp: map_filter_simps split: option.splits)

lemma read_cmd_eq:
  "reads P \<Longrightarrow> read_cmd P S q = (case file_of (st_disk S) q of Some bs \<Rightarrow> dec_cmd (re_codec P) bs | None \<Rightarrow> None)"
  by (simp add: read_cmd_def fs_read_def reads_def split: option.split)

lemma in_logged:
  assumes "disk_wf (st_disk S)" and "reads P"
  shows "c \<in> set (logged P S path) \<longleftrightarrow>
    (\<exists>q. take (length path) q = path \<and> read_cmd P S q = Some c)"
proof -
  have "q \<in> fst ` set (disk_files (st_disk S))" if "read_cmd P S q = Some c" for q
    using that assms(2) by (auto simp: read_cmd_eq map_of_eq_None_iff split: option.splits)
      (metis map_of_SomeD fst_conv image_eqI)
  then show ?thesis
    using list_files_in_wf [OF assms(1)] by (auto simp: logged_def set_map_filter)
qed

subsection \<open>Writing\<close>

text \<open>A write that returns \<open>Ok\<close> found the file of the command, or has made it and counted it.\<close>

lemma write_one:
  assumes wr: "write_log_to_disk P S [cmd] path = (S', Ok l)"
  shows "\<exists>cid bs. register_operation_id P cmd = Ok cid \<and> enc_cmd (re_codec P) cmd = Some bs \<and>
    (if fs_exists (st_disk S) (path @ [cid])
     then disk_files (st_disk S') = disk_files (st_disk S) \<and> st_used S' = st_used S
     else disk_files (st_disk S') = put_file (path @ [cid]) bs (disk_files (st_disk S)) \<and>
       us_used_space (st_used S') = us_used_space (st_used S) + of_nat (size_of_cmd (re_codec P))) \<and>
    (disk_wf (st_disk S) \<longrightarrow> disk_wf (st_disk S'))"
proof -
  obtain D where dir: "create_dir_all (re_faults P) (st_disk S) path = (D, Ok ())"
    and one: "write_register_cmd P (S\<lparr>st_disk := D\<rparr>) cmd path = (S', Ok l)"
    using wr by (auto simp: write_log_to_disk_def split: prod.splits result.splits storage_level.splits)
  have files: "disk_files D = disk_files (st_disk S)" by (rule create_dir_all_files [OF dir])
  have "path @ [cid] \<notin> (\<lambda>n. take n path) ` {..length path}" for cid
  proof
    assume "path @ [cid] \<in> (\<lambda>n. take n path) ` {..length path}"
    then obtain n where "path @ [cid] = take n path" by auto
    then have "length (path @ [cid]) \<le> length path" by (metis length_take min.cobounded1)
    then show False by simp
  qed
  then have ex: "fs_exists D (path @ [cid]) = fs_exists (st_disk S) (path @ [cid])" for cid
    using create_dir_all_ok [OF dir] by (simp add: fs_exists_def files)
  obtain cid bs where cid: "register_operation_id P cmd = Ok cid" and bs: "enc_cmd (re_codec P) cmd = Some bs"
    using one by (auto simp: write_register_cmd_def register_operation_id_def Let_def split: if_splits result.splits)
  show ?thesis
  proof (cases "fs_exists D (path @ [cid])")
    case True
    then have "S' = S\<lparr>st_disk := D\<rparr>" using one cid by (auto simp: write_register_cmd_def Let_def split: if_splits)
    with True cid bs files disk_wf_create_dir_all [OF _ dir] show ?thesis by (auto simp: ex)
  next
    case False
    obtain D1 D2 U where new: "fs_create (re_faults P) D (path @ [cid]) = (D1, Ok ())"
      "fs_write_all (re_faults P) D1 (path @ [cid]) bs = (D2, Ok ())" "S' = S\<lparr>st_disk := D2, st_used := U\<rparr>"
      "increase (re_env P) (st_used S) (of_nat (size_of_cmd (re_codec P))) = Some (U, l)"
      using one False cid bs
      by (auto simp: write_register_cmd_def Let_def split: if_splits prod.splits result.splits option.splits)
    have D1: "disk_files D1 = put_file (path @ [cid]) [] (disk_files D)" by (rule fs_create_files(1) [OF new(1)])
    then have "disk_files D2 = put_file (path @ [cid]) bs (disk_files D)"
      using new(2) by (auto simp: fs_write_all_def put_file_twice split: if_splits)
    moreover have "disk_wf (st_disk S) \<longrightarrow> disk_wf D2"
      using disk_wf_create_dir_all [OF _ dir] disk_wf_create [OF _ new(1)] disk_wf_write [OF _ _ new(2)] D1 by simp
    ultimately show ?thesis
      using False cid bs increase_fields(1) [OF new(4)] new(3) by (intro exI conjI) (auto simp: ex files)
  qed
qed

definition reg_codec_ok :: "reg_codec \<Rightarrow> bool" where
  "reg_codec_ok C \<longleftrightarrow> (\<forall>c bs. enc_cmd C c = Some bs \<longrightarrow> dec_cmd C bs = Some c)"

lemma reg_codec_okD: "reg_codec_ok C \<Longrightarrow> enc_cmd C c = Some bs \<Longrightarrow> dec_cmd C bs = Some c"
  by (simp add: reg_codec_ok_def)

lemma logged_after_write:
  assumes C: "reg_codec_ok (re_codec P)" and rd: "reads P" and wf: "disk_wf (st_disk S)"
    and wr: "write_log_to_disk P S [cmd] path = (S', Ok l)"
    and whole: "\<And>cid. register_operation_id P cmd = Ok cid \<Longrightarrow> fs_exists (st_disk S) (path @ [cid]) \<Longrightarrow>
      read_cmd P S (path @ [cid]) = Some cmd"
  shows "set (logged P S' path) = insert cmd (set (logged P S path))"
    and "disk_wf (st_disk S')"
    and "length path' = length path \<Longrightarrow> path' \<noteq> path \<Longrightarrow> set (logged P S' path') = set (logged P S path')"
proof -
  obtain cid bs where cid: "register_operation_id P cmd = Ok cid" and bs: "enc_cmd (re_codec P) cmd = Some bs"
    and S': "if fs_exists (st_disk S) (path @ [cid])
     then disk_files (st_disk S') = disk_files (st_disk S)
     else disk_files (st_disk S') = put_file (path @ [cid]) bs (disk_files (st_disk S))"
    and wf': "disk_wf (st_disk S')"
    using write_one [OF wr] wf by (auto split: if_splits)
  have read: "read_cmd P S' q = (if q = path @ [cid] then Some cmd else read_cmd P S q)" for q
    using S' whole [OF cid] reg_codec_okD [OF C bs] by (auto simp: read_cmd_eq [OF rd] split: if_splits)
  have old: "c = cmd" if "read_cmd P S (path @ [cid]) = Some c" for c
  proof -
    have "fs_exists (st_disk S) (path @ [cid])"
      using that by (auto simp: read_cmd_eq [OF rd] fs_exists_def split: option.splits)
    with whole [OF cid] that show ?thesis by simp
  qed
  show "disk_wf (st_disk S')" by (rule wf')
  show "set (logged P S' path) = insert cmd (set (logged P S path))"
  proof (rule set_eqI)
    fix c
    have "c \<in> set (logged P S' path) \<longleftrightarrow>
        c = cmd \<or> (\<exists>q. take (length path) q = path \<and> q \<noteq> path @ [cid] \<and> read_cmd P S q = Some c)"
      unfolding in_logged [OF wf' rd] read by (auto intro: exI [of _ "path @ [cid]"])
    also have "\<dots> \<longleftrightarrow> c = cmd \<or> c \<in> set (logged P S path)"
      unfolding in_logged [OF wf rd] using old by blast
    finally show "c \<in> set (logged P S' path) \<longleftrightarrow> c \<in> insert cmd (set (logged P S path))" by simp
  qed
  show "set (logged P S' path') = set (logged P S path')" if "length path' = length path" "path' \<noteq> path"
  proof (rule set_eqI)
    fix c
    have "q \<noteq> path @ [cid]" if "take (length path') q = path'" for q
      using that \<open>length path' = length path\<close> \<open>path' \<noteq> path\<close> by auto
    then show "c \<in> set (logged P S' path') \<longleftrightarrow> c \<in> set (logged P S path')"
      unfolding in_logged [OF wf' rd] in_logged [OF wf rd] read by metis
  qed
qed

lemma write_register_Ok:
  assumes "write_register P dir S cmd = (S', Ok l)" and "address_to_filepath P dir (cmd_dst_address cmd) = Ok path"
  shows "write_log_to_disk P S [cmd] path = (S', Ok l)"
proof -
  obtain s where s: "try_load_stored_register P dir S (cmd_dst_address cmd) = Ok s"
    using assms(1) by (auto simp: write_register_def split: result.splits)
  then have "sr_op_log_path s = path"
    unfolding load_eq [OF assms(2)] by (auto split: option.splits)
  moreover have "sr_op_log_path (fst (try_to_apply_cmd_against_register_state P cmd s)) = sr_op_log_path s"
    by (auto simp: try_to_apply_cmd_against_register_state_def Let_def split: option.splits register_cmd.splits prod.splits result.splits)
  ultimately show ?thesis
    using assms(1) s by (auto simp: write_register_def split: prod.splits result.splits)
qed

text \<open>
  C6. A command that was written is found again: after a write that returned \<open>Ok\<close>, the log opened for the
  register holds that command and those it held before, in some order, the log of any other register
  is as before, and the used space has grown by the size of one command unless the command was there
  already. It is assumed that the serialisation can be read back, and that a file named by the hash
  of the command, if there is one, holds the command.
\<close>

theorem write_then_open:
  assumes C: "reg_codec_ok (re_codec P)" and rd: "reads P" and wf: "disk_wf (st_disk S)"
    and path: "address_to_filepath P dir (cmd_dst_address cmd) = Ok path"
    and cid: "register_operation_id P cmd = Ok cid"
    and whole: "fs_exists (st_disk S) (path @ [cid]) \<Longrightarrow> read_cmd P S (path @ [cid]) = Some cmd"
    and wr: "write_register P dir S cmd = (S', Ok l)"
  shows "(\<exists>s s'. open_reg_log_from_disk P dir S (cmd_dst_address cmd) = Ok s \<and>
      open_reg_log_from_disk P dir S' (cmd_dst_address cmd) = Ok s' \<and>
      set (sr_op_log s') = insert cmd (set (sr_op_log s))) \<and>
    (\<forall>addr path'. address_to_filepath P dir addr = Ok path' \<longrightarrow> length path' = length path \<longrightarrow> path' \<noteq> path \<longrightarrow>
      (\<exists>s s'. open_reg_log_from_disk P dir S addr = Ok s \<and> open_reg_log_from_disk P dir S' addr = Ok s' \<and>
        set (sr_op_log s') = set (sr_op_log s))) \<and>
    us_used_space (st_used S') = us_used_space (st_used S) +
      (if fs_exists (st_disk S) (path @ [cid]) then 0 else of_nat (size_of_cmd (re_codec P))) \<and>
    disk_wf (st_disk S')"
proof (intro conjI allI impI)
  have wr': "write_log_to_disk P S [cmd] path = (S', Ok l)" by (rule write_register_Ok [OF wr path])
  have whole': "read_cmd P S (path @ [cid']) = Some cmd"
    if "register_operation_id P cmd = Ok cid'" "fs_exists (st_disk S) (path @ [cid'])" for cid'
    using that cid whole by simp
  note logs = logged_after_write [OF C rd wf wr' whole']
  show "\<exists>s s'. open_reg_log_from_disk P dir S (cmd_dst_address cmd) = Ok s \<and>
      open_reg_log_from_disk P dir S' (cmd_dst_address cmd) = Ok s' \<and>
      set (sr_op_log s') = insert cmd (set (sr_op_log s))"
    using logs(1) by (simp add: open_eq [OF path])
  show "\<exists>s s'. open_reg_log_from_disk P dir S addr = Ok s \<and> open_reg_log_from_disk P dir S' addr = Ok s' \<and>
      set (sr_op_log s') = set (sr_op_log s)"
    if "address_to_filepath P dir addr = Ok path'" "length path' = length path" "path' \<noteq> path" for addr path'
    using logs(3) [OF _ _ that(2,3)] by (simp add: open_eq [OF that(1)])
  show "us_used_space (st_used S') = us_used_space (st_used S) +
      (if fs_exists (st_disk S) (path @ [cid]) then 0 else of_nat (size_of_cmd (re_codec P)))"
    using write_one [OF wr'] cid by (auto split: if_splits)
  show "disk_wf (st_disk S')" by (rule logs(2))
qed

subsection \<open>Reconstruction\<close>

fun edits :: "register_cmd list \<Rightarrow> crdt_operation list" where
  "edits [] = []"
| "edits (CreateCmd _ _ _ # cmds) = edits cmds"
| "edits (EditCmd op _ # cmds) = er_edit op # edits cmds"

lemma set_edits: "set (edits L) = {er_edit op |op auth. EditCmd op auth \<in> set L}"
  by (induction L rule: edits.induct) auto

lemma length_edits: "length (edits L) \<le> length L"
  by (induction L rule: edits.induct) auto

lemma replay_fold:
  assumes ok: "reg_api_ok M" and "\<forall>op \<in> set (edits L). op_fits M R op"
    and "reg_size M R + length (edits L) \<le> MAX_REG_NUM_ENTRIES"
  shows "replay_edits M L R =
    Ok (with_data R (fold (\<lambda>op m. mr_apply M m (op_crdt_op op)) (edits L) (rc_data (reg_crdt R))))"
  using assms(2,3)
proof (induction L arbitrary: R rule: edits.induct)
  case (3 op auth cmds)
  let ?R = "with_data R (mr_apply M (rc_data (reg_crdt R)) (op_crdt_op (er_edit op)))"
  have "reg_size M ?R \<le> Suc (reg_size M R)"
    using reg_apply_size [OF ok] by (simp add: reg_size_def crdt_size_def)
  then have "reg_size M ?R + length (edits cmds) \<le> MAX_REG_NUM_ENTRIES" using "3.prems"(2) by simp
  then show ?case using "3.IH" [of ?R] "3.prems" by (simp add: apply_op_cases)
qed simp_all

lemma first_create_same:
  assumes "\<forall>c \<in> set L. (case c of CreateCmd op _ _ \<Rightarrow> op = op0 | EditCmd _ _ \<Rightarrow> True)" and "CreateCmd op0 a g \<in> set L"
  shows "first_create M L =
    Some (register_new M (pol_owner (cr_policy op0)) (cr_name op0) (cr_tag op0) (cr_policy op0))"
  using assms by (induction M L rule: first_create.induct) auto

text \<open>
  C33. The order in which the files of a register are met does not matter: two logs that hold the same
  commands, in whatever order and number, give the same register, as long as they hold one creation
  only, the edits are for that register and they are not more than a register may hold.
\<close>

theorem load_order_irrelevant:
  assumes ok: "reg_api_ok (re_merkle P)"
    and s: "open_reg_log_from_disk P dir S addr = Ok s" and s': "open_reg_log_from_disk P dir S' addr = Ok s'"
    and same: "set (sr_op_log s) = set (sr_op_log s')"
    and create: "CreateCmd op0 a g \<in> set (sr_op_log s)"
    and one: "\<forall>c \<in> set (sr_op_log s). (case c of
         CreateCmd op _ _ \<Rightarrow> op = op0
       | EditCmd op _ \<Rightarrow> op_fits (re_merkle P) (register_new (re_merkle P) (pol_owner (cr_policy op0))
            (cr_name op0) (cr_tag op0) (cr_policy op0)) (er_edit op))"
    and room: "length (sr_op_log s) \<le> MAX_REG_NUM_ENTRIES" "length (sr_op_log s') \<le> MAX_REG_NUM_ENTRIES"
  shows "\<exists>R. try_load_stored_register P dir S addr = Ok (s\<lparr>sr_state := Some R\<rparr>) \<and>
    try_load_stored_register P dir S' addr = Ok (s'\<lparr>sr_state := Some R\<rparr>)"
proof -
  let ?M = "re_merkle P"
  let ?R = "register_new ?M (pol_owner (cr_policy op0)) (cr_name op0) (cr_tag op0) (cr_policy op0)"
  let ?f = "\<lambda>op m. mr_apply ?M m (op_crdt_op op)"
  obtain path where path: "address_to_filepath P dir addr = Ok path"
    using s by (auto simp: open_reg_log_from_disk_def)
  have empty: "reg_size ?M ?R = 0"
    using reg_new_size [OF ok] by (simp add: reg_size_def crdt_size_def register_new_def crdt_new_def)
  have load: "try_load_stored_register P dir T addr =
      Ok (t\<lparr>sr_state := Some (with_data ?R (fold ?f (edits (sr_op_log t)) (rc_data (reg_crdt ?R))))\<rparr>)"
    if t: "open_reg_log_from_disk P dir T addr = Ok t" and L: "set (sr_op_log t) = set (sr_op_log s)"
      and len: "length (sr_op_log t) \<le> MAX_REG_NUM_ENTRIES" for T t
  proof -
    have "first_create ?M (sr_op_log t) = Some ?R"
      by (rule first_create_same [of _ op0 a g]) (use one create in \<open>auto simp: L split: register_cmd.splits\<close>)
    moreover have "\<forall>op \<in> set (edits (sr_op_log t)). op_fits ?M ?R op"
      using one by (auto simp: set_edits L)
    moreover have "reg_size ?M ?R + length (edits (sr_op_log t)) \<le> MAX_REG_NUM_ENTRIES"
      using len length_edits [of "sr_op_log t"] by (simp add: empty)
    ultimately show ?thesis
      using replay_fold [OF ok, of "sr_op_log t" ?R] t open_eq [OF path, of T] load_eq [OF path, of T] by auto
  qed
  have "set (edits (sr_op_log s)) = set (edits (sr_op_log s'))" by (simp add: set_edits same)
  from fold_apply_set [OF ok this] load [OF s refl room(1)] load [OF s' same [symmetric] room(2)]
  show ?thesis by auto
qed

subsection \<open>What is stored without being verified\<close>

lemma replay_policy:
  "replay_edits M L (R\<lparr>reg_authority := u, reg_policy := pol\<rparr>) =
     map_ok (\<lambda>R'. R'\<lparr>reg_authority := u, reg_policy := pol\<rparr>) (replay_edits M L R)"
proof (induction L arbitrary: R rule: edits.induct)
  case (3 op auth cmds)
  have "op_fits M (R\<lparr>reg_authority := u, reg_policy := pol\<rparr>) (er_edit op) = op_fits M R (er_edit op)"
    "reg_size M (R\<lparr>reg_authority := u, reg_policy := pol\<rparr>) = reg_size M R"
    by (simp_all add: op_fits_def reg_address_def reg_size_def)
  moreover have "with_data (R\<lparr>reg_authority := u, reg_policy := pol\<rparr>) m = (with_data R m)\<lparr>reg_authority := u, reg_policy := pol\<rparr>" for m
    by (simp add: with_data_def)
  ultimately show ?case by (simp add: apply_op_cases "3.IH")
qed simp_all

lemma replay_address: "replay_edits M L R = Ok R' \<Longrightarrow> reg_address R' = reg_address R"
proof (induction L arbitrary: R rule: edits.induct)
  case (3 op auth cmds)
  have "reg_address (with_data R m) = reg_address R" for m by (simp add: reg_address_def with_data_def)
  with 3 show ?case by (auto simp: apply_op_cases split: if_splits)
qed simp_all

lemma first_create_fields:
  "first_create M L = Some R \<Longrightarrow> \<exists>op :: create_register. R = register_new M (pol_owner (cr_policy op)) (cr_name op) (cr_tag op) (cr_policy op)"
  by (induction M L rule: first_create.induct) auto

text \<open>A file that is new is met last by the walk of the model; here is the log when it is met first.\<close>

lemma put_file_new: "map_of fs p = None \<Longrightarrow> put_file p b fs = fs @ [(p, b)]"
  by (induction p b fs rule: put_file.induct) (auto split: if_splits)

lemma logged_met_first:
  assumes rd: "reads P" and C: "reg_codec_ok (re_codec P)" and wf: "disk_wf (st_disk S)" "disk_wf (st_disk S')"
    and bs: "enc_cmd (re_codec P) cmd = Some bs" and new: "file_of (st_disk S) (path @ [cid]) = None"
    and files: "disk_files (st_disk S') = put_file (path @ [cid]) bs (disk_files (st_disk S))"
    and D: "D = (st_disk S')\<lparr>disk_files := (path @ [cid], bs) # disk_files (st_disk S)\<rparr>"
  shows "logged P (S'\<lparr>st_disk := D\<rparr>) path = cmd # logged P S path"
proof -
  have fresh: "path @ [cid] \<notin> fst ` set (disk_files (st_disk S))" using new by (simp add: map_of_eq_None_iff)
  then have wfD: "disk_wf D" using wf(2) by (auto simp: D disk_wf_def files fst_put distinct_put put_file_new [OF new])
  have read: "read_cmd P (S'\<lparr>st_disk := D\<rparr>) q = (if q = path @ [cid] then Some cmd else read_cmd P S q)" for q
    using reg_codec_okD [OF C bs] by (simp add: read_cmd_eq [OF rd] D)
  then have "List.map_filter (read_cmd P (S'\<lparr>st_disk := D\<rparr>)) qs = List.map_filter (read_cmd P S) qs"
    if "path @ [cid] \<notin> set qs" for qs
    using that by (induction qs) (auto simp: map_filter_simps split: option.split)
  moreover have "path @ [cid] \<notin> set (filter (\<lambda>q. take (length path) q = path) (map fst (disk_files (st_disk S))))"
    using fresh by simp
  ultimately show ?thesis
    using list_files_in_wf [OF wf(1), of path] list_files_in_wf [OF wfD, of path] read [of "path @ [cid]"]
    by (simp add: logged_def D map_filter_simps)
qed

text \<open>
  C39. A register can be taken over: while it exists, a command to create it again is written to disk
  whoever has signed it and whatever policy and owner it names. The register is then loaded with
  that policy and owner, with all the entries it had, as soon as the walk of the directory meets the new
  file first, an order the file system is free to choose.
\<close>

theorem register_takeover:
  assumes rd: "reads P" and C: "reg_codec_ok (re_codec P)" and wf: "disk_wf (st_disk S)"
    and path: "address_to_filepath P dir addr = Ok path"
    and load: "try_load_stored_register P dir S addr = Ok s" "sr_state s = Some R" "reg_address R = addr"
    and cmd: "cmd = CreateCmd op auth sg" "cr_address op = addr"
    and new: "register_operation_id P cmd = Ok cid" "\<not> fs_exists (st_disk S) (path @ [cid])"
    and wr: "write_log_to_disk P S [cmd] path = (S', Ok l)"
  shows "write_register P dir S cmd = (S', Ok l) \<and>
    (\<exists>D s'. mset (disk_files D) = mset (disk_files (st_disk S')) \<and> disk_dirs D = disk_dirs (st_disk S') \<and>
      try_load_stored_register P dir (S'\<lparr>st_disk := D\<rparr>) addr = Ok s' \<and>
      sr_state s' = Some (R\<lparr>reg_authority := pol_owner (cr_policy op), reg_policy := cr_policy op\<rparr>))"
proof
  let ?M = "re_merkle P"
  obtain bs where bs: "enc_cmd (re_codec P) cmd = Some bs"
    and files: "disk_files (st_disk S') = put_file (path @ [cid]) bs (disk_files (st_disk S))"
    and wf': "disk_wf (st_disk S')"
    using write_one [OF wr] new wf by (auto split: if_splits)
  obtain R0 where R0: "first_create ?M (logged P S path) = Some R0" "replay_edits ?M (logged P S path) R0 = Ok R"
    and s_path: "sr_op_log_path s = path"
    using load(1,2) unfolding load_eq [OF path] by (auto split: option.splits)
  show "write_register P dir S cmd = (S', Ok l)"
    using load(1,2) wr cmd s_path
    by (simp add: write_register_def try_to_apply_cmd_against_register_state_def cr_address_def)
  let ?D = "(st_disk S')\<lparr>disk_files := (path @ [cid], bs) # disk_files (st_disk S)\<rparr>"
  let ?R0 = "register_new ?M (pol_owner (cr_policy op)) (cr_name op) (cr_tag op) (cr_policy op)"
  have none: "file_of (st_disk S) (path @ [cid]) = None" using new(2) by (simp add: fs_exists_def)
  have perm: "mset (disk_files ?D) = mset (disk_files (st_disk S'))" by (simp add: files put_file_new [OF none])
  have log: "logged P (S'\<lparr>st_disk := ?D\<rparr>) path = cmd # logged P S path"
    by (rule logged_met_first [OF rd C wf wf' bs none files refl])
  obtain op' :: create_register where op': "R0 = register_new ?M (pol_owner (cr_policy op')) (cr_name op') (cr_tag op') (cr_policy op')"
    using first_create_fields [OF R0(1)] by blast
  have "cr_address op' = addr"
    using replay_address [OF R0(2)] load(3) by (simp add: op' register_new_def crdt_new_def reg_address_def cr_address_def)
  then have "?R0 = R0\<lparr>reg_authority := pol_owner (cr_policy op), reg_policy := cr_policy op\<rparr>"
    using cmd(2) by (simp add: op' register_new_def crdt_new_def cr_address_def)
  then have "replay_edits ?M (logged P S path) ?R0 =
      Ok (R\<lparr>reg_authority := pol_owner (cr_policy op), reg_policy := cr_policy op\<rparr>)"
    using R0(2) by (simp add: replay_policy)
  then have "try_load_stored_register P dir (S'\<lparr>st_disk := ?D\<rparr>) addr =
      Ok \<lparr> sr_state = Some (R\<lparr>reg_authority := pol_owner (cr_policy op), reg_policy := cr_policy op\<rparr>),
        sr_op_log = cmd # logged P S path, sr_op_log_path = path \<rparr>"
    by (simp add: load_eq [OF path] log cmd(1))
  with perm show "\<exists>D s'. mset (disk_files D) = mset (disk_files (st_disk S')) \<and> disk_dirs D = disk_dirs (st_disk S') \<and>
      try_load_stored_register P dir (S'\<lparr>st_disk := D\<rparr>) addr = Ok s' \<and>
      sr_state s' = Some (R\<lparr>reg_authority := pol_owner (cr_policy op), reg_policy := cr_policy op\<rparr>)"
    by (intro exI [of _ ?D]) simp
qed

lemma apply_cmds_bad:
  assumes "EditCmd op auth \<in> set L" and "enc_edit (re_codec P) op = Some bs"
    and "\<not> is_ok (verify_authority (re_keys P) (re_bls P) auth bs)"
  shows "\<exists>e. apply_cmds P L R = Err e"
  using assms(1)
proof (induction L arbitrary: R)
  case (Cons c L)
  show ?case
  proof (cases "c = EditCmd op auth")
    case True
    then show ?thesis using assms(2,3) by (simp add: apply_cmd_def Let_def)
  next
    case False
    then show ?thesis using Cons by (auto split: prod.split result.split)
  qed
qed simp

text \<open>
  Anybody can keep a register from being created: an edit for a register that does not exist yet is
  written to disk without a look at its signature, and once an edit with a bad signature is there,
  every command to create the register is refused, whoever sends it, and changes nothing.
\<close>

theorem unsigned_edit_blocks_create:
  assumes C: "reg_codec_ok (re_codec P)" and rd: "reads P" and wf: "disk_wf (st_disk S)"
    and path: "address_to_filepath P dir addr = Ok path"
    and none: "try_load_stored_register P dir S addr = Ok s" "sr_state s = None"
    and cmd: "cmd = EditCmd op auth" "er_address op = addr"
    and new: "register_operation_id P cmd = Ok cid" "\<not> fs_exists (st_disk S) (path @ [cid])"
    and bad: "enc_edit (re_codec P) op = Some bs" "\<not> is_ok (verify_authority (re_keys P) (re_bls P) auth bs)"
    and wr: "write_log_to_disk P S [cmd] path = (S', Ok l)"
  shows "write_register P dir S cmd = (S', Ok l) \<and>
    (\<forall>create auth' sg. cr_address create = addr \<longrightarrow>
       (\<exists>e. write_register P dir S' (CreateCmd create auth' sg) = (S', Err e)))"
proof (intro conjI allI impI)
  have s_path: "sr_op_log_path s = path" and no_create: "first_create (re_merkle P) (logged P S path) = None"
    using none unfolding load_eq [OF path] by (auto split: option.splits)
  show "write_register P dir S cmd = (S', Ok l)"
    using none wr cmd s_path by (simp add: write_register_def try_to_apply_cmd_against_register_state_def Let_def)
  have log: "set (logged P S' path) = insert cmd (set (logged P S path))"
    by (rule logged_after_write(1) [OF C rd wf wr]) (use new in simp)
  have "first_create (re_merkle P) (logged P S' path) = None"
    using no_create by (auto simp: first_create_None log cmd(1))
  then have load': "try_load_stored_register P dir S' addr =
      Ok \<lparr> sr_state = None, sr_op_log = logged P S' path, sr_op_log_path = path \<rparr>"
    by (simp add: load_eq [OF path])
  have err: "\<exists>e. apply_cmds P (logged P S' path) R = Err e" for R
    by (rule apply_cmds_bad [OF _ bad]) (simp add: log cmd(1))
  show "\<exists>e. write_register P dir S' (CreateCmd create auth' sg) = (S', Err e)"
    if "cr_address create = addr" for create auth' sg
    using that load' err [of "register_new (re_merkle P) (pol_owner (cr_policy create)) (cr_name create)
        (cr_tag create) (cr_policy create)"]
    by (auto simp: write_register_def try_to_apply_cmd_against_register_state_def Let_def split: option.split prod.split result.split)
qed

text \<open>
  A stored register can not be removed: what is removed as a file is the directory of its commands, so
  that the removal fails and changes neither the disk nor the used space.
\<close>

theorem remove_register_fails:
  assumes wf: "disk_wf (st_disk S)" and path: "address_to_filepath P dir addr = Ok path"
    and stored: "f \<in> set (list_files_in (st_disk S) path)" and "f \<noteq> path"
  shows "\<exists>e. remove_register P dir S addr = (S, Err e)"
proof -
  have f: "f \<in> fst ` set (disk_files (st_disk S))" "take (length path) f = path"
    using stored by (auto simp: list_files_in_wf [OF wf])
  then have "length path < length f" using \<open>f \<noteq> path\<close> by (metis linorder_not_less take_all)
  with disk_wf_parent [OF wf f(1)] f(2) have "path \<in> set (disk_dirs (st_disk S))" by metis
  then have "file_of (st_disk S) path = None" using disk_wf_file_not_dir [OF wf] by blast
  then show ?thesis
    by (auto simp: remove_register_def delete_data_def path fs_remove_file_def split: prod.split result.split)
qed

subsection \<open>An instance\<close>

lemma write_log_succeeds:
  assumes F: "\<And>call p. \<not> fails (re_faults P) call p" and env: "recommended_section_size (re_env P) \<noteq> 0"
    and cid: "register_operation_id P cmd = Ok cid" and new: "\<not> fs_exists (st_disk S) (path @ [cid])"
    and room: "can_add (st_used S) (of_nat (size_of_cmd (re_codec P)))"
    and parents: "\<And>n. file_of (st_disk S) (take n path) = None"
  shows "\<exists>S' l. write_log_to_disk P S [cmd] path = (S', Ok l)"
proof -
  obtain U l where inc: "increase (re_env P) (st_used S) (of_nat (size_of_cmd (re_codec P))) = Some (U, l)"
    using increase_returns [OF env] by blast
  obtain D where dirs: "create_dir_all (re_faults P) (st_disk S) path = (D, Ok ())"
    using F parents by (auto simp: create_dir_all_def Let_def list_ex_iff simp del: upt_Suc)
  have d: "set (disk_dirs D) = set (disk_dirs (st_disk S)) \<union> (\<lambda>n. take n path) ` {..length path}"
    by (rule create_dir_all_ok [OF dirs])
  have files: "disk_files D = disk_files (st_disk S)" by (rule create_dir_all_files [OF dirs])
  have ne: "path @ [cid] \<noteq> take n path" for n
  proof
    assume "path @ [cid] = take n path"
    then have "length (path @ [cid]) \<le> length path" by (metis length_take min.cobounded1)
    then show False by simp
  qed
  have "path @ [cid] \<notin> set (disk_dirs D)" using new ne by (auto simp: d fs_exists_def)
  moreover have "path \<in> set (disk_dirs D)" unfolding d by (auto intro!: image_eqI [of _ _ "length path"])
  moreover have "file_of (st_disk S) (path @ [cid]) = None" using new by (simp add: fs_exists_def)
  moreover obtain bs where "enc_cmd (re_codec P) cmd = Some bs" using cid by (auto simp: register_operation_id_def)
  ultimately show ?thesis
    using dirs files cid room F inc
    by (auto simp: write_log_to_disk_def write_register_cmd_def Let_def fs_exists_def fs_create_def fs_write_all_def fs_sync_def
        split: storage_level.splits)
qed

definition mismatched_auth :: client_auth where
  "mismatched_auth = \<lparr> ca_public_key = Ed25519 0, ca_signature = BlsSig 0 \<rparr>"

definition sample_create :: "user \<Rightarrow> create_register" where
  "sample_create u = \<lparr> cr_name = [], cr_tag = 0, cr_policy = \<lparr> pol_owner = u, pol_permissions = [] \<rparr> \<rparr>"

definition create_cmd :: "user \<Rightarrow> register_cmd" where
  "create_cmd u = CreateCmd (sample_create u) mismatched_auth \<lparr> sg_public_key = 0, sg_signature = 0 \<rparr>"

definition edit_cmd :: register_cmd where
  "edit_cmd = EditCmd \<lparr> er_address = RegisterAddress [] 0, er_edit = sample_op [1] \<rparr> mismatched_auth"

definition sample_cmds :: reg_codec where
  "sample_cmds = \<lparr> enc_address = (\<lambda>_. Some []), enc_create = (\<lambda>_. Some []), enc_edit = (\<lambda>_. Some []),
     enc_cmd = (\<lambda>c. if c = create_cmd Anyone then Some [1]
       else if c = create_cmd (UserKey (Bls 1)) then Some [2] else if c = edit_cmd then Some [3] else None),
     dec_cmd = (\<lambda>bs. if bs = [1] then Some (create_cmd Anyone)
       else if bs = [2] then Some (create_cmd (UserKey (Bls 1))) else if bs = [3] then Some edit_cmd else None),
     sha3_64 = id, size_of_cmd = 1 \<rparr>"

definition sample_env :: "entry node set reg_env" where
  "sample_env = \<lparr> re_merkle = set_register, re_keys = ref_keys, re_bls = ref_bls, re_fmt = ref_fmt,
     re_codec = sample_cmds, re_env = None, re_faults = no_faults \<rparr>"

definition sample_path :: path where
  "sample_path = prefix_tree_path ref_fmt [] (from_content_parts ref_keys [[]]) @
     [hex_encode ref_fmt (from_content_parts ref_keys [[]])]"

definition sample_files :: "(string \<times> bytes) list \<Rightarrow> storage" where
  "sample_files fs = \<lparr> st_disk = \<lparr> disk_files = map (\<lambda>(x, bs). (sample_path @ [x], bs)) fs,
       disk_dirs = map (\<lambda>n. take n sample_path) [0..<length sample_path + 1], disk_dir_len = 4096 \<rparr>,
     st_used = used_space_new 100 200 \<rparr>"

lemma sample_cmd_ne:
  "create_cmd u = create_cmd v \<longleftrightarrow> u = v" "create_cmd u \<noteq> edit_cmd" "edit_cmd \<noteq> create_cmd u"
  by (simp_all add: create_cmd_def sample_create_def edit_cmd_def)

lemma sample_env_simps [simp]:
  "re_merkle sample_env = set_register" "re_codec sample_env = sample_cmds" "re_faults sample_env = no_faults"
  "re_env sample_env = None" "re_keys sample_env = ref_keys" "re_bls sample_env = ref_bls" "size_of_cmd sample_cmds = 1"
  "enc_edit sample_cmds op = Some []"
  by (simp_all add: sample_env_def sample_cmds_def)

lemma sample_cmds_laws: "reg_codec_ok sample_cmds" "reads sample_env"
  by (auto simp: reg_codec_ok_def sample_cmds_def reads_def no_faults_def sample_cmd_ne split: if_splits)

lemma sample_address: "address_to_filepath sample_env dir addr = Ok (dir @ sample_path)"
  by (simp add: address_to_filepath_def sample_env_def sample_cmds_def sample_path_def prefix_tree_path_def Let_def)

lemma sample_ids:
  "register_operation_id sample_env edit_cmd = Ok (hex_encode ref_fmt [3])"
  "register_operation_id sample_env (create_cmd (UserKey (Bls 1))) = Ok (hex_encode ref_fmt [2])"
  by (simp_all add: register_operation_id_def sample_env_def sample_cmds_def sample_cmd_ne)

lemma sample_prefix: "sample_path @ [x] \<noteq> take n sample_path"
proof
  assume "sample_path @ [x] = take n sample_path"
  then have "length (sample_path @ [x]) \<le> length sample_path" by (metis length_take min.cobounded1)
  then show False by simp
qed

lemma sample_file_of: "file_of (st_disk (sample_files fs)) (sample_path @ [x]) = map_of fs x"
  by (induction fs) (auto simp: sample_files_def)

lemma sample_no_file: "file_of (st_disk (sample_files fs)) (take n sample_path) = None"
  using sample_prefix by (auto simp: sample_files_def map_of_eq_None_iff dest: sym)

lemma sample_dirs: "set (disk_dirs (st_disk (sample_files fs))) = (\<lambda>n. take n sample_path) ` {..length sample_path}"
  by (simp add: sample_files_def atLeast0LessThan lessThan_Suc_atMost del: upt_Suc)

lemma sample_exists:
  "fs_exists (st_disk (sample_files fs)) (sample_path @ [x]) \<longleftrightarrow> map_of fs x \<noteq> None"
  "fs_exists (st_disk (sample_files fs)) sample_path"
proof -
  have "sample_path @ [x] \<notin> set (disk_dirs (st_disk (sample_files fs)))"
    using sample_prefix unfolding sample_dirs by blast
  then show "fs_exists (st_disk (sample_files fs)) (sample_path @ [x]) \<longleftrightarrow> map_of fs x \<noteq> None"
    by (simp add: fs_exists_def sample_file_of)
  have "sample_path \<in> set (disk_dirs (st_disk (sample_files fs)))"
    unfolding sample_dirs by (rule image_eqI [of _ _ "length sample_path"]) simp_all
  then show "fs_exists (st_disk (sample_files fs)) sample_path" by (simp add: fs_exists_def)
qed

lemma sample_wf:
  assumes "distinct (map fst fs)"
  shows "disk_wf (st_disk (sample_files fs))"
proof -
  have keys: "map fst (disk_files (st_disk (sample_files fs))) = map (\<lambda>x. sample_path @ [x]) (map fst fs)"
    by (auto simp: sample_files_def)
  from arg_cong [OF keys, of set]
  have files: "fst ` set (disk_files (st_disk (sample_files fs))) = (\<lambda>x. sample_path @ [x]) ` fst ` set fs"
    by (simp only: set_map)
  from keys have "distinct (map fst (disk_files (st_disk (sample_files fs))))"
    using assms by (simp add: distinct_map inj_on_def)
  moreover have "take m (take n sample_path) \<in> (\<lambda>n. take n sample_path) ` {..length sample_path}"
    if "n \<le> length sample_path" for m n
    using that by (intro image_eqI [of _ _ "min m n"]) (auto simp: min_def)
  moreover have "sample_path \<in> (\<lambda>n. take n sample_path) ` {..length sample_path}"
    by (rule image_eqI [of _ _ "length sample_path"]) simp_all
  ultimately show ?thesis
    using sample_prefix unfolding disk_wf_def files sample_dirs by (auto simp del: set_map)
qed

lemma sample_logged:
  assumes "distinct (map fst fs)"
  shows "logged sample_env (sample_files fs) sample_path = List.map_filter (dec_cmd sample_cmds) (map snd fs)"
proof -
  have "read_cmd sample_env (sample_files fs) (sample_path @ [x]) = dec_cmd sample_cmds bs" if "(x, bs) \<in> set fs" for x bs
    using that assms by (simp add: read_cmd_eq [OF sample_cmds_laws(2)] sample_file_of)
  then have "List.map_filter (read_cmd sample_env (sample_files fs)) (map (\<lambda>(x, bs). sample_path @ [x]) gs) =
      List.map_filter (dec_cmd sample_cmds) (map snd gs)" if "set gs \<subseteq> set fs" for gs
    using that by (induction gs) (auto simp: map_filter_simps split: option.split)
  moreover have "list_files_in (st_disk (sample_files fs)) sample_path = map (\<lambda>(x, bs). sample_path @ [x]) fs"
  proof -
    have "filter (\<lambda>q. take (length sample_path) q = sample_path) (map (\<lambda>(x, bs). sample_path @ [x]) gs) =
      map (\<lambda>(x, bs). sample_path @ [x]) gs" for gs :: "(string \<times> bytes) list"
      by (induction gs) auto
    moreover have "map fst (disk_files (st_disk (sample_files fs))) = map (\<lambda>(x, bs). sample_path @ [x]) fs"
      by (auto simp: sample_files_def)
    ultimately show ?thesis by (simp add: list_files_in_def sample_exists)
  qed
  ultimately show ?thesis by (simp add: logged_def)
qed

lemma sample_write:
  assumes "register_operation_id sample_env cmd = Ok cid" and "map_of fs cid = None"
  shows "\<exists>S' l. write_log_to_disk sample_env (sample_files fs) [cmd] sample_path = (S', Ok l)"
proof (rule write_log_succeeds [OF _ _ assms(1)])
  show "\<not> fs_exists (st_disk (sample_files fs)) (sample_path @ [cid])" using assms(2) by (simp add: sample_exists)
  show "can_add (st_used (sample_files fs)) (of_nat (size_of_cmd (re_codec sample_env)))"
    by (simp add: sample_files_def can_add_def used_space_new_def)
qed (simp_all add: no_faults_def recommended_section_size_def elder_count_def DEFAULT_ELDER_COUNT_def sample_no_file)

lemma sample_decodes:
  "dec_cmd sample_cmds [1] = Some (create_cmd Anyone)" "dec_cmd sample_cmds [3] = Some edit_cmd"
  by (simp_all add: sample_cmds_def)

lemma sample_load_empty:
  "try_load_stored_register sample_env [] (sample_files []) addr =
     Ok \<lparr> sr_state = None, sr_op_log = [], sr_op_log_path = sample_path \<rparr>"
  by (simp add: load_eq [OF sample_address] sample_logged map_filter_simps)

lemma sample_addresses: "cmd_dst_address edit_cmd = RegisterAddress [] 0" "cr_address (sample_create u) = RegisterAddress [] 0"
  by (simp_all add: edit_cmd_def sample_create_def cr_address_def)

theorem write_then_open_witness:
  "\<exists>S' l s'. write_register sample_env [] (sample_files []) edit_cmd = (S', Ok l) \<and>
     open_reg_log_from_disk sample_env [] S' (RegisterAddress [] 0) = Ok s' \<and> edit_cmd \<in> set (sr_op_log s')"
proof -
  obtain S' l where "write_log_to_disk sample_env (sample_files []) [edit_cmd] sample_path = (S', Ok l)"
    using sample_write [OF sample_ids(1), of "[]"] by auto
  then have wr: "write_register sample_env [] (sample_files []) edit_cmd = (S', Ok l)"
    by (simp add: write_register_def sample_load_empty try_to_apply_cmd_against_register_state_def edit_cmd_def Let_def)
  have "fs_exists (st_disk (sample_files [])) (sample_path @ [x]) \<Longrightarrow>
      read_cmd sample_env (sample_files []) (sample_path @ [x]) = Some edit_cmd" for x by (simp add: sample_exists)
  from write_then_open [OF _ sample_cmds_laws(2) sample_wf _ sample_ids(1) this wr]
  show ?thesis using wr sample_cmds_laws(1) by (auto simp: sample_address sample_addresses)
qed

theorem load_order_irrelevant_witness:
  "\<exists>R. sr_state (case try_load_stored_register sample_env [] (sample_files [(''aa'', [1]), (''b'', [3])]) (RegisterAddress [] 0)
       of Ok s \<Rightarrow> s) = Some R \<and>
     sr_state (case try_load_stored_register sample_env [] (sample_files [(''b'', [3]), (''aa'', [1])]) (RegisterAddress [] 0)
       of Ok s \<Rightarrow> s) = Some R"
proof -
  have log: "logged sample_env (sample_files [(''aa'', [1]), (''b'', [3])]) sample_path = [create_cmd Anyone, edit_cmd]"
    "logged sample_env (sample_files [(''b'', [3]), (''aa'', [1])]) sample_path = [edit_cmd, create_cmd Anyone]"
    by (simp_all add: sample_logged map_filter_simps sample_decodes)
  have fits: "op_fits set_register (register_new set_register Anyone [] 0 pol) (sample_op [1])" for pol
    by (simp add: op_fits_def sample_op_def register_new_def crdt_new_def reg_address_def MAX_REG_ENTRY_SIZE_def set_register_def)
  let ?s = "\<lambda>L. \<lparr> sr_state = first_create set_register L, sr_op_log = L, sr_op_log_path = sample_path \<rparr>"
  have "\<exists>R. try_load_stored_register sample_env [] (sample_files [(''aa'', [1]), (''b'', [3])]) (RegisterAddress [] 0)
        = Ok (?s [create_cmd Anyone, edit_cmd]\<lparr>sr_state := Some R\<rparr>) \<and>
      try_load_stored_register sample_env [] (sample_files [(''b'', [3]), (''aa'', [1])]) (RegisterAddress [] 0)
        = Ok (?s [edit_cmd, create_cmd Anyone]\<lparr>sr_state := Some R\<rparr>)"
    by (rule load_order_irrelevant [of _ _ _ _ _ _ _ "sample_create Anyone"])
      (auto simp: set_register_ok open_eq [OF sample_address] log MAX_REG_NUM_ENTRIES_def create_cmd_def edit_cmd_def
        sample_create_def fits)
  then show ?thesis by auto
qed

theorem register_takeover_witness:
  "\<exists>S' l D s' R'. write_register sample_env [] (sample_files [(''aa'', [1])]) (create_cmd (UserKey (Bls 1))) = (S', Ok l) \<and>
     mset (disk_files D) = mset (disk_files (st_disk S')) \<and>
     try_load_stored_register sample_env [] (S'\<lparr>st_disk := D\<rparr>) (RegisterAddress [] 0) = Ok s' \<and>
     sr_state s' = Some R' \<and> reg_owner R' = UserKey (Bls 1)"
proof -
  let ?S = "sample_files [(''aa'', [1])]"
  let ?R = "register_new set_register Anyone [] 0 \<lparr> pol_owner = Anyone, pol_permissions = [] \<rparr>"
  have cid: "map_of [(''aa'', [1 :: u8])] (hex_encode ref_fmt [2]) = None" by (simp add: ref_fmt_def)
  obtain S' l where wr: "write_log_to_disk sample_env ?S [create_cmd (UserKey (Bls 1))] sample_path = (S', Ok l)"
    using sample_write [OF sample_ids(2) cid] by auto
  have "logged sample_env ?S sample_path = [create_cmd Anyone]"
    by (simp add: sample_logged map_filter_simps sample_decodes)
  then have load: "try_load_stored_register sample_env [] ?S (RegisterAddress [] 0) =
      Ok \<lparr> sr_state = Some ?R, sr_op_log = [create_cmd Anyone], sr_op_log_path = sample_path \<rparr>"
    by (simp add: load_eq [OF sample_address] create_cmd_def sample_create_def)
  have "write_register sample_env [] ?S (create_cmd (UserKey (Bls 1))) = (S', Ok l) \<and>
    (\<exists>D s'. mset (disk_files D) = mset (disk_files (st_disk S')) \<and> disk_dirs D = disk_dirs (st_disk S') \<and>
      try_load_stored_register sample_env [] (S'\<lparr>st_disk := D\<rparr>) (RegisterAddress [] 0) = Ok s' \<and>
      sr_state s' = Some (?R\<lparr>reg_authority := pol_owner (cr_policy (sample_create (UserKey (Bls 1)))),
        reg_policy := cr_policy (sample_create (UserKey (Bls 1)))\<rparr>))"
  proof (rule register_takeover [OF sample_cmds_laws(2) _ _ _ load _ _ create_cmd_def _ sample_ids(2) _ wr])
    show "\<not> fs_exists (st_disk ?S) (sample_path @ [hex_encode ref_fmt [2]])" using cid by (simp add: sample_exists)
  qed (simp_all add: sample_cmds_laws sample_wf sample_address sample_addresses register_new_def crdt_new_def reg_address_def)
  then show ?thesis by (auto simp: reg_owner_def sample_create_def)
qed

theorem unsigned_edit_blocks_create_witness:
  "\<exists>S' l. write_register sample_env [] (sample_files []) edit_cmd = (S', Ok l) \<and>
     (\<exists>e. write_register sample_env [] S' (create_cmd Anyone) = (S', Err e))"
proof -
  obtain S' l where wr: "write_log_to_disk sample_env (sample_files []) [edit_cmd] sample_path = (S', Ok l)"
    using sample_write [OF sample_ids(1), of "[]"] by auto
  have "write_register sample_env [] (sample_files []) edit_cmd = (S', Ok l) \<and>
    (\<forall>create auth' sg. cr_address create = RegisterAddress [] 0 \<longrightarrow>
       (\<exists>e. write_register sample_env [] S' (CreateCmd create auth' sg) = (S', Err e)))"
  proof (rule unsigned_edit_blocks_create [OF _ sample_cmds_laws(2) _ _ sample_load_empty _ edit_cmd_def _ sample_ids(1) _ _ _ wr])
    show "\<not> fs_exists (st_disk (sample_files [])) (sample_path @ [hex_encode ref_fmt [3]])" by (simp add: sample_exists)
    show "\<not> is_ok (verify_authority (re_keys sample_env) (re_bls sample_env) mismatched_auth [])"
      by (simp add: verify_authority_def any_key_verify_def mismatched_auth_def)
  qed (simp_all add: sample_cmds_laws sample_wf sample_address)
  then show ?thesis by (auto simp: create_cmd_def sample_addresses)
qed

theorem remove_register_fails_witness:
  "\<exists>e. remove_register sample_env [] (sample_files [(''aa'', [1])]) (RegisterAddress [] 0) = (sample_files [(''aa'', [1])], Err e)"
proof (rule remove_register_fails [of _ _ _ _ _ "sample_path @ [''aa'']"])
  show "sample_path @ [''aa''] \<in> set (list_files_in (st_disk (sample_files [(''aa'', [1])])) sample_path)"
    by (simp add: list_files_in_wf [OF sample_wf]) (simp add: sample_files_def)
qed (simp_all add: sample_wf sample_address)

end
