(* ===== verification/Data_Storage.thy ===== *)
theory Data_Storage
  imports Register_Log Xor_Space
begin

section \<open>The data storage of a node\<close>

text \<open>
  \<open>sn_node/src/storage/mod.rs\<close>: chunks and registers below one directory \<open>base\<close>, with one account of
  the used space. A spentbook is kept as a register with the type tag of spentbooks. Reading the
  entries of a spentbook as shares of spent proofs is the parameter \<open>dec_share\<close> (crate \<open>rmp_serde\<close>).
\<close>

definition used_space_ratio :: "storage \<Rightarrow> f64" where
  "used_space_ratio S = ratio (st_used S)"

definition storage_has_reached_min_capacity :: "storage \<Rightarrow> bool" where
  "storage_has_reached_min_capacity S = has_reached_min_capacity (st_used S)"

definition is_below_half_limit :: "storage \<Rightarrow> bool" where
  "is_below_half_limit S = f64_greater (1 / 2) (ratio (st_used S))"

text \<open>
  The two tasks that clean up run at the same time; here the one for chunks comes first. They share
  the disk and the used space only, and the one for registers changes neither (\<open>remove_register_same\<close>).
\<close>

fun remove_chunks :: "'m reg_env \<Rightarrow> path \<Rightarrow> chunk_address list \<Rightarrow> storage \<Rightarrow> storage" where
  "remove_chunks P base [] S = S"
| "remove_chunks P base (addr # addrs) S =
     remove_chunks P base addrs (fst (remove_chunk (re_faults P) (re_fmt P) (chunk_root base) S addr))"

fun remove_registers :: "'m reg_env \<Rightarrow> path \<Rightarrow> register_address list \<Rightarrow> storage \<Rightarrow> storage" where
  "remove_registers P base [] S = S"
| "remove_registers P base (addr # addrs) S =
     remove_registers P base addrs (fst (remove_register P (register_root base) S addr))"

definition try_retain_data_of :: "'m reg_env \<Rightarrow> xor_api \<Rightarrow> path \<Rightarrow> storage \<Rightarrow> prefix \<Rightarrow> storage" where
  "try_retain_data_of P X base S pre =
     (if storage_has_reached_min_capacity S
      then
        let chunk_addr_to_remove =
              filter (\<lambda>addr. \<not> px_matches X pre (chunk_address_name addr)) (chunk_addrs (re_fmt P) (chunk_root base) S);
            reg_addr_to_remove =
              filter (\<lambda>addr. \<not> px_matches X pre (reg_name addr)) (list_all_reg_addrs P (register_root base) S)
        in remove_registers P base reg_addr_to_remove (remove_chunks P base chunk_addr_to_remove S)
      else S)"

definition data_store ::
  "'m reg_env \<Rightarrow> (bytes \<Rightarrow> any_signature) \<Rightarrow> any_key \<Rightarrow> section_sig \<Rightarrow> path \<Rightarrow> storage \<Rightarrow> replicated_data \<Rightarrow> any_key
     \<Rightarrow> storage \<times> (storage_level, storage_error) result" where
  "data_store P sign node_key sg base S d section_pk =
     (case d of
        ChunkData c \<Rightarrow> store_chunk (re_faults P) (re_fmt P) (re_env P) (chunk_root base) S c
      | RegisterLog l \<Rightarrow> update_register P (register_root base) S l
      | RegisterWrite cmd \<Rightarrow> write_register P (register_root base) S cmd
      | SpentbookWrite cmd \<Rightarrow> write_spentbook_register P sign node_key sg (register_root base) S cmd section_pk
      | SpentbookLog l \<Rightarrow> update_register P (register_root base) S l)"

definition get_chunk_query :: "'m reg_env \<Rightarrow> path \<Rightarrow> storage \<Rightarrow> chunk_address \<Rightarrow> 'm query_response" where
  "get_chunk_query P base S addr =
     GetChunkR (map_err data_error_of_storage
       (get_chunk (re_keys P) (re_faults P) (re_fmt P) (chunk_root base) S addr))"

definition query_data ::
  "'m reg_env \<Rightarrow> (entry \<Rightarrow> spent_proof_share option) \<Rightarrow> path \<Rightarrow> storage \<Rightarrow> data_query \<Rightarrow> user \<Rightarrow> 'm query_response" where
  "query_data P dec_share base S query requester =
     (case query of
        GetChunkQ addr \<Rightarrow> get_chunk_query P base S addr
      | RegisterQ read \<Rightarrow> read_register_query P (register_root base) S read requester
      | SpentbookQ (GetSpentProofShares addr) \<Rightarrow>
          (let reg_addr = RegisterAddress (spentbook_name addr) SPENTBOOK_TYPE_TAG in
           case read_register_query P (register_root base) S (GetReg reg_addr) requester of
             GetRegisterR (Err (DataNotFound _)) \<Rightarrow> GetSpentProofSharesR (Ok [])
           | GetRegisterR result \<Rightarrow>
               GetSpentProofSharesR (map_ok (\<lambda>R. List.map_filter (\<lambda>(_, e). dec_share e) (reg_read (re_merkle P) R)) result)
           | other \<Rightarrow> other)
      | SpentbookQ (GetFees dbc_id) \<Rightarrow>
          GetFeesR (Err (DataNotFound (SpentAddress (spend_query_address (re_keys P) (re_bls P) (GetFees dbc_id))))))"

definition get_from_local_store ::
  "'m reg_env \<Rightarrow> path \<Rightarrow> storage \<Rightarrow> data_address \<Rightarrow> (replicated_data, storage_error) result" where
  "get_from_local_store P base S address =
     (case address of
        BytesAddress addr \<Rightarrow>
          map_ok ChunkData (get_chunk (re_keys P) (re_faults P) (re_fmt P) (chunk_root base) S addr)
      | RegAddress addr \<Rightarrow> map_ok RegisterLog (get_register_replica P (register_root base) S addr)
      | SpentAddress addr \<Rightarrow>
          map_ok SpentbookLog (get_register_replica P (register_root base) S
            (RegisterAddress (spentbook_name addr) SPENTBOOK_TYPE_TAG))
      | other \<Rightarrow> Err (UnsupportedDataType other))"

definition remove_data ::
  "'m reg_env \<Rightarrow> path \<Rightarrow> storage \<Rightarrow> data_address \<Rightarrow> storage \<times> (unit, storage_error) result" where
  "remove_data P base S address =
     (case address of
        BytesAddress addr \<Rightarrow> remove_chunk (re_faults P) (re_fmt P) (chunk_root base) S addr
      | RegAddress addr \<Rightarrow> remove_register P (register_root base) S addr
      | SpentAddress addr \<Rightarrow>
          remove_register P (register_root base) S (RegisterAddress (spentbook_name addr) SPENTBOOK_TYPE_TAG)
      | other \<Rightarrow> (S, Err (UnsupportedDataType other)))"

definition data_addrs :: "'m reg_env \<Rightarrow> path \<Rightarrow> storage \<Rightarrow> data_address list" where
  "data_addrs P base S =
     map BytesAddress (chunk_addrs (re_fmt P) (chunk_root base) S) @
     map RegAddress (list_all_reg_addrs P (register_root base) S)"

section \<open>Properties of the data storage\<close>

subsection \<open>Storing keeps the disk well formed and within the capacity\<close>

definition storage_ok :: "storage \<Rightarrow> bool" where
  "storage_ok S \<longleftrightarrow> disk_wf (st_disk S) \<and> us_used_space (st_used S) \<le> us_max_capacity (st_used S)"

text \<open>What every writer does with a file: it makes the file, writes it and counts it.\<close>

lemma write_file_ok:
  assumes ok: "disk_wf D" and create: "fs_create F D p = (D1, Ok u)"
  shows "fs_write_all F D1 p bs = (D2, r) \<Longrightarrow> disk_wf D2"
    and "can_add U sz \<Longrightarrow> increase env U sz = Some (U', l) \<Longrightarrow> us_used_space U' \<le> us_max_capacity U'"
proof -
  have "file_of D1 p \<noteq> None" using fs_create_files(1) [OF create] by simp
  then show "fs_write_all F D1 p bs = (D2, r) \<Longrightarrow> disk_wf D2"
    using disk_wf_write [OF disk_wf_create [OF ok create]] by blast
  show "can_add U sz \<Longrightarrow> increase env U sz = Some (U', l) \<Longrightarrow> us_used_space U' \<le> us_max_capacity U'"
    using increase_fields(1,3) [of env U sz U' l] by (simp add: can_add_def)
qed

lemma store_chunk_ok:
  assumes "storage_ok S" and "store_chunk F T env dir S c = (S', r)"
  shows "storage_ok S'"
proof -
  have wf: "disk_wf (st_disk S)" using assms(1) by (simp add: storage_ok_def)
  show ?thesis
    using assms
    by (auto simp: store_chunk_def Let_def storage_ok_def
        dest: disk_wf_create_dir_all [OF wf] disk_wf_create [OF disk_wf_create_dir_all [OF wf]]
          write_file_ok(1) [OF disk_wf_create_dir_all [OF wf]] write_file_ok(2) [OF disk_wf_create_dir_all [OF wf]]
        split: if_splits prod.splits result.splits option.splits)
qed

lemma write_cmd_ok:
  assumes "storage_ok S" and "write_register_cmd P S cmd path = (S', r)"
  shows "storage_ok S'"
proof -
  have wf: "disk_wf (st_disk S)" using assms(1) by (simp add: storage_ok_def)
  show ?thesis
    using assms
    by (auto simp: write_register_cmd_def Let_def storage_ok_def
        dest: disk_wf_create [OF wf] write_file_ok(1) [OF wf] write_file_ok(2) [OF wf]
        split: if_splits prod.splits result.splits option.splits)
qed

lemma write_cmds_ok: "storage_ok S \<Longrightarrow> storage_ok (fst (write_cmds P path S cmds last_err level))"
proof (induction P path S cmds last_err level rule: write_cmds.induct)
  case (2 P path S cmd cmds last_err level)
  show ?case
  proof (cases "write_register_cmd P S cmd path")
    case (Pair S1 r)
    have "storage_ok S1" by (rule write_cmd_ok [OF "2.prems" Pair])
    then show ?thesis using 2 Pair by (cases r) auto
  qed
qed simp

lemma write_log_ok:
  assumes "storage_ok S"
  shows "storage_ok (fst (write_log_to_disk P S cmds path))"
proof (cases "create_dir_all (re_faults P) (st_disk S) path")
  case (Pair D r)
  have "storage_ok (S\<lparr>st_disk := D\<rparr>)" using disk_wf_create_dir_all [OF _ Pair] assms by (simp add: storage_ok_def)
  then show ?thesis using assms Pair write_cmds_ok by (cases r) (auto simp: write_log_to_disk_def)
qed

lemma update_register_ok: "storage_ok S \<Longrightarrow> storage_ok (fst (update_register P dir S l))"
  by (auto simp: update_register_def write_log_ok split: result.split prod.split)

text \<open>
  Storing keeps the storage sound, whatever the data, whether it succeeds or not and whatever calls to
  the file system fail: no path becomes a file and a directory, what holds a file stays a directory,
  and the used space stays within the maximum capacity.
\<close>

theorem data_store_keeps_storage:
  assumes "storage_ok S"
  shows "storage_ok (fst (data_store P sign node_key sg base S d section_pk))"
proof (cases d)
  case (ChunkData c)
  then show ?thesis
    using store_chunk_ok [OF assms] by (cases "store_chunk (re_faults P) (re_fmt P) (re_env P) (chunk_root base) S c")
      (simp add: data_store_def)
next
  case (RegisterWrite cmd)
  then show ?thesis
    using assms by (auto simp: data_store_def write_register_def write_log_ok split: result.split prod.split)
next
  case (SpentbookWrite cmd)
  then show ?thesis
    using assms by (auto simp: data_store_def write_spentbook_register_def Let_def update_register_ok split: result.split)
qed (use assms in \<open>simp_all add: data_store_def update_register_ok\<close>)

theorem data_store_keeps_storage_witness:
  "storage_ok (fst (data_store sample_env (\<lambda>_. BlsSig 0) (Bls 0) \<lparr> sg_public_key = 0, sg_signature = 0 \<rparr> []
     empty_storage (RegisterWrite edit_cmd) (Bls 0)))"
  by (rule data_store_keeps_storage)
    (simp add: storage_ok_def empty_storage_def disk_wf_def used_space_new_def)

subsection \<open>Cleaning up\<close>

lemma remove_chunk_file_of:
  assumes "\<And>call p. \<not> fails F call p"
  shows "file_of (st_disk (fst (remove_chunk F T dir S a))) =
    (file_of (st_disk S))(chunk_addr_to_filepath T dir a := None)"
  using assms
  by (auto simp: remove_chunk_def Let_def fs_metadata_len_def fs_remove_file_def file_of_filter fun_upd_idem
      split: option.splits)

lemma remove_chunks_file_of:
  assumes "\<And>call p. \<not> fails (re_faults P) call p"
  shows "file_of (st_disk (remove_chunks P base addrs S)) q =
    (if q \<in> chunk_addr_to_filepath (re_fmt P) (chunk_root base) ` set addrs then None else file_of (st_disk S) q)"
  using assms by (induction addrs arbitrary: S) (auto simp: remove_chunk_file_of)

lemma remove_chunk_accounts:
  assumes wf: "disk_wf (st_disk S)"
  shows "disk_wf (st_disk (fst (remove_chunk F T dir S a))) \<and> unaccounted (fst (remove_chunk F T dir S a)) = unaccounted S"
proof -
  obtain S' r where rm: "remove_chunk F T dir S a = (S', r)" by (cases "remove_chunk F T dir S a")
  have "disk_wf (st_disk S')"
    using rm wf disk_wf_remove [OF wf]
    by (auto simp: remove_chunk_def Let_def split: result.splits prod.splits)
  moreover have "unaccounted S' = unaccounted S"
  proof (cases r)
    case (Ok u)
    then show ?thesis using remove_accounts rm wf by (auto simp: disk_wf_def)
  next
    case (Err e)
    then have "S' = S" using rm
      by (auto simp: remove_chunk_def Let_def fs_remove_file_def split: result.splits prod.splits if_splits option.splits)
    then show ?thesis by simp
  qed
  ultimately show ?thesis by (simp add: rm)
qed

lemma remove_chunks_accounts:
  "disk_wf (st_disk S) \<Longrightarrow> unaccounted (remove_chunks P base addrs S) = unaccounted S"
  by (induction addrs arbitrary: S) (auto simp: remove_chunk_accounts)

lemma remove_register_same:
  assumes "\<And>path. address_to_filepath P dir addr = Ok path \<Longrightarrow> file_of (st_disk S) path = None"
  shows "fst (remove_register P dir S addr) = S"
  using assms
  by (auto simp: remove_register_def delete_data_def fs_remove_file_def split: result.split prod.split)

lemma remove_registers_same:
  assumes "\<And>addr path. address_to_filepath P (register_root base) addr = Ok path \<Longrightarrow> file_of (st_disk S) path = None"
  shows "remove_registers P base addrs S = S"
  using assms by (induction addrs) (simp_all add: remove_register_same)

definition chunks_filed :: "fmt_api \<Rightarrow> path \<Rightarrow> disk \<Rightarrow> bool" where
  "chunks_filed T dir D \<longleftrightarrow>
     (\<forall>q \<in> set (list_files_in D dir). \<exists>a. length (chunk_address_name a) = XOR_NAME_LEN \<and> q = chunk_addr_to_filepath T dir a)"

lemma in_chunk_addrs:
  assumes T: "fmt_api_ok T" and wf: "disk_wf (st_disk S)" and filed: "chunks_filed T dir (st_disk S)"
    and len: "length (chunk_address_name a) = XOR_NAME_LEN"
  shows "a \<in> set (chunk_addrs T dir S) \<longleftrightarrow> file_of (st_disk S) (chunk_addr_to_filepath T dir a) \<noteq> None"
proof -
  have decode: "chunk_filepath_to_address T (chunk_addr_to_filepath T dir b) = Ok b"
    if "length (chunk_address_name b) = XOR_NAME_LEN" for b
    using T that by (simp add: chunk_filepath_to_address_def chunk_addr_to_filepath_def Let_def fmt_api_ok_def)
  have "a \<in> set (chunk_addrs T dir S) \<longleftrightarrow> chunk_addr_to_filepath T dir a \<in> set (list_files_in (st_disk S) dir)"
  proof
    assume "a \<in> set (chunk_addrs T dir S)"
    then obtain q where q: "q \<in> set (list_files_in (st_disk S) dir)" "chunk_filepath_to_address T q = Ok a"
      by (auto simp: chunk_addrs_def split: result.splits)
    from filed q(1) obtain b where "length (chunk_address_name b) = XOR_NAME_LEN" "q = chunk_addr_to_filepath T dir b"
      by (auto simp: chunks_filed_def)
    with q decode [of b] show "chunk_addr_to_filepath T dir a \<in> set (list_files_in (st_disk S) dir)" by simp
  next
    assume q: "chunk_addr_to_filepath T dir a \<in> set (list_files_in (st_disk S) dir)"
    then show "a \<in> set (chunk_addrs T dir S)"
      unfolding chunk_addrs_def by (auto intro!: bexI [OF _ q] simp: decode [OF len])
  qed
  also have "\<dots> \<longleftrightarrow> chunk_addr_to_filepath T dir a \<in> fst ` set (disk_files (st_disk S))"
    by (simp add: list_files_in_wf [OF wf]) (simp add: chunk_addr_to_filepath_def prefix_tree_path_def Let_def)
  finally show ?thesis by (simp add: map_of_eq_None_iff)
qed

text \<open>
  When the minimum capacity has been reached, cleaning up removes exactly the chunks whose names do not
  match the prefix, and accounts for them: every chunk with a matching name and every file that is
  no chunk, so every command of a register, stays, also of registers that do not match.
\<close>

theorem retain_data_correct:
  assumes F: "\<And>call p. \<not> fails (re_faults P) call p" and T: "fmt_api_ok (re_fmt P)"
    and wf: "disk_wf (st_disk S)" and filed: "chunks_filed (re_fmt P) (chunk_root base) (st_disk S)"
    and regs: "\<And>addr path. address_to_filepath P (register_root base) addr = Ok path \<Longrightarrow> file_of (st_disk S) path = None"
    and full: "storage_has_reached_min_capacity S"
    and S': "S' = try_retain_data_of P X base S pre"
  shows "(\<forall>a. length (chunk_address_name a) = XOR_NAME_LEN \<longrightarrow>
       file_of (st_disk S') (chunk_addr_to_filepath (re_fmt P) (chunk_root base) a) =
         (if px_matches X pre (chunk_address_name a)
          then file_of (st_disk S) (chunk_addr_to_filepath (re_fmt P) (chunk_root base) a) else None)) \<and>
    (\<forall>q. take (length base + 1) q \<noteq> chunk_root base \<longrightarrow> file_of (st_disk S') q = file_of (st_disk S) q) \<and>
    unaccounted S' = unaccounted S"
proof (intro conjI allI impI)
  let ?T = "re_fmt P"
  let ?path = "chunk_addr_to_filepath ?T (chunk_root base)"
  let ?as = "filter (\<lambda>addr. \<not> px_matches X pre (chunk_address_name addr)) (chunk_addrs ?T (chunk_root base) S)"
  have files: "file_of (st_disk (remove_chunks P base ?as S)) q = (if q \<in> ?path ` set ?as then None else file_of (st_disk S) q)" for q
    by (rule remove_chunks_file_of [OF F])
  have "file_of (st_disk (remove_chunks P base ?as S)) p = None"
    if "address_to_filepath P (register_root base) addr = Ok p" for addr p
    using regs [OF that] by (simp add: files)
  then have S'_eq: "S' = remove_chunks P base ?as S"
    using full by (simp add: S' try_retain_data_of_def Let_def remove_registers_same)
  show "unaccounted S' = unaccounted S" unfolding S'_eq by (rule remove_chunks_accounts [OF wf])
  have below: "take (length base + 1) (?path a) = chunk_root base" for a
    by (simp add: chunk_addr_to_filepath_def prefix_tree_path_def chunk_root_def Let_def)
  show "file_of (st_disk S') q = file_of (st_disk S) q" if "take (length base + 1) q \<noteq> chunk_root base" for q
    using that below unfolding S'_eq files by auto
  fix a assume len: "length (chunk_address_name a) = XOR_NAME_LEN"
  have "?path a \<in> ?path ` set ?as \<longleftrightarrow> a \<in> set ?as"
  proof
    assume "?path a \<in> ?path ` set ?as"
    then obtain b where b: "b \<in> set ?as" "?path a = ?path b" by auto
    have "length (chunk_address_name b) = XOR_NAME_LEN"
      using b(1) filed T unfolding chunk_addrs_def chunks_filed_def fmt_api_ok_def
      by (auto simp: chunk_filepath_to_address_def chunk_addr_to_filepath_def Let_def split: result.splits)
    from chunk_path_inj [OF T len this b(2)] b(1) show "a \<in> set ?as" by simp
  qed simp
  then show "file_of (st_disk S') (?path a) =
      (if px_matches X pre (chunk_address_name a) then file_of (st_disk S) (?path a) else None)"
    using in_chunk_addrs [OF T wf filed len] unfolding S'_eq files by auto
qed

definition full_storage :: storage where
  "full_storage = empty_storage\<lparr>st_used := used_space_new 0 200\<rparr>"

theorem retain_data_correct_witness:
  "\<exists>S l. store_chunk no_faults ref_fmt None (chunk_root []) full_storage sample_chunk = (S, Ok l) \<and>
     file_of (st_disk S) (chunk_addr_to_filepath ref_fmt (chunk_root []) (ch_address sample_chunk)) \<noteq> None \<and>
     file_of (st_disk (try_retain_data_of sample_env ref_xor [] S [True]))
       (chunk_addr_to_filepath ref_fmt (chunk_root []) (ch_address sample_chunk)) = None"
proof -
  let ?p = "chunk_addr_to_filepath ref_fmt (chunk_root []) (ch_address sample_chunk)"
  have fresh: "\<not> fs_exists (st_disk full_storage) p" "file_of (st_disk full_storage) p = None" for p
    by (simp_all add: full_storage_def sample_fresh)
  have "\<exists>S l. store_chunk no_faults ref_fmt None (chunk_root []) full_storage sample_chunk = (S, Ok l)"
    by (rule store_succeeds [OF _ _ fresh(1) _ fresh(2)])
      (simp_all add: no_faults_def recommended_section_size_def elder_count_def DEFAULT_ELDER_COUNT_def can_add_def
        full_storage_def used_space_new_def sample_chunk_def chunk_new_def)
  then obtain S l where st: "store_chunk no_faults ref_fmt None (chunk_root []) full_storage sample_chunk = (S, Ok l)" by blast
  have files: "disk_files (st_disk S) = [(?p, ch_value sample_chunk)]"
    using store_chunk_Ok(1) [OF st fresh(1)] by (simp add: full_storage_def empty_storage_def)
  have "storage_ok full_storage"
    by (simp add: storage_ok_def full_storage_def empty_storage_def disk_wf_def used_space_new_def)
  then have wf: "disk_wf (st_disk S)" using store_chunk_ok [OF _ st] by (simp add: storage_ok_def)
  have len: "length (chunk_address_name (ch_address sample_chunk)) = XOR_NAME_LEN"
    by (simp add: sample_chunk_def chunk_new_def ref_keys_def XOR_NAME_LEN_def)
  then have filed: "chunks_filed ref_fmt (chunk_root []) (st_disk S)"
    by (auto simp: chunks_filed_def list_files_in_wf [OF wf] files)
  have full: "storage_has_reached_min_capacity S"
    using increase_fields(2) [OF store_chunk_Ok(2) [OF st fresh(1)]]
    by (simp add: storage_has_reached_min_capacity_def has_reached_min_capacity_def full_storage_def used_space_new_def)
  have "hd (register_root [] @ sample_path) \<noteq> hd ?p"
    by (simp add: register_root_def REGISTER_STORE_DIR_NAME_def chunk_addr_to_filepath_def prefix_tree_path_def
        chunk_root_def CHUNKS_STORE_DIR_NAME_def Let_def)
  then have regs: "file_of (st_disk S) (register_root [] @ sample_path) = None" by (auto simp: files)
  have "\<not> px_matches ref_xor [True] (chunk_address_name (ch_address sample_chunk))"
    by (simp add: sample_chunk_def chunk_new_def ref_keys_def ref_xor_def ref_bit_def)
  moreover have fmt: "re_fmt sample_env = ref_fmt" by (simp add: sample_env_def)
  moreover note retain_data_correct [of sample_env S "[]", OF _ _ wf _ _ full refl, of ref_xor "[True]"]
  ultimately have "file_of (st_disk (try_retain_data_of sample_env ref_xor [] S [True])) ?p = None"
    using filed regs len ref_fmt_ok fmt by (simp add: no_faults_def sample_address)
  then show ?thesis using st by (auto simp: files)
qed

end
