(* ===== verification/My_Node.thy ===== *)
theory My_Node
  imports Wire_Msg Membership Fault_Detection Data_Storage
begin

section \<open>The node\<close>

text \<open>
  \<open>sn_node/src/node/mod.rs\<close> (\<open>MyNode\<close>), \<open>context.rs\<close>, \<open>flow_ctrl/cmds.rs\<close> and the helpers of \<open>messaging\<close> that the handlers
  of messages share. A handler changes the state of the node and returns commands, which the node
  executes afterwards: messages to send and further work to do.

  The fresh identifier that each message to send gets is left out. A \<open>NodeContext\<close> is a snapshot of the
  node, and is modelled by the node itself. What the node sends to its fault detection is appended to
  \<open>mn_fault_cmds\<close>, and \<open>mn_comm_targets\<close> are the nodes it keeps connections to.
\<close>

subsection \<open>Commands\<close>

type_synonym stream = nat
type_synonym comms_error = nat

datatype recipients = Single participant | Multiple "node_id bset"

definition participant_from_node :: "node_id \<Rightarrow> participant" where
  "participant_from_node n = \<lparr> pt_name = nid_name n, pt_addr = nid_addr n \<rparr>"

fun recipients_list :: "recipients \<Rightarrow> participant list" where
  "recipients_list (Single p) = [p]"
| "recipients_list (Multiple ps) = map participant_from_node ps"

datatype ('m, 'r) cmd =
    TryJoinNetwork
  | HandleMsg participant wire_msg "stream option"
  | ProcessNodeMsg msg_id node_msg node_id "stream option"
  | ProcessClientMsg msg_id client_msg client_auth participant "stream option"
  | ProcessAeMsg msg_id anti_entropy_kind "'m section_tree_update" participant
  | SetJoinsAllowed bool
  | SetJoinsAllowedUntilSplit bool
  | TrackNodeIssue xor_name issue_type
  | UpdateNetworkAndHandleValidClientMsg "'m sections_dag" signed_sap msg_id client_msg participant stream client_auth
  | HandleCommsError participant comms_error
  | HandleNodeOffAgreement node_state section_sig
  | HandleMembershipDecision ns_decision
  | HandleNewEldersAgreement signed_sap section_sig
  | HandleNewSectionsAgreement signed_sap section_sig signed_sap section_sig
  | HandleDkgOutcome sap section_key_share
  | EnqueueDataForReplication node_id "data_address list"
  | UpdateCaller node_id msg_id anti_entropy_kind "'m section_tree_update"
  | UpdateCallerOnStream participant anti_entropy_kind "'m section_tree_update" msg_id stream
  | SendMsg "('m, 'r) network_msg" recipients
  | SendMsgEnqueueAnyResponse node_msg "node_id bset"
  | SendNodeMsgResponse node_msg msg_id node_id stream
  | SendDataResponse "'r data_response" msg_id stream participant
  | SendAndForwardResponseToClient wire_msg "node_id bset" stream participant
  | ProposeVoteNodesOffline "xor_name bset"

definition send_msg :: "node_msg \<Rightarrow> recipients \<Rightarrow> ('m, 'r) cmd" where
  "send_msg msg rs = SendMsg (NodeNetworkMsg msg) rs"

datatype faults_cmd =
    AddNode xor_name
  | UpdateNodes "xor_name bset" "xor_name bset"
  | TrackIssue xor_name issue_type
  | UntrackIssue xor_name issue_type
  | GetFaultyNodes

subsection \<open>State\<close>

record dkg_session_info =
  si_session_id :: dkg_session_id
  si_authority :: section_sig

datatype 'v cs_response = CsWaitingForMoreVotes | CsBroadcast 'v

text \<open>What the node uses of other crates, and the environment it runs in.\<close>

record ('m, 'r, 'k, 'a, 'h, 'd) node_env =
  ne_dkg :: "'d dkg_env"
  ne_dag :: "'m dag_api"
  ne_lru :: "'k lru_api"
  ne_membership :: "('a, signed_vote, signed_vote cs_response) ns_consensus"
  ne_handover :: "('h, signed_vote, signed_vote cs_response) sap_consensus"
  ne_validate :: validator
  ne_codec :: codec_api
  ne_enc_sap :: sap_codec
  ne_enc_session :: "dkg_session_id \<Rightarrow> bytes option"
  ne_digest :: "bytes \<Rightarrow> nat"
  ne_vote_key :: "u8 \<Rightarrow> secret_key_share \<Rightarrow> nat"
  ne_sign_share :: "secret_key_share \<Rightarrow> bytes \<Rightarrow> signature_share"
  ne_cmp_candidate :: "sap_candidate \<Rightarrow> sap_candidate \<Rightarrow> ordering"
  ne_cmp_sap :: "signed_sap \<Rightarrow> signed_sap \<Rightarrow> ordering"
  ne_cmp_distance :: "xor_name \<Rightarrow> xor_name \<Rightarrow> xor_name \<Rightarrow> ordering"
  ne_sibling :: "prefix \<Rightarrow> prefix"
  ne_from_content :: "bytes \<Rightarrow> xor_name"
  ne_elder_count_var :: "string option"
  ne_data_copy_count_var :: "string option"
  ne_limit_network_size :: bool
  ne_registers :: "'r reg_env"
  ne_root_storage_dir :: path

abbreviation ne_bls :: "('m, 'r, 'k, 'a, 'h, 'd) node_env \<Rightarrow> bls_api" where
  "ne_bls N \<equiv> de_bls (ne_dkg N)"

abbreviation ne_xor :: "('m, 'r, 'k, 'a, 'h, 'd) node_env \<Rightarrow> xor_api" where
  "ne_xor N \<equiv> de_xor (ne_dkg N)"

abbreviation ne_keys :: "('m, 'r, 'k, 'a, 'h, 'd) node_env \<Rightarrow> key_api" where
  "ne_keys N \<equiv> de_keys (ne_dkg N)"

record ('m, 'k, 'a, 'h, 'd) my_node =
  mn_addr :: socket_addr
  mn_keypair :: ed_keypair
  mn_data_storage :: storage
  mn_section_keys_provider :: 'k
  mn_network_knowledge :: "'m network_knowledge"
  mn_dkg_start_aggregator :: aggregator
  mn_dkg_sessions_info :: "(bytes, dkg_session_info) hmap"
  mn_dkg_voter :: "'d dkg_voter"
  mn_elder_promotion_aggregator :: aggregator
  mn_pending_split_sections :: "(nat, signed_sap list) bmap"
  mn_relocation_state :: relocation_state
  mn_membership :: "'a membership option"
  mn_handover_request_aggregator :: aggregator
  mn_handover_voting :: "'h handover option"
  mn_joins_allowed :: bool
  mn_joins_allowed_until_split :: bool
  mn_section_proposal_aggregator :: aggregator
  mn_comm_targets :: "node_id bset"
  mn_fault_cmds :: "faults_cmd list"

text \<open>The operator \<open>?\<close> in a method that changes its object.\<close>

definition st_then ::
  "'s \<times> ('a, 'e) result \<Rightarrow> ('s \<Rightarrow> 'a \<Rightarrow> 's \<times> ('b, 'e) result) \<Rightarrow> 's \<times> ('b, 'e) result" where
  "st_then p f = (case p of (s, Ok a) \<Rightarrow> f s a | (s, Err e) \<Rightarrow> (s, Err e))"

lemma st_then_simps [simp]:
  "st_then (s, Ok a) f = f s a" "st_then (s, Err e) f = (s, Err e)"
  by (simp_all add: st_then_def)

subsection \<open>Name and role\<close>

definition mn_name :: "('m, 'r, 'k, 'a, 'h, 'd) node_env \<Rightarrow> ('m, 'k, 'a, 'h, 'd) my_node \<Rightarrow> xor_name" where
  "mn_name N S = node_name (ne_dkg N) (mn_keypair S)"

definition mn_is_elder :: "('m, 'r, 'k, 'a, 'h, 'd) node_env \<Rightarrow> ('m, 'k, 'a, 'h, 'd) my_node \<Rightarrow> bool" where
  "mn_is_elder N S = nk_is_elder (mn_network_knowledge S) (mn_name N S)"

text \<open>The flag of the context, which combines two flags of the node.\<close>

definition ctx_joins_allowed :: "('m, 'k, 'a, 'h, 'd) my_node \<Rightarrow> bool" where
  "ctx_joins_allowed S = (mn_joins_allowed S \<or> mn_joins_allowed_until_split S)"

abbreviation mn_prefix :: "('m, 'k, 'a, 'h, 'd) my_node \<Rightarrow> prefix" where
  "mn_prefix S \<equiv> nk_prefix (mn_network_knowledge S)"

abbreviation mn_sap :: "('m, 'k, 'a, 'h, 'd) my_node \<Rightarrow> sap" where
  "mn_sap S \<equiv> sd_value (nk_signed_sap (mn_network_knowledge S))"

abbreviation mn_section_key ::
  "('m, 'r, 'k, 'a, 'h, 'd) node_env \<Rightarrow> ('m, 'k, 'a, 'h, 'd) my_node \<Rightarrow> public_key" where
  "mn_section_key N S \<equiv> nk_section_key (ne_bls N) (mn_network_knowledge S)"

abbreviation mn_section_chain ::
  "('m, 'r, 'k, 'a, 'h, 'd) node_env \<Rightarrow> ('m, 'k, 'a, 'h, 'd) my_node \<Rightarrow> 'm sections_dag" where
  "mn_section_chain N S \<equiv> section_chain (ne_dag N) (ne_bls N) (mn_network_knowledge S)"

definition mn_chain_len ::
  "('m, 'r, 'k, 'a, 'h, 'd) node_env \<Rightarrow> ('m, 'k, 'a, 'h, 'd) my_node \<Rightarrow> u64" where
  "mn_chain_len N S = of_nat (section_chain_len (ne_dag N) (ne_bls N) (mn_network_knowledge S))"

text \<open>The key with which an elder votes is its index, cast to a byte, with its share.\<close>

definition vote_key :: "('m, 'r, 'k, 'a, 'h, 'd) node_env \<Rightarrow> section_key_share \<Rightarrow> nat" where
  "vote_key N key = ne_vote_key N (of_nat (ks_index key)) (ks_secret_key_share key)"

text \<open>Creating a node: the elder's state is there from the start when there is a key share.\<close>

definition my_node_new ::
  "('m, 'r, 'k, 'a, 'h, 'd) node_env \<Rightarrow> socket_addr \<Rightarrow> ed_keypair \<Rightarrow> 'm network_knowledge
     \<Rightarrow> section_key_share option \<Rightarrow> storage \<Rightarrow> ('m, 'k, 'a, 'h, 'd) my_node" where
  "my_node_new N a kp K share st =
     \<lparr> mn_addr = a, mn_keypair = kp, mn_data_storage = st,
       mn_section_keys_provider = keys_new (ne_lru N) share, mn_network_knowledge = K,
       mn_dkg_start_aggregator = [], mn_dkg_sessions_info = [], mn_dkg_voter = default_voter,
       mn_elder_promotion_aggregator = [], mn_pending_split_sections = [],
       mn_relocation_state = NoRelocation,
       mn_membership = map_option (\<lambda>key. membership_from (ne_membership N) (vote_key N key)
         (ks_public_key_set key) (sap_elder_count (sd_value (nk_signed_sap K)))
         (history_members (nk_section_members K))) share,
       mn_handover_request_aggregator = [],
       mn_handover_voting = map_option (\<lambda>key. handover_from (ne_handover N) (vote_key N key)
         (ks_public_key_set key) (length (nk_elders K))) share,
       mn_joins_allowed = True, mn_joins_allowed_until_split = False,
       mn_section_proposal_aggregator = [], mn_comm_targets = nk_members K, mn_fault_cmds = [] \<rparr>"

subsection \<open>Helpers of the handlers\<close>

definition split_nodes_and_self ::
  "('m, 'r, 'k, 'a, 'h, 'd) node_env \<Rightarrow> ('m, 'k, 'a, 'h, 'd) my_node \<Rightarrow> node_id list
     \<Rightarrow> node_id bset \<times> node_id option" where
  "split_nodes_and_self N S all_nodes =
     (let our_name = mn_name N S;
          ourself = bs_from_iter (filter (\<lambda>n. nid_name n = our_name) all_nodes)
      in (bs_from_iter (filter (\<lambda>n. nid_name n \<noteq> our_name) all_nodes),
          case ourself of [] \<Rightarrow> None | n # _ \<Rightarrow> Some n))"

definition send_to_elders :: "('m, 'k, 'a, 'h, 'd) my_node \<Rightarrow> node_msg \<Rightarrow> ('m, 'r) cmd" where
  "send_to_elders S msg = send_msg msg (Multiple (sap_elders (mn_sap S)))"

definition send_to_elders_await_responses :: "sap \<Rightarrow> node_msg \<Rightarrow> ('m, 'r) cmd" where
  "send_to_elders_await_responses s msg = SendMsgEnqueueAnyResponse msg (sap_elders s)"

definition track_node_issue ::
  "('m, 'r, 'k, 'a, 'h, 'd) node_env \<Rightarrow> ('m, 'k, 'a, 'h, 'd) my_node \<Rightarrow> xor_name \<Rightarrow> issue_type
     \<Rightarrow> ('m, 'k, 'a, 'h, 'd) my_node" where
  "track_node_issue N S name issue =
     (if mn_name N S = name then S else S\<lparr>mn_fault_cmds := mn_fault_cmds S @ [TrackIssue name issue]\<rparr>)"

definition untrack_node_issue ::
  "('m, 'k, 'a, 'h, 'd) my_node \<Rightarrow> xor_name \<Rightarrow> issue_type \<Rightarrow> ('m, 'k, 'a, 'h, 'd) my_node" where
  "untrack_node_issue S name issue = S\<lparr>mn_fault_cmds := mn_fault_cmds S @ [UntrackIssue name issue]\<rparr>"

definition fault_detection_retain_only ::
  "('m, 'k, 'a, 'h, 'd) my_node \<Rightarrow> xor_name bset \<Rightarrow> xor_name bset \<Rightarrow> ('m, 'k, 'a, 'h, 'd) my_node" where
  "fault_detection_retain_only S adult_names elders =
     S\<lparr>mn_fault_cmds := mn_fault_cmds S @ [UpdateNodes adult_names elders]\<rparr>"

definition add_new_adult_to_trackers ::
  "('m, 'k, 'a, 'h, 'd) my_node \<Rightarrow> xor_name \<Rightarrow> ('m, 'k, 'a, 'h, 'd) my_node" where
  "add_new_adult_to_trackers S adult = S\<lparr>mn_fault_cmds := mn_fault_cmds S @ [AddNode adult]\<rparr>"

definition update_comm_target_list ::
  "('m, 'k, 'a, 'h, 'd) my_node \<Rightarrow> ('m, 'k, 'a, 'h, 'd) my_node" where
  "update_comm_target_list S =
     (let K = mn_network_knowledge S;
          relocated_members = map ns_node_id (filter is_relocated (nk_archived_members K))
      in S\<lparr>mn_comm_targets := fold bs_insert relocated_members (nk_members K)\<rparr>)"

definition sign_with_key_share ::
  "('m, 'r, 'k, 'a, 'h, 'd) node_env \<Rightarrow> bytes \<Rightarrow> section_key_share \<Rightarrow> sig_share" where
  "sign_with_key_share N data share =
     SigShare (ks_public_key_set share) (ks_index share) (ne_sign_share N (ks_secret_key_share share) data)"

definition sign_with_section_key_share ::
  "('m, 'r, 'k, 'a, 'h, 'd) node_env \<Rightarrow> ('m, 'k, 'a, 'h, 'd) my_node \<Rightarrow> bytes \<Rightarrow> (sig_share, node_error) result" where
  "sign_with_section_key_share N S data =
     map_ok (sign_with_key_share N data)
       (map_err NetworkKnowledge_node
          (key_share (ne_bls N) (ne_lru N) (mn_section_keys_provider S) (mn_section_key N S)))"

lemma split_nodes_spec:
  assumes "split_nodes_and_self N S ns = (others, me)"
  shows "set others = {n \<in> set ns. nid_name n \<noteq> mn_name N S}"
    and "(me \<noteq> None) = (\<exists>n \<in> set ns. nid_name n = mn_name N S)"
    and "me = Some n \<Longrightarrow> n \<in> set ns \<and> nid_name n = mn_name N S"
proof -
  let ?own = "bs_from_iter (filter (\<lambda>n. nid_name n = mn_name N S) ns)"
  have own: "set ?own = {n \<in> set ns. nid_name n = mn_name N S}" by (auto simp: set_bs_from_iter)
  have me: "me = (case ?own of [] \<Rightarrow> None | n # _ \<Rightarrow> Some n)"
    and others: "others = bs_from_iter (filter (\<lambda>n. nid_name n \<noteq> mn_name N S) ns)"
    using assms by (auto simp: split_nodes_and_self_def Let_def)
  show "set others = {n \<in> set ns. nid_name n \<noteq> mn_name N S}" by (simp add: others set_bs_from_iter)
  show "(me \<noteq> None) = (\<exists>n \<in> set ns. nid_name n = mn_name N S)"
    using own by (cases ?own) (auto simp: me)
  show "n \<in> set ns \<and> nid_name n = mn_name N S" if "me = Some n"
    using own that by (cases ?own) (auto simp: me)
qed

subsection \<open>Instances\<close>

text \<open>A round of consensus that never decides and only knows the keys of its voters, and an environment to evaluate the handlers
  in, in which the members vote on one node.\<close>

definition idle_consensus :: "(nat, nat, nat cs_response, 't) consensus_api" where
  "idle_consensus = \<lparr> cs_from = (\<lambda>_ elders _. elders), cs_secret_key = (\<lambda>_. 0), cs_elders = (\<lambda>c. c),
     cs_n_elders = (\<lambda>_. 1), cs_decision = (\<lambda>_. None),
     cs_handle_signed_vote = (\<lambda>c v. (c, Some CsWaitingForMoreVotes)),
     cs_sign_proposal = (\<lambda>c g n. Some g), cs_is_byzantine = (\<lambda>_ _. False),
     cs_cast_vote = (\<lambda>c v. (c, Some v)), cs_votes = (\<lambda>_. []), cs_super_majority_vote = (\<lambda>_ _. None),
     cs_processed = (\<lambda>_ _. False), vote_gen = (\<lambda>v. v), vote_proposals = (\<lambda>_. []),
     vote_signed_for = (\<lambda>_ _. True) \<rparr>"

definition sample_node_env ::
  "(dag_node list, entry node set, section_key_share list, nat, nat, nat) node_env" where
  "sample_node_env = \<lparr> ne_dkg = ref_dkg_env, ne_dag = sample_register, ne_lru = ref_lru,
     ne_membership = idle_consensus
       \<lparr>vote_proposals := (\<lambda>_. [joined (NodeId (sample_elder 6) 6) (Some (sample_elder 5))])\<rparr>,
     ne_handover = idle_consensus, ne_validate = (\<lambda>_ _. True),
     ne_codec = sample_state_codec, ne_enc_sap = Section_Tree.sample_codec,
     ne_enc_session = (\<lambda>i. Some (map (of_nat \<circ> snd) (dk_elders i))), ne_digest = (\<lambda>bs. length bs),
     ne_vote_key = (\<lambda>i k. k), ne_sign_share = (\<lambda>k bs. k), ne_cmp_candidate = (\<lambda>_ _. Equal), ne_cmp_sap = (\<lambda>_ _. Equal),
     ne_cmp_distance = (\<lambda>_ _ _. Equal), ne_sibling = (\<lambda>p. butlast p @ [\<not> last p]), ne_from_content = (\<lambda>bs. bs),
     ne_elder_count_var = None, ne_data_copy_count_var = None, ne_limit_network_size = False, ne_registers = sample_env,
     ne_root_storage_dir = [] \<rparr>"

end
