(* ===== verification/Anti_Entropy.thy ===== *)
theory Anti_Entropy
  imports My_Node
begin

section \<open>Anti-entropy between nodes\<close>

text \<open>
  \<open>sn_node/src/node/messaging/anti_entropy.rs\<close>: a message names the section key its sender believes the
  destination to have. A node that receives a message with another key than its own, or for a name of
  another section, does not handle it but answers with its own section's authority and the chain of
  keys that leads to it, and the message, so that the sender can update itself and send it again.
\<close>

subsection \<open>Updates to send\<close>

definition generate_ae_section_tree_update ::
  "('m, 'r, 'k, 'a, 'h, 'd) node_env \<Rightarrow> 'm network_knowledge \<Rightarrow> public_key option \<Rightarrow> 'm section_tree_update" where
  "generate_ae_section_tree_update N K to_key =
     (let proof_chain =
        (case to_key of
           Some key \<Rightarrow>
             (case get_proof_chain_to_current_section (ne_dag N) (ne_bls N) K key of
                Ok chain \<Rightarrow> chain
              | Err _ \<Rightarrow> section_chain (ne_dag N) (ne_bls N) K)
         | None \<Rightarrow> section_chain (ne_dag N) (ne_bls N) K)
      in \<lparr> up_signed_sap = nk_signed_sap K, up_proof_chain = proof_chain \<rparr>)"

definition send_ae_update_to_nodes ::
  "('m, 'r, 'k, 'a, 'h, 'd) node_env \<Rightarrow> 'm network_knowledge \<Rightarrow> recipients \<Rightarrow> public_key \<Rightarrow> ('m, 'r) cmd" where
  "send_ae_update_to_nodes N K rs section_pk =
     SendMsg (AntiEntropyMsg (AntiEntropy (Update (decisions (nk_section_members K)))
       (generate_ae_section_tree_update N K (Some section_pk)))) rs"

definition send_ae_update_to_our_section ::
  "('m, 'r, 'k, 'a, 'h, 'd) node_env \<Rightarrow> ('m, 'k, 'a, 'h, 'd) my_node \<Rightarrow> (('m, 'r) cmd option, node_error) result" where
  "send_ae_update_to_our_section N S =
     (let K = mn_network_knowledge S;
          rs = bs_from_iter (map ns_node_id
            (filter (\<lambda>n. ns_name n \<noteq> mn_name N S) (history_members (nk_section_members K))))
      in
      if rs = [] then Ok None
      else and_then (map_err NetworkKnowledge_node (last_key (ne_dag N) (mn_section_chain N S)))
        (\<lambda>leaf. case get_parent_key (ne_dag N) (mn_section_chain N S) leaf of
           Ok prev \<Rightarrow>
             (let prev_pk = (case prev of Some pk \<Rightarrow> pk | None \<Rightarrow> genesis_key (mn_section_chain N S))
              in Ok (Some (send_ae_update_to_nodes N K (Multiple rs) prev_pk)))
         | Err _ \<Rightarrow> Ok None))"

definition send_updates_to_sibling_section ::
  "('m, 'r, 'k, 'a, 'h, 'd) node_env \<Rightarrow> 'm network_knowledge \<Rightarrow> ('m, 'r) cmd list" where
  "send_updates_to_sibling_section N prev =
     (case tree_get_signed (nk_section_tree prev) (ne_sibling N (nk_prefix prev)) of
        Some sibling_sap \<Rightarrow>
          (let promoted = bs_from_iter (filter (\<lambda>e. e \<notin> set (nk_elders prev)) (sap_elders (sd_value sibling_sap)))
           in if promoted = [] then []
              else [send_ae_update_to_nodes N prev (Multiple promoted) (nk_section_key (ne_bls N) prev)])
      | None \<Rightarrow> [])"

definition anti_entropy_probe ::
  "('m, 'r, 'k, 'a, 'h, 'd) node_env \<Rightarrow> 'm network_knowledge \<Rightarrow> ('m, 'r) network_msg" where
  "anti_entropy_probe N K = AntiEntropyMsg (Probe (nk_section_key (ne_bls N) K))"

definition GOSSIP_SECTION_COUNT :: nat where
  "GOSSIP_SECTION_COUNT = 3"

text \<open>
  The random order of the other prefixes and of the elders of a section are the arguments \<open>shuffle_p\<close> and
  \<open>shuffle_e\<close>.
\<close>

fun probe_targets ::
  "('m, 'r, 'k, 'a, 'h, 'd) node_env \<Rightarrow> xor_name \<Rightarrow> (node_id list \<Rightarrow> node_id list) \<Rightarrow> 'm network_knowledge
     \<Rightarrow> prefix list \<Rightarrow> node_id bset \<Rightarrow> (node_id bset, node_error) result" where
  "probe_targets N our_name shuffle_e K [] rs = Ok rs"
| "probe_targets N our_name shuffle_e K (target # ps) rs =
     and_then (map_err NetworkKnowledge_node (section_auth_by_prefix (ne_xor N) K target))
       (\<lambda>matching_section.
          (let elders = shuffle_e (filter (\<lambda>e. nid_name e \<noteq> our_name) (sap_elders matching_section))
           in case find (\<lambda>e. nid_name e \<noteq> our_name) elders of
                Some elder \<Rightarrow> probe_targets N our_name shuffle_e K ps (bs_insert elder rs)
              | None \<Rightarrow> probe_targets N our_name shuffle_e K ps rs))"

definition generate_probe_msg ::
  "('m, 'r, 'k, 'a, 'h, 'd) node_env \<Rightarrow> (prefix list \<Rightarrow> prefix list) \<Rightarrow> (node_id list \<Rightarrow> node_id list)
     \<Rightarrow> ('m, 'k, 'a, 'h, 'd) my_node \<Rightarrow> (('m, 'r) cmd, node_error) result" where
  "generate_probe_msg N shuffle_p shuffle_e S =
     (let K = mn_network_knowledge S;
          other_prefixes = shuffle_p (filter (\<lambda>p. p \<noteq> nk_prefix K) (bm_keys (sections (nk_section_tree K))))
      in map_ok (\<lambda>rs. SendMsg (anti_entropy_probe N K) (Multiple rs))
           (probe_targets N (mn_name N S) shuffle_e K (take GOSSIP_SECTION_COUNT other_prefixes) []))"

definition generate_section_probe_msg ::
  "('m, 'r, 'k, 'a, 'h, 'd) node_env \<Rightarrow> ('m, 'k, 'a, 'h, 'd) my_node \<Rightarrow> ('m, 'r) cmd" where
  "generate_section_probe_msg N S =
     SendMsg (anti_entropy_probe N (mn_network_knowledge S)) (Multiple (nk_elders (mn_network_knowledge S)))"

subsection \<open>Finding entropy\<close>

definition check_for_entropy ::
  "('m, 'r, 'k, 'a, 'h, 'd) node_env \<Rightarrow> ('m, 'r) wire_codec \<Rightarrow> bool \<Rightarrow> wire_msg \<Rightarrow> 'm network_knowledge
     \<Rightarrow> (('m section_tree_update \<times> anti_entropy_kind) option, node_error) result" where
  "check_for_entropy N W is_self_elder w K =
     (let d = wm_dst w in
      if \<not> px_matches (ne_xor N) (nk_prefix K) (dst_name d) then
        if \<not> is_self_elder then Ok None
        else
          (case closest_signed_sap_with_chain (ne_dag N) (ne_bls N) (ne_xor N) K (dst_name d) of
             Some (s, proof_chain) \<Rightarrow>
               map_ok (\<lambda>bounced_msg. Some (\<lparr> up_signed_sap = s, up_proof_chain = proof_chain \<rparr>, Redirect bounced_msg))
                 (map_err Messaging (wire_serialize W w))
           | None \<Rightarrow> Err NoMatchingSection_node)
      else if dst_section_key d = nk_section_key (ne_bls N) K then Ok None
      else
        map_ok (\<lambda>bounced_msg. Some
            (generate_ae_section_tree_update N K (Some (dst_section_key d)), Retry bounced_msg))
          (map_err Messaging (wire_serialize W w)))"

definition generate_anti_entropy_cmds ::
  "wire_msg \<Rightarrow> participant \<Rightarrow> 'm section_tree_update \<Rightarrow> anti_entropy_kind \<Rightarrow> stream option \<Rightarrow> ('m, 'r) cmd list" where
  "generate_anti_entropy_cmds w src update kind send_stream =
     (case wm_kind w of
        AntiEntropyKind _ \<Rightarrow> []
      | DataResponseKind _ \<Rightarrow> []
      | NodeKind _ _ \<Rightarrow>
          TrackNodeIssue (pt_name src) NetworkKnowledge #
          (case send_stream of
             Some st \<Rightarrow> [UpdateCallerOnStream src kind update (wm_msg_id w) st]
           | None \<Rightarrow> [UpdateCaller (node_id_from src) (wm_msg_id w) kind update])
      | ClientKind _ _ _ \<Rightarrow>
          (case send_stream of
             Some st \<Rightarrow> [UpdateCallerOnStream src kind update (wm_msg_id w) st]
           | None \<Rightarrow> []))"

text \<open>
  \<open>into_msg_bytes\<close> of \<open>node_msgs.rs\<close>: one message per recipient, with the section key the node knows for it. The
  destination of the initial message is random and is replaced, and a recipient without a route is left out.
\<close>

fun route_msgs ::
  "('m, 'r, 'k, 'a, 'h, 'd) node_env \<Rightarrow> ('m, 'r) wire_codec \<Rightarrow> 'm network_knowledge \<Rightarrow> wire_msg \<Rightarrow> node_id list
     \<Rightarrow> ((node_id \<times> network_bytes) list, node_error) result" where
  "route_msgs N W K w [] = Ok []"
| "route_msgs N W K w (n # ns) =
     (case generate_dst (ne_bls N) (ne_xor N) K (nid_name n) of
        Ok d \<Rightarrow>
          and_then (map_err Messaging (serialize_with_new_dst W w d))
            (\<lambda>bs. map_ok (Cons (n, bs)) (route_msgs N W K w ns))
      | Err _ \<Rightarrow> route_msgs N W K w ns)"

definition into_msg_bytes ::
  "('m, 'r, 'k, 'a, 'h, 'd) node_env \<Rightarrow> ('m, 'r) wire_codec \<Rightarrow> dst \<Rightarrow> 'm network_knowledge \<Rightarrow> xor_name
     \<Rightarrow> ('m, 'r) network_msg \<Rightarrow> msg_id \<Rightarrow> node_id bset \<Rightarrow> ((node_id \<times> network_bytes) list, node_error) result" where
  "into_msg_bytes N W random_dst K our_node_name msg i rs =
     and_then (serialize_msg W our_node_name msg)
       (\<lambda>(kind, payload).
          (case serialize_and_cache_bytes W (new_msg i payload kind random_dst) of
             (_, Err e) \<Rightarrow> Err (Messaging e)
           | (initial_wire_msg, Ok _) \<Rightarrow> route_msgs N W K initial_wire_msg rs))"

subsection \<open>Convergence\<close>

text \<open>A newer section that is linked to what is known is taken.\<close>

lemma update_applies:
  assumes laws: "merkle_ok M ok" and X: "xor_api_ok X" and wf: "tree_wf X (sections T)"
    and tr: "tree_trusted M ok B T" and wfp: "dag_wf M ok P" and sgp: "dag_signed M B P"
    and ag: "agrees M (sections_dag T) P" and gen: "has_key (sections_dag T) (genesis_key P)"
    and new: "\<not> has_key (sections_dag T) (section_key B (sd_value s))"
    and last: "last_key M P = Ok (section_key B (sd_value s))"
    and self: "signed_self_verify B E s" "sg_public_key (sd_sig s) = section_key B (sd_value s)"
    and cov: "\<And>s'. tree_get_signed T (sap_prefix (sd_value s)) = Some s' \<Longrightarrow> has_key P (section_key B (sd_value s'))"
    and top: "\<And>q s'. bm_get (sections T) q = Some s' \<Longrightarrow> \<not> px_is_extension_of X q (sap_prefix (sd_value s))"
  shows "\<exists>T'. update_the_section_tree M B X E T \<lparr> up_signed_sap = s, up_proof_chain = P \<rparr> = (T', Ok True) \<and>
    tree_wf X (sections T') \<and> tree_trusted M ok B T' \<and> bm_get (sections T') (sap_prefix (sd_value s)) = Some s"
proof -
  let ?u = "\<lparr> up_signed_sap = s, up_proof_chain = P \<rparr>"
  note dc = dag_context.intro [OF laws]
  have D: "dag_wf M ok (sections_dag T)" "dag_signed M B (sections_dag T)" using tr by (auto simp: tree_trusted_def)
  obtain D' where m: "merge M B (sections_dag T) P = (D', Ok ())"
    using dag_context.merge_union [OF dc D wfp sgp ag gen] by blast
  have "\<not> (\<exists>q \<in> dom (bm_get (sections T)). px_is_extension_of X q (sap_prefix (sd_value s)))" using top by blast
  with prefix_space.tree_insert_get [OF prefix_space.intro [OF X] tw_map [OF wf], of s]
  obtain m' where m': "tree_insert X (sections T) s = Some (m', True)" by (auto simp only: simp_thms)
  have tk: "check_trust P (dag_keys M (sections_dag T))"
    using gen dag_context.dag_keys_has_key [OF dc D(1)] by (auto simp: check_trust_def list_ex_iff)
  have up: "update_the_section_tree M B X E T ?u = (T\<lparr>sections := m', sections_dag := D'\<rparr>, Ok True)"
    using new cov self last tk m m' by (simp add: update_the_section_tree_def Let_def split: option.split)
  have "compatible M (sections_dag T) (up_proof_chain ?u)" using ag gen by (simp add: compatible_def)
  from update_tree_spec [OF laws X wf tr _ this, of E] wfp show ?thesis unfolding up by simp
qed

lemma update_applied:
  assumes laws: "merkle_ok M ok" and hw: "history_wf (nk_section_members K)"
    and up: "update_the_section_tree M B X E (nk_section_tree K) u = (T', Ok True)"
    and tr: "tree_trusted M ok B T'" and k: "has_key (sections_dag T') (section_key B (sd_value (up_signed_sap u)))"
  shows "\<exists>K'. update_sap_knowledge_if_valid M B X E C K u name = (K', Ok True) \<and> nk_section_tree K' = T'"
proof (cases "px_matches X (sap_prefix (sd_value (up_signed_sap u))) name")
  case True
  from update_sap_own [OF laws hw up tr k this, of C] show ?thesis by auto
next
  case False
  from update_sap_unchanged [OF up, of name C] False show ?thesis by simp
qed

lemma matching_comparable:
  assumes X: "xor_api_ok X" and "px_matches X p n" "px_matches X q n" "\<not> px_is_extension_of X p q" "\<not> px_is_extension_of X q p"
  shows "p = q"
proof -
  have eq: "take (length p) q = p" if "length p \<le> length q" "px_matches X p n" "px_matches X q n" for p q
    using that by (intro nth_equalityI) (auto simp: xor_api_okD [OF X])
  consider "length p < length q" | "length q < length p" | "length p = length q" by linarith
  then show ?thesis
  proof cases
    case 1
    with eq [of p q] assms(2,3,5) show ?thesis by (simp add: xor_api_okD(3) [OF X])
  next
    case 2
    with eq [of q p] assms(2-4) show ?thesis by (simp add: xor_api_okD(3) [OF X])
  next
    case 3
    with eq [of p q] assms(2,3) show ?thesis by simp
  qed
qed

text \<open>
  C3. One round of anti-entropy is enough. A sender whose section key for the destination is an
  ancestor of the key of the section that the message reaches is told to retry; the update of that answer is
  accepted by the sender, also when the section has split since; the message sent again then names
  the section's current key, and is accepted.
\<close>

theorem anti_entropy_converges:
  assumes laws: "merkle_ok (ne_dag N) ok" and X: "xor_api_ok (ne_xor N)"
    and common: "\<And>p n. px_common_prefix (ne_xor N) p n = common_bits (ne_xor N) p n"
    and sender: "nk_inv (ne_dag N) ok (ne_bls N) (ne_xor N) K" and receiver: "nk_inv (ne_dag N) ok (ne_bls N) (ne_xor N) R"
    and own: "signed_self_verify (ne_bls N) (ne_enc_sap N) (nk_signed_sap R)"
      "sg_public_key (sd_sig (nk_signed_sap R)) = nk_section_key (ne_bls N) R"
    and here: "px_matches (ne_xor N) (nk_prefix R) name"
    and known: "bm_get (sections (nk_section_tree K)) p = Some s" "px_matches (ne_xor N) p name"
    and older: "get_ancestors (ne_dag N) (nk_dag R) (nk_section_key (ne_bls N) R) = Ok as"
      "section_key (ne_bls N) (sd_value s) \<in> set as"
    and new: "\<not> has_key (nk_dag K) (nk_section_key (ne_bls N) R)"
    and top: "\<And>q s'. bm_get (sections (nk_section_tree K)) q = Some s' \<Longrightarrow> \<not> px_is_extension_of (ne_xor N) q (nk_prefix R)"
    and agree: "\<And>P. get_proof_chain_to_current_section (ne_dag N) (ne_bls N) R (section_key (ne_bls N) (sd_value s)) = Ok P
      \<Longrightarrow> agrees (ne_dag N) (nk_dag K) P"
    and msg: "generate_dst (ne_bls N) (ne_xor N) K name = Ok (wm_dst w)" "wire_serialize W w = Ok bounced"
  shows "\<exists>u K'. check_for_entropy N W elder w R = Ok (Some (u, Retry bounced)) \<and>
    update_sap_knowledge_if_valid (ne_dag N) (ne_bls N) (ne_xor N) (ne_enc_sap N) (ne_codec N) K u our_name = (K', Ok True) \<and>
    generate_dst (ne_bls N) (ne_xor N) K' name = Ok \<lparr> dst_name = name, dst_section_key = nk_section_key (ne_bls N) R \<rparr> \<and>
    (\<forall>w'. generate_dst (ne_bls N) (ne_xor N) K' name = Ok (wm_dst w') \<longrightarrow> check_for_entropy N W elder w' R = Ok None)"
proof -
  let ?M = "ne_dag N" and ?B = "ne_bls N" and ?X = "ne_xor N" and ?k = "section_key (ne_bls N) (sd_value s)"
  let ?T = "nk_section_tree K" and ?sR = "nk_signed_sap R"
  note dc = dag_context.intro [OF laws]
  have R: "dag_wf ?M ok (nk_dag R)" "dag_signed ?M ?B (nk_dag R)" using nk_invD(2) [OF receiver] by (auto simp: tree_trusted_def)
  obtain P as' where P: "get_proof_chain_to_current_section ?M ?B R ?k = Ok P" "dag_wf ?M ok P" "dag_signed ?M ?B P"
      "genesis_key P = ?k" "last_key ?M P = Ok (nk_section_key ?B R)" "has_key P ?k"
    using dag_context.partial_dag_is_branch [OF dc R(1) older(1), of ?k ?B] older(2) R(2)
    unfolding get_proof_chain_to_current_section_def by (metis has_key_def list.set_intros(2))
  have kK: "has_key (nk_dag K) ?k" using nk_invD(2) [OF sender] known(1) by (auto simp: tree_trusted_def)
  have dst: "wm_dst w = \<lparr> dst_name = name, dst_section_key = ?k \<rparr>"
    using msg(1) get_signed_by_name_matching [OF X common nk_invD(1) [OF sender] known]
    by (simp add: generate_dst_def section_auth_by_name_def)
  have ne: "?k \<noteq> nk_section_key ?B R" using kK new by auto
  let ?u = "\<lparr> up_signed_sap = ?sR, up_proof_chain = P \<rparr>"
  have chk: "check_for_entropy N W elder w R = Ok (Some (?u, Retry bounced))"
    using here ne P(1) msg(2) by (simp add: check_for_entropy_def Let_def dst generate_ae_section_tree_update_def)
  have cov: "has_key P (section_key ?B (sd_value s'))" if "tree_get_signed ?T (sap_prefix (sd_value ?sR)) = Some s'" for s'
  proof -
    have g: "bm_get (sections ?T) (nk_prefix R) = Some s'" using that by (simp add: tree_get_signed_def nk_prefix_def)
    have "nk_prefix R = p"
      by (rule matching_comparable [OF X here known(2)]) (use tw_chain [OF nk_invD(1) [OF sender]] g known(1) in blast)+
    then show ?thesis using g known(1) P(6) by simp
  qed
  obtain T' where T': "update_the_section_tree ?M ?B ?X (ne_enc_sap N) ?T ?u = (T', Ok True)" "tree_wf ?X (sections T')"
      "tree_trusted ?M ok ?B T'" "bm_get (sections T') (nk_prefix R) = Some ?sR"
    using update_applies [OF laws X nk_invD(1,2) [OF sender] P(2,3) agree [OF P(1)], where s = ?sR and E = "ne_enc_sap N"]
      P(4,5) kK new own cov top by (auto simp: nk_section_key_def nk_prefix_def)
  obtain K' where K': "update_sap_knowledge_if_valid ?M ?B ?X (ne_enc_sap N) (ne_codec N) K ?u our_name = (K', Ok True)"
    and tK: "nk_section_tree K' = T'"
    using update_applied [OF laws nk_invD(4) [OF sender] T'(1,3), of "ne_codec N" our_name] T'(3,4)
    by (auto simp: tree_trusted_def nk_prefix_def)
  have dst': "generate_dst ?B ?X K' name = Ok \<lparr> dst_name = name, dst_section_key = nk_section_key ?B R \<rparr>"
    using get_signed_by_name_matching [OF X common T'(2) T'(4) here]
    by (simp add: generate_dst_def section_auth_by_name_def tK nk_section_key_def)
  have "check_for_entropy N W elder w' R = Ok None" if "generate_dst ?B ?X K' name = Ok (wm_dst w')" for w'
  proof -
    have "wm_dst w' = \<lparr> dst_name = name, dst_section_key = nk_section_key ?B R \<rparr>" using that dst' by simp
    then show ?thesis using here by (simp add: check_for_entropy_def)
  qed
  with chk K' dst' show ?thesis by blast
qed

subsection \<open>Instances\<close>

text \<open>The sample network after its first change of elders, as a node of the section knows it.\<close>

definition later_knowledge :: "dag_node list network_knowledge" where
  "later_knowledge = \<lparr> nk_signed_sap = sample_signed [] 2, nk_section_members = new_history,
     nk_section_tree = \<lparr> sections = [([], sample_signed [] 2)], sections_dag = sample_dag1 \<rparr> \<rparr>"

lemma later_knowledge_inv: "nk_inv sample_register distinct ref_bls ref_xor later_knowledge"
  using sample_wf1 sample_signed1
  by (simp add: nk_inv_def later_knowledge_def singleton_tree_wf nk_section_key_def history_wf_def new_history_def
      bm_wf_Nil tree_trusted_def sample_keys1)

lemma sample_chain:
  "get_ancestors sample_register sample_dag1 2 = Ok [1]"
  "partial_dag sample_register sample_dag1 1 2 = Ok sample_dag1"
proof -
  show "get_ancestors sample_register sample_dag1 2 = Ok [1]"
    by (simp add: get_ancestors_def key_fuel_def sample_walk sample_dag1_def eval_nat_numeral)
  show "partial_dag sample_register sample_dag1 1 2 = Ok sample_dag1"
    by (simp add: partial_dag_def get_node_def node_fuel_def sample_walk sample_simps sample_dag1_def eval_nat_numeral)
qed

lemma sample_node_env_simps [simp]:
  "ne_dag sample_node_env = sample_register" "ne_bls sample_node_env = ref_bls" "ne_xor sample_node_env = ref_xor"
  "ne_enc_sap sample_node_env = Section_Tree.sample_codec" "ne_keys sample_node_env = ref_keys"
  by (simp_all add: sample_node_env_def ref_dkg_env_def)

lemma ref_matches_empty: "px_matches ref_xor [] n"
  by (simp add: ref_xor_def)

theorem anti_entropy_converges_witness:
  "\<exists>u K'. check_for_entropy sample_node_env sample_wire True sample_msg later_knowledge
        = Ok (Some (u, Retry ([0, 5, 0, 1, 1], [2], [4]))) \<and>
     update_sap_knowledge_if_valid sample_register ref_bls ref_xor Section_Tree.sample_codec
       (ne_codec sample_node_env) sample_knowledge u [7] = (K', Ok True) \<and>
     generate_dst ref_bls ref_xor K' [] = Ok \<lparr> dst_name = [], dst_section_key = 2 \<rparr>"
proof -
  have dst: "generate_dst ref_bls ref_xor sample_knowledge [] = Ok (wm_dst sample_msg)"
    by (simp add: generate_dst_def section_auth_by_name_def get_signed_by_name_def sample_knowledge_def
        sample_tree_def sample_msg_def new_msg_def sample_dst_def)
  have R: "nk_prefix later_knowledge = []" "nk_section_key ref_bls later_knowledge = 2"
    "nk_dag later_knowledge = sample_dag1" "nk_signed_sap later_knowledge = sample_signed [] 2"
    by (simp_all add: later_knowledge_def nk_prefix_def nk_section_key_def)
  have K: "nk_dag sample_knowledge = sections_dag sample_tree"
    "bm_get (sections (nk_section_tree sample_knowledge)) q = (if q = [] then Some (sample_signed [] 1) else None)" for q
    by (simp_all add: sample_knowledge_def sample_tree_def)
  have "agrees sample_register (sections_dag sample_tree) sample_dag1"
    using sample_compatible by (simp add: compatible_def sample_genesis sample_tree_facts)
  then have "\<exists>u K'. check_for_entropy sample_node_env sample_wire True sample_msg later_knowledge
        = Ok (Some (u, Retry ([0, 5, 0, 1, 1], [2], [4]))) \<and>
     update_sap_knowledge_if_valid (ne_dag sample_node_env) (ne_bls sample_node_env) (ne_xor sample_node_env)
       (ne_enc_sap sample_node_env) (ne_codec sample_node_env) sample_knowledge u [7] = (K', Ok True) \<and>
     generate_dst (ne_bls sample_node_env) (ne_xor sample_node_env) K' []
       = Ok \<lparr> dst_name = [], dst_section_key = nk_section_key (ne_bls sample_node_env) later_knowledge \<rparr> \<and>
     (\<forall>w'. generate_dst (ne_bls sample_node_env) (ne_xor sample_node_env) K' [] = Ok (wm_dst w')
        \<longrightarrow> check_for_entropy sample_node_env sample_wire True w' later_knowledge = Ok None)"
    by (intro anti_entropy_converges [where ok = distinct and p = "[]" and s = "sample_signed [] 1" and as = "[1]"])
      (simp_all add: sample_laws ref_xor_ok ref_common_bits sample_knowledge_inv later_knowledge_inv sample_serialized dst
        R K sample_self_verify sample_chain sample_chain(2) [unfolded One_nat_def] sample_tree_facts get_proof_chain_to_current_section_def ref_extension
        ref_matches_empty split: if_splits)
  then show ?thesis by (auto simp: R)
qed

end
