(* ===== verification/Node_Handover.thy ===== *)
theory Node_Handover
  imports Anti_Entropy
begin

section \<open>Handing a section over to its next elders\<close>

text \<open>
  \<open>sn_node/src/node/messaging/handover.rs\<close> and the first half of \<open>promotion.rs\<close>: the members of a finished
  key generation ask the elders for the handover, the elders agree on the next authority by
  consensus and send their shares of the signature over the new section key to the new elders, who
  combine them.
\<close>

subsection \<open>Promotion\<close>

definition handle_handover_promotion ::
  "('m, 'r, 'k, 'a, 'h, 'd) node_env \<Rightarrow> ('m, 'k, 'a, 'h, 'd) my_node \<Rightarrow> signed_sap \<Rightarrow> sig_share \<Rightarrow> node_id
     \<Rightarrow> ('m, 'k, 'a, 'h, 'd) my_node \<times> (('m, 'r) cmd list, node_error) result" where
  "handle_handover_promotion N S s share sender =
     (let K = mn_network_knowledge S; sig_share_pk = pks_public_key (ne_bls N) (sh_key_set share) in
      if \<not> px_matches (ne_xor N) (nk_prefix K) (nid_name sender) then (S, Ok [])
      else if \<not> has_chain_key (ne_dag N) (ne_bls N) K sig_share_pk then (S, Ok [])
      else case pk_serialize (ne_bls N) (sg_public_key (sd_sig s)) of
        None \<Rightarrow> (S, Err Bincode_node)
      | Some serialised_pk \<Rightarrow>
          (let (m, r) = try_aggregate (ne_bls N) (ne_digest N) (mn_elder_promotion_aggregator S) serialised_pk share
           in (S\<lparr>mn_elder_promotion_aggregator := m\<rparr>,
               Ok (case r of Ok (Some sig) \<Rightarrow> [HandleNewEldersAgreement s sig] | _ \<Rightarrow> []))))"

definition handle_section_split_promotion ::
  "('m, 'r, 'k, 'a, 'h, 'd) node_env \<Rightarrow> ('m, 'k, 'a, 'h, 'd) my_node \<Rightarrow> signed_sap \<Rightarrow> sig_share \<Rightarrow> signed_sap
     \<Rightarrow> sig_share \<Rightarrow> node_id \<Rightarrow> ('m, 'k, 'a, 'h, 'd) my_node \<times> (('m, 'r) cmd list, node_error) result" where
  "handle_section_split_promotion N S s1 share1 s2 share2 sender =
     (let K = mn_network_knowledge S;
          sig_share_pk1 = pks_public_key (ne_bls N) (sh_key_set share1);
          sig_share_pk2 = pks_public_key (ne_bls N) (sh_key_set share2) in
      if \<not> px_matches (ne_xor N) (nk_prefix K) (nid_name sender) then (S, Ok [])
      else if \<not> has_chain_key (ne_dag N) (ne_bls N) K sig_share_pk1
          \<or> \<not> has_chain_key (ne_dag N) (ne_bls N) K sig_share_pk2 then (S, Ok [])
      else case (pk_serialize (ne_bls N) (sg_public_key (sd_sig s1)), pk_serialize (ne_bls N) (sg_public_key (sd_sig s2))) of
        (Some serialised_pk1, Some serialised_pk2) \<Rightarrow>
          (let (m1, res1) = try_aggregate (ne_bls N) (ne_digest N) (mn_elder_promotion_aggregator S) serialised_pk1 share1;
               (m2, res2) = try_aggregate (ne_bls N) (ne_digest N) m1 serialised_pk2 share2
           in (S\<lparr>mn_elder_promotion_aggregator := m2\<rparr>,
               Ok (case (res1, res2) of
                     (Ok (Some sig1), Ok (Some sig2)) \<Rightarrow> [HandleNewSectionsAgreement s1 sig1 s2 sig2]
                   | _ \<Rightarrow> [])))
      | _ \<Rightarrow> (S, Err Bincode_node))"

subsection \<open>Ending a handover\<close>

definition broadcast_handover_vote_msg ::
  "('m, 'k, 'a, 'h, 'd) my_node \<Rightarrow> signed_vote \<Rightarrow> ('m, 'r) cmd" where
  "broadcast_handover_vote_msg S v = send_to_elders S (HandoverVotes [v])"

text \<open>The node's own promotion: what it fails with is only logged.\<close>

definition own_cmds ::
  "('m, 'r) cmd list \<Rightarrow> ('m, 'k, 'a, 'h, 'd) my_node \<times> (('m, 'r) cmd list, node_error) result
     \<Rightarrow> ('m, 'k, 'a, 'h, 'd) my_node \<times> (('m, 'r) cmd list, node_error) result" where
  "own_cmds cs p = (case p of (S, Ok c) \<Rightarrow> (S, Ok (cs @ c)) | (S, Err _) \<Rightarrow> (S, Ok cs))"

definition broadcast_handover_completed ::
  "('m, 'r, 'k, 'a, 'h, 'd) node_env \<Rightarrow> ('m, 'k, 'a, 'h, 'd) my_node \<Rightarrow> sap_candidate
     \<Rightarrow> ('m, 'k, 'a, 'h, 'd) my_node \<times> (('m, 'r) cmd list, node_error) result" where
  "broadcast_handover_completed N S candidate =
     (let (others, myself) = split_nodes_and_self N S (candidate_elders candidate);
          nodes = Multiple others;
          share = (\<lambda>s. and_then (ok_or (pk_serialize (ne_bls N) (sg_public_key (sd_sig s))) Bincode_node)
            (sign_with_section_key_share N S))
      in case candidate of
        ElderHandover s \<Rightarrow>
          (case share s of
             Err e \<Rightarrow> (S, Err e)
           | Ok sh \<Rightarrow>
               (let cmds = [send_msg (SectionHandoverPromotion s sh) nodes] in
                case myself of
                  Some elder \<Rightarrow> own_cmds cmds (handle_handover_promotion N S s sh elder)
                | None \<Rightarrow> (S, Ok cmds)))
      | SectionSplit s0 s1 \<Rightarrow>
          (case (share s0, share s1) of
             (Err e, _) \<Rightarrow> (S, Err e)
           | (_, Err e) \<Rightarrow> (S, Err e)
           | (Ok sh0, Ok sh1) \<Rightarrow>
               (let cmds = [send_msg (SectionSplitPromotion s0 sh0 s1 sh1) nodes] in
                case myself of
                  Some elder \<Rightarrow> own_cmds cmds (handle_section_split_promotion N S s0 sh0 s1 sh1 elder)
                | None \<Rightarrow> (S, Ok cmds))))"

definition propose_handover_consensus ::
  "('m, 'r, 'k, 'a, 'h, 'd) node_env \<Rightarrow> ('m, 'k, 'a, 'h, 'd) my_node \<Rightarrow> sap_candidate
     \<Rightarrow> ('m, 'k, 'a, 'h, 'd) my_node \<times> (('m, 'r) cmd list, node_error) result" where
  "propose_handover_consensus N S candidate =
     (case mn_handover_voting S of
        None \<Rightarrow> (S, Ok [])
      | Some handover_voting_state \<Rightarrow>
          (case ho_propose (ne_handover N) handover_voting_state candidate of
             (_, Err e) \<Rightarrow> (S, Err (HandoverError e))
           | (vs, Ok vote) \<Rightarrow>
               (let S1 = S\<lparr>mn_handover_voting := Some vs\<rparr>;
                    cmds = [broadcast_handover_vote_msg S vote]
                in if consensus_value (ne_cmp_candidate N) (ne_handover N) vs \<noteq> None
                   then own_cmds cmds (broadcast_handover_completed N S1 candidate)
                   else (S1, Ok cmds))))"

subsection \<open>Requests for a handover\<close>

text \<open>\<open>BTreeSet::insert\<close> in an order that is a parameter.\<close>

fun set_insert_by :: "('a \<Rightarrow> 'a \<Rightarrow> ordering) \<Rightarrow> 'a \<Rightarrow> 'a list \<Rightarrow> 'a list" where
  "set_insert_by cmp x [] = [x]"
| "set_insert_by cmp x (y # ys) =
     (case cmp x y of Less \<Rightarrow> x # y # ys | Equal \<Rightarrow> y # ys | Greater \<Rightarrow> y # set_insert_by cmp x ys)"

definition handle_request_handover_agreement ::
  "('m, 'r, 'k, 'a, 'h, 'd) node_env \<Rightarrow> ('m, 'k, 'a, 'h, 'd) my_node \<Rightarrow> sap \<Rightarrow> section_sig
     \<Rightarrow> ('m, 'k, 'a, 'h, 'd) my_node \<times> (('m, 'r) cmd list, node_error) result" where
  "handle_request_handover_agreement N S s sig =
     (let equal_prefix = (sap_prefix s = mn_prefix S);
          is_extension_prefix = px_is_extension_of (ne_xor N) (sap_prefix s) (mn_prefix S);
          signed_sap = \<lparr> sd_value = s, sd_sig = sig \<rparr>
      in
      if \<not> equal_prefix \<and> \<not> is_extension_prefix then (S, Ok [])
      else if equal_prefix then propose_handover_consensus N S (ElderHandover signed_sap)
      else
        (let candidates = (case bm_get (mn_pending_split_sections S) (sap_membership_gen s) of
               Some present \<Rightarrow> set_insert_by (ne_cmp_sap N) signed_sap present
             | None \<Rightarrow> [signed_sap]);
             S1 = S\<lparr>mn_pending_split_sections :=
               bm_insert (sap_membership_gen s) candidates (mn_pending_split_sections S)\<rparr>
         in case candidates of
              [sap1, sap2] \<Rightarrow> propose_handover_consensus N S1 (SectionSplit sap1 sap2)
            | _ \<Rightarrow> (S1, Ok [])))"

definition handle_handover_request ::
  "('m, 'r, 'k, 'a, 'h, 'd) node_env \<Rightarrow> ('m, 'k, 'a, 'h, 'd) my_node \<Rightarrow> sap \<Rightarrow> sig_share \<Rightarrow> node_id
     \<Rightarrow> ('m, 'k, 'a, 'h, 'd) my_node \<times> (('m, 'r) cmd list, node_error) result" where
  "handle_handover_request N S s share sender =
     (if \<not> contains_elder s (nid_name sender) then (S, Ok [])
      else case ne_enc_sap N s of
        None \<Rightarrow> (S, Err Bincode_node)
      | Some serialised_sap \<Rightarrow>
          (let (m, r) = try_aggregate_total (ne_bls N) (ne_digest N) (mn_handover_request_aggregator S)
                 serialised_sap share (sap_elder_count s);
               S1 = S\<lparr>mn_handover_request_aggregator := m\<rparr>
           in case r of
                Ok (Some sig) \<Rightarrow> handle_request_handover_agreement N S1 s sig
              | _ \<Rightarrow> (S1, Ok [])))"

subsection \<open>Votes\<close>

definition check_sap_sig ::
  "('m, 'r, 'k, 'a, 'h, 'd) node_env \<Rightarrow> signed_sap \<Rightarrow> (unit, node_error) result" where
  "check_sap_sig N s =
     and_then (ok_or (ne_enc_sap N (sd_value s)) Bincode_node)
       (\<lambda>sap_bytes.
          if \<not> section_sig_verify (ne_bls N) (sd_sig s) sap_bytes then Err InvalidSignature_node
          else if section_key (ne_bls N) (sd_value s) \<noteq> sg_public_key (sd_sig s)
          then Err UntrustedSectionAuthProvider_node
          else Ok ())"

definition get_sap_for_prefix ::
  "('m, 'k, 'a, 'h, 'd) my_node \<Rightarrow> prefix \<Rightarrow> (sap, node_error) result" where
  "get_sap_for_prefix S p =
     ok_or (tree_get (nk_section_tree (mn_network_knowledge S)) p) (FailedToGetSAPforPrefix p)"

definition check_elder_handover_candidates ::
  "('m, 'r, 'k, 'a, 'h, 'd) node_env \<Rightarrow> ('m, 'k, 'a, 'h, 'd) my_node \<Rightarrow> sap \<Rightarrow> (unit, node_error) result" where
  "check_elder_handover_candidates N S s =
     and_then (get_sap_for_prefix S (sap_prefix s))
       (\<lambda>previous_gen_sap.
          (let members = nk_members_at_gen (mn_network_knowledge S) (sap_membership_gen s);
               received_candidates = bs_from_iter (sap_elders s);
               expected_candidates = bs_from_iter (map ns_node_id
                 (elder_candidates (ne_elder_count_var N) (bm_values members) previous_gen_sap))
           in if received_candidates \<noteq> expected_candidates then Err InvalidElderCandidates else Ok ()))"

definition session_nodes :: "dkg_session_id \<Rightarrow> node_id bset" where
  "session_nodes i = bs_from_iter (map (\<lambda>(n, a). NodeId n a) (dk_elders i))"

definition check_section_split_candidates ::
  "('m, 'r, 'k, 'a, 'h, 'd) node_env \<Rightarrow> ('m, 'k, 'a, 'h, 'd) my_node \<Rightarrow> sap \<Rightarrow> sap \<Rightarrow> (unit, node_error) result" where
  "check_section_split_candidates N S sap1 sap2 =
     and_then (get_sap_for_prefix S (px_popped (ne_xor N) (sap_prefix sap1)))
       (\<lambda>previous_gen_sap.
          (let members = nk_members_at_gen (mn_network_knowledge S) (sap_membership_gen previous_gen_sap);
               received1 = bs_from_iter (sap_elders sap1);
               received2 = bs_from_iter (sap_elders sap2)
           in case try_split_dkg (ne_xor N) (ne_elder_count_var N) members previous_gen_sap 0 0 of
                Some (dkg1, dkg2) \<Rightarrow>
                  (let expected1 = session_nodes dkg1; expected2 = session_nodes dkg2 in
                   if (received1 \<noteq> expected1 \<or> received2 \<noteq> expected2)
                      \<and> (received2 \<noteq> expected1 \<or> received1 \<noteq> expected2)
                   then Err InvalidElderCandidates else Ok ())
              | None \<Rightarrow> Err InvalidSplitCandidates))"

definition check_sap_candidate_prefix ::
  "('m, 'r, 'k, 'a, 'h, 'd) node_env \<Rightarrow> ('m, 'k, 'a, 'h, 'd) my_node \<Rightarrow> sap_candidate \<Rightarrow> (unit, node_error) result" where
  "check_sap_candidate_prefix N S candidate =
     (let X = ne_xor N; our_p = mn_prefix S in
      case candidate of
        ElderHandover single_sap \<Rightarrow>
          if sap_prefix (sd_value single_sap) = our_p then Ok () else Err InvalidSectionPrefixForCandidate
      | SectionSplit sap1 sap2 \<Rightarrow>
          (let p1 = sap_prefix (sd_value sap1); p2 = sap_prefix (sd_value sap2) in
           if px_is_extension_of X p1 our_p \<and> px_is_extension_of X p2 our_p
              \<and> px_bit_count X p1 = px_bit_count X our_p + 1 \<and> px_bit_count X p2 = px_bit_count X our_p + 1
              \<and> p1 \<noteq> p2
           then Ok () else Err InvalidSectionPrefixForSplitCandidates))"

definition check_sap_candidate ::
  "('m, 'r, 'k, 'a, 'h, 'd) node_env \<Rightarrow> ('m, 'k, 'a, 'h, 'd) my_node \<Rightarrow> sap_candidate \<Rightarrow> (unit, node_error) result" where
  "check_sap_candidate N S candidate =
     and_then (check_sap_candidate_prefix N S candidate)
       (\<lambda>_. case candidate of
          ElderHandover s \<Rightarrow>
            and_then (check_sap_sig N s) (\<lambda>_. check_elder_handover_candidates N S (sd_value s))
        | SectionSplit s1 s2 \<Rightarrow>
            and_then (check_sap_sig N s1) (\<lambda>_. and_then (check_sap_sig N s2)
              (\<lambda>_. check_section_split_candidates N S (sd_value s1) (sd_value s2))))"

text \<open>The results of the checks are thrown away.\<close>

definition check_signed_vote_saps ::
  "('m, 'r, 'k, 'a, 'h, 'd) node_env \<Rightarrow> ('m, 'k, 'a, 'h, 'd) my_node \<Rightarrow> signed_vote \<Rightarrow> (unit, node_error) result" where
  "check_signed_vote_saps N S v =
     fold (\<lambda>candidate _. let _ = check_sap_candidate N S candidate in Ok ()) (vote_proposals (ne_handover N) v) (Ok ())"

definition handle_vote ::
  "('m, 'r, 'k, 'a, 'h, 'd) node_env \<Rightarrow> ('m, 'k, 'a, 'h, 'd) my_node \<Rightarrow> 'h handover \<Rightarrow> signed_vote
     \<Rightarrow> 'h handover \<times> (('m, 'r) cmd list, node_error) result" where
  "handle_vote N S handover_state v =
     (let (H, r) = ho_handle_signed_vote (ne_handover N) handover_state v in
      (H, case r of
            Ok (CsBroadcast v') \<Rightarrow> Ok [broadcast_handover_vote_msg S v']
          | Ok CsWaitingForMoreVotes \<Rightarrow> Ok []
          | Err HoRequestAntiEntropy \<Rightarrow> Err (RequestHandoverAntiEntropy (ho_gen H))
          | Err _ \<Rightarrow> Ok []))"

definition handle_handover_vote ::
  "('m, 'r, 'k, 'a, 'h, 'd) node_env \<Rightarrow> ('m, 'k, 'a, 'h, 'd) my_node \<Rightarrow> signed_vote
     \<Rightarrow> ('m, 'k, 'a, 'h, 'd) my_node \<times> (('m, 'r) cmd list, node_error) result" where
  "handle_handover_vote N S v =
     st_then (S, check_signed_vote_saps N S v)
       (\<lambda>S _. case mn_handover_voting S of
          None \<Rightarrow> (S, Ok [])
        | Some handover_state \<Rightarrow>
            (let had_consensus_value = (consensus_value (ne_cmp_candidate N) (ne_handover N) handover_state \<noteq> None) in
             case handle_vote N S handover_state v of
               (_, Err e) \<Rightarrow> (S, Err e)
             | (state, Ok cmds) \<Rightarrow>
                 (let state = handle_empty_set_decision (ne_handover N) state;
                      (S1, r) = (case consensus_value (ne_cmp_candidate N) (ne_handover N) state of
                         Some candidates_sap \<Rightarrow>
                           if \<not> had_consensus_value
                           then own_cmds cmds (broadcast_handover_completed N S candidates_sap)
                           else (S, Ok cmds)
                       | None \<Rightarrow> (S, Ok cmds))
                  in (S1\<lparr>mn_handover_voting := Some state\<rparr>, r))))"

fun handle_handover_msg ::
  "('m, 'r, 'k, 'a, 'h, 'd) node_env \<Rightarrow> ('m, 'k, 'a, 'h, 'd) my_node \<Rightarrow> node_id \<Rightarrow> signed_vote list
     \<Rightarrow> ('m, 'k, 'a, 'h, 'd) my_node \<times> (('m, 'r) cmd list, node_error) result" where
  "handle_handover_msg N S i [] = (S, Ok [])"
| "handle_handover_msg N S i (v # vs) =
     (case handle_handover_vote N S v of
        (S1, Ok cs) \<Rightarrow>
          (case handle_handover_msg N S1 i vs of
             (S2, Ok cs') \<Rightarrow> (S2, Ok (cs @ cs'))
           | (S2, Err e) \<Rightarrow> (S2, Err e))
      | (S1, Err (RequestHandoverAntiEntropy gen)) \<Rightarrow>
          (S1, Ok [send_msg (HandoverAE gen) (Single (participant_from_node i))])
      | (S1, Err e) \<Rightarrow> (S1, Err e))"

definition handle_handover_anti_entropy ::
  "('m, 'r, 'k, 'a, 'h, 'd) node_env \<Rightarrow> ('m, 'k, 'a, 'h, 'd) my_node \<Rightarrow> node_id \<Rightarrow> nat \<Rightarrow> ('m, 'r) cmd option" where
  "handle_handover_anti_entropy N S i gen =
     (case mn_handover_voting S of
        Some handover \<Rightarrow>
          (case ho_anti_entropy (ne_handover N) handover gen of
             Ok catchup_votes \<Rightarrow> Some (send_msg (HandoverVotes catchup_votes) (Single (participant_from_node i)))
           | Err _ \<Rightarrow> None)
      | None \<Rightarrow> None)"

end
