(* ===== verification/Node_Dkg.thy ===== *)
theory Node_Dkg
  imports Node_Handover
begin

section \<open>Generating the key of the next elders\<close>

text \<open>
  \<open>sn_node/src/node/messaging/dkg.rs\<close> and the methods of \<open>MyNode\<close> that choose the candidates and keep the
  sessions: the elders sign a session and send it to the candidates, who exchange one-time keys and
  votes until each has a share of the new section key.

  The secret key that a session draws is the argument \<open>sk\<close>, the clock \<open>now\<close>. A failed assertion is
  the error \<open>Panicked\<close>, which every caller passes on.
\<close>

type_synonym ('m, 'r, 'k, 'a, 'h, 'd) handled =
  "('m, 'k, 'a, 'h, 'd) my_node \<times> (('m, 'r) cmd list, node_error) result"

definition dkg_nodes :: "nat \<Rightarrow> dkg_session_id \<Rightarrow> node_id bset" where
  "dkg_nodes our_index s =
     bs_from_iter (map snd (filter (\<lambda>(index, _). index \<noteq> our_index) (enumerate 0 (elder_ids s))))"

definition acknowledge_dkg_outcome ::
  "dkg_session_id \<Rightarrow> nat \<Rightarrow> public_key_set \<Rightarrow> secret_key_share \<Rightarrow> ('m, 'r) cmd" where
  "acknowledge_dkg_outcome s participant_index pub_key_set sec_key_share =
     HandleDkgOutcome (sap_from_dkg_session s pub_key_set)
       \<lparr> ks_public_key_set = pub_key_set, ks_index = participant_index, ks_secret_key_share = sec_key_share \<rparr>"

subsection \<open>Starting a session\<close>

definition dkg_start ::
  "('m, 'r, 'k, 'a, 'h, 'd) node_env \<Rightarrow> bls_secret_key \<Rightarrow> ('m, 'k, 'a, 'h, 'd) my_node \<Rightarrow> dkg_session_id
     \<Rightarrow> section_sig \<Rightarrow> ('m, 'r, 'k, 'a, 'h, 'd) handled" where
  "dkg_start N sk S s sig =
     (let our_name = mn_name N S in
      case elder_index s our_name of
        None \<Rightarrow> (S, Ok [])
      | Some our_id \<Rightarrow>
          if dk_section_chain_len s < mn_chain_len N S then (S, Ok [])
          else
            (let S1 = S\<lparr>mn_dkg_sessions_info := hm_insert (dk_hash (ne_dkg N) s)
                   \<lparr> si_session_id = s, si_authority = sig \<rparr> (mn_dkg_sessions_info S)\<rparr>;
                 (V, r) = gen_ephemeral_key (ne_dkg N) sk (mn_dkg_voter S1) s our_name (mn_keypair S1);
                 S2 = S1\<lparr>mn_dkg_voter := V\<rparr>
             in case r of
                  Ok (ephemeral_pub_key, key_sig) \<Rightarrow>
                    if check_ephemeral_dkg_key (ne_dkg N) s our_name ephemeral_pub_key key_sig \<noteq> Ok ()
                    then (S2, Err Panicked)
                    else (S2, Ok [send_msg (DkgEphemeralPubKey s sig ephemeral_pub_key key_sig)
                      (Multiple (dkg_nodes our_id s))])
                | Err DkgEphemeralKeyAlreadyGenerated \<Rightarrow> (S2, Ok [])
                | Err e \<Rightarrow> (S2, Err e)))"

definition aggregate_dkg_start ::
  "('m, 'r, 'k, 'a, 'h, 'd) node_env \<Rightarrow> ('m, 'k, 'a, 'h, 'd) my_node \<Rightarrow> dkg_session_id \<Rightarrow> sig_share
     \<Rightarrow> ('m, 'k, 'a, 'h, 'd) my_node \<times> (section_sig option, node_error) result" where
  "aggregate_dkg_start N S s elder_sig =
     (if mn_section_key N S \<noteq> pks_public_key (ne_bls N) (sh_key_set elder_sig)
      then (S, Err InvalidKeyShareSectionKey)
      else case ne_enc_session N s of
        None \<Rightarrow> (S, Err Bincode_node)
      | Some serialized_session_id \<Rightarrow>
          (let (m, r) = try_aggregate (ne_bls N) (ne_digest N) (mn_dkg_start_aggregator S) serialized_session_id elder_sig
           in (S\<lparr>mn_dkg_start_aggregator := m\<rparr>, map_err (\<lambda>_. InvalidSignatureShare_node) r)))"

definition handle_dkg_start ::
  "('m, 'r, 'k, 'a, 'h, 'd) node_env \<Rightarrow> bls_secret_key \<Rightarrow> ('m, 'k, 'a, 'h, 'd) my_node \<Rightarrow> dkg_session_id
     \<Rightarrow> sig_share \<Rightarrow> ('m, 'r, 'k, 'a, 'h, 'd) handled" where
  "handle_dkg_start N sk S s elder_sig =
     (case aggregate_dkg_start N S s elder_sig of
        (S1, Ok (Some sig)) \<Rightarrow> dkg_start N sk S1 s sig
      | (S1, Ok None) \<Rightarrow> (S1, Ok [])
      | (S1, Err _) \<Rightarrow> (S1, Ok []))"

definition sign_session_id ::
  "('m, 'r, 'k, 'a, 'h, 'd) node_env \<Rightarrow> ('m, 'k, 'a, 'h, 'd) my_node \<Rightarrow> dkg_session_id \<Rightarrow> (sig_share, node_error) result" where
  "sign_session_id N S s =
     and_then (map_err NetworkKnowledge_node
         (key_share (ne_bls N) (ne_lru N) (mn_section_keys_provider S) (mn_section_key N S)))
       (\<lambda>share. map_ok (\<lambda>bs. sign_with_key_share N bs share) (ok_or (ne_enc_session N s) Bincode_node))"

definition send_dkg_start ::
  "('m, 'r, 'k, 'a, 'h, 'd) node_env \<Rightarrow> bls_secret_key \<Rightarrow> ('m, 'k, 'a, 'h, 'd) my_node \<Rightarrow> dkg_session_id
     \<Rightarrow> ('m, 'r, 'k, 'a, 'h, 'd) handled" where
  "send_dkg_start N sk S s =
     (let our_name = mn_name N S;
          we_are_a_participant = list_ex (\<lambda>n. nid_name n = our_name) (elder_ids s);
          others = bs_from_iter (filter (\<lambda>n. nid_name n \<noteq> our_name) (elder_ids s))
      in case sign_session_id N S s of
           Err e \<Rightarrow> (S, Err e)
         | Ok share \<Rightarrow>
             (let cmds = (if others = [] then [] else [send_msg (DkgStart s share) (Multiple others)])
              in if \<not> we_are_a_participant then (S, Ok cmds)
                 else st_then (handle_dkg_start N sk S s share) (\<lambda>S1 cs. (S1, Ok (cmds @ cs)))))"

subsection \<open>Keys\<close>

definition broadcast_dkg_votes ::
  "dkg_session_id \<Rightarrow> dkg_pub_keys \<Rightarrow> nat \<Rightarrow> dkg_signed_vote list \<Rightarrow> ('m, 'r) cmd" where
  "broadcast_dkg_votes s pub_keys participant_index votes =
     send_msg (DkgVotes s pub_keys votes) (Multiple (dkg_nodes participant_index s))"

text \<open>
  The two functions call each other. \<open>handle_missed_dkg_start\<close> gets the call back as its
  argument \<open>retry\<close>, and the depth of the calls is bounded by a fuel: \<open>None\<close> is a call that has not returned.
\<close>

definition handle_missed_dkg_start ::
  "('m, 'r, 'k, 'a, 'h, 'd) node_env \<Rightarrow> bls_secret_key
     \<Rightarrow> (('m, 'k, 'a, 'h, 'd) my_node \<Rightarrow> ('m, 'r, 'k, 'a, 'h, 'd) handled option)
     \<Rightarrow> ('m, 'k, 'a, 'h, 'd) my_node \<Rightarrow> dkg_session_id \<Rightarrow> section_sig \<Rightarrow> ('m, 'r, 'k, 'a, 'h, 'd) handled option" where
  "handle_missed_dkg_start N sk retry S s section_auth =
     (case ne_enc_session N s of
        None \<Rightarrow> Some (S, Err Bincode_node)
      | Some serialized_session_id \<Rightarrow>
          if mn_section_key N S \<noteq> sg_public_key section_auth then Some (S, Ok [])
          else if \<not> section_sig_verify (ne_bls N) section_auth serialized_session_id then Some (S, Ok [])
          else
            (case dkg_start N sk S s section_auth of
               (S1, Err e) \<Rightarrow> Some (S1, Err e)
             | (S1, Ok cmds) \<Rightarrow> map_option (\<lambda>(S2, r). (S2, map_ok (\<lambda>cs. cmds @ cs) r)) (retry S1)))"

fun handle_dkg_ephemeral_pubkey ::
  "('m, 'r, 'k, 'a, 'h, 'd) node_env \<Rightarrow> bls_secret_key \<Rightarrow> nat \<Rightarrow> nat \<Rightarrow> ('m, 'k, 'a, 'h, 'd) my_node
     \<Rightarrow> dkg_session_id \<Rightarrow> section_sig \<Rightarrow> public_key \<Rightarrow> ed_signature \<Rightarrow> node_id
     \<Rightarrow> ('m, 'r, 'k, 'a, 'h, 'd) handled option" where
  "handle_dkg_ephemeral_pubkey N sk now 0 S s section_auth pub_key key_sig sender = None"
| "handle_dkg_ephemeral_pubkey N sk now (Suc fuel) S s section_auth pub_key key_sig sender =
     (case elder_index s (mn_name N S) of
        None \<Rightarrow> Some (S, Ok [])
      | Some our_id \<Rightarrow>
          (case try_init_dkg (ne_dkg N) now (mn_dkg_voter S) s our_id pub_key key_sig (nid_name sender) of
             (V, Ok None) \<Rightarrow> Some (S\<lparr>mn_dkg_voter := V\<rparr>, Ok [])
           | (V, Ok (Some (vote, pub_keys))) \<Rightarrow>
               Some (S\<lparr>mn_dkg_voter := V\<rparr>, Ok [broadcast_dkg_votes s pub_keys our_id [vote]])
           | (V, Err (NoDkgKeysForSession _)) \<Rightarrow>
               handle_missed_dkg_start N sk
                 (\<lambda>S'. handle_dkg_ephemeral_pubkey N sk now fuel S' s section_auth pub_key key_sig sender)
                 (S\<lparr>mn_dkg_voter := V\<rparr>) s section_auth
           | (V, Err _) \<Rightarrow> Some (S\<lparr>mn_dkg_voter := V\<rparr>, Ok [])))"

subsection \<open>Votes\<close>

definition request_dkg_ae :: "dkg_session_id \<Rightarrow> node_id \<Rightarrow> ('m, 'r) cmd" where
  "request_dkg_ae s sender = send_msg (DkgAE s) (Single (participant_from_node sender))"

fun handle_vote_response ::
  "dkg_session_id \<Rightarrow> dkg_pub_keys \<Rightarrow> node_id \<Rightarrow> nat \<Rightarrow> vote_response \<Rightarrow> ('m, 'r) cmd list \<times> ('m, 'r) cmd list" where
  "handle_vote_response s pub_keys sender our_id WaitingForMoreVotes = ([], [])"
| "handle_vote_response s pub_keys sender our_id RequestAntiEntropy_dkg = ([], [request_dkg_ae s sender])"
| "handle_vote_response s pub_keys sender our_id (BroadcastVote v) = ([broadcast_dkg_votes s pub_keys our_id [v]], [])"
| "handle_vote_response s pub_keys sender our_id (DkgComplete new_pubs new_sec) =
     ([acknowledge_dkg_outcome s our_id new_pubs new_sec], [])"

text \<open>The loop over the votes: the voter, the two lists of commands and \<open>is_old_gossip\<close> are its state.\<close>

fun handle_votes_loop ::
  "'d dkg_env \<Rightarrow> nat \<Rightarrow> dkg_session_id \<Rightarrow> dkg_pub_keys \<Rightarrow> node_id \<Rightarrow> nat \<Rightarrow> dkg_signed_vote list
     \<Rightarrow> 'd dkg_voter \<times> ('m, 'r) cmd list \<times> ('m, 'r) cmd list \<times> bool
     \<Rightarrow> 'd dkg_voter \<times> ('m, 'r) cmd list \<times> ('m, 'r) cmd list \<times> bool" where
  "handle_votes_loop G now s pub_keys sender our_id [] st = st"
| "handle_votes_loop G now s pub_keys sender our_id (v # vs) (V, cmds, ae_cmds, is_old_gossip) =
     (case handle_dkg_vote G V s v of
        (V1, Err _) \<Rightarrow> handle_votes_loop G now s pub_keys sender our_id vs (V1, cmds, ae_cmds, is_old_gossip)
      | (V1, Ok responses) \<Rightarrow>
          (let V2 = (if responses = [] then V1 else learned_something_from_message now V1);
               V3 = (if list_ex (\<lambda>r. case r of DkgComplete _ _ \<Rightarrow> True | _ \<Rightarrow> False) responses
                     then clear_dkg_msg_timer V2 else V2);
               outs = map (handle_vote_response s pub_keys sender our_id) responses
           in handle_votes_loop G now s pub_keys sender our_id vs
                (V3, cmds @ concat (map fst outs), ae_cmds @ concat (map snd outs),
                 is_old_gossip \<and> responses = [])))"

definition gossip_missing_votes ::
  "('m, 'r, 'k, 'a, 'h, 'd) node_env \<Rightarrow> ('m, 'k, 'a, 'h, 'd) my_node \<Rightarrow> dkg_session_id \<Rightarrow> node_id \<Rightarrow> nat
     \<Rightarrow> (('m, 'r) cmd list, node_error) result" where
  "gossip_missing_votes N S s sender their_votes_len =
     and_then (get_all_votes (ne_dkg N) (mn_dkg_voter S) s)
       (\<lambda>our_votes.
          if their_votes_len < length our_votes then
            map_ok (\<lambda>pub_keys. [send_msg (DkgVotes s pub_keys our_votes) (Single (participant_from_node sender))])
              (get_dkg_keys (ne_dkg N) (mn_dkg_voter S) s)
          else Ok [])"

definition handle_dkg_votes ::
  "('m, 'r, 'k, 'a, 'h, 'd) node_env \<Rightarrow> nat \<Rightarrow> ('m, 'k, 'a, 'h, 'd) my_node \<Rightarrow> dkg_session_id \<Rightarrow> dkg_pub_keys
     \<Rightarrow> dkg_signed_vote list \<Rightarrow> node_id \<Rightarrow> ('m, 'r, 'k, 'a, 'h, 'd) handled" where
  "handle_dkg_votes N now S s msg_keys votes sender =
     (case elder_index s (mn_name N S) of
        None \<Rightarrow> (S, Ok [])
      | Some our_id \<Rightarrow>
          (let (V, r) = check_keys (ne_dkg N) now (mn_dkg_voter S) s msg_keys; S1 = S\<lparr>mn_dkg_voter := V\<rparr> in
           st_then (S1, r) (\<lambda>S1 (pub_keys, just_completed).
             st_then
               (if just_completed then
                  (let (V, r) = initialize_dkg_state (ne_dkg N) (mn_dkg_voter S1) s our_id
                   in (S1\<lparr>mn_dkg_voter := V\<rparr>,
                       map_ok (\<lambda>(first_vote, _). [broadcast_dkg_votes s pub_keys our_id [first_vote]]) r))
                else (S1, Ok []))
               (\<lambda>S2 cmds.
                  (let (V, cmds, ae_cmds, is_old_gossip) = handle_votes_loop (ne_dkg N) now s pub_keys sender our_id
                         votes (mn_dkg_voter S2, cmds, [], True);
                       S3 = S2\<lparr>mn_dkg_voter := V\<rparr>;
                       cmds = (if cmds = [] then ae_cmds else cmds);
                       manual_ae = (if is_old_gossip \<and> length votes \<noteq> 1 then
                           (case gossip_missing_votes N S3 s sender (length votes) of Ok g \<Rightarrow> g | Err _ \<Rightarrow> [])
                         else [])
                   in (S3, Ok (cmds @ manual_ae)))))))"

definition handle_dkg_anti_entropy_request ::
  "'d dkg_env \<Rightarrow> 'd dkg_voter \<Rightarrow> dkg_session_id \<Rightarrow> node_id \<Rightarrow> (('m, 'r) cmd list, node_error) result" where
  "handle_dkg_anti_entropy_request G V s sender =
     and_then (get_dkg_keys G V s)
       (\<lambda>pub_keys. map_ok (\<lambda>votes. [send_msg (DkgVotes s pub_keys votes) (Single (participant_from_node sender))])
          (get_all_votes G V s))"

subsection \<open>Gossip\<close>

definition gossip_votes ::
  "'d dkg_env \<Rightarrow> 'd dkg_voter \<Rightarrow> dkg_session_id \<Rightarrow> dkg_signed_vote list \<Rightarrow> nat \<Rightarrow> ('m, 'r) cmd list" where
  "gossip_votes G V s votes our_id =
     (case get_dkg_keys G V s of
        Ok pub_keys \<Rightarrow> [broadcast_dkg_votes s pub_keys our_id votes]
      | Err _ \<Rightarrow> [])"

definition gossip_our_key ::
  "'d dkg_env \<Rightarrow> 'd dkg_voter \<Rightarrow> (bytes, dkg_session_info) hmap \<Rightarrow> dkg_session_id \<Rightarrow> xor_name \<Rightarrow> nat
     \<Rightarrow> ('m, 'r) cmd list" where
  "gossip_our_key G V sessions s our_name our_id =
     (case get_dkg_keys G V s of
        Err _ \<Rightarrow> []
      | Ok dkg_keys \<Rightarrow>
          (case (bm_get dkg_keys our_name, hm_get sessions (dk_hash G s)) of
             (Some (pub_key, key_sig), Some section_info) \<Rightarrow>
               [send_msg (DkgEphemeralPubKey s (si_authority section_info) pub_key key_sig)
                  (Multiple (dkg_nodes our_id s))]
           | _ \<Rightarrow> []))"

definition gossip_handover_trigger ::
  "'d dkg_env \<Rightarrow> 'd dkg_voter \<Rightarrow> dkg_session_id \<Rightarrow> ('m, 'r) cmd list" where
  "gossip_handover_trigger G V s =
     (case dkg_outcome G V s of
        Ok (Some (our_id, new_pubs, new_sec)) \<Rightarrow> [acknowledge_dkg_outcome s (unat our_id) new_pubs new_sec]
      | _ \<Rightarrow> [])"

definition session_gossip ::
  "('m, 'r, 'k, 'a, 'h, 'd) node_env \<Rightarrow> ('m, 'k, 'a, 'h, 'd) my_node \<Rightarrow> dkg_session_info \<Rightarrow> ('m, 'r) cmd list" where
  "session_gossip N S info =
     (let G = ne_dkg N; V = mn_dkg_voter S; s = si_session_id info; name = mn_name N S in
      case elder_index s name of
        None \<Rightarrow> []
      | Some our_id \<Rightarrow>
          if reached_termination G V s = Ok True then
            (if mn_chain_len N S \<noteq> dk_section_chain_len s then [] else gossip_handover_trigger G V s)
          else
            (case get_all_votes G V s of
               Ok votes \<Rightarrow> gossip_votes G V s votes our_id
             | Err _ \<Rightarrow> gossip_our_key G V (mn_dkg_sessions_info S) s name our_id))"

definition dkg_gossip_msgs ::
  "('m, 'r, 'k, 'a, 'h, 'd) node_env \<Rightarrow> ('m, 'k, 'a, 'h, 'd) my_node \<Rightarrow> ('m, 'r) cmd list" where
  "dkg_gossip_msgs N S = concat (map (\<lambda>(_, info). session_gossip N S info) (mn_dkg_sessions_info S))"

subsection \<open>Ending a session\<close>

definition force_dkg_termination ::
  "('m, 'r, 'k, 'a, 'h, 'd) node_env \<Rightarrow> dkg_session_id \<Rightarrow> public_key \<Rightarrow> ('m, 'k, 'a, 'h, 'd) my_node
     \<Rightarrow> ('m, 'k, 'a, 'h, 'd) my_node" where
  "force_dkg_termination N s expected_pk S =
     (let (V, r) = force_termination (ne_dkg N) (mn_dkg_voter S) s; S1 = S\<lparr>mn_dkg_voter := V\<rparr> in
      case r of
        Ok (Some (our_id, new_pubs, new_sec)) \<Rightarrow>
          if pks_public_key (ne_bls N) new_pubs = expected_pk
          then S1\<lparr>mn_section_keys_provider := keys_insert (ne_lru N) (mn_section_keys_provider S1)
            \<lparr> ks_public_key_set = new_pubs, ks_index = unat our_id, ks_secret_key_share = new_sec \<rparr>\<rparr>
          else S1
      | _ \<Rightarrow> S1)"

definition handle_dkg_outcome ::
  "('m, 'r, 'k, 'a, 'h, 'd) node_env \<Rightarrow> ('m, 'k, 'a, 'h, 'd) my_node \<Rightarrow> sap \<Rightarrow> section_key_share
     \<Rightarrow> ('m, 'r, 'k, 'a, 'h, 'd) handled" where
  "handle_dkg_outcome N S s share =
     (let S1 = S\<lparr>mn_section_keys_provider := keys_insert (ne_lru N) (mn_section_keys_provider S) share\<rparr> in
      if has_chain_key (ne_dag N) (ne_bls N) (mn_network_knowledge S1) (section_key (ne_bls N) s) then (S1, Ok [])
      else case ne_enc_sap N s of
        None \<Rightarrow> (S1, Err Bincode_node)
      | Some serialized_sap \<Rightarrow>
          (let sh = sign_with_key_share N serialized_sap share;
               (other_elders, myself) = split_nodes_and_self N S1 (sap_elders (mn_sap S1));
               cmds = [send_msg (RequestHandover s sh) (Multiple other_elders)]
           in case myself of
                Some elder \<Rightarrow> own_cmds cmds (handle_handover_request N S1 s sh elder)
              | None \<Rightarrow> (S1, Ok cmds)))"

subsection \<open>Candidates\<close>

definition track_dkg ::
  "('m, 'r, 'k, 'a, 'h, 'd) node_env \<Rightarrow> dkg_session_id \<Rightarrow> ('m, 'k, 'a, 'h, 'd) my_node \<Rightarrow> ('m, 'k, 'a, 'h, 'd) my_node" where
  "track_dkg N s S = fold (\<lambda>candidate S. track_node_issue N S candidate Dkg) (elder_names s) S"

definition best_elder_candidates_at_gen ::
  "('m, 'r, 'k, 'a, 'h, 'd) node_env \<Rightarrow> ('m, 'k, 'a, 'h, 'd) my_node \<Rightarrow> nat
     \<Rightarrow> ('m, 'k, 'a, 'h, 'd) my_node \<times> dkg_session_id list" where
  "best_elder_candidates_at_gen N S membership_gen =
     (let env = ne_elder_count_var N; s = mn_sap S; chain_len = mn_chain_len N S;
          members = nk_members_at_gen (mn_network_knowledge S) membership_gen
      in case try_split_dkg (ne_xor N) env members s chain_len membership_gen of
        Some (zero_dkg_id, one_dkg_id) \<Rightarrow>
          ((if bm_has (dk_elders zero_dkg_id) (mn_name N S) then track_dkg N zero_dkg_id S
            else if bm_has (dk_elders one_dkg_id) (mn_name N S) then track_dkg N one_dkg_id S
            else S), [zero_dkg_id, one_dkg_id])
      | None \<Rightarrow>
          (let current_elders = sap_elders s;
               candidates = elder_candidates env (bm_values members) s;
               session_id = \<lparr> dk_prefix = sap_prefix s,
                 dk_elders = bm_from_iter (map (\<lambda>n. (ns_name n, ns_addr n)) candidates),
                 dk_section_chain_len = chain_len, dk_bootstrap_members = bm_values members,
                 dk_membership_gen = membership_gen \<rparr>
           in if length current_elders \<ge> elder_count env then (S, [])
              else if map ns_node_id candidates = current_elders then (S, [])
              else if length candidates < supermajority (length current_elders) then (S, [])
              else if length candidates < length current_elders then (S, [])
              else (track_dkg N session_id S, [session_id])))"

definition best_elder_candidates ::
  "('m, 'r, 'k, 'a, 'h, 'd) node_env \<Rightarrow> ('m, 'k, 'a, 'h, 'd) my_node
     \<Rightarrow> ('m, 'k, 'a, 'h, 'd) my_node \<times> dkg_session_id list" where
  "best_elder_candidates N S =
     best_elder_candidates_at_gen N S (length (decisions (nk_section_members (mn_network_knowledge S))))"

fun send_dkg_starts ::
  "('m, 'r, 'k, 'a, 'h, 'd) node_env \<Rightarrow> (dkg_session_id \<Rightarrow> bls_secret_key) \<Rightarrow> dkg_session_id list
     \<Rightarrow> ('m, 'k, 'a, 'h, 'd) my_node \<Rightarrow> ('m, 'r) cmd list \<Rightarrow> ('m, 'r, 'k, 'a, 'h, 'd) handled" where
  "send_dkg_starts N sk [] S cmds = (S, Ok cmds)"
| "send_dkg_starts N sk (s # ss) S cmds =
     st_then (send_dkg_start N (sk s) S s) (\<lambda>S1 cs. send_dkg_starts N sk ss S1 (cmds @ cs))"

definition trigger_dkg ::
  "('m, 'r, 'k, 'a, 'h, 'd) node_env \<Rightarrow> (dkg_session_id \<Rightarrow> bls_secret_key) \<Rightarrow> ('m, 'k, 'a, 'h, 'd) my_node
     \<Rightarrow> ('m, 'r, 'k, 'a, 'h, 'd) handled" where
  "trigger_dkg N sk S = (let (S1, ss) = best_elder_candidates N S in send_dkg_starts N sk ss S1 [])"

subsection \<open>The sessions and votes of a node when its section changes\<close>

definition initialize_membership ::
  "('m, 'r, 'k, 'a, 'h, 'd) node_env \<Rightarrow> section_key_share \<Rightarrow> ('m, 'k, 'a, 'h, 'd) my_node
     \<Rightarrow> ('m, 'k, 'a, 'h, 'd) my_node \<times> bool" where
  "initialize_membership N key S =
     (let s = mn_sap S;
          fresh = (S\<lparr>mn_membership := Some (membership_from (ne_membership N) (vote_key N key)
            (ks_public_key_set key) (length (sap_elders s)) (sap_members s))\<rparr>, True)
      in case mn_membership S of
           Some m \<Rightarrow>
             if pks_public_key (ne_bls N) (cs_elders (ne_membership N) (ms_consensus m)) = section_key (ne_bls N) s
             then (S, False) else fresh
         | None \<Rightarrow> fresh)"

definition initialize_handover ::
  "('m, 'r, 'k, 'a, 'h, 'd) node_env \<Rightarrow> section_key_share \<Rightarrow> ('m, 'k, 'a, 'h, 'd) my_node
     \<Rightarrow> ('m, 'k, 'a, 'h, 'd) my_node \<times> bool" where
  "initialize_handover N key S =
     (let s = mn_sap S;
          fresh = (S\<lparr>mn_handover_voting := Some (handover_from (ne_handover N) (vote_key N key)
            (ks_public_key_set key) (length (sap_elders s)))\<rparr>, True)
      in case mn_handover_voting S of
           Some h \<Rightarrow>
             if pks_public_key (ne_bls N) (cs_elders (ne_handover N) (ho_consensus h)) = section_key (ne_bls N) s
             then (S, False) else fresh
         | None \<Rightarrow> fresh)"

definition initialize_elder_state ::
  "('m, 'r, 'k, 'a, 'h, 'd) node_env \<Rightarrow> section_key_share \<Rightarrow> ('m, 'k, 'a, 'h, 'd) my_node
     \<Rightarrow> ('m, 'k, 'a, 'h, 'd) my_node \<times> bool" where
  "initialize_elder_state N key S =
     (let (S1, updated1) = initialize_membership N key S;
          (S2, updated2) = initialize_handover N key S1
      in (S2, updated1 \<or> updated2))"

definition remove_sessions ::
  "bytes list \<Rightarrow> ('m, 'k, 'a, 'h, 'd) my_node \<Rightarrow> ('m, 'k, 'a, 'h, 'd) my_node" where
  "remove_sessions hs S =
     fold (\<lambda>hash S. S\<lparr>mn_dkg_sessions_info := hm_remove hash (mn_dkg_sessions_info S),
       mn_dkg_voter := voter_remove (mn_dkg_voter S) hash\<rparr>) hs S"

definition update_dkg_on_section_change ::
  "('m, 'r, 'k, 'a, 'h, 'd) node_env \<Rightarrow> public_key \<Rightarrow> ('m, 'k, 'a, 'h, 'd) my_node \<Rightarrow> ('m, 'k, 'a, 'h, 'd) my_node" where
  "update_dkg_on_section_change N new_section_key S =
     (let current_chain_len = mn_chain_len N S;
          prev_chain_len = current_chain_len - 1;
          prev_sessions = map (si_session_id \<circ> snd) (filter
            (\<lambda>(_, info). dk_section_chain_len (si_session_id info) = prev_chain_len) (mn_dkg_sessions_info S));
          S1 = fold (\<lambda>i. force_dkg_termination N i new_section_key) prev_sessions S;
          old_hashes = map fst (filter
            (\<lambda>(_, info). dk_section_chain_len (si_session_id info) < current_chain_len) (mn_dkg_sessions_info S1))
      in remove_sessions old_hashes S1)"

definition remove_dkg_sessions_with_missing_members ::
  "('m, 'k, 'a, 'h, 'd) my_node \<Rightarrow> ('m, 'k, 'a, 'h, 'd) my_node" where
  "remove_dkg_sessions_with_missing_members S =
     (let current_section_members = bs_from_iter (map nid_name (nk_members (mn_network_knowledge S)));
          missing_members_hashes = map fst (filter (\<lambda>(_, info).
            \<not> list_all (\<lambda>m. m \<in> set current_section_members) (elder_names (si_session_id info)))
            (mn_dkg_sessions_info S))
      in remove_sessions missing_members_hashes S)"

section \<open>Properties of the sessions\<close>

subsection \<open>Catching up with a session\<close>

lemma check_key_errors:
  "check_ephemeral_dkg_key G s n key sg \<noteq> Err (NoDkgKeysForSession s')"
  by (auto simp: check_ephemeral_dkg_key_def and_then_Err_iff split: if_splits)

lemma session_keys_errors: "session_public_keys s keys acc \<noteq> Err (NoDkgKeysForSession s')"
  by (induction s keys acc rule: session_public_keys.induct) (auto split: option.splits)

lemma initialize_errors:
  assumes "hm_get (dv_dkg_ephemeral_keys V) (dk_hash G s) \<noteq> None"
  shows "snd (initialize_dkg_state G V s i) \<noteq> Err (NoDkgKeysForSession s')"
  using assms session_keys_errors [of s]
  by (auto simp: initialize_dkg_state_def create_dkg_state_def Let_def and_then_Err_iff split: option.splits result.splits prod.splits)

lemma save_key_errors:
  assumes "save_key G now V s n key sg = (V', r)"
  shows "r = Err (NoDkgKeysForSession s') \<Longrightarrow> s' = s \<and> V' = V \<and> check_ephemeral_dkg_key G s n key sg = Ok () \<and>
      hm_get (dv_dkg_ephemeral_keys V) (dk_hash G s) = None"
    and "hm_get (dv_dkg_ephemeral_keys V) (dk_hash G s) \<noteq> None \<Longrightarrow> hm_get (dv_dkg_ephemeral_keys V') (dk_hash G s) \<noteq> None"
  using assms check_key_errors [of G s n key sg s']
  by (auto simp: save_key_def Let_def split: result.splits option.splits if_splits)

text \<open>Only a session without an own key makes a node look for a missed start.\<close>

lemma try_init_missing:
  "(\<exists>V' s'. try_init_dkg G now V s i key sg n = (V', Err (NoDkgKeysForSession s'))) \<longleftrightarrow>
     check_ephemeral_dkg_key G s n key sg = Ok () \<and> hm_get (dv_dkg_ephemeral_keys V) (dk_hash G s) = None"
  (is "?l \<longleftrightarrow> ?r")
proof
  assume ?l
  then obtain V' s' where ti: "try_init_dkg G now V s i key sg n = (V', Err (NoDkgKeysForSession s'))" by blast
  obtain V1 r where sv: "save_key G now V s n key sg = (V1, r)" by fastforce
  show ?r
  proof (cases r)
    case (Err e)
    then show ?thesis using ti sv save_key_errors(1) [OF sv] by (simp add: try_init_dkg_def)
  next
    case (Ok b)
    then have "hm_get (dv_dkg_ephemeral_keys V1) (dk_hash G s) \<noteq> None"
      using sv by (auto simp: save_key_def Let_def split: result.splits option.splits if_splits)
    with initialize_errors [OF this, of i s'] Ok ti sv show ?thesis
      by (auto simp: try_init_dkg_def split: if_splits prod.splits)
  qed
next
  assume ?r
  then show ?l by (auto simp: try_init_dkg_def save_key_def)
qed

abbreviation has_session_key ::
  "('m, 'r, 'k, 'a, 'h, 'd) node_env \<Rightarrow> ('m, 'k, 'a, 'h, 'd) my_node \<Rightarrow> dkg_session_id \<Rightarrow> bool" where
  "has_session_key N S s \<equiv> hm_get (dv_dkg_ephemeral_keys (mn_dkg_voter S)) (dk_hash (ne_dkg N) s) \<noteq> None"

text \<open>The section that a node is in has signed the session.\<close>

definition session_authorized ::
  "('m, 'r, 'k, 'a, 'h, 'd) node_env \<Rightarrow> ('m, 'k, 'a, 'h, 'd) my_node \<Rightarrow> dkg_session_id \<Rightarrow> section_sig \<Rightarrow> bool" where
  "session_authorized N S s auth \<longleftrightarrow>
     mn_section_key N S = sg_public_key auth \<and>
     (case ne_enc_session N s of Some bs \<Rightarrow> section_sig_verify (ne_bls N) auth bs | None \<Rightarrow> False)"

lemma name_same [simp]:
  "mn_name N (S\<lparr>mn_dkg_voter := V\<rparr>) = mn_name N S" "mn_name N (S\<lparr>mn_dkg_sessions_info := I\<rparr>) = mn_name N S"
  by (simp_all add: mn_name_def)

lemma dkg_start_keys:
  assumes "elder_index s (mn_name N S) \<noteq> None" and "\<not> dk_section_chain_len s < mn_chain_len N S"
    and "\<not> has_session_key N S s" and "dkg_start N sk S s auth = (S1, Ok cmds)"
  shows "has_session_key N S1 s \<and> mn_name N S1 = mn_name N S"
  using assms by (auto simp: dkg_start_def gen_ephemeral_key_def Let_def split: option.splits if_splits)

lemma pubkey_with_key_returns:
  assumes "has_session_key N S s"
  shows "handle_dkg_ephemeral_pubkey N sk now (Suc fuel) S s auth pk sg sender \<noteq> None"
proof -
  have no: "\<not> (\<exists>V s'. try_init_dkg (ne_dkg N) now (mn_dkg_voter S) s i pk sg (nid_name sender) = (V, Err (NoDkgKeysForSession s')))" for i
    using assms unfolding try_init_missing by blast
  show ?thesis
    by (auto split: option.splits prod.splits result.splits node_error.splits) (use no in blast)+
qed

lemma pubkey_missing:
  assumes "elder_index s (mn_name N S) \<noteq> None" "\<not> has_session_key N S s"
    and "check_ephemeral_dkg_key (ne_dkg N) s (nid_name sender) pk sg = Ok ()"
  shows "handle_dkg_ephemeral_pubkey N sk now (Suc fuel) S s auth pk sg sender =
    handle_missed_dkg_start N sk (\<lambda>S'. handle_dkg_ephemeral_pubkey N sk now fuel S' s auth pk sg sender) S s auth"
proof -
  have "try_init_dkg (ne_dkg N) now (mn_dkg_voter S) s i pk sg (nid_name sender) = (mn_dkg_voter S, Err (NoDkgKeysForSession s))" for i
    using assms(2,3) by (auto simp: try_init_dkg_def save_key_def)
  then show ?thesis using assms(1) by auto
qed

lemma pubkey_not_missing:
  assumes "elder_index s (mn_name N S) = None \<or> has_session_key N S s
      \<or> check_ephemeral_dkg_key (ne_dkg N) s (nid_name sender) pk sg \<noteq> Ok ()"
  shows "handle_dkg_ephemeral_pubkey N sk now (Suc fuel) S s auth pk sg sender \<noteq> None"
proof (cases "elder_index s (mn_name N S) = None \<or> has_session_key N S s")
  case True
  then show ?thesis using pubkey_with_key_returns by fastforce
next
  case False
  then have "\<not> (\<exists>V s'. try_init_dkg (ne_dkg N) now (mn_dkg_voter S) s i pk sg (nid_name sender) = (V, Err (NoDkgKeysForSession s')))" for i
    using assms unfolding try_init_missing by blast
  then show ?thesis by (auto split: option.splits prod.splits result.splits node_error.splits)
qed

text \<open>When the two functions call each other without end: \<open>dkg_start\<close> refuses the session.\<close>

abbreviation pubkey_stuck ::
  "('m, 'r, 'k, 'a, 'h, 'd) node_env \<Rightarrow> ('m, 'k, 'a, 'h, 'd) my_node \<Rightarrow> dkg_session_id \<Rightarrow> section_sig
     \<Rightarrow> public_key \<Rightarrow> ed_signature \<Rightarrow> node_id \<Rightarrow> bool" where
  "pubkey_stuck N S s auth pk sg sender \<equiv>
     elder_index s (mn_name N S) \<noteq> None \<and> \<not> has_session_key N S s \<and>
     check_ephemeral_dkg_key (ne_dkg N) s (nid_name sender) pk sg = Ok () \<and>
     session_authorized N S s auth \<and> dk_section_chain_len s < mn_chain_len N S"

lemma pubkey_never_returns:
  assumes "pubkey_stuck N S s auth pk sg sender"
  shows "handle_dkg_ephemeral_pubkey N sk now fuel S s auth pk sg sender = None"
proof (induction fuel)
  case (Suc fuel)
  obtain bs where "ne_enc_session N s = Some bs" "section_sig_verify (ne_bls N) auth bs"
    "mn_section_key N S = sg_public_key auth"
    using assms by (auto simp: session_authorized_def split: option.splits)
  moreover have "dkg_start N sk S s auth = (S, Ok [])"
    using assms by (auto simp: dkg_start_def Let_def split: option.splits)
  ultimately show ?case
    using Suc assms by (subst pubkey_missing) (auto simp: handle_missed_dkg_start_def)
qed simp

lemma pubkey_returns:
  assumes "\<not> pubkey_stuck N S s auth pk sg sender"
  shows "handle_dkg_ephemeral_pubkey N sk now (Suc (Suc fuel)) S s auth pk sg sender \<noteq> None"
proof (cases "elder_index s (mn_name N S) \<noteq> None \<and> \<not> has_session_key N S s
    \<and> check_ephemeral_dkg_key (ne_dkg N) s (nid_name sender) pk sg = Ok ()")
  case False
  then show ?thesis by (intro pubkey_not_missing) argo
next
  case True
  then have el: "elder_index s (mn_name N S) \<noteq> None" and no: "\<not> has_session_key N S s"
    and ck: "check_ephemeral_dkg_key (ne_dkg N) s (nid_name sender) pk sg = Ok ()" by auto
  note miss = pubkey_missing [OF el no ck]
  show ?thesis
  proof (cases "session_authorized N S s auth")
    case auth: True
    then have young: "\<not> dk_section_chain_len s < mn_chain_len N S" using assms True by blast
    obtain S1 r where st: "dkg_start N sk S s auth = (S1, r)" by fastforce
    have "handle_dkg_ephemeral_pubkey N sk now (Suc fuel) S1 s auth pk sg sender \<noteq> None" if "r = Ok cmds" for cmds
      using dkg_start_keys [OF el young no] st that pubkey_with_key_returns by blast
    then show ?thesis
      unfolding miss handle_missed_dkg_start_def st by (cases r) (auto split: option.splits)
  next
    case False
    then show ?thesis
      unfolding miss by (auto simp: handle_missed_dkg_start_def session_authorized_def split: option.splits)
  qed
qed

text \<open>
  When a node returns from a message with another's key for a session. It does unless it is in
  the session without having a key of its own, the other's key is valid, its own section has signed the
  session, and the session is of an older chain than its own: then \<open>dkg_start\<close> refuses the session,
  and the two functions call each other without end.
\<close>

theorem pubkey_handler_returns:
  "(\<exists>fuel. handle_dkg_ephemeral_pubkey N sk now fuel S s auth pk sg sender \<noteq> None) \<longleftrightarrow>
     \<not> (elder_index s (mn_name N S) \<noteq> None \<and> \<not> has_session_key N S s \<and>
        check_ephemeral_dkg_key (ne_dkg N) s (nid_name sender) pk sg = Ok () \<and>
        session_authorized N S s auth \<and> dk_section_chain_len s < mn_chain_len N S)"
proof (cases "pubkey_stuck N S s auth pk sg sender")
  case True
  then show ?thesis using pubkey_never_returns [OF True] by simp
next
  case False
  from pubkey_returns [OF False, of sk now 0] have "\<exists>fuel. handle_dkg_ephemeral_pubkey N sk now fuel S s auth pk sg sender \<noteq> None"
    by blast
  then show ?thesis using False by blast
qed

text \<open>More fuel gives the same result, so two calls are enough if any number is.\<close>

lemma pubkey_fuel_mono:
  "handle_dkg_ephemeral_pubkey N sk now fuel S s auth pk sg sender = Some x
     \<Longrightarrow> handle_dkg_ephemeral_pubkey N sk now (Suc fuel) S s auth pk sg sender = Some x"
proof (induction fuel arbitrary: S x)
  case (Suc fuel)
  show ?case
  proof (cases "elder_index s (mn_name N S) \<noteq> None \<and> \<not> has_session_key N S s
      \<and> check_ephemeral_dkg_key (ne_dkg N) s (nid_name sender) pk sg = Ok ()")
    case True
    then have m: "handle_dkg_ephemeral_pubkey N sk now (Suc n) S s auth pk sg sender =
        handle_missed_dkg_start N sk (\<lambda>S'. handle_dkg_ephemeral_pubkey N sk now n S' s auth pk sg sender) S s auth" for n
      by (intro pubkey_missing) auto
    from Suc.prems show ?thesis
      unfolding m [of fuel] m [of "Suc fuel"] handle_missed_dkg_start_def
      by (auto simp del: handle_dkg_ephemeral_pubkey.simps split: option.splits if_splits prod.splits result.splits
          dest: Suc.IH)
  next
    case False
    then have "\<not> (\<exists>V s'. try_init_dkg (ne_dkg N) now (mn_dkg_voter S) s i pk sg (nid_name sender)
        = (V, Err (NoDkgKeysForSession s')))" if "elder_index s (mn_name N S) = Some i" for i
      using that unfolding try_init_missing by blast
    with Suc.prems show ?thesis
      by (auto split: option.splits prod.splits result.splits node_error.splits)
  qed
qed simp

lemma pubkey_fuel_enough:
  assumes "handle_dkg_ephemeral_pubkey N sk now fuel S s auth pk sg sender = Some x"
  shows "handle_dkg_ephemeral_pubkey N sk now 2 S s auth pk sg sender = Some x"
proof -
  have mono: "handle_dkg_ephemeral_pubkey N sk now n S s auth pk sg sender = Some y
      \<Longrightarrow> handle_dkg_ephemeral_pubkey N sk now (n + m) S s auth pk sg sender = Some y" for n m y
    by (induction m) (auto intro: pubkey_fuel_mono simp del: handle_dkg_ephemeral_pubkey.simps)
  have "\<not> pubkey_stuck N S s auth pk sg sender" using pubkey_never_returns assms by force
  from pubkey_returns [OF this, of sk now 0] obtain y where
    y: "handle_dkg_ephemeral_pubkey N sk now 2 S s auth pk sg sender = Some y"
    by (auto simp: numeral_2_eq_2 simp del: handle_dkg_ephemeral_pubkey.simps)
  from mono [OF y, of fuel] mono [OF assms, of 2] y show ?thesis
    by (simp add: add.commute del: handle_dkg_ephemeral_pubkey.simps)
qed

lemma try_init_saved:
  assumes "save_key G now V0 s n key sg = (V, Ok b)"
  shows "\<exists>V' r. try_init_dkg G now V0 s i key sg n = (V', r) \<and> dv_dkg_ephemeral_keys V' = dv_dkg_ephemeral_keys V"
proof (cases "initialize_dkg_state G V s i")
  case (Pair V' r)
  then show ?thesis using assms initialize_same_keys [OF Pair] by (cases b) (simp_all add: try_init_dkg_def)
qed

lemma pubkey_handled:
  assumes "elder_index s (mn_name N S) = Some i"
    and "try_init_dkg (ne_dkg N) now (mn_dkg_voter S) s i pk sg (nid_name sender) = (V', r)"
    and "\<nexists>s'. r = Err (NoDkgKeysForSession s')"
  shows "\<exists>cmds. handle_dkg_ephemeral_pubkey N sk now (Suc fuel) S s auth pk sg sender = Some (S\<lparr>mn_dkg_voter := V'\<rparr>, Ok cmds)"
proof (cases r)
  case (Ok x)
  then show ?thesis using assms(1,2) by (cases x) auto
next
  case (Err e)
  then show ?thesis using assms by (cases e) auto
qed

text \<open>What a started session sends, and that the assertion in \<open>dkg_start\<close> holds.\<close>

lemma elder_index_has: "elder_index s n \<noteq> None \<longleftrightarrow> bm_has (dk_elders s) n"
  by (simp add: elder_index_def position_None elder_names_def bm_has_iff bm_keys_set)

lemma dkg_start_fresh:
  assumes laws: "ed_ok (ne_dkg N)" and el: "elder_index s (mn_name N S) = Some i"
    and young: "\<not> dk_section_chain_len s < mn_chain_len N S" and new: "\<not> has_session_key N S s"
    and ser: "pk_serialize (ne_bls N) (de_sk_public_key (ne_dkg N) sk) = Some bs"
  shows "\<exists>S1 key_sig. dkg_start N sk S s auth = (S1, Ok [send_msg (DkgEphemeralPubKey s auth
        (de_sk_public_key (ne_dkg N) sk) key_sig) (Multiple (dkg_nodes i s))]) \<and>
      check_ephemeral_dkg_key (ne_dkg N) s (mn_name N S) (de_sk_public_key (ne_dkg N) sk) key_sig = Ok () \<and>
      mn_name N S1 = mn_name N S \<and>
      has_keys (ne_dkg N) (mn_dkg_voter S1) s {mn_name N S} (\<lambda>_. (de_sk_public_key (ne_dkg N) sk, key_sig))"
proof -
  let ?G = "ne_dkg N" and ?pk = "de_sk_public_key (ne_dkg N) sk"
  let ?sg = "de_ed_sign ?G (mn_keypair S) bs"
  obtain V where gen: "gen_ephemeral_key ?G sk (mn_dkg_voter S) s (mn_name N S) (mn_keypair S) = (V, Ok (?pk, ?sg))"
    using new ser by (simp add: gen_ephemeral_key_def Let_def)
  have ck: "check_ephemeral_dkg_key ?G s (mn_name N S) ?pk ?sg = Ok ()"
    using laws ser elder_index_has [of s "mn_name N S"] el
    by (simp add: check_ephemeral_dkg_key_def ed25519_pub_key_def ed_ok_def mn_name_def)
  let ?S1 = "S\<lparr>mn_dkg_sessions_info := hm_insert (dk_hash ?G s) \<lparr> si_session_id = s, si_authority = auth \<rparr>
      (mn_dkg_sessions_info S), mn_dkg_voter := V\<rparr>"
  have "dkg_start N sk S s auth = (?S1, Ok [send_msg (DkgEphemeralPubKey s auth ?pk ?sg) (Multiple (dkg_nodes i s))])"
    using el young gen ck by (simp add: dkg_start_def Let_def)
  moreover have "has_keys ?G V s {mn_name N S} (\<lambda>_. (?pk, ?sg))" by (rule gen_has_keys(1) [OF gen])
  ultimately show ?thesis using ck by (intro exI [of _ ?S1] exI [of _ ?sg]) simp
qed

text \<open>
  C27. No participant needs to have seen the start of a session. When a participant has started it and sends its
  key with the section's signature, a participant of the same section that knows nothing of the session
  starts it on that message: it answers with its own key, which passes the check of every receiver, and
  has the keys of both.
\<close>

theorem missed_start_catches_up:
  assumes laws: "ed_ok (ne_dkg N)" and el: "bm_wf (dk_elders s)"
    and sent: "check_ephemeral_dkg_key (ne_dkg N) s (nid_name sender) pk sg = Ok ()"
    and us: "elder_index s (mn_name N S) = Some i" "mn_name N S \<noteq> nid_name sender"
    and auth: "session_authorized N S s auth" and young: "mn_chain_len N S \<le> dk_section_chain_len s"
    and new: "\<not> has_session_key N S s"
    and ser: "pk_serialize (ne_bls N) (de_sk_public_key (ne_dkg N) sk) = Some bs"
  shows "\<exists>S' key_sig cmds our_keys. handle_dkg_ephemeral_pubkey N sk now (Suc (Suc fuel)) S s auth pk sg sender =
      Some (S', Ok (send_msg (DkgEphemeralPubKey s auth (de_sk_public_key (ne_dkg N) sk) key_sig)
        (Multiple (dkg_nodes i s)) # cmds)) \<and>
    check_ephemeral_dkg_key (ne_dkg N) s (mn_name N S) (de_sk_public_key (ne_dkg N) sk) key_sig = Ok () \<and>
    hm_get (dv_dkg_ephemeral_keys (mn_dkg_voter S')) (dk_hash (ne_dkg N) s) = Some our_keys \<and>
    bm_get (ek_pub_keys our_keys) (nid_name sender) = Some (pk, sg) \<and>
    bm_get (ek_pub_keys our_keys) (mn_name N S) = Some (de_sk_public_key (ne_dkg N) sk, key_sig)"
proof -
  let ?G = "ne_dkg N" and ?pk = "de_sk_public_key (ne_dkg N) sk"
  obtain S1 key_sig where st: "dkg_start N sk S s auth = (S1, Ok [send_msg (DkgEphemeralPubKey s auth ?pk key_sig)
        (Multiple (dkg_nodes i s))])" and ck: "check_ephemeral_dkg_key ?G s (mn_name N S) ?pk key_sig = Ok ()"
    and nm: "mn_name N S1 = mn_name N S" and has: "has_keys ?G (mn_dkg_voter S1) s {mn_name N S} (\<lambda>_. (?pk, key_sig))"
    using dkg_start_fresh [OF laws us(1) _ new ser, of auth] young by force
  define kf where "kf n = (if n = nid_name sender then (pk, sg) else (?pk, key_sig))" for n
  have "has_keys ?G (mn_dkg_voter S1) s {mn_name N S} kf" using has us(2) by (auto simp: has_keys_def kf_def)
  from save_key_valid [OF this el, of "nid_name sender" now] sent obtain V b where
    sv: "save_key ?G now (mn_dkg_voter S1) s (nid_name sender) pk sg = (V, Ok b)"
    and V: "has_keys ?G V s (insert (nid_name sender) {mn_name N S}) kf"
    by (auto simp: kf_def)
  obtain V' r where ti: "try_init_dkg ?G now (mn_dkg_voter S1) s i pk sg (nid_name sender) = (V', r)"
    and V': "dv_dkg_ephemeral_keys V' = dv_dkg_ephemeral_keys V"
    using try_init_saved [OF sv] by blast
  have "has_session_key N S1 s" using has unfolding has_keys_def by blast
  then have "\<nexists>s'. r = Err (NoDkgKeysForSession s')"
    using try_init_missing [of ?G now "mn_dkg_voter S1" s i pk sg "nid_name sender"] unfolding ti by simp
  then obtain cmds where "handle_dkg_ephemeral_pubkey N sk now (Suc fuel) S1 s auth pk sg sender
      = Some (S1\<lparr>mn_dkg_voter := V'\<rparr>, Ok cmds)"
    using pubkey_handled [OF _ ti] nm us(1) by metis
  moreover have "handle_dkg_ephemeral_pubkey N sk now (Suc (Suc fuel)) S s auth pk sg sender =
      handle_missed_dkg_start N sk (\<lambda>S'. handle_dkg_ephemeral_pubkey N sk now (Suc fuel) S' s auth pk sg sender) S s auth"
    using us(1) by (intro pubkey_missing [OF _ new sent]) simp
  ultimately have "handle_dkg_ephemeral_pubkey N sk now (Suc (Suc fuel)) S s auth pk sg sender =
      Some (S1\<lparr>mn_dkg_voter := V'\<rparr>, Ok (send_msg (DkgEphemeralPubKey s auth ?pk key_sig) (Multiple (dkg_nodes i s)) # cmds))"
    using auth by (auto simp: handle_missed_dkg_start_def session_authorized_def st
        simp del: handle_dkg_ephemeral_pubkey.simps split: option.splits)
  moreover obtain our where "hm_get (dv_dkg_ephemeral_keys V') (dk_hash ?G s) = Some our"
    "bm_get (ek_pub_keys our) (nid_name sender) = Some (pk, sg)" "bm_get (ek_pub_keys our) (mn_name N S) = Some (?pk, key_sig)"
    using V us(2) unfolding has_keys_def V' kf_def by auto
  ultimately show ?thesis using ck by (intro exI conjI) (assumption | simp)+
qed

subsection \<open>Instances\<close>

definition sample_node :: "nat \<Rightarrow> (dag_node list, section_key_share list, nat, nat, nat) my_node" where
  "sample_node kp = my_node_new sample_node_env kp kp sample_knowledge None (sample_files [])"

lemma sample_node_simps [simp]:
  "mn_name sample_node_env (sample_node kp) = ed_to_bytes ref_keys (kp mod 256)"
  "mn_network_knowledge (sample_node kp) = sample_knowledge" "mn_dkg_voter (sample_node kp) = default_voter"
  by (simp_all add: mn_name_def node_name_def sample_node_def my_node_new_def sample_node_env_def ref_dkg_env_def)

lemma sample_section_chain: "section_chain sample_register ref_bls sample_knowledge = new_dag sample_register 1"
proof -
  have K: "nk_dag sample_knowledge = new_dag sample_register 1" "nk_section_key ref_bls sample_knowledge = 1"
    by (simp_all add: sample_knowledge_def sample_tree_def nk_section_key_def)
  have "genesis_key (new_dag sample_register 1) = 1" by (simp add: new_dag_def)
  then show ?thesis
    by (simp add: section_chain_def get_proof_chain_to_current_section_def partial_dag_def K)
qed

lemma sample_chain_len: "mn_chain_len sample_node_env (sample_node kp) = 1"
  using sample_section_chain
  by (simp add: mn_chain_len_def section_chain_len_def dag_keys_def new_dag_def sample_register_def ref_merkle_def)

definition sample_auth :: section_sig where
  "sample_auth = \<lparr> sg_public_key = 1, sg_signature = ref_sign 1 [1, 2, 3] \<rparr>"

lemma sample_authorized: "session_authorized sample_node_env (sample_node kp) sample_session sample_auth"
  by (simp add: session_authorized_def nk_section_key_def sample_knowledge_def sample_auth_def)
    (simp add: sample_node_env_def ref_dkg_env_def sample_session_def section_sig_verify_def ref_bls_def)

theorem missed_start_catches_up_witness:
  "\<exists>S' key_sig cmds. handle_dkg_ephemeral_pubkey sample_node_env 5 0 2 (sample_node 2) sample_session sample_auth
      (fst (sample_key (sample_elder 1))) (snd (sample_key (sample_elder 1))) (NodeId (sample_elder 1) 1) =
      Some (S', Ok (send_msg (DkgEphemeralPubKey sample_session sample_auth 5 key_sig)
        (Multiple (dkg_nodes 1 sample_session)) # cmds))"
proof -
  have G: "ne_dkg sample_node_env = ref_dkg_env" by (simp add: sample_node_env_def)
  have i: "elder_index sample_session (sample_elder 2) = Some 1"
    using sample_elders_order sort_bm_keys [OF sample_session_wf] sample_names
    by (simp add: elder_index_def elder_names_def less_le)
  have "sample_elder 2 \<noteq> sample_elder 1" using sample_elders_order by (metis less_irrefl)
  with missed_start_catches_up [of sample_node_env sample_session "NodeId (sample_elder 1) 1" "fst (sample_key (sample_elder 1))"
      "snd (sample_key (sample_elder 1))" "sample_node 2" 1 sample_auth 5 "[5]" 0 0]
    ref_ed_ok sample_session_wf sample_check [of 1] i sample_authorized [of 2] sample_chain_len [of 2]
  show ?thesis by (auto simp: G ref_dkg_env_def default_voter_def sample_session_def ref_bls_def numeral_2_eq_2)
qed

end
