(* ===== verification/Section_Update.thy ===== *)
theory Section_Update
  imports Node_Dkg
begin

section \<open>Changes of the section\<close>

text \<open>
  \<open>update_on_sap_change\<close> of \<open>sn_node/src/node/mod.rs\<close>, the second half of \<open>promotion.rs\<close>, \<open>update_section.rs\<close> and
  \<open>handle_anti_entropy_msg\<close>: what a node does when its section gets new elders or splits, or when another
  node brings it up to date. Writing the section tree to disk, which runs in the background and whose failure
  is only logged, is left out.
\<close>

subsection \<open>Data to replicate\<close>

definition DEFAULT_DATA_COPY_COUNT :: nat where
  "DEFAULT_DATA_COPY_COUNT = 4"

definition data_copy_count :: "string option \<Rightarrow> nat" where
  "data_copy_count env =
     (case env of
        Some x \<Rightarrow> (case parse_usize x of Some n \<Rightarrow> n | None \<Rightarrow> DEFAULT_DATA_COPY_COUNT)
      | None \<Rightarrow> DEFAULT_DATA_COPY_COUNT)"

definition MAX_REPLICATION_BATCH_SIZE :: nat where
  "MAX_REPLICATION_BATCH_SIZE = 25"

definition node_data_addrs ::
  "('m, 'r, 'k, 'a, 'h, 'd) node_env \<Rightarrow> ('m, 'k, 'a, 'h, 'd) my_node \<Rightarrow> data_address list" where
  "node_data_addrs N S = data_addrs (ne_registers N) (ne_root_storage_dir N) (mn_data_storage S)"

text \<open>The members closest to a name hold its data.\<close>

definition closest_members ::
  "('m, 'r, 'k, 'a, 'h, 'd) node_env \<Rightarrow> ('m, 'k, 'a, 'h, 'd) my_node \<Rightarrow> xor_name \<Rightarrow> node_id list" where
  "closest_members N S name =
     take (data_copy_count (ne_data_copy_count_var N))
       (sort_by (\<lambda>l r. ne_cmp_distance N name (nid_name l) (nid_name r)) (nk_members (mn_network_knowledge S)))"

definition get_missing_data_for_node ::
  "('m, 'r, 'k, 'a, 'h, 'd) node_env \<Rightarrow> (data_address list \<Rightarrow> data_address list) \<Rightarrow> ('m, 'k, 'a, 'h, 'd) my_node
     \<Rightarrow> node_id \<Rightarrow> data_address list \<Rightarrow> ('m, 'r) cmd option" where
  "get_missing_data_for_node N shuffle S sender data_sender_has =
     (let data_i_have = node_data_addrs N S in
      if data_i_have = [] then None
      else
        (let data_for_sender = take MAX_REPLICATION_BATCH_SIZE
           (filter (\<lambda>data. data \<notin> set data_sender_has
               \<and> nid_name sender \<in> nid_name ` set (closest_members N S (data_address_name data)))
             (shuffle data_i_have))
         in if data_for_sender = [] then None
            else Some (EnqueueDataForReplication sender data_for_sender)))"

definition ask_for_any_new_data_from_whole_section ::
  "('m, 'r, 'k, 'a, 'h, 'd) node_env \<Rightarrow> ('m, 'k, 'a, 'h, 'd) my_node \<Rightarrow> ('m, 'r) cmd" where
  "ask_for_any_new_data_from_whole_section N S =
     send_msg (NodeDataCmd (SendAnyMissingRelevantData (node_data_addrs N S)))
       (Multiple (nk_members (mn_network_knowledge S)))"

subsection \<open>New elders\<close>

definition adult_names :: "'m network_knowledge \<Rightarrow> xor_name bset" where
  "adult_names K = bs_from_iter (map nid_name (adults K))"

definition nk_elder_names :: "'m network_knowledge \<Rightarrow> xor_name bset" where
  "nk_elder_names K = bs_from_iter (map nid_name (nk_elders K))"

text \<open>The first half of \<open>update_on_sap_change\<close>: the sessions and the votes of the node.\<close>

definition refresh_elder_state ::
  "('m, 'r, 'k, 'a, 'h, 'd) node_env \<Rightarrow> ('m, 'k, 'a, 'h, 'd) my_node \<Rightarrow> ('m, 'k, 'a, 'h, 'd) my_node
     \<Rightarrow> ('m, 'k, 'a, 'h, 'd) my_node" where
  "refresh_elder_state N old S =
     (let S1 = update_dkg_on_section_change N (mn_section_key N S) S;
          S2 = (if mn_section_key N S \<noteq> mn_section_key N old then S1\<lparr>mn_pending_split_sections := []\<rparr> else S1)
      in if mn_is_elder N S then
           (case key_share (ne_bls N) (ne_lru N) (mn_section_keys_provider S2) (mn_section_key N S2) of
              Ok key \<Rightarrow>
                (let (S', initialized) = initialize_elder_state N key S2
                 in if initialized
                    then S'\<lparr>mn_joins_allowed := mn_joins_allowed S' \<or> mn_joins_allowed_until_split S'\<rparr>
                    else S')
            | Err _ \<Rightarrow> S2)
         else S2\<lparr>mn_handover_voting := None, mn_membership := None\<rparr>)"

definition update_on_sap_change ::
  "('m, 'r, 'k, 'a, 'h, 'd) node_env \<Rightarrow> ('m, 'k, 'a, 'h, 'd) my_node \<Rightarrow> ('m, 'k, 'a, 'h, 'd) my_node
     \<Rightarrow> ('m, 'r, 'k, 'a, 'h, 'd) handled" where
  "update_on_sap_change N old S =
     (let new_is_elder = mn_is_elder N S; old_is_elder = mn_is_elder N old;
          section_split = (mn_prefix S \<noteq> mn_prefix old);
          S3 = refresh_elder_state N old S
      in st_then (S3, if new_is_elder \<or> old_is_elder then send_ae_update_to_our_section N S3 else Ok None)
        (\<lambda>S3 ae_cmd.
           (let S4 = (if old_is_elder \<and> \<not> new_is_elder
                  then S3\<lparr>mn_section_keys_provider := keys_wipe (ne_lru N) (mn_section_keys_provider S3)\<rparr> else S3);
                K = mn_network_knowledge S4;
                S5 = (if section_split \<and> new_is_elder
                  then fault_detection_retain_only S4 (adult_names K) (nk_elder_names K) else S4);
                sibling_cmds = (if section_split \<and> new_is_elder
                  then send_updates_to_sibling_section N (mn_network_knowledge old) else []);
                S6 = (if section_split \<and> old_is_elder \<or> new_is_elder
                  then S5\<lparr>mn_joins_allowed_until_split := False\<rparr> else S5)
            in (S6, Ok ((case ae_cmd of Some c \<Rightarrow> [c] | None \<Rightarrow> []) @ sibling_cmds)))))"

definition apply_tree_update ::
  "('m, 'r, 'k, 'a, 'h, 'd) node_env \<Rightarrow> ('m, 'k, 'a, 'h, 'd) my_node \<Rightarrow> 'm section_tree_update
     \<Rightarrow> ('m, 'k, 'a, 'h, 'd) my_node \<times> (bool, node_error) result" where
  "apply_tree_update N S u =
     (let (K, r) = update_sap_knowledge_if_valid (ne_dag N) (ne_bls N) (ne_xor N) (ne_enc_sap N) (ne_codec N)
            (mn_network_knowledge S) u (mn_name N S)
      in (S\<lparr>mn_network_knowledge := K\<rparr>, map_err NetworkKnowledge_node r))"

definition handle_new_elders_agreement ::
  "('m, 'r, 'k, 'a, 'h, 'd) node_env \<Rightarrow> ('m, 'k, 'a, 'h, 'd) my_node \<Rightarrow> signed_sap \<Rightarrow> section_sig
     \<Rightarrow> ('m, 'r, 'k, 'a, 'h, 'd) handled" where
  "handle_new_elders_agreement N S s sig =
     (let chain = mn_section_chain N S in
      st_then (S, map_err NetworkKnowledge_node (and_then (last_key (ne_dag N) chain)
          (\<lambda>last_key. verify_and_insert (ne_dag N) (ne_bls N) chain last_key (section_key (ne_bls N) (sd_value s))
             (sg_signature sig))))
        (\<lambda>S1 chain'. st_then (apply_tree_update N S1 \<lparr> up_signed_sap = s, up_proof_chain = chain' \<rparr>)
           (\<lambda>S2 updated.
              if updated then
                (let (S3, cmds) = update_on_sap_change N S S2 in (update_comm_target_list S3, cmds))
              else (S2, Ok []))))"

definition update_us ::
  "('m, 'r, 'k, 'a, 'h, 'd) node_env \<Rightarrow> ('m, 'k, 'a, 'h, 'd) my_node \<Rightarrow> signed_sap \<Rightarrow> section_sig
     \<Rightarrow> signed_sap \<Rightarrow> section_sig \<Rightarrow> ('m, 'r, 'k, 'a, 'h, 'd) handled" where
  "update_us N S our_sap sig_over_us their_sap sig_over_them =
     (let parent_section_chain = mn_section_chain N S in
      st_then (S, map_err NetworkKnowledge_node (last_key (ne_dag N) parent_section_chain))
        (\<lambda>S parent_key. st_then (handle_new_elders_agreement N S our_sap sig_over_us)
           (\<lambda>S1 cmds. st_then (S1, map_err NetworkKnowledge_node (verify_and_insert (ne_dag N) (ne_bls N)
                parent_section_chain parent_key (section_key (ne_bls N) (sd_value their_sap)) (sg_signature sig_over_them)))
              (\<lambda>S1 chain'. st_then (apply_tree_update N S1 \<lparr> up_signed_sap = their_sap, up_proof_chain = chain' \<rparr>)
                 (\<lambda>S2 updated. (if updated then update_comm_target_list S2 else S2, Ok cmds))))))"

definition handle_new_sections_agreement ::
  "('m, 'r, 'k, 'a, 'h, 'd) node_env \<Rightarrow> ('m, 'k, 'a, 'h, 'd) my_node \<Rightarrow> signed_sap \<Rightarrow> section_sig
     \<Rightarrow> signed_sap \<Rightarrow> section_sig \<Rightarrow> ('m, 'r, 'k, 'a, 'h, 'd) handled" where
  "handle_new_sections_agreement N S sap1 sig1 sap2 sig2 =
     (if list_ex (\<lambda>m. ns_name m = mn_name N S) (sap_members (sd_value sap1)) then update_us N S sap1 sig1 sap2 sig2
      else if list_ex (\<lambda>m. ns_name m = mn_name N S) (sap_members (sd_value sap2)) then update_us N S sap2 sig2 sap1 sig1
      else (S, Ok []))"

subsection \<open>Being brought up to date\<close>

text \<open>\<open>Iterator::max_by\<close> gives the last of several greatest elements.\<close>

fun max_by :: "('a \<Rightarrow> 'a \<Rightarrow> ordering) \<Rightarrow> 'a list \<Rightarrow> 'a option" where
  "max_by cmp [] = None"
| "max_by cmp (x # xs) = Some (fold (\<lambda>y best. if cmp best y = Greater then best else y) xs x)"

definition is_member_named :: "'m network_knowledge \<Rightarrow> xor_name \<Rightarrow> bool" where
  "is_member_named K name = list_ex (\<lambda>m. nid_name m = name) (nk_members K)"

text \<open>The first half of the handler: taking what the update says.\<close>

definition take_ae_update ::
  "('m, 'r, 'k, 'a, 'h, 'd) node_env \<Rightarrow> ('m, 'k, 'a, 'h, 'd) my_node \<Rightarrow> ('m, 'k, 'a, 'h, 'd) my_node
     \<Rightarrow> 'm section_tree_update \<Rightarrow> anti_entropy_kind \<Rightarrow> ('m, 'r, 'k, 'a, 'h, 'd) handled" where
  "take_ae_update N start S u kind =
     (let section_decisions = (case kind of Update ds \<Rightarrow> Some ds | _ \<Rightarrow> None);
          already_updated = (mn_section_key N S = section_key (ne_bls N) (sd_value (up_signed_sap u))) in
      st_then (apply_tree_update N S u) (\<lambda>S1 updated_knowledge.
        (let (K, updated_members) =
               (if updated_knowledge \<or> already_updated
                then update_section_member_knowledge (ne_bls N) (ne_validate N) (mn_network_knowledge S1) section_decisions
                else (mn_network_knowledge S1, False));
             S2 = S1\<lparr>mn_network_knowledge := K\<rparr>;
             S3 = (if updated_members then remove_dkg_sessions_with_missing_members S2 else S2)
         in st_then (if updated_knowledge then update_on_sap_change N start S3 else (S3, Ok []))
           (\<lambda>S4 cmds.
              if \<not> (updated_knowledge \<or> updated_members) then (S4, Ok cmds)
              else
                (let S5 = update_comm_target_list S4 in
                 if is_member_named (mn_network_knowledge S4) (mn_name N S4)
                 then (S5, Ok (cmds @ [ask_for_any_new_data_from_whole_section N S4]))
                 else if is_member_named (mn_network_knowledge start) (mn_name N S4)
                 then (S5, Err (RejoinRequired RemovedFromSection))
                 else (S5, Ok cmds))))))"

text \<open>The second half: sending a bounced message again.\<close>

definition resend_bounced ::
  "('m, 'r, 'k, 'a, 'h, 'd) node_env \<Rightarrow> ('m, 'r) wire_codec \<Rightarrow> sap \<Rightarrow> network_bytes \<Rightarrow> participant
     \<Rightarrow> (('m, 'r) cmd list, node_error) result" where
  "resend_bounced N W s bounced_msg recipient =
     (case wire_from W bounced_msg of
        Panics \<Rightarrow> Err Panicked
      | Returns r \<Rightarrow>
          and_then (map_err Messaging r) (\<lambda>w.
            if dst_section_key (wm_dst w) = section_key (ne_bls N) s then Ok []
            else map_ok (\<lambda>msg. case msg of
                NodeNetworkMsg msg_to_resend \<Rightarrow> [send_msg msg_to_resend (Single recipient)]
              | _ \<Rightarrow> []) (map_err Messaging (into_msg (ne_keys N) (ne_bls N) W w))))"

definition redirect_target ::
  "('m, 'r, 'k, 'a, 'h, 'd) node_env \<Rightarrow> sap \<Rightarrow> (node_id option, node_error) result" where
  "redirect_target N s =
     (case xor_name_of (ne_keys N) (ne_bls N) (Bls (section_key (ne_bls N) s)) of
        None \<Rightarrow> Err Panicked
      | Some target_name \<Rightarrow>
          Ok (max_by (\<lambda>l r. ne_cmp_distance N target_name (nid_name l) (nid_name r)) (sap_elders s)))"

definition handle_anti_entropy_msg ::
  "('m, 'r, 'k, 'a, 'h, 'd) node_env \<Rightarrow> ('m, 'r) wire_codec \<Rightarrow> ('m, 'k, 'a, 'h, 'd) my_node
     \<Rightarrow> ('m, 'k, 'a, 'h, 'd) my_node \<Rightarrow> 'm section_tree_update \<Rightarrow> anti_entropy_kind \<Rightarrow> participant
     \<Rightarrow> ('m, 'r, 'k, 'a, 'h, 'd) handled" where
  "handle_anti_entropy_msg N W start S u kind sender =
     (let s = sd_value (up_signed_sap u) in
      st_then (take_ae_update N start S u kind) (\<lambda>S1 cmds.
        case kind of
          Update _ \<Rightarrow>
            (if is_section_member (mn_network_knowledge S1) (pt_name sender)
             then untrack_node_issue S1 (pt_name sender) AeProbeMsg else S1, Ok cmds)
        | Retry bounced_msg \<Rightarrow> (S1, map_ok (\<lambda>cs. cmds @ cs) (resend_bounced N W s bounced_msg sender))
        | Redirect bounced_msg \<Rightarrow>
            (S1, and_then (redirect_target N s) (\<lambda>target. case target of
               None \<Rightarrow> Ok cmds
             | Some dst \<Rightarrow> map_ok (\<lambda>cs. cmds @ cs)
                 (resend_bounced N W s bounced_msg (participant_from_node dst))))))"

end
