(* ===== verification/Elder_Change.thy ===== *)
theory Elder_Change
  imports Section_Update
begin

text \<open>
  What holds when the elders of a section change: only a quorum of the old elders can make a node take new
  ones, and the state a node votes with follows its section.
\<close>

section \<open>A change of elders needs a quorum\<close>

subsection \<open>What the handlers leave alone\<close>

lemma force_dkg_fields [simp]:
  "mn_network_knowledge (force_dkg_termination N i k S) = mn_network_knowledge S"
  "mn_keypair (force_dkg_termination N i k S) = mn_keypair S"
  "mn_dkg_sessions_info (force_dkg_termination N i k S) = mn_dkg_sessions_info S"
  "mn_membership (force_dkg_termination N i k S) = mn_membership S"
  "mn_handover_voting (force_dkg_termination N i k S) = mn_handover_voting S"
  by (auto simp: force_dkg_termination_def Let_def split: prod.splits result.splits option.splits)

lemma force_dkg_all_fields [simp]:
  "mn_network_knowledge (fold (\<lambda>i. force_dkg_termination N i k) is S) = mn_network_knowledge S"
  "mn_keypair (fold (\<lambda>i. force_dkg_termination N i k) is S) = mn_keypair S"
  "mn_dkg_sessions_info (fold (\<lambda>i. force_dkg_termination N i k) is S) = mn_dkg_sessions_info S"
  "mn_membership (fold (\<lambda>i. force_dkg_termination N i k) is S) = mn_membership S"
  "mn_handover_voting (fold (\<lambda>i. force_dkg_termination N i k) is S) = mn_handover_voting S"
  by (induction "is" arbitrary: S) simp_all

lemma remove_sessions_fields [simp]:
  "mn_network_knowledge (remove_sessions hs S) = mn_network_knowledge S"
  "mn_keypair (remove_sessions hs S) = mn_keypair S"
  "mn_membership (remove_sessions hs S) = mn_membership S"
  "mn_handover_voting (remove_sessions hs S) = mn_handover_voting S"
  "set (mn_dkg_sessions_info (remove_sessions hs S)) = {(h, i) \<in> set (mn_dkg_sessions_info S). h \<notin> set hs}"
  unfolding remove_sessions_def by (induction hs arbitrary: S) (auto simp: hm_remove_def)

lemma update_dkg_fields [simp]:
  "mn_network_knowledge (update_dkg_on_section_change N k S) = mn_network_knowledge S"
  "mn_keypair (update_dkg_on_section_change N k S) = mn_keypair S"
  "mn_membership (update_dkg_on_section_change N k S) = mn_membership S"
  "mn_handover_voting (update_dkg_on_section_change N k S) = mn_handover_voting S"
  by (simp_all add: update_dkg_on_section_change_def Let_def)

text \<open>Sessions that were started for an older section end.\<close>

lemma update_dkg_sessions:
  assumes "(h, i) \<in> set (mn_dkg_sessions_info (update_dkg_on_section_change N k S))"
  shows "mn_chain_len N S \<le> dk_section_chain_len (si_session_id i)" "(h, i) \<in> set (mn_dkg_sessions_info S)"
  using assms by (auto simp: update_dkg_on_section_change_def Let_def not_less [symmetric] image_iff)

lemma initialize_fields [simp]:
  "mn_network_knowledge (fst (initialize_elder_state N key S)) = mn_network_knowledge S"
  "mn_keypair (fst (initialize_elder_state N key S)) = mn_keypair S"
  "mn_dkg_sessions_info (fst (initialize_elder_state N key S)) = mn_dkg_sessions_info S"
  "mn_section_keys_provider (fst (initialize_elder_state N key S)) = mn_section_keys_provider S"
  by (auto simp: initialize_elder_state_def initialize_membership_def initialize_handover_def Let_def
      split: prod.splits option.splits if_splits)

text \<open>After a change of its section a node that is an elder with a key share votes with the new key.\<close>

definition votes_with :: "('m, 'r, 'k, 'a, 'h, 'd) node_env \<Rightarrow> ('m, 'k, 'a, 'h, 'd) my_node \<Rightarrow> public_key \<Rightarrow> bool" where
  "votes_with N S key \<longleftrightarrow>
     (\<exists>m. mn_membership S = Some m \<and> pks_public_key (ne_bls N) (cs_elders (ne_membership N) (ms_consensus m)) = key) \<and>
     (\<exists>h. mn_handover_voting S = Some h \<and> pks_public_key (ne_bls N) (cs_elders (ne_handover N) (ho_consensus h)) = key)"

definition rounds_keep_elders :: "('m, 'r, 'k, 'a, 'h, 'd) node_env \<Rightarrow> bool" where
  "rounds_keep_elders N \<longleftrightarrow>
     (\<forall>k e n. cs_elders (ne_membership N) (cs_from (ne_membership N) k e n) = e) \<and>
     (\<forall>k e n. cs_elders (ne_handover N) (cs_from (ne_handover N) k e n) = e)"

lemma key_share_of: "key_share B L c key = Ok s \<Longrightarrow> pks_public_key B (ks_public_key_set s) = key"
  by (auto simp: key_share_def find_Some_iff split: option.splits)

lemma initialize_votes:
  assumes "rounds_keep_elders N" and "pks_public_key (ne_bls N) (ks_public_key_set key) = mn_section_key N S"
  shows "votes_with N (fst (initialize_elder_state N key S)) (mn_section_key N S)"
  using assms
  by (auto simp: votes_with_def rounds_keep_elders_def initialize_elder_state_def initialize_membership_def
      initialize_handover_def membership_from_def handover_from_def nk_section_key_def Let_def
      split: prod.splits option.splits if_splits)

subsection \<open>The state an elder votes with\<close>

text \<open>The state after the sessions and the votes have been brought up to date.\<close>

definition revoted ::
  "('m, 'r, 'k, 'a, 'h, 'd) node_env \<Rightarrow> ('m, 'k, 'a, 'h, 'd) my_node \<Rightarrow> ('m, 'k, 'a, 'h, 'd) my_node \<Rightarrow> bool" where
  "revoted N S T \<longleftrightarrow> mn_network_knowledge T = mn_network_knowledge S \<and> mn_keypair T = mn_keypair S \<and>
     (\<forall>(h, i) \<in> set (mn_dkg_sessions_info T). mn_chain_len N S \<le> dk_section_chain_len (si_session_id i)) \<and>
     (if mn_is_elder N S
      then \<forall>key. key_share (ne_bls N) (ne_lru N) (mn_section_keys_provider T) (mn_section_key N S) = Ok key
          \<longrightarrow> votes_with N T (mn_section_key N S)
      else mn_membership T = None \<and> mn_handover_voting T = None)"

lemma revoted_fields:
  assumes "revoted N S T"
    and "mn_network_knowledge T' = mn_network_knowledge T" "mn_keypair T' = mn_keypair T"
    "mn_dkg_sessions_info T' = mn_dkg_sessions_info T" "mn_membership T' = mn_membership T"
    "mn_handover_voting T' = mn_handover_voting T"
    "mn_is_elder N S \<Longrightarrow> mn_section_keys_provider T' = mn_section_keys_provider T"
  shows "revoted N S T'"
proof -
  have "votes_with N T' k = votes_with N T k" for k using assms by (simp add: votes_with_def)
  then show ?thesis using assms by (simp add: revoted_def)
qed

lemma retain_only_fields [simp]:
  "mn_network_knowledge (fault_detection_retain_only S a e) = mn_network_knowledge S"
  "mn_keypair (fault_detection_retain_only S a e) = mn_keypair S"
  "mn_dkg_sessions_info (fault_detection_retain_only S a e) = mn_dkg_sessions_info S"
  "mn_membership (fault_detection_retain_only S a e) = mn_membership S"
  "mn_handover_voting (fault_detection_retain_only S a e) = mn_handover_voting S"
  "mn_section_keys_provider (fault_detection_retain_only S a e) = mn_section_keys_provider S"
  by (simp_all add: fault_detection_retain_only_def)

lemma refresh_provider:
  "mn_section_keys_provider (refresh_elder_state N old S)
     = mn_section_keys_provider (update_dkg_on_section_change N (mn_section_key N S) S)"
  by (simp add: refresh_elder_state_def Let_def case_prod_beta split: result.splits)

lemma revoted_update:
  assumes rounds: "rounds_keep_elders N"
  shows "revoted N S (refresh_elder_state N old S)"
proof -
  let ?S1 = "update_dkg_on_section_change N (mn_section_key N S) S"
  let ?S2 = "if mn_section_key N S \<noteq> mn_section_key N old then ?S1\<lparr>mn_pending_split_sections := []\<rparr> else ?S1"
  have fields: "mn_network_knowledge ?S2 = mn_network_knowledge S" "mn_keypair ?S2 = mn_keypair S"
    "mn_dkg_sessions_info ?S2 = mn_dkg_sessions_info ?S1" "mn_section_keys_provider ?S2 = mn_section_keys_provider ?S1"
    by simp_all
  have old: "mn_chain_len N S \<le> dk_section_chain_len (si_session_id i)" if "(h, i) \<in> set (mn_dkg_sessions_info ?S2)" for h i
    using that update_dkg_sessions(1) [of h i N "mn_section_key N S" S] by (simp add: fields)
  show ?thesis
  proof (cases "mn_is_elder N S")
    case False
    then show ?thesis using old by (auto simp: revoted_def refresh_elder_state_def Let_def)
  next
    case True
    show ?thesis
    proof (cases "key_share (ne_bls N) (ne_lru N) (mn_section_keys_provider ?S1) (mn_section_key N S)")
      case (Err e)
      then show ?thesis using True old by (auto simp: revoted_def refresh_elder_state_def Let_def)
    next
      case (Ok key)
      let ?I = "initialize_elder_state N key ?S2"
      have "votes_with N (fst ?I) (mn_section_key N S)"
        using initialize_votes [OF rounds, of key ?S2] key_share_of [OF Ok] by (simp add: fields)
      then have "revoted N S (fst ?I)"
        using True old by (auto simp: revoted_def)
      then have "revoted N S (if snd ?I then (fst ?I)\<lparr>mn_joins_allowed := j\<rparr> else fst ?I)" for j
        by (auto intro: revoted_fields)
      then show ?thesis using Ok True by (auto simp: refresh_elder_state_def Let_def split: prod.splits)
    qed
  qed
qed

subsection \<open>Quorums\<close>

lemma sap_change_knowledge: "mn_network_knowledge (fst (update_on_sap_change N old S)) = mn_network_knowledge S"
proof -
  have "mn_network_knowledge (refresh_elder_state N old S) = mn_network_knowledge S"
    by (simp add: refresh_elder_state_def Let_def case_prod_beta split: result.splits)
  then show ?thesis by (simp add: update_on_sap_change_def Let_def st_then_def split: result.splits)
qed

lemma comm_targets_knowledge [simp]:
  "mn_network_knowledge (update_comm_target_list S) = mn_network_knowledge S"
  by (simp add: update_comm_target_list_def Let_def)

lemma sap_only_by_update:
  assumes "update_sap_knowledge_if_valid M B X E C K u name = (K', r)" and "nk_signed_sap K' \<noteq> nk_signed_sap K"
  shows "r = Ok True \<and> nk_signed_sap K' = up_signed_sap u \<and> px_matches X (sap_prefix (sd_value (up_signed_sap u))) name"
  using assms
  by (auto simp: update_sap_knowledge_if_valid_def Let_def split: prod.splits result.splits bool.splits if_splits)

lemma new_elders_agreed:
  assumes "handle_new_elders_agreement N T s sig = (T', r)"
    and "nk_signed_sap (mn_network_knowledge T') \<noteq> nk_signed_sap (mn_network_knowledge T)"
  shows "nk_signed_sap (mn_network_knowledge T') = s \<and> px_matches (ne_xor N) (sap_prefix (sd_value s)) (mn_name N T) \<and>
    (\<exists>k. last_key (ne_dag N) (mn_section_chain N T) = Ok k \<and>
       verify_sig (ne_bls N) k (section_key (ne_bls N) (sd_value s)) (sg_signature sig))"
proof -
  let ?chain = "mn_section_chain N T" and ?key = "section_key (ne_bls N) (sd_value s)"
  obtain k chain' where k: "last_key (ne_dag N) ?chain = Ok k"
    and ins: "verify_and_insert (ne_dag N) (ne_bls N) ?chain k ?key (sg_signature sig) = Ok chain'"
    using assms by (cases "last_key (ne_dag N) ?chain")
      (auto simp: handle_new_elders_agreement_def Let_def st_then_def split: result.splits)
  obtain K' q where up: "update_sap_knowledge_if_valid (ne_dag N) (ne_bls N) (ne_xor N) (ne_enc_sap N) (ne_codec N)
      (mn_network_knowledge T) \<lparr> up_signed_sap = s, up_proof_chain = chain' \<rparr> (mn_name N T) = (K', q)" by fastforce
  have "mn_network_knowledge T' = K'"
  proof (cases q)
    case (Err e)
    then show ?thesis using assms(1) k ins up
      by (auto simp: handle_new_elders_agreement_def apply_tree_update_def Let_def)
  next
    case (Ok b)
    then show ?thesis using assms(1) k ins up
      by (auto simp: handle_new_elders_agreement_def apply_tree_update_def Let_def case_prod_beta sap_change_knowledge
          split: if_splits)
  qed
  with sap_only_by_update [OF up] assms(2) k ins show ?thesis
    by (auto simp: verify_and_insert_def split: if_splits)
qed

text \<open>
  C11. A node's elders change only by a signature of the old ones. When a promotion message leads to an agreement and
  the agreement, at whatever later time, gives the node another section authority, then it is the one of the message and
  its prefix is that of the node. The signature of the agreement was combined, with the key set of the message's
  share, from more different shares than the threshold of that set, this share among them, each of them verified for the
  key that the message signs and each under the same public key, byte for byte, which is a key of the chain the node
  knew; and the signature is valid, under the last key of the node's chain, for the key of the new section. The shares
  collected for other messages stay verified.
\<close>

theorem new_elders_need_quorum:
  assumes B: "bls_threshold_ok (ne_bls N)" and inj: "\<And>x y. ne_digest N x = ne_digest N y \<Longrightarrow> x = y"
    and ok: "shares_ok (ne_bls N) (ne_digest N) (mn_elder_promotion_aggregator S)"
    and promo: "handle_handover_promotion N S s share sender = (S', Ok cmds)"
    and cmd: "HandleNewEldersAgreement s' sig \<in> set cmds"
    and agree: "handle_new_elders_agreement N T s' sig = (T', r)"
    and changed: "nk_signed_sap (mn_network_knowledge T') \<noteq> nk_signed_sap (mn_network_knowledge T)"
  shows "s' = s \<and> nk_signed_sap (mn_network_knowledge T') = s \<and>
    px_matches (ne_xor N) (sap_prefix (sd_value s)) (mn_name N T) \<and>
    (\<exists>shares bs. pk_serialize (ne_bls N) (sg_public_key (sd_sig s)) = Some bs \<and> distinct shares \<and>
       share \<in> set shares \<and> pks_threshold (ne_bls N) (sh_key_set share) < length shares \<and>
       (\<forall>x \<in> set shares. sig_share_verify (ne_bls N) x bs \<and>
          pk_to_bytes (ne_bls N) (pks_public_key (ne_bls N) (sh_key_set x)) =
            pk_to_bytes (ne_bls N) (pks_public_key (ne_bls N) (sh_key_set share))) \<and>
       pks_combine (ne_bls N) (sh_key_set share) (map (\<lambda>x. (sh_index x, sh_share x)) shares) = Some (sg_signature sig)) \<and>
    sg_public_key sig = pks_public_key (ne_bls N) (sh_key_set share) \<and>
    has_chain_key (ne_dag N) (ne_bls N) (mn_network_knowledge S) (sg_public_key sig) \<and>
    (\<exists>k. last_key (ne_dag N) (mn_section_chain N T) = Ok k \<and>
       verify_sig (ne_bls N) k (section_key (ne_bls N) (sd_value s)) (sg_signature sig)) \<and>
    shares_ok (ne_bls N) (ne_digest N) (mn_elder_promotion_aggregator S')"
proof -
  have sc: "share_collection (ne_bls N) (ne_digest N)" using B inj by unfold_locales
  note ok' = ok [folded shares_ok_collected [OF sc]]
  obtain bs m where bs: "pk_serialize (ne_bls N) (sg_public_key (sd_sig s)) = Some bs"
    "try_aggregate (ne_bls N) (ne_digest N) (mn_elder_promotion_aggregator S) bs share = (m, Ok (Some sig))"
    and known: "has_chain_key (ne_dag N) (ne_bls N) (mn_network_knowledge S) (pks_public_key (ne_bls N) (sh_key_set share))"
    and S': "s' = s" "mn_elder_promotion_aggregator S' = m"
    using promo cmd
    by (auto simp: handle_handover_promotion_def Let_def split: if_splits option.splits result.splits prod.splits)
  note ag = bs(2) [unfolded try_aggregate_def]
  obtain shares where "distinct shares" "share \<in> set shares" "pks_threshold (ne_bls N) (sh_key_set share) < length shares"
    "\<forall>x \<in> set shares. sig_share_verify (ne_bls N) x bs"
    "\<forall>x \<in> set shares. pk_to_bytes (ne_bls N) (pks_public_key (ne_bls N) (sh_key_set x)) =
       pk_to_bytes (ne_bls N) (pks_public_key (ne_bls N) (sh_key_set share))"
    "pks_combine (ne_bls N) (sh_key_set share) (map (\<lambda>x. (sh_index x, sh_share x)) shares) = Some (sg_signature sig)"
    and sig: "sg_public_key sig = pks_public_key (ne_bls N) (sh_key_set share)"
    using share_collection.aggregate_signature [OF sc ok' ag] by blast
  then have "\<exists>shares bs. pk_serialize (ne_bls N) (sg_public_key (sd_sig s)) = Some bs \<and> distinct shares \<and>
       share \<in> set shares \<and> pks_threshold (ne_bls N) (sh_key_set share) < length shares \<and>
       (\<forall>x \<in> set shares. sig_share_verify (ne_bls N) x bs \<and>
          pk_to_bytes (ne_bls N) (pks_public_key (ne_bls N) (sh_key_set x)) =
            pk_to_bytes (ne_bls N) (pks_public_key (ne_bls N) (sh_key_set share))) \<and>
       pks_combine (ne_bls N) (sh_key_set share) (map (\<lambda>x. (sh_index x, sh_share x)) shares) = Some (sg_signature sig)"
    using bs(1) by blast
  moreover have "shares_ok (ne_bls N) (ne_digest N) (mn_elder_promotion_aggregator S')"
    using share_collection.aggregate_keeps [OF sc ok' ag] by (simp add: S' shares_ok_collected [OF sc])
  ultimately show ?thesis
    using new_elders_agreed [OF agree changed] known S'(1) unfolding sig by blast
qed

text \<open>
  C14. When the section of a node has changed: every key generation left was started for the current chain of
  keys or a longer one; a node that is no elder votes on nothing, and one that is no longer an elder has
  no key shares; an elder that has its share of the section's key votes on members and on handovers with that key.
  What the node knows and its name stay.
\<close>

theorem sap_change_state:
  assumes rounds: "rounds_keep_elders N" and lru: "lru_ok (ne_lru N)"
    and change: "update_on_sap_change N old S = (S', Ok cmds)"
  shows "mn_network_knowledge S' = mn_network_knowledge S \<and> mn_name N S' = mn_name N S \<and>
    (\<forall>(h, i) \<in> set (mn_dkg_sessions_info S'). mn_chain_len N S' \<le> dk_section_chain_len (si_session_id i)) \<and>
    (\<not> mn_is_elder N S' \<longrightarrow> mn_membership S' = None \<and> mn_handover_voting S' = None) \<and>
    (mn_is_elder N old \<and> \<not> mn_is_elder N S' \<longrightarrow> lru_iter (ne_lru N) (mn_section_keys_provider S') = []) \<and>
    (mn_is_elder N S' \<and> key_share (ne_bls N) (ne_lru N) (mn_section_keys_provider S') (mn_section_key N S') = Ok key
      \<longrightarrow> votes_with N S' (mn_section_key N S'))"
proof -
  let ?S3 = "refresh_elder_state N old S"
  let ?S4 = "if mn_is_elder N old \<and> \<not> mn_is_elder N S
      then ?S3\<lparr>mn_section_keys_provider := keys_wipe (ne_lru N) (mn_section_keys_provider ?S3)\<rparr> else ?S3"
  have S4: "revoted N S ?S4" by (rule revoted_fields [OF revoted_update [OF rounds]]) simp_all
  have *: "mn_network_knowledge S' = mn_network_knowledge ?S4" "mn_keypair S' = mn_keypair ?S4"
    "mn_dkg_sessions_info S' = mn_dkg_sessions_info ?S4" "mn_membership S' = mn_membership ?S4"
    "mn_handover_voting S' = mn_handover_voting ?S4" "mn_section_keys_provider S' = mn_section_keys_provider ?S4"
    using change by (auto simp: update_on_sap_change_def Let_def st_then_def split: result.splits if_splits)
  have "revoted N S S'" by (rule revoted_fields [OF S4]) (simp_all add: *)
  moreover have "mn_is_elder N old \<and> \<not> mn_is_elder N S \<longrightarrow> lru_iter (ne_lru N) (mn_section_keys_provider S') = []"
    using lru by (simp add: * keys_wipe_def lru_ok_def)
  ultimately show ?thesis by (auto simp: revoted_def mn_is_elder_def mn_name_def mn_chain_len_def)
qed

text \<open>A node that has become an elder, with its share of the section's key.\<close>

definition sample_receiver :: "(dag_node list, section_key_share list, nat, nat, nat) my_node" where
  "sample_receiver = (sample_node 9)\<lparr>mn_network_knowledge := sample_knowledge
     \<lparr>nk_signed_sap := \<lparr> sd_value = new_sap [NodeId (sample_elder 9) 9] [] [] 1 0,
       sd_sig = sd_sig (sample_signed [] 1) \<rparr>\<rparr>\<rparr>"

definition sample_new_elder :: "(dag_node list, section_key_share list, nat, nat, nat) my_node" where
  "sample_new_elder = sample_receiver\<lparr>mn_section_keys_provider :=
     [\<lparr> ks_public_key_set = 1, ks_index = 0, ks_secret_key_share = 1 \<rparr>]\<rparr>"

lemma sample_receiver_facts:
  "mn_is_elder sample_node_env sample_receiver" "mn_prefix sample_receiver = []"
  "verify_section_key_is_known (mn_network_knowledge sample_receiver) 1"
  by (simp_all add: mn_is_elder_def nk_is_elder_def sample_receiver_def mn_name_def node_name_def sample_node_def my_node_new_def
      sample_node_env_def ref_dkg_env_def new_sap_def bs_from_iter_def contains_elder_def nk_prefix_def
      verify_section_key_is_known_def sample_knowledge_def sample_tree_def has_key_def new_dag_def)

lemma sample_new_elder_facts:
  "mn_is_elder sample_node_env sample_new_elder" "mn_section_key sample_node_env sample_new_elder = 1"
  "mn_prefix sample_new_elder = []" "history_members (nk_section_members (mn_network_knowledge sample_new_elder)) = []"
  using sample_receiver_facts
  by (simp_all add: mn_is_elder_def mn_name_def sample_new_elder_def)
    (simp_all add: sample_receiver_def nk_section_key_def section_key_def new_sap_def ref_bls_def sample_knowledge_def
      new_history_def history_members_def members_at_gen_def bm_extend_def bm_values_def)

lemma sample_not_elder: "\<not> mn_is_elder sample_node_env (sample_node 9)" "nk_prefix sample_knowledge = []"
  by (simp_all add: mn_is_elder_def nk_is_elder_def nk_prefix_def sample_knowledge_def sample_signed_def sample_sap_def new_sap_def
      bs_from_iter_def contains_elder_def ref_keys_def)

lemma sample_rounds: "rounds_keep_elders sample_node_env"
  by (simp add: rounds_keep_elders_def sample_node_env_def idle_consensus_def)

theorem sap_change_state_witness:
  "\<exists>S'. update_on_sap_change sample_node_env (sample_node 9) sample_new_elder = (S', Ok []) \<and>
     votes_with sample_node_env S' 1"
proof -
  let ?N = sample_node_env and ?S = sample_new_elder
  let ?S3 = "refresh_elder_state ?N (sample_node 9) ?S"
  have S3: "mn_network_knowledge ?S3 = mn_network_knowledge ?S"
    using revoted_update [OF sample_rounds] by (simp add: revoted_def)
  then have "send_ae_update_to_our_section ?N ?S3 = Ok None"
    by (simp add: send_ae_update_to_our_section_def sample_new_elder_facts bs_from_iter_def)
  then obtain S' where S': "update_on_sap_change ?N (sample_node 9) ?S = (S', Ok [])"
    "mn_section_keys_provider S' = mn_section_keys_provider ?S3"
    by (simp add: update_on_sap_change_def Let_def sample_new_elder_facts sample_not_elder)
  have "update_dkg_on_section_change ?N k ?S = ?S" for k
    by (simp add: update_dkg_on_section_change_def remove_sessions_def sample_new_elder_def sample_receiver_def
        sample_node_def my_node_new_def)
  then have "mn_section_keys_provider ?S3 = mn_section_keys_provider ?S"
    by (simp add: refresh_provider)
  then have share: "key_share (ne_bls ?N) (ne_lru ?N) (mn_section_keys_provider S') 1
      = Ok \<lparr> ks_public_key_set = 1, ks_index = 0, ks_secret_key_share = 1 \<rparr>"
    by (simp add: S' key_share_def sample_new_elder_def sample_node_env_def ref_dkg_env_def ref_lru_def ref_bls_def)
  have "lru_ok (ne_lru ?N)" by (simp add: sample_node_env_def ref_lru_ok)
  note state = sap_change_state [OF sample_rounds this S'(1), of "\<lparr> ks_public_key_set = 1, ks_index = 0, ks_secret_key_share = 1 \<rparr>"]
  then have "mn_is_elder ?N S'" and key: "mn_section_key ?N S' = 1"
    using sample_new_elder_facts by (simp_all add: mn_is_elder_def)
  with state [unfolded key] share S'(1) show ?thesis by blast
qed

text \<open>A node that has one of two shares over the key of new elders, and gets the other.\<close>

definition quorum_env ::
  "(dag_node list, entry node set, section_key_share list, nat, nat, nat) node_env" where
  "quorum_env = sample_node_env\<lparr>ne_digest := ref_digest\<rparr>"

definition promotion_share :: "nat \<Rightarrow> sig_share" where
  "promotion_share i = SigShare 1 i (i + ref_msg [2])"

definition sample_waiting :: "(dag_node list, section_key_share list, nat, nat, nat) my_node" where
  "sample_waiting = (sample_node 9)\<lparr>mn_elder_promotion_aggregator :=
     [(entry_key ref_bls ref_digest [2] (promotion_share 0), [promotion_share 0])]\<rparr>"

lemma quorum_env_simps [simp]:
  "ne_dag quorum_env = sample_register" "ne_bls quorum_env = ref_bls" "ne_xor quorum_env = ref_xor"
  "ne_enc_sap quorum_env = Section_Tree.sample_codec" "ne_digest quorum_env = ref_digest"
  "ne_codec quorum_env = sample_state_codec"
  by (simp_all add: quorum_env_def sample_node_env_def ref_dkg_env_def)

lemma promotion_share_ok: "sig_share_verify ref_bls (promotion_share i) [2]"
  by (simp add: sig_share_verify_def promotion_share_def ref_bls_def)

lemma sample_waiting_ok: "shares_ok ref_bls ref_digest (mn_elder_promotion_aggregator sample_waiting)"
  using promotion_share_ok by (auto simp: shares_ok_def sample_waiting_def bm_wf_def bs_wf_def split: if_splits)

lemma sample_promotion:
  "\<exists>S'. handle_handover_promotion quorum_env sample_waiting (sample_signed [] 2) (promotion_share 2) i
     = (S', Ok [HandleNewEldersAgreement (sample_signed [] 2) \<lparr> sg_public_key = 1, sg_signature = 1258 \<rparr>])"
proof -
  let ?m = "mn_elder_promotion_aggregator sample_waiting"
  have h: "entry_key ref_bls ref_digest [2] (promotion_share 2) = entry_key ref_bls ref_digest [2] (promotion_share 0)"
    by (simp add: entry_key_def promotion_share_def)
  have ag: "\<exists>m. try_aggregate ref_bls ref_digest ?m [2] (promotion_share 2)
      = (m, Ok (Some \<lparr> sg_public_key = 1, sg_signature = 1258 \<rparr>))"
    using promotion_share_ok [of 2] by (simp add: try_aggregate_def aggregate_def Let_def h sample_waiting_def)
      (simp add: promotion_share_def less_sig_share_def sig_share_cmp_def cmp_of_def ref_bls_def ref_msg_def)
  have chain: "has_chain_key sample_register ref_bls (mn_network_knowledge sample_waiting) 1"
    by (simp add: has_chain_key_def sample_waiting_def sample_section_chain has_key_def new_dag_def)
  have pk: "pks_public_key ref_bls (sh_key_set (promotion_share 2)) = 1" "pk_serialize ref_bls 2 = Some [2]"
    by (simp_all add: promotion_share_def ref_bls_def)
  have prefix: "mn_prefix sample_waiting = []" by (simp add: sample_waiting_def sample_not_elder)
  obtain m where m: "try_aggregate ref_bls ref_digest ?m [2] (promotion_share 2)
      = (m, Ok (Some \<lparr> sg_public_key = 1, sg_signature = 1258 \<rparr>))" using ag by blast
  show ?thesis
    unfolding handle_handover_promotion_def using chain
    by (simp only: quorum_env_simps pk prefix ref_matches_empty sample_signed_simps m Let_def) (simp add: m [simplified] pk)
qed

lemma sample_agreement:
  assumes "mn_network_knowledge T = sample_knowledge"
  shows "\<exists>T' r. handle_new_elders_agreement quorum_env T (sample_signed [] 2)
       \<lparr> sg_public_key = 1, sg_signature = 1258 \<rparr> = (T', r) \<and> nk_signed_sap (mn_network_knowledge T') = sample_signed [] 2"
proof -
  obtain K where K: "update_sap_knowledge_if_valid sample_register ref_bls ref_xor Section_Tree.sample_codec sample_state_codec
      sample_knowledge sample_update (mn_name quorum_env T) = (K, Ok True)" "nk_signed_sap K = sample_signed [] 2"
    using sample_sap_update by blast
  have "last_key sample_register (new_dag sample_register 1) = Ok 1"
    by (simp add: last_key_def leaf_keys_def non_genesis_leaf_sections_def non_genesis_leaf_nodes_def new_dag_def
        sample_register_def ref_merkle_def)
  moreover have "verify_and_insert sample_register ref_bls (new_dag sample_register 1) 1 2 1258 = Ok sample_dag1"
    by (simp add: verify_and_insert_def verify_sig_def sample_insert1 [unfolded One_nat_def]) (simp add: ref_bls_def ref_sign_def ref_msg_def)
  ultimately show ?thesis
    using K assms sample_section_chain
    by (simp add: handle_new_elders_agreement_def apply_tree_update_def Let_def case_prod_beta sap_change_knowledge
        sample_update_def)
qed

theorem new_elders_need_quorum_witness:
  "\<exists>S' cmds T' r shares. handle_handover_promotion quorum_env sample_waiting (sample_signed [] 2) (promotion_share 2) (NodeId [7] 7)
       = (S', Ok cmds) \<and>
     handle_new_elders_agreement quorum_env (sample_node 9) (sample_signed [] 2)
       \<lparr> sg_public_key = 1, sg_signature = 1258 \<rparr> = (T', r) \<and>
     nk_signed_sap (mn_network_knowledge T') = sample_signed [] 2 \<and>
     distinct shares \<and> promotion_share 2 \<in> set shares \<and> 1 < length shares \<and>
     list_all (\<lambda>x. sig_share_verify ref_bls x [2]) shares"
proof -
  let ?sig = "\<lparr> sg_public_key = 1, sg_signature = 1258 \<rparr>"
  obtain S' where S': "handle_handover_promotion quorum_env sample_waiting (sample_signed [] 2) (promotion_share 2) (NodeId [7] 7)
      = (S', Ok [HandleNewEldersAgreement (sample_signed [] 2) ?sig])"
    using sample_promotion by blast
  obtain T' r where T': "handle_new_elders_agreement quorum_env (sample_node 9) (sample_signed [] 2) ?sig = (T', r)"
    "nk_signed_sap (mn_network_knowledge T') = sample_signed [] 2"
    using sample_agreement [OF sample_node_simps(2)] by blast
  have "nk_signed_sap (mn_network_knowledge T') \<noteq> nk_signed_sap (mn_network_knowledge (sample_node 9))"
    by (simp add: T' sample_knowledge_def sample_signed_def)
  note quorum = new_elders_need_quorum [of quorum_env, unfolded quorum_env_simps, OF ref_threshold_ok ref_digest_inj sample_waiting_ok
      S' _ T'(1) this]
  have "pk_serialize ref_bls 2 = Some [2]" "pks_threshold ref_bls k = 1" for k by (simp_all add: ref_bls_def)
  then obtain shares where "distinct shares" "promotion_share 2 \<in> set shares" "1 < length shares"
    "\<forall>x \<in> set shares. sig_share_verify ref_bls x [2]"
    using quorum by auto
  with S' T' show ?thesis unfolding list_all_iff by blast
qed

end
