(* ===== verification/Node_Join.thy ===== *)
theory Node_Join
  imports Elder_Change
begin

section \<open>Members joining, leaving and relocating\<close>

text \<open>
  \<open>sn_node/src/node/messaging\<close>: \<open>joining_nodes.rs\<close>, \<open>join_section.rs\<close>, \<open>membership.rs\<close>, \<open>section_state.rs\<close> and
  \<open>relocation.rs\<close>, with \<open>sn_node/src/node/relocation.rs\<close> and \<open>connectivity.rs\<close>: the elders agree by consensus on
  who joins and leaves, vote nodes off, and move nodes to other sections.
\<close>

subsection \<open>Voting on members\<close>

definition propose_membership_change ::
  "('m, 'r, 'k, 'a, 'h, 'd) node_env \<Rightarrow> nat \<Rightarrow> ('m, 'k, 'a, 'h, 'd) my_node \<Rightarrow> node_state
     \<Rightarrow> ('m, 'k, 'a, 'h, 'd) my_node \<times> ('m, 'r) cmd option" where
  "propose_membership_change N now S n =
     (case mn_membership S of
        None \<Rightarrow> (S, None)
      | Some membership \<Rightarrow>
          (let (m, r) = ms_propose (ne_membership N) (ne_xor N) (ne_elder_count_var N) now membership n (mn_prefix S);
               S1 = S\<lparr>mn_membership := Some m\<rparr>
           in (S1, case r of Ok vote \<Rightarrow> Some (send_to_elders S (MembershipVotes [vote])) | Err _ \<Rightarrow> None)))"

definition membership_gossip_votes ::
  "('m, 'r, 'k, 'a, 'h, 'd) node_env \<Rightarrow> ('m, 'k, 'a, 'h, 'd) my_node \<Rightarrow> ('m, 'r) cmd option" where
  "membership_gossip_votes N S =
     (case mn_membership S of
        None \<Rightarrow> None
      | Some membership \<Rightarrow>
          (case ms_anti_entropy (ne_membership N) membership (ms_gen membership) of
             Ok ae_votes \<Rightarrow> Some (send_to_elders S (MembershipVotes ae_votes))
           | Err _ \<Rightarrow> None))"

fun handle_membership_votes ::
  "('m, 'r, 'k, 'a, 'h, 'd) node_env \<Rightarrow> nat \<Rightarrow> node_id \<Rightarrow> signed_vote list \<Rightarrow> ('m, 'k, 'a, 'h, 'd) my_node
     \<Rightarrow> ('m, 'r) cmd list \<Rightarrow> ('m, 'r, 'k, 'a, 'h, 'd) handled" where
  "handle_membership_votes N now i [] S cmds = (S, Ok cmds)"
| "handle_membership_votes N now i (v # vs) S cmds =
     (case mn_membership S of
        None \<Rightarrow> handle_membership_votes N now i vs S cmds
      | Some membership \<Rightarrow>
          (case ms_handle_signed_vote (ne_membership N) (ne_xor N) (ne_elder_count_var N) now membership v (mn_prefix S) of
             (m, Err RequestAntiEntropy) \<Rightarrow>
               (S\<lparr>mn_membership := Some m\<rparr>,
                Ok (cmds @ [send_msg (MembershipAE (ms_gen m)) (Single (participant_from_node i))]))
           | (m, Err _) \<Rightarrow> (S\<lparr>mn_membership := Some m\<rparr>, Ok cmds)
           | (m, Ok (vote_response, agreed)) \<Rightarrow>
               handle_membership_votes N now i vs (S\<lparr>mn_membership := Some m\<rparr>)
                 (cmds @ (case agreed of Some d \<Rightarrow> [HandleMembershipDecision d] | None \<Rightarrow> [])
                   @ (case vote_response of
                        CsBroadcast response_vote \<Rightarrow> [send_to_elders S (MembershipVotes [response_vote])]
                      | CsWaitingForMoreVotes \<Rightarrow> []))))"

definition handle_membership_anti_entropy_request ::
  "('m, 'r, 'k, 'a, 'h, 'd) node_env \<Rightarrow> 'a membership option \<Rightarrow> node_id \<Rightarrow> nat \<Rightarrow> ('m, 'r) cmd option" where
  "handle_membership_anti_entropy_request N membership_context i gen =
     (case membership_context of
        None \<Rightarrow> None
      | Some membership \<Rightarrow>
          (case ms_anti_entropy (ne_membership N) membership gen of
             Ok catchup_votes \<Rightarrow> Some (send_msg (MembershipVotes catchup_votes) (Single (participant_from_node i)))
           | Err _ \<Rightarrow> None))"

subsection \<open>Requests to join\<close>

definition is_infant_node :: "node_id \<Rightarrow> bool" where
  "is_infant_node i = (nid_age i = MIN_ADULT_AGE)"

definition saturating_succ :: "u8 \<Rightarrow> u8" where
  "saturating_succ a = (if a = 255 then a else a + 1)"

definition verify_relocated_age :: "node_id \<Rightarrow> relocation_proof \<Rightarrow> (unit, node_error) result" where
  "verify_relocated_age i p =
     (if nid_age i \<noteq> saturating_succ (rp_previous_age p) then Err InvalidRelocationDetails else Ok ())"

text \<open>The last part of the function, for a node that may join, is the local \<open>propose\<close>.\<close>

definition handle_join ::
  "('m, 'r, 'k, 'a, 'h, 'd) node_env \<Rightarrow> nat \<Rightarrow> ('m, 'k, 'a, 'h, 'd) my_node \<Rightarrow> node_id \<Rightarrow> msg_id
     \<Rightarrow> relocation_proof option \<Rightarrow> stream option \<Rightarrow> ('m, 'r, 'k, 'a, 'h, 'd) handled" where
  "handle_join N now S i correlation_id relocation send_stream =
     (let K = mn_network_knowledge S;
          propose = (\<lambda>previous_name.
            let consider = (case send_stream of
                  Some st \<Rightarrow> [SendNodeMsgResponse (JoinResponse UnderConsideration) correlation_id i st] | None \<Rightarrow> []);
                (S1, c) = propose_membership_change N now S (joined i previous_name)
            in (S1, Ok (consider @ (case c of Some cmd \<Rightarrow> [cmd] | None \<Rightarrow> []))))
      in
      if \<not> mn_is_elder N S then (S, Ok [])
      else if \<not> px_matches (ne_xor N) (nk_prefix K) (nid_name i) then (S, Ok [])
      else case relocation of
        Some proof \<Rightarrow>
          if \<not> verify_section_key_is_known K (rp_signed_by proof) then (S, Ok [])
          else (case rp_verify (ne_keys N) (ne_bls N) (ne_codec N) proof of
                  Err e \<Rightarrow> (S, Err (NetworkKnowledge_node e))
                | Ok _ \<Rightarrow>
                    (case verify_relocated_age i proof of
                       Err e \<Rightarrow> (S, Err e)
                     | Ok _ \<Rightarrow> propose (Some (rp_previous_name proof))))
      | None \<Rightarrow>
          if \<not> is_infant_node i then (S, Ok [])
          else if \<not> ctx_joins_allowed S then
            (S, Ok [case send_stream of
                      Some st \<Rightarrow> SendNodeMsgResponse (JoinResponse JoinsDisallowed_response) correlation_id i st
                    | None \<Rightarrow> send_msg (JoinResponse JoinsDisallowed_response) (Single (participant_from_node i))])
          else propose None)"

definition try_join_section ::
  "('m, 'r, 'k, 'a, 'h, 'd) node_env \<Rightarrow> ('m, 'k, 'a, 'h, 'd) my_node \<Rightarrow> relocation_proof option \<Rightarrow> ('m, 'r) cmd option" where
  "try_join_section N S relocation =
     (if is_section_member (mn_network_knowledge S) (mn_name N S) then None
      else Some (send_to_elders_await_responses (mn_sap S) (TryJoin relocation)))"

subsection \<open>Voting nodes off\<close>

definition handle_section_state_proposal ::
  "('m, 'r, 'k, 'a, 'h, 'd) node_env \<Rightarrow> ('m, 'k, 'a, 'h, 'd) my_node \<Rightarrow> node_state \<Rightarrow> sig_share \<Rightarrow> node_id
     \<Rightarrow> ('m, 'r, 'k, 'a, 'h, 'd) handled" where
  "handle_section_state_proposal N S proposal share sender =
     (let K = mn_network_knowledge S in
      if \<not> px_matches (ne_xor N) (nk_prefix K) (nid_name sender) then (S, Ok [])
      else if \<not> has_chain_key (ne_dag N) (ne_bls N) K (pks_public_key (ne_bls N) (sh_key_set share)) then (S, Ok [])
      else case enc_node_state (ne_codec N) proposal of
        None \<Rightarrow> (S, Err Bincode_node)
      | Some serialized_proposal \<Rightarrow>
          (let (m, r) = try_aggregate (ne_bls N) (ne_digest N) (mn_section_proposal_aggregator S) serialized_proposal share
           in (S\<lparr>mn_section_proposal_aggregator := m\<rparr>,
               Ok (case r of Ok (Some sig) \<Rightarrow> [HandleNodeOffAgreement proposal sig] | _ \<Rightarrow> []))))"

definition send_node_off_proposal ::
  "('m, 'r, 'k, 'a, 'h, 'd) node_env \<Rightarrow> ('m, 'k, 'a, 'h, 'd) my_node \<Rightarrow> node_id list \<Rightarrow> node_state
     \<Rightarrow> ('m, 'r, 'k, 'a, 'h, 'd) handled" where
  "send_node_off_proposal N S rs proposal =
     st_then (S, and_then (ok_or (enc_node_state (ne_codec N) proposal) Bincode_node) (sign_with_section_key_share N S))
       (\<lambda>S share.
          (let (other_nodes, myself) = split_nodes_and_self N S rs;
               S1 = fold (\<lambda>i S. track_node_issue N S (nid_name i) ElderVoting) other_nodes S;
               cmds = [send_msg (ProposeNodeOff proposal share) (Multiple other_nodes)]
           in case myself of
                Some me \<Rightarrow> st_then (handle_section_state_proposal N S1 proposal share me) (\<lambda>S2 cs. (S2, Ok (cmds @ cs)))
              | None \<Rightarrow> (S1, Ok cmds)))"

definition handle_section_decision_agreement ::
  "('m, 'r, 'k, 'a, 'h, 'd) node_env \<Rightarrow> nat \<Rightarrow> ('m, 'k, 'a, 'h, 'd) my_node \<Rightarrow> node_state \<Rightarrow> section_sig
     \<Rightarrow> ('m, 'r, 'k, 'a, 'h, 'd) handled" where
  "handle_section_decision_agreement N now S proposal sig =
     (case enc_node_state (ne_codec N) proposal of
        None \<Rightarrow> (S, Err Bincode_node)
      | Some serialized_proposal \<Rightarrow>
          if \<not> section_sig_verify (ne_bls N) sig serialized_proposal then (S, Err InvalidSignature_node)
          else (let (S1, c) = propose_membership_change N now S proposal
                in (S1, Ok (case c of Some cmd \<Rightarrow> [cmd] | None \<Rightarrow> []))))"

definition handle_comms_error ::
  "('m, 'r, 'k, 'a, 'h, 'd) node_env \<Rightarrow> ('m, 'k, 'a, 'h, 'd) my_node \<Rightarrow> participant \<Rightarrow> ('m, 'k, 'a, 'h, 'd) my_node" where
  "handle_comms_error N S p =
     (if is_section_member (mn_network_knowledge S) (pt_name p)
      then track_node_issue N S (pt_name p) Communication else S)"

fun cast_offline_loop ::
  "('m, 'r, 'k, 'a, 'h, 'd) node_env \<Rightarrow> node_id list \<Rightarrow> xor_name list \<Rightarrow> ('m, 'k, 'a, 'h, 'd) my_node
     \<Rightarrow> ('m, 'r) cmd list \<Rightarrow> ('m, 'r, 'k, 'a, 'h, 'd) handled" where
  "cast_offline_loop N elders [] S cmds = (S, Ok cmds)"
| "cast_offline_loop N elders (name # names) S cmds =
     (case get_section_member (mn_network_knowledge S) name of
        None \<Rightarrow> cast_offline_loop N elders names S cmds
      | Some info \<Rightarrow>
          (case leave info of
             None \<Rightarrow> (S, Err Panicked)
           | Some info \<Rightarrow>
               (case send_node_off_proposal N S elders info of
                  (S1, Ok cs) \<Rightarrow> cast_offline_loop N elders names S1 (cmds @ cs)
                | (S1, Err _) \<Rightarrow> cast_offline_loop N elders names S1 cmds)))"

definition cast_offline_proposals ::
  "('m, 'r, 'k, 'a, 'h, 'd) node_env \<Rightarrow> ('m, 'k, 'a, 'h, 'd) my_node \<Rightarrow> xor_name bset
     \<Rightarrow> ('m, 'r, 'k, 'a, 'h, 'd) handled" where
  "cast_offline_proposals N S names =
     cast_offline_loop N (filter (\<lambda>i. nid_name i \<notin> set names) (sap_elders (mn_sap S))) names S []"

subsection \<open>Relocation\<close>

definition find_nodes_to_relocate ::
  "('m, 'r, 'k, 'a, 'h, 'd) node_env \<Rightarrow> 'm network_knowledge \<Rightarrow> node_state relocation_trigger \<Rightarrow> xor_name bset
     \<Rightarrow> node_state list" where
  "find_nodes_to_relocate N K trigger excluded =
     (let section_members = history_members (nk_section_members K);
          section_size = length section_members;
          recommended = recommended_section_size (ne_elder_count_var N);
          max_relocations = elder_count (ne_elder_count_var N) div 2;
          allowed_relocations = min (section_size - recommended) max_relocations;
          churn = churn_id (ne_keys N) trigger;
          target_name = ne_from_content N churn;
          candidates = sort_by (\<lambda>l r. ne_cmp_distance N target_name (ns_name l) (ns_name r))
            (filter (\<lambda>n. is_adult K (ns_name n) \<and> relocation_check (ns_age n) churn \<and> ns_name n \<notin> set excluded)
              section_members)
      in if section_size \<le> recommended then []
         else if candidates = [] then []
         else (let max_age = Max (set (map ns_age candidates))
               in take allowed_relocations (filter (\<lambda>n. ns_age n = max_age) candidates)))"

definition try_relocate_nodes ::
  "('m, 'r, 'k, 'a, 'h, 'd) node_env \<Rightarrow> ('m, 'k, 'a, 'h, 'd) my_node \<Rightarrow> node_state relocation_trigger \<Rightarrow> xor_name bset
     \<Rightarrow> ('m, 'r) cmd list" where
  "try_relocate_nodes N S trigger excluded =
     (if mn_prefix S = [] then []
      else if sap_elder_count (mn_sap S) < elder_count (ne_elder_count_var N) then []
      else map (\<lambda>n. send_msg (PrepareToRelocate trigger) (Single (participant_from_node (ns_node_id n))))
        (find_nodes_to_relocate N (mn_network_knowledge S) trigger excluded))"

definition prepare_to_relocate ::
  "('m, 'k, 'a, 'h, 'd) my_node \<Rightarrow> node_state relocation_trigger \<Rightarrow> ('m, 'k, 'a, 'h, 'd) my_node \<times> ('m, 'r) cmd list" where
  "prepare_to_relocate S trigger =
     (if mn_relocation_state S = NoRelocation
      then (let S1 = S\<lparr>mn_relocation_state := PreparingToRelocate trigger\<rparr>
            in (S1, [send_to_elders S1 (ProceedRelocation trigger)]))
      else (S, []))"

definition proceed_relocation ::
  "('m, 'r, 'k, 'a, 'h, 'd) node_env \<Rightarrow> nat \<Rightarrow> ('m, 'k, 'a, 'h, 'd) my_node \<Rightarrow> xor_name
     \<Rightarrow> node_state relocation_trigger \<Rightarrow> ('m, 'r, 'k, 'a, 'h, 'd) handled" where
  "proceed_relocation N now S relocation_node trigger =
     (case get_section_member (mn_network_knowledge S) relocation_node of
        None \<Rightarrow> (S, Err (NetworkKnowledge_node NotAMember))
      | Some n \<Rightarrow>
          (let (S1, c) = propose_membership_change N now S (relocate n trigger)
           in (S1, Ok (case c of Some cmd \<Rightarrow> [cmd] | None \<Rightarrow> []))))"

text \<open>
  The key pair that \<open>gen_keypair\<close> draws for the destination's range of names and the new age is the
  argument \<open>gen\<close>.
\<close>

definition relocate_us ::
  "('m, 'r, 'k, 'a, 'h, 'd) node_env \<Rightarrow> (prefix \<Rightarrow> u8 \<Rightarrow> ed_keypair) \<Rightarrow> ('m, 'k, 'a, 'h, 'd) my_node
     \<Rightarrow> node_state section_signed \<Rightarrow> ('m, 'k, 'a, 'h, 'd) my_node \<times> (('m, 'r) cmd option, node_error) result" where
  "relocate_us N gen S signed_relocation =
     (case enc_node_state (ne_codec N) (sd_value signed_relocation) of
        None \<Rightarrow> (S, Err Bincode_node)
      | Some serialized \<Rightarrow>
          if \<not> section_sig_verify (ne_bls N) (sd_sig signed_relocation) serialized then (S, Err InvalidSignature_node)
          else if mn_name N S \<noteq> ns_name (sd_value signed_relocation) then (S, Ok None)
          else (case ns_state (sd_value signed_relocation) of
            Relocated trigger \<Rightarrow>
              (case closest_signed_sap (ne_xor N) (mn_network_knowledge S) (dst_section (ne_keys N) trigger (mn_name N S)) of
                 None \<Rightarrow> (S, Err NoMatchingSection_node)
               | Some dst_sap \<Rightarrow>
                   (let original_keypair = mn_keypair S;
                        new_keypair = gen (sap_prefix (sd_value dst_sap)) (saturating_succ (calc_age (mn_name N S)));
                        new_name = node_name (ne_dkg N) new_keypair;
                        info = \<lparr> ri_signed_relocation = signed_relocation, ri_new_name = new_name \<rparr>
                    in case enc_relocation_info (ne_codec N) info of
                         None \<Rightarrow> (S, Err Bincode_node)
                       | Some serialized_info \<Rightarrow>
                           (case switch_section (mn_network_knowledge S) dst_sap of
                              Err e \<Rightarrow> (S, Err (NetworkKnowledge_node e))
                            | Ok K \<Rightarrow>
                                (let S1 = update_comm_target_list (S\<lparr>mn_network_knowledge := K, mn_keypair := new_keypair\<rparr>);
                                     proof = \<lparr> rp_info = info,
                                       rp_self_sig = de_ed_sign (ne_dkg N) original_keypair serialized_info,
                                       rp_self_old_key = de_ed_public (ne_dkg N) original_keypair \<rparr>;
                                     S2 = S1\<lparr>mn_relocation_state := ReadyToJoinNewSection proof\<rparr>
                                 in (S2, Ok (try_join_section N S2 (Some proof)))))))
          | _ \<Rightarrow> (S, Ok None)))"

definition finalise_relocation ::
  "('m, 'r, 'k, 'a, 'h, 'd) node_env \<Rightarrow> ('m, 'k, 'a, 'h, 'd) my_node \<Rightarrow> ns_decision \<Rightarrow> ('m, 'k, 'a, 'h, 'd) my_node" where
  "finalise_relocation N S d =
     (let S1 = S\<lparr>mn_relocation_state := NoRelocation\<rparr> in
      case try_update_member (ne_bls N) (ne_validate N) (mn_network_knowledge S1) d of
        Ok (K, _) \<Rightarrow> S1\<lparr>mn_network_knowledge := K\<rparr>
      | Err _ \<Rightarrow> S1)"

subsection \<open>Decisions on members\<close>

definition TEMP_SECTION_LIMIT :: nat where
  "TEMP_SECTION_LIMIT = 20"

definition is_startup_joining_allowed ::
  "('m, 'r, 'k, 'a, 'h, 'd) node_env \<Rightarrow> ('m, 'k, 'a, 'h, 'd) my_node \<Rightarrow> bool" where
  "is_startup_joining_allowed N S =
     (let is_first_section = (mn_prefix S = []) in
      if ne_limit_network_size N
      then is_first_section \<and> length (nk_members (mn_network_knowledge S)) \<le> TEMP_SECTION_LIMIT
      else is_first_section)"

definition send_node_approvals :: "ns_decision \<Rightarrow> ('m, 'r) cmd" where
  "send_node_approvals d =
     send_msg (JoinResponse (Approved d))
       (Multiple (bs_from_iter (map ns_node_id (filter (\<lambda>n. ns_state n = Joined) (bm_keys (proposals d))))))"

definition handle_node_left ::
  "('m, 'r, 'k, 'a, 'h, 'd) node_env \<Rightarrow> ('m, 'k, 'a, 'h, 'd) my_node \<Rightarrow> node_state \<Rightarrow> signature \<Rightarrow> ('m, 'r) cmd option" where
  "handle_node_left N S n sig =
     (if is_relocated n
      then Some (send_msg (CompleteRelocation \<lparr> sd_value = n,
          sd_sig = \<lparr> sg_public_key = mn_section_key N S, sg_signature = sig \<rparr> \<rparr>)
        (Single (participant_from_node (ns_node_id n))))
      else None)"

text \<open>The last part of \<open>handle_membership_decision\<close>, with the sizes of the two groups.\<close>

definition finish_membership_decision ::
  "('m, 'r, 'k, 'a, 'h, 'd) node_env \<Rightarrow> nat \<Rightarrow> nat \<Rightarrow> ('m, 'k, 'a, 'h, 'd) my_node \<Rightarrow> ('m, 'k, 'a, 'h, 'd) my_node" where
  "finish_membership_decision N joining leaving S =
     (let K = mn_network_knowledge S;
          S1 = fault_detection_retain_only S (adult_names K) (nk_elder_names K);
          S2 = (if leaving \<noteq> 0 then S1\<lparr>mn_joins_allowed := True\<rparr> else S1);
          net_increase = (joining > leaving);
          S3 = (if net_increase then
                  (let S' = S2\<lparr>mn_data_storage := try_retain_data_of (ne_registers N) (ne_xor N)
                         (ne_root_storage_dir N) (mn_data_storage S2) (nk_prefix K)\<rparr>
                   in if storage_has_reached_min_capacity (mn_data_storage S')
                      then S'\<lparr>mn_joins_allowed := True, mn_joins_allowed_until_split := True\<rparr> else S')
                else S2);
          S4 = (if net_increase \<and> \<not> is_startup_joining_allowed N S3 \<and> \<not> mn_joins_allowed_until_split S3
                then S3\<lparr>mn_joins_allowed := False\<rparr> else S3)
      in update_comm_target_list S4)"

definition handle_membership_decision ::
  "('m, 'r, 'k, 'a, 'h, 'd) node_env \<Rightarrow> (dkg_session_id \<Rightarrow> bls_secret_key) \<Rightarrow> (prefix list \<Rightarrow> prefix list)
     \<Rightarrow> (node_id list \<Rightarrow> node_id list) \<Rightarrow> ('m, 'k, 'a, 'h, 'd) my_node \<Rightarrow> ns_decision
     \<Rightarrow> ('m, 'r, 'k, 'a, 'h, 'd) handled" where
  "handle_membership_decision N sk shuffle_p shuffle_e S d =
     (let joining_nodes = filter (\<lambda>(n, _). ns_state n = Joined) (proposals d);
          leaving_nodes = filter (\<lambda>(n, _). ns_state n \<noteq> Joined) (proposals d)
      in case try_update_member (ne_bls N) (ne_validate N) (mn_network_knowledge S) d of
        Err _ \<Rightarrow> (S, map_ok (\<lambda>c. [c]) (generate_probe_msg N shuffle_p shuffle_e S))
      | Ok (K, _) \<Rightarrow>
          (let S1 = S\<lparr>mn_network_knowledge := K\<rparr>;
               S2 = fold (\<lambda>(n, _) S. add_new_adult_to_trackers S (ns_name n)) joining_nodes S1;
               left_cmds = concat (map (\<lambda>(n, sig). case handle_node_left N S2 n sig of Some c \<Rightarrow> [c] | None \<Rightarrow> []) leaving_nodes);
               approvals = (if joining_nodes \<noteq> [] then [send_node_approvals d] else []);
               S3 = (if \<not> is_startup_joining_allowed N S2 then S2\<lparr>mn_joins_allowed := False\<rparr> else S2);
               relocations = (if proposals d \<noteq> [] then try_relocate_nodes N S3 (RelocationTrigger d)
                   (bs_from_iter (map (ns_name \<circ> fst) joining_nodes)) else [])
           in st_then (trigger_dkg N sk S3) (\<lambda>S4 dkg_cmds.
                st_then (S4, send_ae_update_to_our_section N S4) (\<lambda>S4 ae_cmd.
                  (let S5 = finish_membership_decision N (length joining_nodes) (length leaving_nodes) S4
                   in (S5, Ok (left_cmds @ approvals @ relocations @ dkg_cmds
                         @ (case ae_cmd of Some c \<Rightarrow> [c] | None \<Rightarrow> [])
                         @ [ask_for_any_new_data_from_whole_section N S5])))))))"

section \<open>Properties of joining and relocating\<close>

subsection \<open>Who is relocated\<close>

definition may_relocate ::
  "('m, 'r, 'k, 'a, 'h, 'd) node_env \<Rightarrow> 'm network_knowledge \<Rightarrow> node_state relocation_trigger \<Rightarrow> xor_name bset
     \<Rightarrow> node_state \<Rightarrow> bool" where
  "may_relocate N K trigger excluded n \<longleftrightarrow>
     n \<in> set (history_members (nk_section_members K)) \<and> is_adult K (ns_name n) \<and>
     relocation_check (ns_age n) (churn_id (ne_keys N) trigger) \<and> ns_name n \<notin> set excluded"

text \<open>
  C28. A change of members never relocates too many. Those asked to move are adults of the section that pass
  the check for the change, are not among those who have just joined, and are of the greatest age
  among such; they are at most half as many as there are elders, and the section keeps more than, or exactly, its
  recommended size without them.
\<close>

theorem relocations_bounded:
  "let found = find_nodes_to_relocate N K trigger excluded;
       size = length (history_members (nk_section_members K));
       candidates = {n. may_relocate N K trigger excluded n} in
   set found \<subseteq> {n \<in> candidates. ns_age n = Max (ns_age ` candidates)} \<and>
   length found \<le> elder_count (ne_elder_count_var N) div 2 \<and>
   (found = [] \<or> recommended_section_size (ne_elder_count_var N) \<le> size - length found)"
proof -
  let ?found = "find_nodes_to_relocate N K trigger excluded" and ?ok = "may_relocate N K trigger excluded"
  let ?size = "length (history_members (nk_section_members K))" and ?rec = "recommended_section_size (ne_elder_count_var N)"
  let ?c = "sort_by (\<lambda>l r. ne_cmp_distance N (ne_from_content N (churn_id (ne_keys N) trigger)) (ns_name l) (ns_name r))
      (filter (\<lambda>n. is_adult K (ns_name n) \<and> relocation_check (ns_age n) (churn_id (ne_keys N) trigger) \<and>
         ns_name n \<notin> set excluded) (history_members (nk_section_members K)))"
  let ?oldest = "filter (\<lambda>n. ns_age n = Max (ns_age ` {n. ?ok n})) ?c"
  show ?thesis
  proof (cases "?size \<le> ?rec \<or> ?c = []")
    case True
    then have "?found = []" by (auto simp: find_nodes_to_relocate_def Let_def)
    then show ?thesis by simp
  next
    case False
    have c: "set ?c = {n. ?ok n}" by (auto simp: set_sort_by may_relocate_def)
    have found: "?found = take (min (?size - ?rec) (elder_count (ne_elder_count_var N) div 2)) ?oldest"
      using False unfolding c [symmetric] by (auto simp: find_nodes_to_relocate_def Let_def)
    have "set ?found \<subseteq> set ?oldest" unfolding found by (rule set_take_subset)
    then have "set ?found \<subseteq> {n \<in> {n. ?ok n}. ns_age n = Max (ns_age ` {n. ?ok n})}" using c by auto
    moreover have "length ?found \<le> min (?size - ?rec) (elder_count (ne_elder_count_var N) div 2)"
      unfolding found length_take by (rule min.cobounded2)
    ultimately show ?thesis using False by (auto simp: Let_def)
  qed
qed

subsection \<open>A relocated node joins\<close>

lemma handle_join_relocated:
  assumes "mn_is_elder N E" "px_matches (ne_xor N) (mn_prefix E) (nid_name i)"
    and "verify_section_key_is_known (mn_network_knowledge E) (rp_signed_by proof)"
    and "rp_verify (ne_keys N) (ne_bls N) (ne_codec N) proof = Ok ()"
    and "nid_age i = saturating_succ (rp_previous_age proof)"
    and "propose_membership_change N now E (joined i (Some (rp_previous_name proof))) = (E', Some cmd)"
  shows "handle_join N now E i cid (Some proof) st = (E', Ok ((case st of
      Some s \<Rightarrow> [SendNodeMsgResponse (JoinResponse UnderConsideration) cid i s] | None \<Rightarrow> []) @ [cmd]))"
  using assms by (simp add: handle_join_def verify_relocated_age_def Let_def)

lemma proposes_member:
  assumes "mn_membership E = Some M" "ms_section_members M (ms_gen M) = Ok ms"
    and "validate_node_state (ne_xor N) (ne_elder_count_var N) n (mn_prefix E) ms (ms_archived_members M) = Ok ()"
    and "\<forall>d c. bm_get (ms_history M) (ms_gen M) = Some (d, c) \<longrightarrow> n \<notin> set (changes d)"
    and "proposal_taken (ne_membership N) (ms_consensus M) (ms_gen M + 1) n v con v'"
  shows "propose_membership_change N now E n =
    (E\<lparr>mn_membership := Some (M\<lparr>ms_last_received_vote_time := Some now, ms_consensus := con\<rparr>)\<rparr>,
     Some (send_to_elders E (MembershipVotes [v'])))"
  using ms_propose_taken [OF assms(5,2,3,4)] assms(1) by (simp add: propose_membership_change_def)

text \<open>What a node that moves holds and sends.\<close>

lemma relocate_us_proof:
  assumes laws: "ed_ok (ne_dkg N)" and moved: "relocate_us N gen S mv = (S', Ok (Some c))"
  shows "\<exists>proof. c = send_to_elders_await_responses (mn_sap S') (TryJoin (Some proof)) \<and>
    mn_relocation_state S' = ReadyToJoinNewSection proof \<and>
    rp_verify (ne_keys N) (ne_bls N) (ne_codec N) proof = Ok () \<and> rp_signed_by proof = sg_public_key (sd_sig mv) \<and>
    rp_previous_name proof = mn_name N S \<and> rp_previous_age proof = calc_age (mn_name N S) \<and> rp_new_name proof = mn_name N S'"
proof -
  obtain bs trigger dst where bs: "enc_node_state (ne_codec N) (sd_value mv) = Some bs"
    "section_sig_verify (ne_bls N) (sd_sig mv) bs" and nm: "mn_name N S = ns_name (sd_value mv)"
    and tr: "ns_state (sd_value mv) = Relocated trigger"
    and dst: "closest_signed_sap (ne_xor N) (mn_network_knowledge S) (dst_section (ne_keys N) trigger (mn_name N S)) = Some dst"
    using moved by (auto simp: relocate_us_def split: option.splits if_splits membership_state.splits)
  let ?kp = "gen (sap_prefix (sd_value dst)) (saturating_succ (calc_age (mn_name N S)))"
  let ?info = "\<lparr> ri_signed_relocation = mv, ri_new_name = node_name (ne_dkg N) ?kp \<rparr>"
  obtain info_bs K where ser: "enc_relocation_info (ne_codec N) ?info = Some info_bs"
    and sw: "switch_section (mn_network_knowledge S) dst = Ok K"
    using moved bs nm tr dst by (auto simp: relocate_us_def Let_def split: option.splits result.splits)
  let ?p = "\<lparr> rp_info = ?info, rp_self_sig = de_ed_sign (ne_dkg N) (mn_keypair S) info_bs,
      rp_self_old_key = de_ed_public (ne_dkg N) (mn_keypair S) \<rparr>"
  let ?S' = "(update_comm_target_list (S\<lparr>mn_network_knowledge := K, mn_keypair := ?kp\<rparr>))
      \<lparr>mn_relocation_state := ReadyToJoinNewSection ?p\<rparr>"
  have "S' = ?S'" "try_join_section N ?S' (Some ?p) = Some c"
    using moved bs nm tr dst ser sw by (auto simp: relocate_us_def Let_def)
  moreover from this have "c = send_to_elders_await_responses (mn_sap ?S') (TryJoin (Some ?p))"
    by (auto simp: try_join_section_def split: if_splits)
  moreover have "mn_name N ?S' = node_name (ne_dkg N) ?kp"
    by (simp add: mn_name_def update_comm_target_list_def Let_def)
  moreover have "rp_verify (ne_keys N) (ne_bls N) (ne_codec N) ?p = Ok ()"
    using laws bs ser nm by (simp add: rp_verify_def Let_def old_key_name_def mn_name_def node_name_def ed_ok_def)
  ultimately show ?thesis
    by (intro exI [of _ ?p])
      (simp add: rp_signed_by_def rp_previous_name_def rp_previous_age_def rp_new_name_def nm ns_age_def nid_age_def)
qed


text \<open>A node of age 5 that a section with key \<open>k\<close> moves.\<close>

definition sample_move :: "public_key \<Rightarrow> node_state section_signed" where
  "sample_move k =
     (let n = NodeState (NodeId (sample_elder 5) 5) (Relocated (RelocationTrigger (Decision 1 [] 0))) None
      in \<lparr> sd_value = n, sd_sig = \<lparr> sg_public_key = k, sg_signature = ref_sign k (ns_name n) \<rparr> \<rparr>)"

lemma sample_closest: "closest_signed_sap ref_xor sample_knowledge name = Some (sample_signed [] 1)"
  by (simp add: closest_signed_sap_def closest_def tree_get_signed_def sample_knowledge_def sample_tree_def nk_prefix_def)

lemma sample_switch: "switch_section sample_knowledge (sample_signed [] 1) = Ok sample_knowledge"
  by (simp add: switch_section_def tree_get_def tree_get_signed_def sample_knowledge_def sample_tree_def
      reset_initial_members_def new_history_def sample_signed_def sample_sap_def new_sap_def)

lemma sample_not_member: "\<not> is_section_member sample_knowledge name"
  by (simp add: is_section_member_def history_is_member_def history_get_def history_members_def members_at_gen_def bm_extend_def
      bm_values_def sample_knowledge_def new_history_def)

lemma sample_age: "calc_age (sample_elder k) = of_nat k"
  by (simp add: calc_age_def ref_keys_def nth_append XOR_NAME_LEN_def)

lemma sample_move_runs:
  "\<exists>S' c. relocate_us sample_node_env (\<lambda>_. unat) (sample_node 5) (sample_move k) = (S', Ok (Some c)) \<and>
     mn_prefix S' = [] \<and> mn_name sample_node_env S' = sample_elder 6"
proof -
  have env: "ne_codec sample_node_env = sample_state_codec" "ne_bls sample_node_env = ref_bls" "ne_xor sample_node_env = ref_xor"
    by (simp_all add: sample_node_env_def ref_dkg_env_def)
  have mv: "ns_node_id (sd_value (sample_move k)) = NodeId (sample_elder 5) 5"
    "ns_state (sd_value (sample_move k)) = Relocated (RelocationTrigger (Decision 1 [] 0))"
    by (simp_all add: sample_move_def)
  have sig: "section_sig_verify ref_bls (sd_sig (sample_move k)) (sample_elder 5)"
    by (simp add: section_sig_verify_def sample_move_def ref_bls_def Let_def)
  have age: "unat (saturating_succ (calc_age (sample_elder 5))) = 6"
    by (simp add: sample_age saturating_succ_def)
  let ?S = "\<lambda>p. (update_comm_target_list (sample_node 5\<lparr>mn_network_knowledge := sample_knowledge, mn_keypair := 6\<rparr>))
    \<lparr>mn_relocation_state := ReadyToJoinNewSection p\<rparr>"
  have "\<exists>p. relocate_us sample_node_env (\<lambda>_. unat) (sample_node 5) (sample_move k)
      = (?S p, Ok (try_join_section sample_node_env (?S p) (Some p)))"
    by (simp add: relocate_us_def env sig mv age sample_state_codec_def sample_closest [unfolded One_nat_def]
        sample_switch [unfolded One_nat_def] Let_def) blast
  then obtain p where "relocate_us sample_node_env (\<lambda>_. unat) (sample_node 5) (sample_move k)
      = (?S p, Ok (try_join_section sample_node_env (?S p) (Some p)))" by blast
  moreover have "nk_prefix sample_knowledge = []" by (simp add: nk_prefix_def sample_knowledge_def)
  ultimately show ?thesis
    by (simp add: try_join_section_def sample_not_member update_comm_target_list_def Let_def mn_name_def node_name_def
        sample_node_env_def ref_dkg_env_def)
qed

lemma sample_env_facts: "ne_dkg sample_node_env = ref_dkg_env" "px_matches (ne_xor sample_node_env) [] name"
    "px_matches (de_xor ref_dkg_env) [] name"
  by (simp_all add: sample_node_env_def ref_dkg_env_def ref_xor_def)

definition sample_membership_elder :: "(dag_node list, section_key_share list, nat, nat, nat) my_node" where
  "sample_membership_elder = sample_receiver\<lparr>mn_membership := Some (membership_from (ne_membership sample_node_env) 0 1 1 [])\<rparr>"

lemma sample_elder_facts:
  "mn_is_elder sample_node_env sample_membership_elder" "mn_prefix sample_membership_elder = []"
  "verify_section_key_is_known (mn_network_knowledge sample_membership_elder) 1"
  using sample_receiver_facts by (simp_all add: sample_membership_elder_def mn_is_elder_def mn_name_def)

lemma sample_joins:
  defines "M \<equiv> membership_from (ne_membership sample_node_env) 0 1 1 []"
  shows "mn_membership sample_membership_elder = Some M" "ms_section_members M (ms_gen M) = Ok []"
    "ms_archived_members M = []" "ms_history M = []"
    "section_has_room_for_node (ne_xor sample_node_env) (ne_elder_count_var sample_node_env) name [] (bm_keys ([] :: (xor_name, node_state) bmap))"
  by (simp_all add: M_def sample_membership_elder_def membership_from_def ms_section_members_def ms_archived_members_def
      bm_values_def bs_from_iter_def bm_extend_def)
    (simp add: section_has_room_for_node_def partition_by_prefix_def sample_node_env_def ref_dkg_env_def ref_xor_def
      recommended_section_size_def bm_keys_def bs_from_iter_def elder_count_def DEFAULT_ELDER_COUNT_def Let_def)


text \<open>
  The proof is not bound to the node that shows it: an elder proposes any node of the right age that
  holds a proof, under a name the proof does not give.
\<close>

lemma proof_of_another_node:
  "\<exists>A pf i E'. nid_name i \<noteq> rp_new_name pf \<and>
     handle_join (sample_node_env\<lparr>ne_membership := A\<rparr>) 0 sample_membership_elder i [] (Some pf) None =
       (E', Ok [send_to_elders sample_membership_elder (MembershipVotes [1])]) \<and>
     vote_proposals A 1 = [joined i (Some (sample_elder 5))]"
proof -
  obtain S' c where S': "relocate_us sample_node_env (\<lambda>_. unat) (sample_node 5) (sample_move 1) = (S', Ok (Some c))"
    "mn_prefix S' = []" "mn_name sample_node_env S' = sample_elder 6"
    using sample_move_runs by blast
  obtain pf where pf: "rp_verify (ne_keys sample_node_env) (ne_bls sample_node_env) (ne_codec sample_node_env) pf = Ok ()"
    "rp_signed_by pf = sg_public_key (sd_sig (sample_move 1))" "rp_previous_name pf = sample_elder 5"
    "rp_previous_age pf = 5" "rp_new_name pf = sample_elder 6"
    using relocate_us_proof [OF _ S'(1)] ref_ed_ok S' by (auto simp: sample_env_facts sample_age)
  let ?i = "NodeId (replicate 30 0 @ [1, 6]) 7" and ?M = "membership_from (ne_membership sample_node_env) 0 1 1 []"
  let ?n = "joined ?i (Some (sample_elder 5))"
  let ?N = "sample_node_env\<lparr>ne_membership := idle_consensus\<lparr>vote_proposals := (\<lambda>_. [?n])\<rparr>\<rparr>"
  have age: "nid_age ?i = saturating_succ (rp_previous_age pf)"
    by (simp add: nid_age_def calc_age_def XOR_NAME_LEN_def nth_append saturating_succ_def pf)
  have taken: "proposal_taken (ne_membership ?N) (ms_consensus ?M) (ms_gen ?M + 1) ?n 1 1 1"
    by (simp add: proposal_taken_def sample_node_env_def idle_consensus_def membership_from_def)
  have "validate_node_state (ne_xor ?N) (ne_elder_count_var ?N) ?n (mn_prefix sample_membership_elder) [] (ms_archived_members ?M) = Ok ()"
    using sample_joins(3,5) sample_env_facts sample_elder_facts(2)
    by (simp add: validate_node_state_def joined_def bm_has_def bm_values_def list_ex_iff)
  from proposes_member [OF sample_joins(1,2) this _ taken, of 0] sample_joins(4)
  have "\<exists>E'. propose_membership_change ?N 0 sample_membership_elder (joined ?i (Some (rp_previous_name pf))) =
      (E', Some (send_to_elders sample_membership_elder (MembershipVotes [1])))" by (simp add: pf)
  then obtain E' where "handle_join ?N 0 sample_membership_elder ?i [] (Some pf) None =
      (E', Ok [send_to_elders sample_membership_elder (MembershipVotes [1])])"
    using handle_join_relocated [of ?N sample_membership_elder ?i pf 0 _ _ "[]" None] sample_elder_facts pf age
    by (auto simp: sample_env_facts sample_move_def mn_is_elder_def mn_name_def)
  moreover have "nid_name ?i \<noteq> rp_new_name pf" by (simp add: pf ref_keys_def numeral_eq_Suc)
  ultimately show ?thesis by (intro exI [of _ "idle_consensus\<lparr>vote_proposals := (\<lambda>_. [?n])\<rparr>"] exI [of _ pf] exI [of _ ?i] exI [of _ E']) simp
qed

text \<open>A node obeys a relocation signed with a key it has never seen.\<close>

lemma relocated_by_a_stranger:
  "\<not> verify_section_key_is_known (mn_network_knowledge (sample_node 5)) 9 \<and>
   (\<exists>S' c. relocate_us sample_node_env (\<lambda>_. unat) (sample_node 5) (sample_move 9) = (S', Ok (Some c)) \<and>
     mn_name sample_node_env S' = sample_elder 6)"
  using sample_move_runs [of 9]
  by (auto simp: verify_section_key_is_known_def sample_knowledge_def sample_tree_def has_key_def new_dag_def bm_has_def)

end
