(* ===== verification/Node_Data.thy ===== *)
theory Node_Data
  imports Node_Join
begin

section \<open>Data and messages at a node\<close>

text \<open>
  \<open>sn_node/src/node/messaging\<close>: \<open>data.rs\<close>, \<open>node_msgs.rs\<close> and \<open>mod.rs\<close>: storing, replicating and forwarding
  data, and what a node does with a message of each kind. Storing changes the disk, and the node is
  returned with it.
\<close>

subsection \<open>Holders of data\<close>

definition target_data_holders ::
  "('m, 'r, 'k, 'a, 'h, 'd) node_env \<Rightarrow> ('m, 'k, 'a, 'h, 'd) my_node \<Rightarrow> xor_name \<Rightarrow> nat option \<Rightarrow> node_id bset" where
  "target_data_holders N S target index =
     bs_from_iter (map snd (filter (\<lambda>(i, _). case index of Some j \<Rightarrow> i = j | None \<Rightarrow> True)
       (enumerate 0 (closest_members N S target))))"

definition forward_data_and_respond_to_client ::
  "('m, 'r, 'k, 'a, 'h, 'd) node_env \<Rightarrow> ('m, 'k, 'a, 'h, 'd) my_node \<Rightarrow> wire_msg \<Rightarrow> participant \<Rightarrow> stream
     \<Rightarrow> ('m, 'r) cmd" where
  "forward_data_and_respond_to_client N S w client_id client_stream =
     (let index = query_index (wm_kind w);
          targets = target_data_holders N S (dst_name (wm_dst w)) index;
          copies = data_copy_count (ne_data_copy_count_var N);
          issue = (\<lambda>e. SendDataResponse (NetworkIssue e) (wm_msg_id w) client_stream client_id)
      in
      if index = None \<and> copies > length targets
      then issue (InsufficientNodeCount (mn_prefix S) (of_nat copies) (of_nat (length targets)))
      else case index of
        Some i \<Rightarrow>
          if targets = []
          then issue (InsufficientNodeCount (mn_prefix S) (of_nat i + 1)
            (of_nat (length (nk_members (mn_network_knowledge S)))))
          else SendAndForwardResponseToClient w targets client_stream client_id
      | None \<Rightarrow> SendAndForwardResponseToClient w targets client_stream client_id)"

subsection \<open>Storing data\<close>

text \<open>The signature in the command that creates a spentbook register is random: the argument \<open>sg\<close>.\<close>

definition node_store ::
  "('m, 'r, 'k, 'a, 'h, 'd) node_env \<Rightarrow> section_sig \<Rightarrow> ('m, 'k, 'a, 'h, 'd) my_node \<Rightarrow> replicated_data
     \<Rightarrow> ('m, 'k, 'a, 'h, 'd) my_node \<times> (storage_level, storage_error) result" where
  "node_store N sg S d =
     (let G = ne_dkg N;
          (st, r) = data_store (ne_registers N) (\<lambda>bs. EdSig (de_ed_sign G (mn_keypair S) bs))
            (Ed25519 (de_ed_public G (mn_keypair S))) sg (ne_root_storage_dir N) (mn_data_storage S) d
            (Bls (mn_section_key N S))
      in (S\<lparr>mn_data_storage := st\<rparr>, r))"

definition could_not_store ::
  "('m, 'r, 'k, 'a, 'h, 'd) node_env \<Rightarrow> ('m, 'k, 'a, 'h, 'd) my_node \<Rightarrow> replicated_data \<Rightarrow> ('m, 'r) cmd" where
  "could_not_store N S d =
     send_to_elders S (NodeEvent (CouldNotStoreData (Ed25519 (de_ed_public (ne_dkg N) (mn_keypair S)))
       (replicated_address d) True))"

definition store_data_and_respond ::
  "('m, 'r, 'k, 'a, 'h, 'd) node_env \<Rightarrow> section_sig \<Rightarrow> ('m, 'k, 'a, 'h, 'd) my_node \<Rightarrow> replicated_data \<Rightarrow> stream
     \<Rightarrow> participant \<Rightarrow> msg_id \<Rightarrow> ('m, 'r, 'k, 'a, 'h, 'd) handled" where
  "store_data_and_respond N sg S d send_stream client_id correlation_id =
     (let (S1, r) = node_store N sg S d;
          (cmds, response) =
            (case r of
               Ok level \<Rightarrow>
                 ((case level of
                     Updated _ \<Rightarrow> [SetJoinsAllowed True]
                   | NoChange \<Rightarrow>
                       if storage_has_reached_min_capacity (mn_data_storage S1) \<and> \<not> mn_joins_allowed_until_split S
                       then [SetJoinsAllowedUntilSplit True] else []),
                  cmd_response_ok d)
             | Err NotEnoughSpace \<Rightarrow>
                 ((if mn_is_elder N S \<and> \<not> ctx_joins_allowed S then [SetJoinsAllowedUntilSplit True] else [])
                    @ [could_not_store N S d],
                  cmd_response_err d (data_error_of_storage NotEnoughSpace))
             | Err _ \<Rightarrow> ([], cmd_response_ok d))
      in (S1, map_ok (\<lambda>resp. cmds @ [SendDataResponse (CmdResponse resp correlation_id) correlation_id send_stream client_id])
           (map_err ClientMsg_node response)))"

text \<open>The loop of \<open>replicate_data_batch\<close>, with \<open>is_full\<close> and \<open>new_storage_level_passed\<close>.\<close>

fun replicate_loop ::
  "('m, 'r, 'k, 'a, 'h, 'd) node_env \<Rightarrow> section_sig \<Rightarrow> replicated_data list \<Rightarrow> ('m, 'k, 'a, 'h, 'd) my_node
     \<Rightarrow> ('m, 'r) cmd list \<Rightarrow> bool \<Rightarrow> bool \<Rightarrow> ('m, 'k, 'a, 'h, 'd) my_node \<times> ('m, 'r) cmd list \<times> bool" where
  "replicate_loop N sg [] S cmds is_full passed = (S, cmds, is_full)"
| "replicate_loop N sg (d # ds) S cmds is_full passed =
     (let (S1, r) = node_store N sg S d in
      case r of
        Ok NoChange \<Rightarrow> replicate_loop N sg ds S1 cmds is_full passed
      | Ok (Updated _) \<Rightarrow>
          if \<not> passed \<and> \<not> ctx_joins_allowed S
          then replicate_loop N sg ds S1 (cmds @ [SetJoinsAllowed True]) is_full True
          else replicate_loop N sg ds S1 cmds is_full passed
      | Err NotEnoughSpace \<Rightarrow> replicate_loop N sg ds S1 (cmds @ [could_not_store N S d]) True passed
      | Err _ \<Rightarrow> replicate_loop N sg ds S1 cmds is_full passed)"

definition replicate_data_batch ::
  "('m, 'r, 'k, 'a, 'h, 'd) node_env \<Rightarrow> section_sig \<Rightarrow> ('m, 'k, 'a, 'h, 'd) my_node \<Rightarrow> node_id
     \<Rightarrow> replicated_data list \<Rightarrow> ('m, 'k, 'a, 'h, 'd) my_node \<times> ('m, 'r) cmd list" where
  "replicate_data_batch N sg S sender data_batch =
     (let (S1, cmds, is_full) = replicate_loop N sg data_batch S [] False False
      in (S1, cmds @ (if \<not> is_full \<and> data_batch \<noteq> [] then
            [send_msg (NodeDataCmd (SendAnyMissingRelevantData (node_data_addrs N S1)))
               (Single (participant_from_node sender))] else [])))"

subsection \<open>Messages of nodes\<close>

definition handle_join_response ::
  "('m, 'r, 'k, 'a, 'h, 'd) node_env \<Rightarrow> ('m, 'k, 'a, 'h, 'd) my_node \<Rightarrow> join_response
     \<Rightarrow> ('m, 'r, 'k, 'a, 'h, 'd) handled" where
  "handle_join_response N S response =
     (if is_section_member (mn_network_knowledge S) (mn_name N S) then (S, Ok [])
      else case response of
        JoinsDisallowed_response \<Rightarrow> (S, Err (RejoinRequired JoinsDisallowed))
      | UnderConsideration \<Rightarrow> (S, Ok [])
      | Approved d \<Rightarrow>
          if \<not> ne_validate N (mn_section_key N S) d then (S, Ok [])
          else if list_all (\<lambda>n. ns_name n \<noteq> mn_name N S) (filter (\<lambda>n. ns_state n = Joined) (bm_keys (proposals d)))
          then (S, Ok [])
          else (if relocation_proof_of (mn_relocation_state S) \<noteq> None then finalise_relocation N S d else S, Ok []))"

text \<open>The context's version of \<open>track_node_issue\<close> does not leave out the node itself.\<close>

definition ctx_track_node_issue ::
  "('m, 'k, 'a, 'h, 'd) my_node \<Rightarrow> xor_name \<Rightarrow> issue_type \<Rightarrow> ('m, 'k, 'a, 'h, 'd) my_node" where
  "ctx_track_node_issue S name issue = S\<lparr>mn_fault_cmds := mn_fault_cmds S @ [TrackIssue name issue]\<rparr>"

text \<open>The node that the event names need not be the one that sends it.\<close>

definition handle_could_not_store ::
  "('m, 'r, 'k, 'a, 'h, 'd) node_env \<Rightarrow> ('m, 'k, 'a, 'h, 'd) my_node \<Rightarrow> any_key \<Rightarrow> bool
     \<Rightarrow> ('m, 'r, 'k, 'a, 'h, 'd) handled" where
  "handle_could_not_store N S key full =
     (if \<not> mn_is_elder N S then (S, Ok [])
      else
        (let cmds = (if \<not> ctx_joins_allowed S then [SetJoinsAllowed True] else []) in
         case xor_name_of (ne_keys N) (ne_bls N) key of
           None \<Rightarrow> (S, Err Panicked)
         | Some name \<Rightarrow>
             if full \<and> is_below_half_limit (mn_data_storage S)
             then (S, Ok (cmds @ [ProposeVoteNodesOffline [name]]))
             else (ctx_track_node_issue S name Communication, Ok cmds)))"

text \<open>
  The two calls that \<open>handle_dkg_ephemeral_pubkey\<close> may need (\<open>pubkey_fuel_enough\<close>); the handler does not return
  when it needs more.
\<close>

definition DKG_CALLS :: nat where
  "DKG_CALLS = 2"

record randomness =
  rd_secret_key :: bls_secret_key
  rd_keypair :: "prefix \<Rightarrow> u8 \<Rightarrow> ed_keypair"

fun handle_node_msg ::
  "('m, 'r, 'k, 'a, 'h, 'd) node_env \<Rightarrow> randomness \<Rightarrow> nat \<Rightarrow> ('m, 'k, 'a, 'h, 'd) my_node \<Rightarrow> msg_id \<Rightarrow> node_id
     \<Rightarrow> stream option \<Rightarrow> node_msg \<Rightarrow> ('m, 'r, 'k, 'a, 'h, 'd) handled option" where
  "handle_node_msg N R now S i sender st (TryJoin relocation) = Some (handle_join N now S sender i relocation st)"
| "handle_node_msg N R now S i sender st (PrepareToRelocate trigger) =
     Some (let (S1, cs) = prepare_to_relocate S trigger in (S1, Ok cs))"
| "handle_node_msg N R now S i sender st (ProceedRelocation trigger) =
     Some (proceed_relocation N now S (nid_name sender) trigger)"
| "handle_node_msg N R now S i sender st (CompleteRelocation signed_relocation) =
     Some (let (S1, r) = relocate_us N (rd_keypair R) S signed_relocation
           in (S1, map_ok (\<lambda>c. case c of Some cmd \<Rightarrow> [cmd] | None \<Rightarrow> []) r))"
| "handle_node_msg N R now S i sender st (JoinResponse response) = Some (handle_join_response N S response)"
| "handle_node_msg N R now S i sender st (HandoverVotes votes) = Some (handle_handover_msg N S sender votes)"
| "handle_node_msg N R now S i sender st (HandoverAE gen) =
     Some (S, Ok (case handle_handover_anti_entropy N S sender gen of Some c \<Rightarrow> [c] | None \<Rightarrow> []))"
| "handle_node_msg N R now S i sender st (MembershipVotes votes) =
     Some (handle_membership_votes N now sender votes S [])"
| "handle_node_msg N R now S i sender st (ProposeNodeOff proposal share) =
     Some (handle_section_state_proposal N (untrack_node_issue S (nid_name sender) ElderVoting) proposal share sender)"
| "handle_node_msg N R now S i sender st (DkgStart s share) =
     Some (handle_dkg_start N (rd_secret_key R) (untrack_node_issue S (nid_name sender) Dkg) s share)"
| "handle_node_msg N R now S i sender st (DkgEphemeralPubKey s section_auth pub_key key_sig) =
     handle_dkg_ephemeral_pubkey N (rd_secret_key R) now DKG_CALLS S s section_auth pub_key key_sig sender"
| "handle_node_msg N R now S i sender st (DkgVotes s pub_keys votes) =
     Some (handle_dkg_votes N now (untrack_node_issue S (nid_name sender) Dkg) s pub_keys votes sender)"
| "handle_node_msg N R now S i sender st (NodeEvent (CouldNotStoreData key data_address full)) =
     Some (handle_could_not_store N S key full)"
| "handle_node_msg N R now S i sender st (RequestHandover s share) = Some (handle_handover_request N S s share sender)"
| "handle_node_msg N R now S i sender st (SectionHandoverPromotion s share) =
     Some (handle_handover_promotion N S s share sender)"
| "handle_node_msg N R now S i sender st (SectionSplitPromotion s0 share0 s1 share1) =
     Some (handle_section_split_promotion N S s0 share0 s1 share1 sender)"
| "handle_node_msg N R now S i sender st (MembershipAE gen) = Some (S, Ok [])"
| "handle_node_msg N R now S i sender st (DkgAE s) = Some (S, Ok [])"
| "handle_node_msg N R now S i sender st (NodeDataCmd c) = Some (S, Ok [])"

subsection \<open>Messages from the network\<close>

text \<open>The last part of \<open>handle_msg\<close>, for a message whose destination is this node or its section.\<close>

definition deliver_msg ::
  "('m, 'r, 'k, 'a, 'h, 'd) node_env \<Rightarrow> ('m, 'r) wire_codec \<Rightarrow> ('m, 'k, 'a, 'h, 'd) my_node \<Rightarrow> participant
     \<Rightarrow> wire_msg \<Rightarrow> stream option \<Rightarrow> ('m, 'r) cmd list" where
  "deliver_msg N W S sender w send_stream =
     (case into_msg (ne_keys N) (ne_bls N) W w of
        Err _ \<Rightarrow> []
      | Ok (NodeNetworkMsg msg) \<Rightarrow> [ProcessNodeMsg (wm_msg_id w) msg (node_id_from sender) send_stream]
      | Ok (ClientNetworkMsg auth msg) \<Rightarrow> [ProcessClientMsg (wm_msg_id w) msg auth sender send_stream]
      | Ok (AntiEntropyMsg (AntiEntropy kind update)) \<Rightarrow> [ProcessAeMsg (wm_msg_id w) kind update sender]
      | Ok (AntiEntropyMsg (Probe their_key)) \<Rightarrow>
          if \<not> mn_is_elder N S then []
          else [send_ae_update_to_nodes N (mn_network_knowledge S) (Single sender) their_key]
      | Ok (DataResponseMsg _) \<Rightarrow> [])"

definition handle_msg ::
  "('m, 'r, 'k, 'a, 'h, 'd) node_env \<Rightarrow> ('m, 'r) wire_codec \<Rightarrow> ('m, 'k, 'a, 'h, 'd) my_node \<Rightarrow> participant
     \<Rightarrow> wire_msg \<Rightarrow> stream option \<Rightarrow> (('m, 'r) cmd list, node_error) result" where
  "handle_msg N W S sender w send_stream =
     (let K = mn_network_knowledge S; is_elder = mn_is_elder N S;
          sent_from_a_member = list_ex (\<lambda>n. nid_addr n = pt_addr sender) (nk_members K);
          is_for_us = (sent_from_a_member \<or> dst_name (wm_dst w) = mn_name N S \<or> is_client_spend (wm_kind w))
      in and_then (if is_ae_msg (wm_kind w) then Ok None else check_for_entropy N W is_elder w K)
        (\<lambda>entropy. case entropy of
           Some (update, ae_kind) \<Rightarrow> Ok (generate_anti_entropy_cmds w sender update ae_kind send_stream)
         | None \<Rightarrow>
             (case (is_for_us, wm_kind w, send_stream) of
                (False, ClientKind _ _ _, None) \<Rightarrow> Err NoClientResponseStream
              | (False, ClientKind _ _ _, Some st) \<Rightarrow> Ok [forward_data_and_respond_to_client N S w sender st]
              | _ \<Rightarrow> Ok (deliver_msg N W S sender w send_stream))))"

section \<open>Properties of messages from the network\<close>

lemma no_entropy:
  assumes "check_for_entropy N W elder w K = Ok None"
  shows "if px_matches (ne_xor N) (nk_prefix K) (dst_name (wm_dst w))
    then dst_section_key (wm_dst w) = nk_section_key (ne_bls N) K else \<not> elder"
  using assms by (auto simp: check_for_entropy_def Let_def split: if_splits option.splits)

fun is_process :: "('m, 'r) cmd \<Rightarrow> bool" where
  "is_process (ProcessNodeMsg _ _ _ _) = True"
| "is_process (ProcessClientMsg _ _ _ _ _) = True"
| "is_process _ = False"

lemma answers_not_processed:
  "c \<in> set (generate_anti_entropy_cmds w src update kind st) \<Longrightarrow> \<not> is_process c"
  "\<not> is_process (forward_data_and_respond_to_client N S w cid st')"
  "\<not> is_process (send_ae_update_to_nodes N K rs k)"
  by (auto simp: generate_anti_entropy_cmds_def forward_data_and_respond_to_client_def send_ae_update_to_nodes_def send_msg_def Let_def
      split: msg_kind.splits option.splits if_splits)

lemma into_msg_kind:
  "into_msg K B W w = Ok (NodeNetworkMsg m) \<Longrightarrow> \<exists>name j. wm_kind w = NodeKind name j"
  "into_msg K B W w = Ok (ClientNetworkMsg auth c) \<Longrightarrow> (\<exists>spend i. wm_kind w = ClientKind auth spend i) \<and>
     any_key_verify K B (ca_public_key auth) (ca_signature auth) (wm_payload w) = Ok ()"
  by (auto simp: into_msg_def verify_authority_def split: msg_kind.splits)

lemma deliver_processed:
  assumes "c \<in> set (deliver_msg N W S sender w st)" and "is_process c"
  shows "(\<exists>name j m. wm_kind w = NodeKind name j \<and> c = ProcessNodeMsg (wm_msg_id w) m (node_id_from sender) st) \<or>
    (\<exists>auth spend i m. wm_kind w = ClientKind auth spend i \<and> c = ProcessClientMsg (wm_msg_id w) m auth sender st \<and>
       any_key_verify (ne_keys N) (ne_bls N) (ca_public_key auth) (ca_signature auth) (wm_payload w) = Ok ())"
proof (cases "into_msg (ne_keys N) (ne_bls N) W w")
  case (Ok m)
  show ?thesis
  proof (cases m)
    case (AntiEntropyMsg x)
    then show ?thesis
      using assms Ok answers_not_processed(3) [of N] by (cases x) (auto simp: deliver_msg_def split: if_splits)
  next
    case (NodeNetworkMsg x)
    then show ?thesis using assms Ok into_msg_kind(1) [of _ _ W w x] by (simp add: deliver_msg_def)
  next
    case (ClientNetworkMsg auth x)
    then show ?thesis using assms Ok into_msg_kind(2) [of _ _ W w auth x] by (simp add: deliver_msg_def)
  qed (use assms Ok in \<open>simp add: deliver_msg_def\<close>)
qed (use assms in \<open>simp add: deliver_msg_def\<close>)

lemma handled_or_delivered:
  assumes "handle_msg N W S sender w st = Ok cmds" and "c \<in> set cmds" and "is_process c"
  shows "c \<in> set (deliver_msg N W S sender w st) \<and>
    (is_ae_msg (wm_kind w) \<or> check_for_entropy N W (mn_is_elder N S) w (mn_network_knowledge S) = Ok None) \<and>
    (\<forall>auth spend i. wm_kind w = ClientKind auth spend i \<longrightarrow>
       list_ex (\<lambda>n. nid_addr n = pt_addr sender) (nk_members (mn_network_knowledge S)) \<or>
       dst_name (wm_dst w) = mn_name N S \<or> spend)"
proof -
  let ?e = "if is_ae_msg (wm_kind w) then Ok None else check_for_entropy N W (mn_is_elder N S) w (mn_network_knowledge S)"
  have "?e = Ok None"
    using assms answers_not_processed(1) [of c w sender _ _ st]
    by (cases ?e) (auto simp: handle_msg_def Let_def split: option.splits)
  with assms answers_not_processed(2) [of N S w sender] show ?thesis
    by (auto simp: handle_msg_def Let_def split: if_splits bool.splits option.splits msg_kind.splits)
qed

text \<open>
  C12. A node acts only on messages that are meant for what it is now. A message of a node or a client that
  is handed on for processing names a destination in the node's section and the section's current key, or the
  node is no elder and the destination is not in its section. A message of a client is signed by the client
  over exactly its payload, and came from a member, was addressed to the node, or is a spend.
\<close>

theorem processed_for_current_section:
  assumes "handle_msg N W S sender w st = Ok cmds" and "c \<in> set cmds"
    and "c = ProcessNodeMsg mid m i st' \<or> c = ProcessClientMsg mid cm auth cid st'"
  shows "(if px_matches (ne_xor N) (mn_prefix S) (dst_name (wm_dst w))
      then dst_section_key (wm_dst w) = mn_section_key N S else \<not> mn_is_elder N S) \<and>
    (c = ProcessClientMsg mid cm auth cid st' \<longrightarrow>
      any_key_verify (ne_keys N) (ne_bls N) (ca_public_key auth) (ca_signature auth) (wm_payload w) = Ok () \<and>
      (list_ex (\<lambda>n. nid_addr n = pt_addr sender) (nk_members (mn_network_knowledge S)) \<or>
       dst_name (wm_dst w) = mn_name N S \<or> is_client_spend (wm_kind w)))"
proof -
  have p: "is_process c" using assms(3) by auto
  note h = handled_or_delivered [OF assms(1,2) p]
  note d = deliver_processed [OF conjunct1 [OF h] p]
  then have "\<not> is_ae_msg (wm_kind w)" by auto
  with h no_entropy [of N W "mn_is_elder N S" w "mn_network_knowledge S"] d show ?thesis by auto
qed

theorem processed_for_current_section_witness:
  "\<exists>cmds. handle_msg sample_node_env sample_wire (sample_node 9) \<lparr> pt_name = [7], pt_addr = 7 \<rparr> sample_msg None = Ok cmds \<and>
     cmds \<noteq> [] \<and> dst_section_key (wm_dst sample_msg) = mn_section_key sample_node_env (sample_node 9)"
proof -
  let ?sender = "\<lparr> pt_name = [7], pt_addr = 7 \<rparr>"
  have kind: "wm_kind sample_msg = NodeKind [] False" "wm_dst sample_msg = sample_dst"
    by (simp_all add: sample_msg_def new_msg_def header_new_def sample_kind_def)
  have "into_msg ref_keys ref_bls sample_wire sample_msg = Ok (NodeNetworkMsg (HandoverAE 100))"
    by (simp add: into_msg_def sample_msg_def new_msg_def header_new_def sample_kind_def sample_wire_def only_dec_def)
  then have deliver: "deliver_msg sample_node_env sample_wire (sample_node 9) ?sender sample_msg None
      = [ProcessNodeMsg (wm_msg_id sample_msg) (HandoverAE 100) (node_id_from ?sender) None]"
    by (simp add: deliver_msg_def)
  have "nk_section_key ref_bls sample_knowledge = 1" "nk_prefix sample_knowledge = []"
    by (simp_all add: sample_knowledge_def nk_section_key_def nk_prefix_def)
  then have h: "handle_msg sample_node_env sample_wire (sample_node 9) ?sender sample_msg None =
      Ok [ProcessNodeMsg (wm_msg_id sample_msg) (HandoverAE 100) (node_id_from ?sender) None]"
    by (simp add: handle_msg_def check_for_entropy_def kind deliver Let_def ref_matches_empty sample_dst_def split: bool.splits)
  from processed_for_current_section [OF h, of _ "wm_msg_id sample_msg" "HandoverAE 100" "node_id_from ?sender" None]
  have "dst_section_key (wm_dst sample_msg) = mn_section_key sample_node_env (sample_node 9)"
    using \<open>nk_prefix sample_knowledge = []\<close> by (simp add: ref_matches_empty)
  with h show ?thesis by blast
qed

section \<open>Properties of replication\<close>

subsection \<open>Who holds data\<close>

lemma holder_list: "set (target_data_holders N S target None) = set (closest_members N S target)"
  by (simp add: target_data_holders_def set_bs_from_iter)

lemma holder_at:
  "set (target_data_holders N S target (Some i)) =
     (if i < length (closest_members N S target) then {closest_members N S target ! i} else {})"
  by (auto simp: target_data_holders_def set_bs_from_iter in_set_enumerate_eq image_iff split: if_splits)

subsection \<open>The pages of an exchange\<close>

text \<open>
  A member asks for the data it misses with a list of what it has. The data that another member would
  send it are those of which it is a holder and that are not in the list.
\<close>

abbreviation is_holder ::
  "('m, 'r, 'k, 'a, 'h, 'd) node_env \<Rightarrow> ('m, 'k, 'a, 'h, 'd) my_node \<Rightarrow> node_id \<Rightarrow> data_address \<Rightarrow> bool" where
  "is_holder N S i data \<equiv> nid_name i \<in> nid_name ` set (target_data_holders N S (data_address_name data) None)"

definition missing_for ::
  "('m, 'r, 'k, 'a, 'h, 'd) node_env \<Rightarrow> ('m, 'k, 'a, 'h, 'd) my_node \<Rightarrow> node_id \<Rightarrow> data_address list \<Rightarrow> data_address list" where
  "missing_for N S i has = filter (\<lambda>data. data \<notin> set has \<and> is_holder N S i data) (node_data_addrs N S)"

text \<open>
  One page: the answer to the list \<open>has\<close>, and the list \<open>has'\<close> of the next question, in which the data of the
  answer have been stored.
\<close>

inductive page ::
  "('m, 'r, 'k, 'a, 'h, 'd) node_env \<Rightarrow> ('m, 'k, 'a, 'h, 'd) my_node \<Rightarrow> node_id \<Rightarrow> data_address list \<Rightarrow> data_address list \<Rightarrow> bool"
  for N :: "('m, 'r, 'k, 'a, 'h, 'd) node_env" and S :: "('m, 'k, 'a, 'h, 'd) my_node" and i where
  "(get_missing_data_for_node N shuffle S i has :: ('m, 'r) cmd option) = Some (EnqueueDataForReplication i batch)
     \<Longrightarrow> mset (shuffle (node_data_addrs N S)) = mset (node_data_addrs N S)
     \<Longrightarrow> set has \<union> set batch \<subseteq> set has' \<Longrightarrow> page N S i has has'"

lemma get_missing_page:
  assumes "mset (shuffle (node_data_addrs N S)) = mset (node_data_addrs N S)"
  shows "get_missing_data_for_node N shuffle S i has =
    (if missing_for N S i has = [] then None
     else Some (EnqueueDataForReplication i (take MAX_REPLICATION_BATCH_SIZE
       (filter (\<lambda>data. data \<notin> set has \<and> is_holder N S i data) (shuffle (node_data_addrs N S))))))"
proof -
  have "mset (filter P (shuffle (node_data_addrs N S))) = mset (filter P (node_data_addrs N S))" for P
    using assms by (simp add: mset_filter)
  then have "filter P (shuffle (node_data_addrs N S)) = [] \<longleftrightarrow> filter P (node_data_addrs N S) = []" for P
    by (metis mset_zero_iff)
  then show ?thesis
    by (auto simp: get_missing_data_for_node_def missing_for_def Let_def holder_list MAX_REPLICATION_BATCH_SIZE_def)
qed

lemma length_filter_taken:
  assumes "\<And>x. x \<in> set (take n xs) \<Longrightarrow> \<not> P x"
  shows "length (filter P xs) \<le> length xs - n"
proof -
  have "filter P xs = filter P (take n xs) @ filter P (drop n xs)" by (metis append_take_drop_id filter_append)
  moreover have "filter P (take n xs) = []" using assms by (simp add: filter_empty_conv)
  ultimately show ?thesis using length_filter_le [of P "drop n xs"] by simp
qed

lemma page_progress:
  assumes "page N S i has has'"
  shows "missing_for N S i has \<noteq> []"
    and "length (missing_for N S i has') + MAX_REPLICATION_BATCH_SIZE \<le> length (missing_for N S i has)
       \<or> missing_for N S i has' = []"
  using assms
proof (induction rule: page.induct)
  case (1 shuffle has batch has')
  let ?D = "node_data_addrs N S"
  let ?P = "\<lambda>data. data \<notin> set has \<and> is_holder N S i data" and ?P' = "\<lambda>data. data \<notin> set has' \<and> is_holder N S i data"
  let ?f = "filter ?P (shuffle ?D)"
  have ms: "mset (filter P (shuffle ?D)) = mset (filter P ?D)" for P using 1(2) by (simp add: mset_filter)
  note answer = get_missing_page [where shuffle = shuffle, OF 1(2)]
  from 1(1) show ne: "missing_for N S i has \<noteq> []" by (auto simp: answer split: if_splits)
  have batch: "batch = take MAX_REPLICATION_BATCH_SIZE ?f" using 1(1) ne by (simp add: answer)
  have len: "length (filter P ?D) = length (filter P (shuffle ?D))" for P
    using ms [of P] by (rule mset_eq_length [symmetric])
  have "filter ?P' (shuffle ?D) = filter ?P' ?f"
    unfolding filter_filter by (rule filter_cong) (use 1(3) in auto)
  then have "length (missing_for N S i has') = length (filter ?P' ?f)"
    unfolding missing_for_def len [of ?P'] by simp
  also have "\<dots> \<le> length ?f - MAX_REPLICATION_BATCH_SIZE"
    by (rule length_filter_taken) (use 1(3) in \<open>auto simp: batch\<close>)
  also have "length ?f = length (missing_for N S i has)" unfolding missing_for_def len [of ?P] by simp
  finally have "length (missing_for N S i has') \<le> length (missing_for N S i has) - MAX_REPLICATION_BATCH_SIZE" .
  then show "length (missing_for N S i has') + MAX_REPLICATION_BATCH_SIZE \<le> length (missing_for N S i has)
      \<or> missing_for N S i has' = []"
    by (cases "length (missing_for N S i has) \<le> MAX_REPLICATION_BATCH_SIZE") auto
qed

lemma page_exists: "(\<exists>has'. page N S i has has') \<longleftrightarrow> missing_for N S i has \<noteq> []"
proof
  assume "missing_for N S i has \<noteq> []"
  then have "get_missing_data_for_node N (\<lambda>xs. xs) S i has
      = Some (EnqueueDataForReplication i (take MAX_REPLICATION_BATCH_SIZE (missing_for N S i has)))"
    by (subst get_missing_page) (simp_all add: missing_for_def)
  then have "page N S i has (has @ take MAX_REPLICATION_BATCH_SIZE (missing_for N S i has))"
    by (rule page.intros) simp_all
  then show "\<exists>has'. page N S i has has'" by blast
qed (auto dest: page_progress(1))

lemma pages_bounded:
  assumes "(page N S i ^^ n) has has'"
  shows "n \<le> (length (missing_for N S i has) + (MAX_REPLICATION_BATCH_SIZE - 1)) div MAX_REPLICATION_BATCH_SIZE"
  using assms
proof (induction n arbitrary: has)
  case (Suc n)
  obtain h where p: "page N S i has h" and rest: "(page N S i ^^ n) h has'" by (rule relpowp_Suc_E2 [OF Suc.prems])
  let ?m = "length (missing_for N S i has)"
  have "0 < ?m" using page_progress(1) [OF p] by simp
  then have "1 \<le> (?m + 24) div 25" by linarith
  with page_progress(2) [OF p] Suc.IH [OF rest] show ?case by (auto simp: MAX_REPLICATION_BATCH_SIZE_def)
qed simp


text \<open>A member with one chunk, and another that is its only holder.\<close>

definition sample_holder :: "(dag_node list, section_key_share list, nat, nat, nat) my_node" where
  "sample_holder = sample_receiver\<lparr>mn_data_storage :=
     \<lparr> st_disk = \<lparr> disk_files = [([''chunks'', ''A''], [1])], disk_dirs = [[''chunks'']], disk_dir_len = 4096 \<rparr>,
       st_used = used_space_new 100 200 \<rparr>\<rparr>"

abbreviation sample_chunk :: data_address where
  "sample_chunk \<equiv> BytesAddress (ChunkAddress [65])"

lemma sample_holder_addrs: "node_data_addrs sample_node_env sample_holder = [sample_chunk]"
  by (simp add: node_data_addrs_def data_addrs_def sample_node_env_def sample_env_def sample_holder_def chunk_addrs_def
      chunk_root_def CHUNKS_STORE_DIR_NAME_def list_files_in_def fs_exists_def chunk_filepath_to_address_def ref_fmt_def
      list_all_reg_addrs_def register_root_def REGISTER_STORE_DIR_NAME_def bm_values_def)

lemma sample_holder_holds:
  "set (target_data_holders sample_node_env sample_holder name None) = {NodeId (sample_elder 9) 9}"
proof -
  have "nk_members (mn_network_knowledge sample_holder) = [NodeId (sample_elder 9) 9]"
    by (simp add: nk_members_def nk_elders_def adults_def sample_holder_def sample_receiver_def new_sap_def bs_from_iter_def
        sample_knowledge_def new_history_def history_members_def members_at_gen_def bm_extend_def bm_values_def)
  then show ?thesis
    by (simp add: holder_list closest_members_def sort_by_def data_copy_count_def DEFAULT_DATA_COPY_COUNT_def sample_node_env_def)
qed


end
