(* ===== verification/Rust_Text.thy ===== *)
theory Rust_Text
  imports Prelude "HOL-Library.Sublist"
begin

section \<open>Text and big-endian numbers\<close>

text \<open>
  What the client's API uses of Rust's strings and integers. A \<open>String\<close> is the list of its UTF-8
  bytes, so that \<open>len\<close> is the length of the list, the order of strings is that of lists, and splitting at
  an ASCII character works on bytes. Where the code looks at characters, the bytes are decoded.
\<close>

named_theorems text_simps \<open>splitting and joining text\<close>

unbundle bit_operations_syntax

subsection \<open>Splitting and joining\<close>

fun split_on :: "char \<Rightarrow> string \<Rightarrow> string list" where
  "split_on c [] = [[]]"
| "split_on c (x # s) =
    (if x = c then [] # split_on c s
     else case split_on c s of [] \<Rightarrow> [[x]] | p # ps \<Rightarrow> (x # p) # ps)"

fun join_with :: "string \<Rightarrow> string list \<Rightarrow> string" where
  "join_with sep [] = []"
| "join_with sep [p] = p"
| "join_with sep (p # q # ps) = p @ sep @ join_with sep (q # ps)"

lemma split_on_ne [text_simps]: "split_on c s \<noteq> []"
  by (induction s) (auto split: list.splits)

lemma join_split [text_simps]: "join_with [c] (split_on c s) = s"
proof (induction s)
  case (Cons x s)
  obtain p ps where ps: "split_on c s = p # ps" using split_on_ne [of c s] by (cases "split_on c s") auto
  with Cons show ?case by (cases ps) auto
qed simp

lemma split_plain: "c \<notin> set s \<Longrightarrow> split_on c s = [s]"
  by (induction s) auto

lemma split_append:
  "c \<notin> set p \<Longrightarrow> split_on c (p @ c # s) = p # split_on c s"
  by (induction p) auto

lemma split_join [text_simps]:
  "ps \<noteq> [] \<Longrightarrow> (\<And>p. p \<in> set ps \<Longrightarrow> c \<notin> set p) \<Longrightarrow> split_on c (join_with [c] ps) = ps"
proof (induction "[c]" ps rule: join_with.induct)
  case (2 p)
  then show ?case by (simp add: split_plain)
next
  case (3 p q ps)
  then have "split_on c (join_with [c] (q # ps)) = q # ps" by simp
  with 3 show ?case by (simp add: split_append)
qed simp

lemma split_parts: "p \<in> set (split_on c s) \<Longrightarrow> c \<notin> set p"
proof (induction s arbitrary: p)
  case (Cons x s)
  obtain q qs where qs: "split_on c s = q # qs" using split_on_ne [of c s] by (cases "split_on c s") auto
  with Cons show ?case by (auto split: if_splits)
qed simp

lemma join_snoc:
  "ps \<noteq> [] \<Longrightarrow> join_with sep (ps @ [p]) = join_with sep ps @ sep @ p"
  by (induction sep ps rule: join_with.induct) auto

lemma set_join: "set (join_with sep ps) \<subseteq> set sep \<union> \<Union> (set ` set ps)"
  by (induction sep ps rule: join_with.induct) auto

subsection \<open>Searching\<close>

definition starts_with :: "string \<Rightarrow> string \<Rightarrow> bool" where
  "starts_with s p = prefix p s"

definition ends_with :: "string \<Rightarrow> string \<Rightarrow> bool" where
  "ends_with s p = suffix p s"

fun contains_text :: "string \<Rightarrow> string \<Rightarrow> bool" where
  "contains_text [] p = (p = [])"
| "contains_text (x # s) p = (prefix p (x # s) \<or> contains_text s p)"

text \<open>\<open>replacen(.., 1)\<close>: the first occurrence is replaced.\<close>

fun replace_first :: "string \<Rightarrow> string \<Rightarrow> string \<Rightarrow> string" where
  "replace_first [] p r = (if p = [] then r else [])"
| "replace_first (x # s) p r =
    (if prefix p (x # s) then r @ drop (length p) (x # s) else x # replace_first s p r)"

lemma contains_text_iff: "contains_text s p \<longleftrightarrow> sublist p s"
proof (induction s)
  case (Cons x s)
  then show ?case by (simp add: sublist_Cons_right)
qed simp

lemma replace_first_prefix: "p \<noteq> [] \<Longrightarrow> replace_first (p @ s) p r = r @ s"
  by (cases p) auto

lemma double_split: "contains_text s [c, c] \<longleftrightarrow> [] \<in> set (butlast (tl (split_on c s)))"
proof (induction s)
  case (Cons x s)
  obtain q qs where qs: "split_on c s = q # qs" using split_on_ne [of c s] by (cases "split_on c s") auto
  show ?case
  proof (cases s)
    case (Cons y s')
    obtain r rs where rs: "split_on c s' = r # rs" using split_on_ne [of c s'] by (cases "split_on c s'") auto
    show ?thesis using Cons.IH qs rs unfolding Cons by (auto split: if_splits)
  qed simp
qed simp

subsection \<open>Characters\<close>

text \<open>The code points of a UTF-8 text.\<close>

fun utf8_chars :: "nat list \<Rightarrow> nat list" where
  "utf8_chars [] = []"
| "utf8_chars (a # b # s) =
    (if a < 192 then a # utf8_chars (b # s)
     else if a < 224 then ((a - 192) * 64 + (b - 128)) # utf8_chars s
     else case s of
       [] \<Rightarrow> [(a - 224) * 64 + (b - 128)]
     | c # s' \<Rightarrow>
         if a < 240 then ((a - 224) * 4096 + (b - 128) * 64 + (c - 128)) # utf8_chars s'
         else case s' of
           [] \<Rightarrow> [(a - 240) * 4096 + (b - 128) * 64 + (c - 128)]
         | d # s'' \<Rightarrow>
             ((a - 240) * 262144 + (b - 128) * 4096 + (c - 128) * 64 + (d - 128)) # utf8_chars s'')"
| "utf8_chars [a] = [a]"

definition text_chars :: "string \<Rightarrow> nat list" where
  "text_chars s = utf8_chars (map of_char s)"

definition is_whitespace :: "nat \<Rightarrow> bool" where
  "is_whitespace c =
    (9 \<le> c \<and> c \<le> 13 \<or> c = 32 \<or> c = 133 \<or> c = 160 \<or> c = 5760 \<or> 8192 \<le> c \<and> c \<le> 8202
     \<or> c = 8232 \<or> c = 8233 \<or> c = 8239 \<or> c = 8287 \<or> c = 12288)"

definition is_control :: "nat \<Rightarrow> bool" where
  "is_control c = (c \<le> 31 \<or> 127 \<le> c \<and> c \<le> 159)"

lemma utf8_ascii: "\<forall>a \<in> set s. a < 128 \<Longrightarrow> utf8_chars s = s"
  by (induction s rule: utf8_chars.induct) auto

subsection \<open>Big-endian bytes\<close>

definition u64_to_be_bytes :: "u64 \<Rightarrow> bytes" where
  "u64_to_be_bytes n = map (\<lambda>i. ucast (drop_bit (8 * i) n)) [7, 6, 5, 4, 3, 2, 1, 0]"

definition u16_to_be_bytes :: "u16 \<Rightarrow> bytes" where
  "u16_to_be_bytes n = [ucast (drop_bit 8 n), ucast n]"

fun from_be_bytes :: "'w::len word \<Rightarrow> bytes \<Rightarrow> 'w word" where
  "from_be_bytes n [] = n"
| "from_be_bytes n (b # bs) = from_be_bytes (push_bit 8 n OR ucast b) bs"

definition leading_zeros :: "u64 \<Rightarrow> nat" where
  "leading_zeros n = length (takeWhile (\<lambda>i. \<not> bit n i) (rev [0..<64]))"

lemma u16_be_round_trip: "from_be_bytes 0 (u16_to_be_bytes n) = n"
  by (auto intro!: bit_word_eqI simp: u16_to_be_bytes_def bit_simps)

lemma u64_be_round_trip: "from_be_bytes 0 (u64_to_be_bytes n) = n"
proof (rule bit_word_eqI)
  fix i assume "i < LENGTH(64)"
  then consider "i < 8" | "8 \<le> i" "i < 16" | "16 \<le> i" "i < 24" | "24 \<le> i" "i < 32" | "32 \<le> i" "i < 40"
    | "40 \<le> i" "i < 48" | "48 \<le> i" "i < 56" | "56 \<le> i" "i < 64" by fastforce
  then show "bit (from_be_bytes 0 (u64_to_be_bytes n) :: u64) i \<longleftrightarrow> bit n i"
    by cases (simp_all add: u64_to_be_bytes_def bit_simps less_diff_conv2)
qed

lemma leading_zero_bits:
  assumes "64 - leading_zeros n \<le> i" and "i < 64"
  shows "\<not> bit n i"
proof -
  have "rev [0..<64] ! (63 - i) = i" using assms(2) by (simp add: rev_nth)
  moreover have "63 - i < length (takeWhile (\<lambda>i. \<not> bit n i) (rev [0..<64]))"
    using assms by (simp add: leading_zeros_def)
  ultimately show ?thesis
    by (metis (no_types, lifting) nth_mem set_takeWhileD takeWhile_nth)
qed

lemma leading_zeros_le: "leading_zeros n \<le> 64"
  using length_takeWhile_le [of _ "rev [0..<64]"] by (simp add: leading_zeros_def)

text \<open>The bytes that \<open>name_to_base\<close> leaves out of a type tag are zero, as \<open>from_xorurl\<close> takes them to be.\<close>

lemma tag_bytes_padded:
  assumes k: "k = leading_zeros n div 8"
  shows "replicate k 0 @ drop k (u64_to_be_bytes n) = u64_to_be_bytes n"
proof -
  have le: "k \<le> 8" using leading_zeros_le [of n] k by simp
  have "u64_to_be_bytes n ! j = 0" if "j < k" for j
  proof -
    have j: "u64_to_be_bytes n ! j = ucast (drop_bit (8 * (7 - j)) n)"
      using that le by (auto simp: u64_to_be_bytes_def nth_Cons numeral_eq_Suc split: nat.splits)
    show ?thesis unfolding j
    proof (rule bit_word_eqI)
      fix i assume i: "i < LENGTH(8)"
      have "64 - leading_zeros n \<le> 8 * (7 - j) + i \<and> 8 * (7 - j) + i < 64"
        using i that le k by auto
      then show "bit (ucast (drop_bit (8 * (7 - j)) n) :: u8) i \<longleftrightarrow> bit (0 :: u8) i"
        using leading_zero_bits by (auto simp: bit_simps)
    qed
  qed
  then have "take k (u64_to_be_bytes n) = replicate k 0"
    using le by (auto intro!: nth_equalityI simp: u64_to_be_bytes_def)
  then show ?thesis by (metis append_take_drop_id)
qed

end
