(* ===== verification/Safe_Url.thy ===== *)
theory Safe_Url
  imports Rust_Text Register_Data
begin

section \<open>Safe URLs\<close>

text \<open>
  \<open>sn_api/src/safeurl\<close>: the URLs by which clients name data. An XOR-URL carries in its host name the
  address, the type tag and the content type of the data, in one of the bases of the crate \<open>multibase\<close>;
  an NRS-URL has a public name that is hashed. Both have sub names, a path, a query and a fragment; the
  query parameter \<open>v\<close> is the version of the content.

  The crates \<open>url\<close>, \<open>uhttp_uri\<close>, \<open>form_urlencoded\<close>, \<open>urlencoding\<close>, \<open>multibase\<close> and the hash of names are the
  parameter \<open>url_api\<close>. The messages within errors are left out.
\<close>

subsection \<open>Crates\<close>

datatype base = Base32Z | Base32Lower | Base64Plain | OtherBase nat

record parsed_url =
  pu_scheme :: string
  pu_host :: "string option"
  pu_query :: "string option"
  pu_fragment :: "string option"

record url_api =
  ua_parse :: "string \<Rightarrow> parsed_url option"
  ua_http_path :: "string \<Rightarrow> string option"
  ua_form_parse :: "string \<Rightarrow> (string \<times> string) list"
  ua_form_serialize :: "(string \<times> string) list \<Rightarrow> string"
  ua_encode :: "string \<Rightarrow> string"
  ua_decode :: "string \<Rightarrow> string option"
  ua_base_encode :: "base \<Rightarrow> bytes \<Rightarrow> string"
  ua_base_decode :: "string \<Rightarrow> (base \<times> bytes) option"
  ua_from_content :: "string \<Rightarrow> xor_name"

subsection \<open>Media types\<close>

definition APPLICATION_SUBTYPES :: "string list" where
  "APPLICATION_SUBTYPES = [
    ''application/x-abiword'', ''application/octet-stream'', ''application/vnd.amazon.ebook'',
    ''application/x-bzip'', ''application/x-bzip2'', ''application/x-csh'', ''application/msword'',
    ''application/vnd.openxmlformats-officedocument.wordprocessingml.document'',
    ''application/vnd.ms-fontobject'', ''application/epub+zip'', ''application/ecmascript'',
    ''application/java-archive'', ''application/javascript'', ''application/json'',
    ''application/vnd.apple.installer+xml'', ''application/vnd.oasis.opendocument.presentation'',
    ''application/vnd.oasis.opendocument.spreadsheet'', ''application/vnd.oasis.opendocument.text'',
    ''application/ogg'', ''application/pdf'', ''application/vnd.ms-powerpoint'',
    ''application/vnd.openxmlformats-officedocument.presentationml.presentation'',
    ''application/x-rar-compressed'', ''application/rtf'', ''application/x-sh'',
    ''application/x-shockwave-flash'', ''application/x-tar'', ''application/typescript'',
    ''application/vnd.visio'', ''application/xhtml+xml'', ''application/vnd.ms-excel'',
    ''application/vnd.openxmlformats-officedocument.spreadsheetml.sheet'', ''application/xml'',
    ''application/vnd.mozilla.xul+xml'', ''application/zip'', ''application/x-7z-compressed'',
    ''application/ld+json'', ''application/rdf+xml'']"

definition AUDIO_SUBTYPES :: "string list" where
  "AUDIO_SUBTYPES = [
    ''audio/aac'', ''audio/midi'', ''audio/x-midi'', ''audio/ogg'', ''audio/wav'', ''audio/webm'',
    ''audio/3gpp'', ''audio/3gpp2'', ''audio/mp4'', ''audio/mpeg'']"

definition FONT_SUBTYPES :: "string list" where
  "FONT_SUBTYPES = [
    ''font/otf'', ''font/ttf'', ''font/woff'', ''font/woff2'']"

definition IMAGE_SUBTYPES :: "string list" where
  "IMAGE_SUBTYPES = [
    ''image/bmp'', ''image/gif'', ''image/x-icon'', ''image/jpeg'', ''image/png'',
    ''image/svg+xml'', ''image/tiff'', ''image/webp'']"

definition MULTIPART_SUBTYPES :: "string list" where
  "MULTIPART_SUBTYPES = [
    ''multipart/byteranges'']"

definition TEXT_SUBTYPES :: "string list" where
  "TEXT_SUBTYPES = [
    ''text/css'', ''text/csv'', ''text/html'', ''text/calendar'', ''text/markdown'', ''text/n3'',
    ''text/plain'', ''text/turtle'', ''text/x-markdown'', ''text/xml'']"

definition VIDEO_SUBTYPES :: "string list" where
  "VIDEO_SUBTYPES = [
    ''video/x-msvideo'', ''video/mpeg'', ''video/ogg'', ''video/webm'', ''video/3gpp'',
    ''video/3gpp2'', ''video/jpeg'', ''video/mp4'']"

text \<open>Both tables are filled in the order of the source; a later entry would replace an earlier one.\<close>

definition populate :: "string list \<Rightarrow> u16 \<Rightarrow> (u16 \<times> string) list" where
  "populate subtypes start = map (\<lambda>(i, subtype). (start + of_nat i, subtype)) (enumerate 0 subtypes)"

definition media_types :: "(u16 \<times> string) list" where
  "media_types =
     populate APPLICATION_SUBTYPES 0x5000 @ populate AUDIO_SUBTYPES 0x8000 @ populate FONT_SUBTYPES 0x9000
     @ populate IMAGE_SUBTYPES 0xa000 @ populate MULTIPART_SUBTYPES 0xd000 @ populate TEXT_SUBTYPES 0xe000
     @ populate VIDEO_SUBTYPES 0xf000"

definition MEDIA_TYPE_STR :: "u16 \<Rightarrow> string option" where
  "MEDIA_TYPE_STR = map_of (rev media_types)"

definition MEDIA_TYPE_CODES :: "string \<Rightarrow> u16 option" where
  "MEDIA_TYPE_CODES = map_of (rev (map (\<lambda>(code, subtype). (subtype, code)) media_types))"

subsection \<open>Parts of a URL\<close>

datatype url_error = InvalidXorUrl | InvalidInput | UnsupportedMediaType

definition URL_PROTOCOL :: string where "URL_PROTOCOL = ''safe://''"

definition URL_SCHEME :: string where "URL_SCHEME = ''safe''"

definition MAX_LEN_URL_LABELS :: nat where "MAX_LEN_URL_LABELS = 63"

definition INVALID_NRS_CHARS :: "nat list" where
  "INVALID_NRS_CHARS =
    [8203, 8204, 8205, 8288, 65279, 6158, 10240, 12644, 4447, 4448, 65440, 9250, 847, 6068, 6069, 8293,
     65520, 65521, 65522, 65523, 65524, 65525, 65526, 65527, 8298, 8299, 8300, 8301, 8302, 8303]"

record url_parts =
  up_scheme :: string
  up_public_name :: string
  up_top_name :: string
  up_sub_names :: string
  up_sub_names_vec :: "string list"
  up_path :: string
  up_query_string :: string
  up_fragment :: string

definition validate_url_chars :: "string \<Rightarrow> (unit, url_error) result" where
  "validate_url_chars url =
    (if list_ex is_whitespace (text_chars url) then Err InvalidInput
     else if list_ex is_control (text_chars url) then Err InvalidInput
     else if list_ex (\<lambda>c. c \<in> set INVALID_NRS_CHARS) (text_chars url) then Err InvalidInput
     else Ok ())"

definition some_or_empty :: "string option \<Rightarrow> string" where
  "some_or_empty x = (case x of None \<Rightarrow> [] | Some s \<Rightarrow> s)"

definition url_parts_parse :: "url_api \<Rightarrow> string \<Rightarrow> bool \<Rightarrow> (url_parts, url_error) result" where
  "url_parts_parse U url ignore_labels_size =
    and_then (validate_url_chars url) (\<lambda>_.
    and_then (ok_or (ua_parse U url) InvalidXorUrl) (\<lambda>parsing_url.
      if pu_scheme parsing_url \<noteq> URL_SCHEME then Err InvalidXorUrl
      else
        case pu_host parsing_url of
          None \<Rightarrow> Err InvalidXorUrl
        | Some public_name \<Rightarrow>
            if contains_text public_name ''..'' then Err InvalidXorUrl
            else if length public_name > 255 then Err InvalidInput
            else
              let names_vec = split_on (CHR ''.'') public_name in
              if \<not> ignore_labels_size \<and> list_ex (\<lambda>name. length name > MAX_LEN_URL_LABELS) names_vec
              then Err InvalidInput
              else
                and_then (ok_or (ua_http_path U (replace_first url ''safe://'' ''http://'')) InvalidXorUrl) (\<lambda>path.
                  if contains_text path ''//'' then Err InvalidXorUrl
                  else Ok \<lparr>up_scheme = pu_scheme parsing_url, up_public_name = public_name,
                    up_top_name = last names_vec, up_sub_names = join_with ''.'' (butlast names_vec),
                    up_sub_names_vec = butlast names_vec, up_path = path,
                    up_query_string = some_or_empty (pu_query parsing_url),
                    up_fragment = some_or_empty (pu_fragment parsing_url)\<rparr>)))"

subsection \<open>Versions\<close>

datatype version_hash = VersionHash (entry_hash: bytes)

datatype version_hash_error = DecodingError | InvalidHashLength | InvalidEncoding

definition version_display :: "url_api \<Rightarrow> version_hash \<Rightarrow> string" where
  "version_display U v = ua_base_encode U Base32Z (entry_hash v)"

definition version_from_str :: "url_api \<Rightarrow> string \<Rightarrow> (version_hash, version_hash_error) result" where
  "version_from_str U s =
    (case ua_base_decode U s of
       None \<Rightarrow> Err DecodingError
     | Some (b, data) \<Rightarrow>
         if b \<noteq> Base32Z then Err InvalidEncoding
         else if length data \<noteq> 32 then Err InvalidHashLength
         else Ok (VersionHash data))"

subsection \<open>Types of content, data and URLs\<close>

datatype xor_url_base = Base32z | Base32 | Base64

datatype content_type =
    Raw | WalletContent | FilesContainer | NrsMapContainer | MultimapContent | MediaType string

datatype data_type = SafeKeyData | FileData | RegisterData | SpentbookData

datatype url_type = XorUrl | NrsUrl

definition DEFAULT_XORURL_BASE :: xor_url_base where "DEFAULT_XORURL_BASE = Base32z"

definition xor_url_base_from_str :: "string \<Rightarrow> (xor_url_base, url_error) result" where
  "xor_url_base_from_str s =
    (if s = ''base32z'' then Ok Base32z else if s = ''base32'' then Ok Base32
     else if s = ''base64'' then Ok Base64 else Err InvalidInput)"

definition xor_url_base_from_u8 :: "u8 \<Rightarrow> (xor_url_base, url_error) result" where
  "xor_url_base_from_u8 value =
    (if value = 0 then Ok Base32z else if value = 1 then Ok Base32 else if value = 2 then Ok Base64
     else Err InvalidInput)"

definition xor_url_base_from_u16 :: "u16 \<Rightarrow> (xor_url_base, url_error) result" where
  "xor_url_base_from_u16 value =
    (if value = 0 then Ok Base32z else if value = 1 then Ok Base32 else if value = 2 then Ok Base64
     else Err InvalidInput)"

definition content_type_from_u16 :: "u16 \<Rightarrow> (content_type, url_error) result" where
  "content_type_from_u16 value =
    (if value = 0 then Ok Raw else if value = 1 then Ok WalletContent else if value = 2 then Ok FilesContainer
     else if value = 3 then Ok NrsMapContainer else if value = 4 then Ok MultimapContent
     else Err InvalidInput)"

fun content_type_value :: "content_type \<Rightarrow> (u16, url_error) result" where
  "content_type_value Raw = Ok 0"
| "content_type_value WalletContent = Ok 1"
| "content_type_value FilesContainer = Ok 2"
| "content_type_value NrsMapContainer = Ok 3"
| "content_type_value MultimapContent = Ok 4"
| "content_type_value (MediaType media_type) =
    (case MEDIA_TYPE_CODES media_type of
       Some media_type_code \<Rightarrow> Ok media_type_code
     | None \<Rightarrow> Err UnsupportedMediaType)"

fun url_type_value :: "url_type \<Rightarrow> u16" where
  "url_type_value XorUrl = 0"
| "url_type_value NrsUrl = 1"

definition is_media_type_supported :: "string \<Rightarrow> bool" where
  "is_media_type_supported media_type = (MEDIA_TYPE_CODES media_type \<noteq> None)"

subsection \<open>The URL\<close>

definition XOR_URL_VERSION_1 :: u64 where "XOR_URL_VERSION_1 = 1"

definition XOR_URL_STR_MAX_LENGTH :: nat where "XOR_URL_STR_MAX_LENGTH = 44"

definition XOR_NAME_BYTES_OFFSET :: nat where "XOR_NAME_BYTES_OFFSET = 4"

definition URL_VERSION_QUERY_NAME :: string where "URL_VERSION_QUERY_NAME = ''v''"

definition NRS_MAP_TYPE_TAG :: u64 where "NRS_MAP_TYPE_TAG = 1500"

record safe_url =
  su_encoding_version :: u64
  su_public_name :: string
  su_top_name :: string
  su_sub_names :: string
  su_sub_names_vec :: "string list"
  su_type_tag :: u64
  su_address :: data_address
  su_content_type :: content_type
  su_content_type_u16 :: u16
  su_path :: string
  su_query_string :: string
  su_fragment :: string
  su_content_version :: "version_hash option"
  su_url_type :: url_type

definition su_data_type :: "safe_url \<Rightarrow> data_type" where
  "su_data_type u =
    (case su_address u of
       BytesAddress _ \<Rightarrow> FileData | RegAddress _ \<Rightarrow> RegisterData | SafeKey _ \<Rightarrow> SafeKeyData
     | SpentAddress _ \<Rightarrow> SpentbookData)"

fun data_type_code :: "data_type \<Rightarrow> u8" where
  "data_type_code SafeKeyData = 0"
| "data_type_code FileData = 1"
| "data_type_code RegisterData = 2"
| "data_type_code SpentbookData = 3"

definition name_bytes :: "safe_url \<Rightarrow> bytes" where
  "name_bytes u =
    ucast XOR_URL_VERSION_1 # u16_to_be_bytes (su_content_type_u16 u) @ data_type_code (su_data_type u)
    # data_address_name (su_address u)
    @ drop (leading_zeros (su_type_tag u) div 8) (u64_to_be_bytes (su_type_tag u))"

fun base_encoding :: "xor_url_base \<Rightarrow> base" where
  "base_encoding Base32z = Base32Z"
| "base_encoding Base32 = Base32Lower"
| "base_encoding Base64 = Base64Plain"

definition name_to_base :: "url_api \<Rightarrow> safe_url \<Rightarrow> xor_url_base \<Rightarrow> bool \<Rightarrow> string" where
  "name_to_base U u b include_subnames =
    (let top_name = ua_base_encode U (base_encoding b) (name_bytes u) in
     if include_subnames
     then su_sub_names u @ (if su_sub_names u = [] then [] else ''.'') @ top_name
     else top_name)"

text \<open>The query of the URL \<open>file://dummy?..\<close> and its pairs.\<close>

definition query_string_to_url :: "url_api \<Rightarrow> string \<Rightarrow> (parsed_url, url_error) result" where
  "query_string_to_url U query_str = ok_or (ua_parse U (''file://dummy?'' @ query_str)) InvalidInput"

definition url_query_pairs :: "url_api \<Rightarrow> parsed_url \<Rightarrow> (string \<times> string) list" where
  "url_query_pairs U url = ua_form_parse U (some_or_empty (pu_query url))"

definition query_pairs_internal :: "url_api \<Rightarrow> string \<Rightarrow> (string \<times> string) list" where
  "query_pairs_internal U query_str =
    (case query_string_to_url U query_str of Ok url \<Rightarrow> url_query_pairs U url | Err _ \<Rightarrow> [])"

definition query_key_internal :: "url_api \<Rightarrow> string \<Rightarrow> string \<Rightarrow> string list" where
  "query_key_internal U query_str key =
    map snd (filter (\<lambda>(k, val). k = key) (query_pairs_internal U query_str))"

definition query_key_last_internal :: "url_api \<Rightarrow> string \<Rightarrow> string \<Rightarrow> string option" where
  "query_key_last_internal U query_str key =
    (let matches = query_key_internal U query_str key in if matches = [] then None else Some (last matches))"

definition query_key_first_internal :: "url_api \<Rightarrow> string \<Rightarrow> string \<Rightarrow> string option" where
  "query_key_first_internal U query_str key =
    (let matches = query_key_internal U query_str key in if matches = [] then None else Some (hd matches))"

definition set_content_version_internal ::
    "url_api \<Rightarrow> safe_url \<Rightarrow> string option \<Rightarrow> safe_url \<times> (unit, url_error) result" where
  "set_content_version_internal U u version_option =
    (case version_option of
       Some version_str \<Rightarrow>
         (case version_from_str U version_str of
            Err _ \<Rightarrow> (u, Err InvalidInput)
          | Ok version \<Rightarrow> (u\<lparr>su_content_version := Some version\<rparr>, Ok ()))
     | None \<Rightarrow> (u\<lparr>su_content_version := None\<rparr>, Ok ()))"

definition set_query_string :: "url_api \<Rightarrow> safe_url \<Rightarrow> string \<Rightarrow> safe_url \<times> (unit, url_error) result" where
  "set_query_string U u query =
    (case set_content_version_internal U u (query_key_last_internal U query URL_VERSION_QUERY_NAME) of
       (u', Err e) \<Rightarrow> (u', Err e)
     | (u', Ok _) \<Rightarrow> (u'\<lparr>su_query_string := query\<rparr>, Ok ()))"

text \<open>The loop of \<open>set_query_key\<close> over the pairs; the flag says that the key has been set.\<close>

fun replace_pairs :: "string \<Rightarrow> string option \<Rightarrow> bool \<Rightarrow> (string \<times> string) list \<Rightarrow> (string \<times> string) list" where
  "replace_pairs key val set_key [] =
    (case val of Some v \<Rightarrow> if set_key then [] else [(key, v)] | None \<Rightarrow> [])"
| "replace_pairs key val set_key ((k, v) # ps) =
    (if k = key then
       (case val of
          Some v' \<Rightarrow> if \<not> set_key then (key, v') # replace_pairs key val True ps
                     else replace_pairs key val set_key ps
        | None \<Rightarrow> replace_pairs key val set_key ps)
     else (k, v) # replace_pairs key val set_key ps)"

definition set_query_key ::
    "url_api \<Rightarrow> safe_url \<Rightarrow> string \<Rightarrow> string option \<Rightarrow> safe_url \<times> (unit, url_error) result" where
  "set_query_key U u key val =
    (case query_string_to_url U (su_query_string u) of
       Err e \<Rightarrow> (u, Err e)
     | Ok url \<Rightarrow>
         let u' = u\<lparr>su_query_string := ua_form_serialize U (replace_pairs key val False (url_query_pairs U url))\<rparr> in
         if key = URL_VERSION_QUERY_NAME then set_content_version_internal U u' val else (u', Ok ()))"

text \<open>An error is only logged.\<close>

definition set_content_version :: "url_api \<Rightarrow> safe_url \<Rightarrow> version_hash option \<Rightarrow> safe_url" where
  "set_content_version U u version =
    fst (set_query_key U u URL_VERSION_QUERY_NAME (map_option (version_display U) version))"

definition set_path_internal :: "url_api \<Rightarrow> safe_url \<Rightarrow> string \<Rightarrow> bool \<Rightarrow> safe_url" where
  "set_path_internal U u path percent_encode =
    (if path = [] then u\<lparr>su_path := []\<rparr>
     else
       let parts = split_on (CHR ''/'') path;
           kept = map snd (filter (\<lambda>(count, p). p \<noteq> [] \<or> count > 0) (enumerate 0 parts));
           new_parts = map (\<lambda>p. if percent_encode then ua_encode U p else p) kept;
           new_path = join_with ''/'' new_parts
       in u\<lparr>su_path := (if new_path = [] then [] else ''/'') @ new_path\<rparr>)"

definition set_path :: "url_api \<Rightarrow> safe_url \<Rightarrow> string \<Rightarrow> safe_url" where
  "set_path U u path = set_path_internal U u path True"

definition path_decoded :: "url_api \<Rightarrow> safe_url \<Rightarrow> (string, url_error) result" where
  "path_decoded U u = ok_or (ua_decode U (su_path u)) InvalidInput"

definition set_content_type :: "safe_url \<Rightarrow> content_type \<Rightarrow> safe_url \<times> (unit, url_error) result" where
  "set_content_type u c =
    (case content_type_value c of
       Err e \<Rightarrow> (u, Err e)
     | Ok n \<Rightarrow> (u\<lparr>su_content_type_u16 := n, su_content_type := c\<rparr>, Ok ()))"

definition set_sub_names :: "url_api \<Rightarrow> safe_url \<Rightarrow> string \<Rightarrow> safe_url \<times> (unit, url_error) result" where
  "set_sub_names U u sub_names =
    (let tmpurl = URL_PROTOCOL @ sub_names @ (if sub_names = [] then [] else ''.'') @ su_top_name u in
     case url_parts_parse U tmpurl True of
       Err e \<Rightarrow> (u, Err e)
     | Ok parts \<Rightarrow>
         (u\<lparr>su_sub_names := up_sub_names parts, su_sub_names_vec := up_sub_names_vec parts,
            su_public_name := up_public_name parts\<rparr>, Ok ()))"

definition set_fragment :: "safe_url \<Rightarrow> string \<Rightarrow> safe_url" where
  "set_fragment u fragment = u\<lparr>su_fragment := fragment\<rparr>"

subsection \<open>Making URLs\<close>

definition xor_name_from_nrs_string :: "url_api \<Rightarrow> string \<Rightarrow> xor_name" where
  "xor_name_from_nrs_string U name = ua_from_content U name"

text \<open>The names of the URL to be: public name, top name, sub names, their list, and the type of the URL.\<close>

definition url_names ::
    "url_api \<Rightarrow> data_address \<Rightarrow> string option \<Rightarrow> string list option
      \<Rightarrow> (string \<times> string \<times> string \<times> string list \<times> url_type, url_error) result" where
  "url_names U address nrs_name sub_names =
    (case nrs_name of
       Some nh \<Rightarrow>
         if nh = [] then Err InvalidInput
         else and_then (url_parts_parse U (URL_PROTOCOL @ nh) False) (\<lambda>parts.
           if xor_name_from_nrs_string U (up_top_name parts) \<noteq> data_address_name address then Err InvalidInput
           else Ok (up_public_name parts, up_top_name parts, up_sub_names parts, up_sub_names_vec parts, NrsUrl))
     | None \<Rightarrow>
         let sub_names_vec = (case sub_names of None \<Rightarrow> [] | Some v \<Rightarrow> v) in
         if list_ex (\<lambda>s. s = []) sub_names_vec then Err InvalidInput
         else Ok ([], [], join_with ''.'' sub_names_vec, sub_names_vec, XorUrl))"

definition name_the_xorurl :: "url_api \<Rightarrow> safe_url \<Rightarrow> safe_url" where
  "name_the_xorurl U u =
    (if su_url_type u = XorUrl then
       let top = name_to_base U u DEFAULT_XORURL_BASE False in
       u\<lparr>su_top_name := top,
         su_public_name := su_sub_names u @ (if su_sub_names u = [] then [] else ''.'') @ top\<rparr>
     else u)"

definition new_url ::
    "url_api \<Rightarrow> data_address \<Rightarrow> string option \<Rightarrow> u64 \<Rightarrow> content_type \<Rightarrow> string option
      \<Rightarrow> string list option \<Rightarrow> string option \<Rightarrow> string option \<Rightarrow> version_hash option
      \<Rightarrow> (safe_url, url_error) result" where
  "new_url U address nrs_name type_tag content_ty path sub_names query_string fragment content_version =
    and_then (content_type_value content_ty) (\<lambda>content_type_u16.
    and_then (url_names U address nrs_name sub_names) (\<lambda>(public_name, top_name, sub_names_str, sub_names_vec, ty).
      let url = name_the_xorurl U
            \<lparr>su_encoding_version = XOR_URL_VERSION_1, su_public_name = public_name, su_top_name = top_name,
             su_sub_names = sub_names_str, su_sub_names_vec = sub_names_vec, su_type_tag = type_tag,
             su_address = address, su_content_type = content_ty, su_content_type_u16 = content_type_u16,
             su_path = [], su_query_string = [], su_fragment = some_or_empty fragment,
             su_content_version = None, su_url_type = ty\<rparr>;
          url1 = set_path_internal U url (some_or_empty path) False
      in case set_query_string U url1 (some_or_empty query_string) of
           (_, Err e) \<Rightarrow> Err e
         | (url2, Ok _) \<Rightarrow>
             (case content_version of
                None \<Rightarrow> Ok url2
              | Some version \<Rightarrow> Ok (set_content_version U url2 (Some version)))))"

definition from_nrsurl :: "url_api \<Rightarrow> string \<Rightarrow> (safe_url, url_error) result" where
  "from_nrsurl U nrsurl =
    and_then (url_parts_parse U nrsurl False) (\<lambda>parts.
      new_url U (RegAddress (RegisterAddress (xor_name_from_nrs_string U (up_top_name parts)) NRS_MAP_TYPE_TAG))
        (Some (up_public_name parts)) NRS_MAP_TYPE_TAG NrsMapContainer (Some (up_path parts))
        (Some (up_sub_names_vec parts)) (Some (up_query_string parts)) (Some (up_fragment parts)) None)"

text \<open>The content type and the address that the bytes of a host name stand for.\<close>

definition decoded_content_type :: "u16 \<Rightarrow> (content_type, url_error) result" where
  "decoded_content_type n =
    (if n = 0 then Ok Raw else if n = 1 then Ok WalletContent else if n = 2 then Ok FilesContainer
     else if n = 3 then Ok NrsMapContainer else if n = 4 then Ok MultimapContent
     else case MEDIA_TYPE_STR n of Some m \<Rightarrow> Ok (MediaType m) | None \<Rightarrow> Err InvalidXorUrl)"

definition decoded_address :: "u8 \<Rightarrow> xor_name \<Rightarrow> u64 \<Rightarrow> (data_address, url_error) result" where
  "decoded_address code name type_tag =
    (if code = 0 then Ok (SafeKey name) else if code = 1 then Ok (BytesAddress (ChunkAddress name))
     else if code = 2 then Ok (RegAddress (RegisterAddress name type_tag)) else Err InvalidXorUrl)"

definition from_xorurl :: "url_api \<Rightarrow> string \<Rightarrow> (safe_url, url_error) result" where
  "from_xorurl U xorurl =
    and_then (url_parts_parse U xorurl True) (\<lambda>parts.
    and_then (ok_or (ua_base_decode U (up_top_name parts)) InvalidXorUrl) (\<lambda>(_, xorurl_bytes).
      let type_tag_offset = XOR_NAME_BYTES_OFFSET + 32 in
      if length xorurl_bytes < type_tag_offset then Err InvalidXorUrl
      else if length xorurl_bytes > XOR_URL_STR_MAX_LENGTH then Err InvalidXorUrl
      else if (ucast (xorurl_bytes ! 0) :: u64) \<noteq> XOR_URL_VERSION_1 then Err InvalidXorUrl
      else
        and_then (decoded_content_type (from_be_bytes 0 (take 2 (drop 1 xorurl_bytes)))) (\<lambda>content_ty.
          let name = take 32 (drop XOR_NAME_BYTES_OFFSET xorurl_bytes);
              tag_bytes = drop type_tag_offset xorurl_bytes;
              type_tag = from_be_bytes 0 (replicate (8 - length tag_bytes) 0 @ tag_bytes)
          in and_then (decoded_address (xorurl_bytes ! 3) name type_tag) (\<lambda>address.
               new_url U address None type_tag content_ty (Some (up_path parts)) (Some (up_sub_names_vec parts))
                 (Some (up_query_string parts)) (Some (up_fragment parts)) None))))"

definition from_url :: "url_api \<Rightarrow> string \<Rightarrow> (safe_url, url_error) result" where
  "from_url U url = (case from_xorurl U url of Ok enc \<Rightarrow> Ok enc | Err _ \<Rightarrow> from_nrsurl U url)"

definition from_safekey :: "url_api \<Rightarrow> xor_name \<Rightarrow> (safe_url, url_error) result" where
  "from_safekey U name = new_url U (SafeKey name) None 0 Raw None None None None None"

definition from_bytes :: "url_api \<Rightarrow> xor_name \<Rightarrow> content_type \<Rightarrow> (safe_url, url_error) result" where
  "from_bytes U name c = new_url U (BytesAddress (ChunkAddress name)) None 0 c None None None None None"

definition from_register :: "url_api \<Rightarrow> xor_name \<Rightarrow> u64 \<Rightarrow> content_type \<Rightarrow> (safe_url, url_error) result" where
  "from_register U name type_tag c =
     new_url U (RegAddress (RegisterAddress name type_tag)) None type_tag c None None None None None"

subsection \<open>Writing URLs\<close>

definition query_string_with_separator :: "safe_url \<Rightarrow> string" where
  "query_string_with_separator u = (if su_query_string u = [] then [] else CHR ''?'' # su_query_string u)"

definition fragment_with_separator :: "safe_url \<Rightarrow> string" where
  "fragment_with_separator u = (if su_fragment u = [] then [] else CHR ''#'' # su_fragment u)"

definition url_encode :: "url_api \<Rightarrow> safe_url \<Rightarrow> xor_url_base \<Rightarrow> string" where
  "url_encode U u b =
     URL_PROTOCOL @ name_to_base U u b True @ su_path u @ query_string_with_separator u @ fragment_with_separator u"

definition to_xorurl_string :: "url_api \<Rightarrow> safe_url \<Rightarrow> string" where
  "to_xorurl_string U u = url_encode U u DEFAULT_XORURL_BASE"

definition is_nrsurl :: "safe_url \<Rightarrow> bool" where
  "is_nrsurl u = (su_url_type u = NrsUrl)"

definition to_nrsurl_string :: "safe_url \<Rightarrow> string option" where
  "to_nrsurl_string u =
    (if \<not> is_nrsurl u then None
     else Some (URL_PROTOCOL @ su_public_name u @ su_path u @ query_string_with_separator u
       @ fragment_with_separator u))"

definition url_display :: "url_api \<Rightarrow> safe_url \<Rightarrow> string option" where
  "url_display U u = (if is_nrsurl u then to_nrsurl_string u else Some (to_xorurl_string U u))"

text \<open>\<open>to_string\<close> would panic on a \<open>None\<close>, which does not occur.\<close>

definition url_validate :: "url_api \<Rightarrow> safe_url \<Rightarrow> (unit, url_error) result option" where
  "url_validate U u = map_option (\<lambda>s. map_ok (\<lambda>_. ()) (from_url U s)) (url_display U u)"

end
