(* ===== verification/Nrs_Map.thy ===== *)
theory Nrs_Map
  imports Safe_Url "HOL-Library.Product_Lexorder"
begin

section \<open>Registers, multimaps and names of a client\<close>

text \<open>
  \<open>sn_api/src/app/register.rs\<close>, \<open>multimap.rs\<close> and \<open>nrs\<close>: a multimap is a register whose entries are pairs of a
  key and a value, and the name resolution system keeps one multimap per top name, from public names to
  URLs. Entries written at the same time are kept side by side, so that a name can have several links.

  The client of \<open>sn_client\<close> is a parameter: it reads entries of a register, prepares writes, and publishes
  them, which changes the network \<open>'n\<close>. The serialisation of entries by \<open>rmp_serde\<close> is a parameter, and so are random
  numbers. Messages within errors are left out; \<open>ApiPanic\<close> stands for a panic.
\<close>

subsection \<open>The order of URLs\<close>

text \<open>The derived order of \<open>SafeUrl\<close>, by which \<open>BTreeSet\<close> and \<open>BTreeMap\<close> place them: field by field, variants in
  the order of their declaration.\<close>

fun address_key :: "data_address \<Rightarrow> nat \<times> xor_name \<times> u64" where
  "address_key (SafeKey n) = (0, n, 0)"
| "address_key (BytesAddress a) = (1, chunk_address_name a, 0)"
| "address_key (RegAddress a) = (2, reg_name a, reg_tag a)"
| "address_key (SpentAddress a) = (3, spentbook_name a, 0)"

fun content_key :: "content_type \<Rightarrow> nat \<times> string" where
  "content_key Raw = (0, [])"
| "content_key WalletContent = (1, [])"
| "content_key FilesContainer = (2, [])"
| "content_key NrsMapContainer = (3, [])"
| "content_key MultimapContent = (4, [])"
| "content_key (MediaType m) = (5, m)"

definition version_key :: "version_hash option \<Rightarrow> bytes list" where
  "version_key v = (case v of None \<Rightarrow> [] | Some h \<Rightarrow> [entry_hash h])"

definition url_key :: "'a safe_url_scheme \<Rightarrow> u64 \<times> string \<times> string \<times> string \<times> string list \<times> u64 \<times>
    (nat \<times> xor_name \<times> u64) \<times> (nat \<times> string) \<times> u16 \<times> string \<times> string \<times> string \<times> bytes list \<times> u16" where
  "url_key u = (su_encoding_version u, su_public_name u, su_top_name u, su_sub_names u, su_sub_names_vec u,
     su_type_tag u, address_key (su_address u), content_key (su_content_type u), su_content_type_u16 u,
     su_path u, su_query_string u, su_fragment u, version_key (su_content_version u),
     url_type_value (su_url_type u))"

lemma key_inj:
  "address_key a = address_key b \<Longrightarrow> a = b" "content_key c = content_key d \<Longrightarrow> c = d"
  "version_key v = version_key w \<Longrightarrow> v = w" "url_type_value t = url_type_value t' \<Longrightarrow> t = t'"
proof -
  show "address_key a = address_key b \<Longrightarrow> a = b"
    by (cases a; cases b)
      (auto intro: chunk_address.expand register_address.expand spentbook_address.expand)
  show "content_key c = content_key d \<Longrightarrow> c = d" by (cases c; cases d) auto
  show "version_key v = version_key w \<Longrightarrow> v = w"
    by (auto simp: version_key_def split: option.splits intro: version_hash.expand)
  show "url_type_value t = url_type_value t' \<Longrightarrow> t = t'" by (cases t; cases t') auto
qed

lemma url_key_inj: "url_key u = url_key v \<Longrightarrow> safe_url.more u = safe_url.more v \<Longrightarrow> u = v"
  using key_inj by (auto simp: url_key_def intro!: safe_url.equality)

instantiation safe_url_ext :: (linorder) linorder
begin

definition less_eq_safe_url_ext :: "'a safe_url_ext \<Rightarrow> 'a safe_url_ext \<Rightarrow> bool" where
  "less_eq_safe_url_ext u v \<longleftrightarrow> (url_key u, safe_url.more u) \<le> (url_key v, safe_url.more v)"

definition less_safe_url_ext :: "'a safe_url_ext \<Rightarrow> 'a safe_url_ext \<Rightarrow> bool" where
  "less_safe_url_ext u v \<longleftrightarrow> (url_key u, safe_url.more u) < (url_key v, safe_url.more v)"

instance
proof
  fix u v w :: "'a safe_url_ext"
  show "u \<le> u" by (simp only: less_eq_safe_url_ext_def order_refl)
  show "u < v \<longleftrightarrow> u \<le> v \<and> \<not> v \<le> u" by (simp only: less_eq_safe_url_ext_def less_safe_url_ext_def less_le_not_le)
  show "u \<le> v \<Longrightarrow> v \<le> w \<Longrightarrow> u \<le> w" unfolding less_eq_safe_url_ext_def by (rule order_trans)
  show "u \<le> v \<or> v \<le> u" unfolding less_eq_safe_url_ext_def by (rule linear)
  assume "u \<le> v" "v \<le> u"
  then have "(url_key u, safe_url.more u) = (url_key v, safe_url.more v)"
    unfolding less_eq_safe_url_ext_def by (rule antisym)
  then show "u = v" using url_key_inj by blast
qed

end

subsection \<open>Errors and the client\<close>

type_synonym multimap = "(bytes \<times> bytes \<times> bytes) bset"

record nrs_map =
  nrs_entries :: "(string, safe_url) bmap"

datatype api_error =
    ConflictingNrsEntries "(string \<times> safe_url) list" nrs_map | ConnectionError | NetDataError | ContentNotFound
  | ContentError | EmptyContent | AccessDenied_api | HashNotFound bytes | EntryNotFound | FileAlreadyExists string
  | FileNameConflict string | InvalidUtf8Sequence | InvalidXorUrl_api | InvalidInput_api
  | NrsNameAlreadyExists string | Serialisation_api | FileSystemError | UrlError url_error
  | ClientFailed | UnversionedContentError | ApiPanic

datatype client_error =
    NetworkNoSuchEntry | NetworkAccessDenied | MsgAccessDenied | MsgNoSuchEntry | OtherClientError

record ('n, 'op) client_api =
  cl_read_register :: "'n \<Rightarrow> register_address \<Rightarrow> ((bytes \<times> bytes) bset, client_error) result"
  cl_get_register_entry :: "'n \<Rightarrow> register_address \<Rightarrow> bytes \<Rightarrow> (bytes, client_error) result"
  cl_write_to_local_register ::
    "'n \<Rightarrow> register_address \<Rightarrow> bytes \<Rightarrow> bytes bset \<Rightarrow> (bytes \<times> 'op, client_error) result"
  cl_create_register :: "'n \<Rightarrow> xor_name \<Rightarrow> u64 \<Rightarrow> policy \<Rightarrow> ('op, client_error) result"
  cl_publish_register_ops :: "'n \<Rightarrow> 'op \<Rightarrow> 'n \<times> (unit, client_error) result"
  cl_read_bytes :: "'n \<Rightarrow> xor_name \<Rightarrow> (bytes, client_error) result"
  cl_public_key :: any_key

record entry_codec =
  ec_to_vec :: "bytes \<times> bytes \<Rightarrow> bytes option"
  ec_from_slice :: "bytes \<Rightarrow> (bytes \<times> bytes) option"

record ('n, 'op) safe =
  safe_client :: "('n, 'op) client_api option"
  safe_xorurl_base :: xor_url_base
  safe_dry_run_mode :: bool

definition get_safe_client :: "('n, 'op) safe \<Rightarrow> (('n, 'op) client_api, api_error) result" where
  "get_safe_client S = ok_or (safe_client S) ConnectionError"

definition url_result :: "('a, url_error) result \<Rightarrow> ('a, api_error) result" where
  "url_result r = map_err UrlError r"

subsection \<open>Registers\<close>

definition get_register_address :: "safe_url \<Rightarrow> (register_address, api_error) result" where
  "get_register_address url = (case su_address url of RegAddress a \<Rightarrow> Ok a | _ \<Rightarrow> Err ContentError)"

definition register_fetch_entry ::
    "('n, 'op) safe \<Rightarrow> 'n \<Rightarrow> safe_url \<Rightarrow> bytes \<Rightarrow> (bytes, api_error) result" where
  "register_fetch_entry S N url hash =
    and_then (get_register_address url) (\<lambda>address.
    and_then (get_safe_client S) (\<lambda>client.
      map_err (\<lambda>err. if err = MsgNoSuchEntry then HashNotFound hash else NetDataError)
        (cl_get_register_entry client N address hash)))"

fun read_register_error :: "client_error \<Rightarrow> api_error" where
  "read_register_error NetworkNoSuchEntry = EmptyContent"
| "read_register_error MsgAccessDenied = AccessDenied_api"
| "read_register_error _ = NetDataError"

definition register_fetch_entries ::
    "('n, 'op) safe \<Rightarrow> 'n \<Rightarrow> safe_url \<Rightarrow> ((bytes \<times> bytes) bset, api_error) result" where
  "register_fetch_entries S N url =
    (case su_content_version url of
       Some v \<Rightarrow> map_ok (\<lambda>entry. [(entry_hash v, entry)]) (register_fetch_entry S N url (entry_hash v))
     | None \<Rightarrow>
         and_then (get_register_address url) (\<lambda>address.
         and_then (get_safe_client S) (\<lambda>client.
           map_err read_register_error (cl_read_register client N address))))"

definition owner_policy :: "user \<Rightarrow> policy" where
  "owner_policy owner = \<lparr>pol_owner = owner, pol_permissions = [(owner, Permissions (Some True))]\<rparr>"

text \<open>What the client answers to a call that changes the network.\<close>

definition published ::
    "('n, 'op) client_api \<Rightarrow> 'n \<Rightarrow> 'op \<Rightarrow> 'a \<Rightarrow> 'n \<times> ('a, api_error) result" where
  "published client N op x =
    (case cl_publish_register_ops client N op of
       (N', Ok _) \<Rightarrow> (N', Ok x)
     | (N', Err _) \<Rightarrow> (N', Err ClientFailed))"

definition register_create ::
    "url_api \<Rightarrow> xor_name \<Rightarrow> ('n, 'op) safe \<Rightarrow> 'n \<Rightarrow> xor_name option \<Rightarrow> u64 \<Rightarrow> content_type
      \<Rightarrow> 'n \<times> (string, api_error) result" where
  "register_create U random S N name tag content_ty =
    (let xorname = (case name of None \<Rightarrow> random | Some n \<Rightarrow> n) in
     case url_result (from_register U xorname tag content_ty) of
       Err e \<Rightarrow> (N, Err e)
     | Ok url \<Rightarrow>
         let xorurl = url_encode U url (safe_xorurl_base S) in
         if safe_dry_run_mode S then (N, Ok xorurl)
         else case get_safe_client S of
           Err e \<Rightarrow> (N, Err e)
         | Ok client \<Rightarrow>
             (case cl_create_register client N xorname tag (owner_policy (UserKey (cl_public_key client))) of
                Err _ \<Rightarrow> (N, Err NetDataError)
              | Ok op_batch \<Rightarrow> published client N op_batch xorurl))"

subsection \<open>Multimaps\<close>

definition MULTIMAP_REMOVED_MARK :: bytes where "MULTIMAP_REMOVED_MARK = []"

definition multimap_create ::
    "url_api \<Rightarrow> xor_name \<Rightarrow> ('n, 'op) safe \<Rightarrow> 'n \<Rightarrow> xor_name option \<Rightarrow> u64 \<Rightarrow> 'n \<times> (string, api_error) result" where
  "multimap_create U random S N name type_tag = register_create U random S N name type_tag MultimapContent"

definition decode_multimap_entry :: "entry_codec \<Rightarrow> bytes \<Rightarrow> (bytes \<times> bytes, api_error) result" where
  "decode_multimap_entry Q entry = ok_or (ec_from_slice Q entry) ContentError"

fun decode_entries :: "entry_codec \<Rightarrow> (bytes \<times> bytes) list \<Rightarrow> multimap \<Rightarrow> (multimap, api_error) result" where
  "decode_entries Q [] m = Ok m"
| "decode_entries Q ((hash, entry) # es) m =
    (if entry = MULTIMAP_REMOVED_MARK then decode_entries Q es m
     else and_then (decode_multimap_entry Q entry) (\<lambda>(key, val).
       decode_entries Q es (bs_insert (hash, key, val) m)))"

definition fetch_multimap ::
    "entry_codec \<Rightarrow> ('n, 'op) safe \<Rightarrow> 'n \<Rightarrow> safe_url \<Rightarrow> (multimap, api_error) result" where
  "fetch_multimap Q S N url =
    and_then (register_fetch_entries S N url) (\<lambda>entries. decode_entries Q entries [])"

definition fetch_multimap_values_by_key ::
    "entry_codec \<Rightarrow> ('n, 'op) safe \<Rightarrow> 'n \<Rightarrow> safe_url \<Rightarrow> bytes \<Rightarrow> (multimap, api_error) result" where
  "fetch_multimap_values_by_key Q S N url key =
     map_ok (filter (\<lambda>(_, entry_key, _). entry_key = key)) (fetch_multimap Q S N url)"

definition fetch_multimap_value_by_hash ::
    "entry_codec \<Rightarrow> ('n, 'op) safe \<Rightarrow> 'n \<Rightarrow> safe_url \<Rightarrow> bytes \<Rightarrow> (bytes \<times> bytes, api_error) result" where
  "fetch_multimap_value_by_hash Q S N url hash =
    and_then (register_fetch_entry S N url hash) (\<lambda>entry.
      if entry = MULTIMAP_REMOVED_MARK then Err EmptyContent else decode_multimap_entry Q entry)"

text \<open>The common part of \<open>multimap_insert\<close> and \<open>multimap_remove\<close>: the write of an entry.\<close>

definition write_entry ::
    "url_api \<Rightarrow> bytes \<Rightarrow> ('n, 'op) safe \<Rightarrow> 'n \<Rightarrow> string \<Rightarrow> bytes \<Rightarrow> bytes bset \<Rightarrow> 'n \<times> (bytes, api_error) result" where
  "write_entry U random S N multimap_url data replace =
    (case url_result (from_url U multimap_url) of
       Err e \<Rightarrow> (N, Err e)
     | Ok url \<Rightarrow>
         (case su_address url of
            RegAddress address \<Rightarrow>
              if safe_dry_run_mode S then (N, Ok random)
              else (case get_safe_client S of
                Err e \<Rightarrow> (N, Err e)
              | Ok client \<Rightarrow>
                  (case cl_write_to_local_register client N address data replace of
                     Err _ \<Rightarrow> (N, Err ClientFailed)
                   | Ok (hash, op_batch) \<Rightarrow> published client N op_batch hash))
          | _ \<Rightarrow> (N, Err InvalidXorUrl_api)))"

definition multimap_insert ::
    "url_api \<Rightarrow> entry_codec \<Rightarrow> bytes \<Rightarrow> ('n, 'op) safe \<Rightarrow> 'n \<Rightarrow> string \<Rightarrow> bytes \<times> bytes \<Rightarrow> bytes bset
      \<Rightarrow> 'n \<times> (bytes, api_error) result" where
  "multimap_insert U Q random S N multimap_url entry replace =
    (case ec_to_vec Q entry of
       None \<Rightarrow> (N, Err Serialisation_api)
     | Some data \<Rightarrow> write_entry U random S N multimap_url data replace)"

definition multimap_remove ::
    "url_api \<Rightarrow> bytes \<Rightarrow> ('n, 'op) safe \<Rightarrow> 'n \<Rightarrow> string \<Rightarrow> bytes bset \<Rightarrow> 'n \<times> (bytes, api_error) result" where
  "multimap_remove U random S N url to_remove = write_entry U random S N url MULTIMAP_REMOVED_MARK to_remove"

subsection \<open>Names\<close>

text \<open>\<open>str::from_utf8\<close>: the well-formed sequences of the Unicode standard.\<close>

fun utf8_valid :: "nat list \<Rightarrow> bool" where
  "utf8_valid [] = True"
| "utf8_valid [a] = (a < 128)"
| "utf8_valid (a # b # s) =
    (if a < 128 then utf8_valid (b # s)
     else if b < 128 \<or> 191 < b then False
     else if 194 \<le> a \<and> a \<le> 223 then utf8_valid s
     else case s of
       [] \<Rightarrow> False
     | c # s' \<Rightarrow>
         if c < 128 \<or> 191 < c then False
         else if 224 \<le> a \<and> a \<le> 239 then (a = 224 \<longrightarrow> 160 \<le> b) \<and> (a = 237 \<longrightarrow> b \<le> 159) \<and> utf8_valid s'
         else case s' of
           [] \<Rightarrow> False
         | d # s'' \<Rightarrow>
             240 \<le> a \<and> a \<le> 244 \<and> 128 \<le> d \<and> d \<le> 191 \<and> (a = 240 \<longrightarrow> 144 \<le> b) \<and> (a = 244 \<longrightarrow> b \<le> 143)
             \<and> utf8_valid s'')"

definition as_bytes :: "string \<Rightarrow> bytes" where
  "as_bytes s = map of_char s"

definition from_utf8 :: "bytes \<Rightarrow> (string, api_error) result" where
  "from_utf8 bs = (if utf8_valid (map unat bs) then Ok (map (char_of \<circ> unat) bs) else Err InvalidUtf8Sequence)"

definition public_name_contains_subname :: "string \<Rightarrow> bool" where
  "public_name_contains_subname public_name =
     (join_with ''.'' (butlast (split_on (CHR ''.'') public_name)) \<noteq> [])"

definition nrs_map_get :: "nrs_map \<Rightarrow> string \<Rightarrow> (safe_url option, api_error) result" where
  "nrs_map_get m public_name =
    (case bm_get (nrs_entries m) public_name of
       Some link \<Rightarrow> Ok (Some link)
     | None \<Rightarrow> if public_name_contains_subname public_name then Err ContentError else Ok None)"

text \<open>The sort by length is stable. A URL that cannot be displayed would panic.\<close>

definition get_map_summary :: "url_api \<Rightarrow> nrs_map \<Rightarrow> (string \<times> string option) list" where
  "get_map_summary U m =
     sort_key (\<lambda>x. length (fst x)) (map (\<lambda>(name, url). (name, url_display U url)) (nrs_entries m))"

fun collect_ok :: "('a, 'e) result list \<Rightarrow> ('a list, 'e) result" where
  "collect_ok [] = Ok []"
| "collect_ok (r # rs) = and_then r (\<lambda>x. map_ok (\<lambda>xs. x # xs) (collect_ok rs))"

definition nrs_entry :: "url_api \<Rightarrow> bytes \<times> bytes \<times> bytes \<Rightarrow> (version_hash \<times> string \<times> safe_url, api_error) result" where
  "nrs_entry U x =
    (case x of (hash, key, val) \<Rightarrow>
       and_then (from_utf8 key) (\<lambda>public_name.
       and_then (from_utf8 val) (\<lambda>text.
       and_then (url_result (from_url U text)) (\<lambda>url. Ok (VersionHash hash, public_name, url)))))"

definition convert_multimap_to_nrs_set ::
    "url_api \<Rightarrow> multimap \<Rightarrow> string \<Rightarrow> version_hash option \<Rightarrow> ((string \<times> safe_url) bset, api_error) result" where
  "convert_multimap_to_nrs_set U m public_name subname_version =
    map_ok (\<lambda>es. bs_from_iter (map snd
        (case subname_version of
           Some version \<Rightarrow> filter (\<lambda>(v, name, url). \<not> (name = public_name \<and> v \<noteq> version)) es
         | None \<Rightarrow> es)))
      (collect_ok (map (nrs_entry U) m))"

definition get_nrs_map_from_set :: "(string \<times> safe_url) bset \<Rightarrow> nrs_map" where
  "get_nrs_map_from_set s = \<lparr>nrs_entries = bm_from_iter s\<rparr>"

fun subnames_error :: "api_error \<Rightarrow> api_error" where
  "subnames_error ContentNotFound = ContentNotFound"
| "subnames_error _ = NetDataError"

text \<open>The URL of the map must be readable; \<open>public_name\<close> may be a name or an XOR-URL without its scheme.\<close>

definition nrs_get_subnames_map ::
    "url_api \<Rightarrow> entry_codec \<Rightarrow> ('n, 'op) safe \<Rightarrow> 'n \<Rightarrow> string \<Rightarrow> version_hash option \<Rightarrow> (nrs_map, api_error) result" where
  "nrs_get_subnames_map U Q S N public_name version =
    and_then (url_result (from_url U (''safe://'' @ public_name))) (\<lambda>url.
    and_then (case fetch_multimap Q S N url of
        Ok m \<Rightarrow> Ok m
      | Err EmptyContent \<Rightarrow> Ok []
      | Err e \<Rightarrow> Err (subnames_error e)) (\<lambda>multimap.
    and_then (case version of
        None \<Rightarrow> Ok multimap
      | Some v \<Rightarrow>
          if list_ex (\<lambda>(h, _). VersionHash h = v) multimap then Ok multimap
          else map_ok (\<lambda>key_val. bs_insert (entry_hash v, key_val) multimap)
            (fetch_multimap_value_by_hash Q S N url (entry_hash v))) (\<lambda>multimap.
    and_then (convert_multimap_to_nrs_set U multimap public_name version) (\<lambda>subnames_set.
      let m = get_nrs_map_from_set subnames_set in
      if length (nrs_entries m) \<noteq> length subnames_set
      then Err (ConflictingNrsEntries (filter (\<lambda>x. x \<notin> set (nrs_entries m)) subnames_set) m)
      else Ok m))))"

definition nrs_get ::
    "url_api \<Rightarrow> entry_codec \<Rightarrow> ('n, 'op) safe \<Rightarrow> 'n \<Rightarrow> string \<Rightarrow> version_hash option
      \<Rightarrow> (safe_url option \<times> nrs_map, api_error) result" where
  "nrs_get U Q S N public_name version =
    and_then (case nrs_get_subnames_map U Q S N public_name version of
        Ok m \<Rightarrow> Ok m
      | Err (ConflictingNrsEntries conflicting_entries m) \<Rightarrow>
          if list_ex (\<lambda>(p, _). p = public_name) conflicting_entries
          then Err (ConflictingNrsEntries conflicting_entries m) else Ok m
      | Err e \<Rightarrow> Err e) (\<lambda>m.
    map_ok (\<lambda>url. (url, m)) (nrs_map_get m public_name))"

definition set_nrs_url_props :: "url_api \<Rightarrow> safe_url \<Rightarrow> bytes \<Rightarrow> safe_url \<times> (unit, api_error) result" where
  "set_nrs_url_props U url hash =
    (case set_content_type (set_content_version U url (Some (VersionHash hash))) NrsMapContainer of
       (u, r) \<Rightarrow> (u, url_result r))"

definition validate_nrs_top_name :: "url_api \<Rightarrow> string \<Rightarrow> (safe_url, api_error) result" where
  "validate_nrs_top_name U top_name =
    and_then (url_result (from_url U (''safe://'' @ top_name))) (\<lambda>url.
      if su_top_name url \<noteq> top_name then Err InvalidInput_api else Ok url)"

definition validate_nrs_public_name :: "url_api \<Rightarrow> string \<Rightarrow> (safe_url, api_error) result" where
  "validate_nrs_public_name U public_name =
    and_then (url_result (from_url U (''safe://'' @ public_name))) (\<lambda>url.
      if su_public_name url \<noteq> public_name then Err InvalidInput_api else Ok url)"

definition validate_nrs_url :: "safe_url \<Rightarrow> (unit, api_error) result" where
  "validate_nrs_url link =
    (if su_content_version link = None \<and>
        (su_content_type link = FilesContainer \<or> su_content_type link = NrsMapContainer
         \<or> su_data_type link = RegisterData)
     then Err UnversionedContentError else Ok ())"

definition nrs_create ::
    "url_api \<Rightarrow> entry_codec \<Rightarrow> xor_name \<Rightarrow> ('n, 'op) safe \<Rightarrow> 'n \<Rightarrow> string \<Rightarrow> 'n \<times> (safe_url, api_error) result" where
  "nrs_create U Q random S N top_name =
    (case and_then (validate_nrs_top_name U top_name) (\<lambda>url.
        case set_content_type url NrsMapContainer of
          (_, Err e) \<Rightarrow> Err (UrlError e)
        | (nrs_url, Ok _) \<Rightarrow>
            (case url_display U nrs_url of
               None \<Rightarrow> Err ApiPanic
             | Some s \<Rightarrow> map_ok (\<lambda>u. (nrs_url, data_address_name (su_address u))) (url_result (from_nrsurl U s)))) of
       Err e \<Rightarrow> (N, Err e)
     | Ok (nrs_url, nrs_xorname) \<Rightarrow>
         if is_ok (nrs_get_subnames_map U Q S N top_name None) then (N, Err (NrsNameAlreadyExists top_name))
         else case multimap_create U random S N (Some nrs_xorname) NRS_MAP_TYPE_TAG of
           (N', Err e) \<Rightarrow> (N', Err e)
         | (N', Ok _) \<Rightarrow> (N', Ok nrs_url))"

text \<open>What \<open>nrs_associate\<close> and \<open>nrs_remove\<close> do with the versions of a name: the URL shown to the multimap is the
  displayed one.\<close>

definition current_versions ::
    "entry_codec \<Rightarrow> ('n, 'op) safe \<Rightarrow> 'n \<Rightarrow> safe_url \<Rightarrow> string \<Rightarrow> (bytes bset, api_error) result" where
  "current_versions Q S N url public_name =
     map_ok (\<lambda>m. bs_from_iter (map fst m)) (fetch_multimap_values_by_key Q S N url (as_bytes public_name))"

definition versioned_url ::
    "url_api \<Rightarrow> safe_url \<Rightarrow> 'n \<times> (bytes, api_error) result \<Rightarrow> 'n \<times> (safe_url, api_error) result" where
  "versioned_url U url r =
    (case r of
       (N, Err e) \<Rightarrow> (N, Err e)
     | (N, Ok hash) \<Rightarrow>
         (case set_nrs_url_props U url hash of
            (url', Ok _) \<Rightarrow> (N, Ok url')
          | (_, Err e) \<Rightarrow> (N, Err e)))"

definition nrs_associate ::
    "url_api \<Rightarrow> entry_codec \<Rightarrow> bytes \<Rightarrow> ('n, 'op) safe \<Rightarrow> 'n \<Rightarrow> string \<Rightarrow> safe_url \<Rightarrow> 'n \<times> (safe_url, api_error) result" where
  "nrs_associate U Q random S N public_name link =
    (case and_then (validate_nrs_public_name U public_name) (\<lambda>url.
        and_then (validate_nrs_url link) (\<lambda>_.
        map_ok (\<lambda>vs. (url, vs)) (current_versions Q S N url public_name))) of
       Err e \<Rightarrow> (N, Err e)
     | Ok (url, versions) \<Rightarrow>
         (case (url_display U link, url_display U url) of
            (Some link_text, Some url_text) \<Rightarrow>
              versioned_url U url
                (multimap_insert U Q random S N url_text (as_bytes public_name, as_bytes link_text) versions)
          | _ \<Rightarrow> (N, Err ApiPanic)))"

definition nrs_add ::
    "url_api \<Rightarrow> entry_codec \<Rightarrow> xor_name \<Rightarrow> bytes \<Rightarrow> ('n, 'op) safe \<Rightarrow> 'n \<Rightarrow> string \<Rightarrow> safe_url
      \<Rightarrow> 'n \<times> (safe_url \<times> bool, api_error) result" where
  "nrs_add U Q random_name random S N public_name link =
    (case validate_nrs_public_name U public_name of
       Err e \<Rightarrow> (N, Err e)
     | Ok url \<Rightarrow>
         let (N', created) = nrs_create U Q random_name S N (su_top_name url) in
         case (case created of Ok _ \<Rightarrow> Ok True | Err (NrsNameAlreadyExists _) \<Rightarrow> Ok False | Err e \<Rightarrow> Err e) of
           Err e \<Rightarrow> (N', Err e)
         | Ok did_register_topname \<Rightarrow>
             (case nrs_associate U Q random S N' public_name link of
                (N'', Err e) \<Rightarrow> (N'', Err e)
              | (N'', Ok url') \<Rightarrow> (N'', Ok (url', did_register_topname))))"

definition nrs_remove ::
    "url_api \<Rightarrow> entry_codec \<Rightarrow> bytes \<Rightarrow> ('n, 'op) safe \<Rightarrow> 'n \<Rightarrow> string \<Rightarrow> 'n \<times> (safe_url, api_error) result" where
  "nrs_remove U Q random S N public_name =
    (case and_then (validate_nrs_public_name U public_name) (\<lambda>url.
        map_ok (\<lambda>vs. (url, vs)) (current_versions Q S N url public_name)) of
       Err e \<Rightarrow> (N, Err e)
     | Ok (url, versions) \<Rightarrow>
         (case url_display U url of
            Some url_text \<Rightarrow> versioned_url U url (multimap_remove U random S N url_text versions)
          | None \<Rightarrow> (N, Err ApiPanic)))"

end
