(* ===== verification/Url_Round_Trip.thy ===== *)
theory Url_Round_Trip
  imports Safe_Url
begin

section \<open>What is written as a URL is read again\<close>

text \<open>
  The documented behaviour of the crates, for texts of characters that need no escaping: \<open>url\<close> and
  \<open>uhttp_uri\<close> cut a text into its parts and change none of them (an empty path is read as \<open>/\<close>);
  \<open>multibase\<close> decodes what it encodes, and its bases of 32 digits write letters and digits, at most two per
  byte after the prefix; what the form serialiser and \<open>urlencoding\<close> write needs no escaping.
\<close>

subsection \<open>Characters and laws\<close>

definition label_chars :: string where
  "label_chars = ''abcdefghijklmnopqrstuvwxyz0123456789-''"

definition path_chars :: string where
  "path_chars = ''abcdefghijklmnopqrstuvwxyzABCDEFGHIJKLMNOPQRSTUVWXYZ0123456789-._~%''"

definition query_chars :: string where
  "query_chars = ''abcdefghijklmnopqrstuvwxyzABCDEFGHIJKLMNOPQRSTUVWXYZ0123456789-._*%+&=''"

definition path_text :: "string \<Rightarrow> bool" where
  "path_text p = (p = [] \<or> set p \<subseteq> insert (CHR ''/'') (set path_chars) \<and> hd p = CHR ''/'' \<and> tl p \<noteq> []
     \<and> \<not> contains_text p ''//'')"

definition url_text :: "string \<Rightarrow> string \<Rightarrow> string \<Rightarrow> string \<Rightarrow> string" where
  "url_text host p q f =
     host @ p @ (if q = [] then [] else CHR ''?'' # q) @ (if f = [] then [] else CHR ''#'' # f)"

definition plain_text :: "string \<Rightarrow> string \<Rightarrow> string \<Rightarrow> string \<Rightarrow> bool" where
  "plain_text host p q f =
    (host \<noteq> [] \<and> set host \<subseteq> insert (CHR ''.'') (set label_chars) \<and> path_text p
     \<and> set q \<subseteq> set query_chars \<and> set f \<subseteq> set path_chars)"

definition opt_text :: "string \<Rightarrow> string option" where
  "opt_text s = (if s = [] then None else Some s)"

definition parse_laws :: "url_api \<Rightarrow> bool" where
  "parse_laws U = (\<forall>host p q f. plain_text host p q f \<longrightarrow>
     ua_parse U (''safe://'' @ url_text host p q f) =
       Some \<lparr>pu_scheme = ''safe'', pu_host = Some host, pu_query = opt_text q, pu_fragment = opt_text f\<rparr>
     \<and> ua_http_path U (''http://'' @ url_text host p q f) = Some (if p = [] then ''/'' else p))"

definition query_laws :: "url_api \<Rightarrow> bool" where
  "query_laws U =
    ((\<forall>q. set q \<subseteq> set query_chars \<longrightarrow> map_option pu_query (ua_parse U (''file://dummy?'' @ q)) = Some (Some q))
     \<and> ua_form_serialize U [] = []
     \<and> (\<forall>ps. ua_form_parse U (ua_form_serialize U ps) = ps \<and> set (ua_form_serialize U ps) \<subseteq> set query_chars))"

definition digits_32 :: "base \<Rightarrow> bool" where
  "digits_32 b = (b = Base32Z \<or> b = Base32Lower)"

definition encode_laws :: "url_api \<Rightarrow> bool" where
  "encode_laws U =
    ((\<forall>b bs. digits_32 b \<longrightarrow>
        ua_base_decode U (ua_base_encode U b bs) = Some (b, bs) \<and> ua_base_encode U b bs \<noteq> [] \<and>
        set (ua_base_encode U b bs) \<subseteq> set label_chars \<and> length (ua_base_encode U b bs) \<le> Suc (2 * length bs))
     \<and> (\<forall>s. set (ua_encode U s) \<subseteq> set path_chars \<and> (ua_encode U s = [] \<longleftrightarrow> s = [])))"

definition url_laws :: "url_api \<Rightarrow> bool" where
  "url_laws U = (parse_laws U \<and> query_laws U \<and> encode_laws U)"

lemma parse_lawsD:
  assumes "url_laws U" and "plain_text host p q f"
  shows "ua_parse U (''safe://'' @ url_text host p q f) =
      Some \<lparr>pu_scheme = ''safe'', pu_host = Some host, pu_query = opt_text q, pu_fragment = opt_text f\<rparr>"
    and "ua_http_path U (''http://'' @ url_text host p q f) = Some (if p = [] then ''/'' else p)"
  using assms by (simp_all add: url_laws_def parse_laws_def)

lemma query_lawsD:
  assumes "url_laws U"
  shows query_law: "set q \<subseteq> set query_chars \<Longrightarrow>
      map_option pu_query (ua_parse U (''file://dummy?'' @ q)) = Some (Some q)"
    and form_law: "ua_form_parse U (ua_form_serialize U ps) = ps"
    and form_chars: "set (ua_form_serialize U ps) \<subseteq> set query_chars"
    and form_empty: "ua_form_serialize U [] = []"
  using assms by (simp_all add: url_laws_def query_laws_def)

lemma encode_lawsD:
  assumes "url_laws U"
  shows base_law: "digits_32 b \<Longrightarrow> ua_base_decode U (ua_base_encode U b bs) = Some (b, bs)"
      "digits_32 b \<Longrightarrow> ua_base_encode U b bs \<noteq> []"
    and base_chars: "digits_32 b \<Longrightarrow> set (ua_base_encode U b bs) \<subseteq> set label_chars"
    and base_length: "digits_32 b \<Longrightarrow> length (ua_base_encode U b bs) \<le> Suc (2 * length bs)"
    and encode_law: "set (ua_encode U s) \<subseteq> set path_chars" "ua_encode U s = [] \<longleftrightarrow> s = []"
  using assms by (simp_all add: url_laws_def encode_laws_def)

subsection \<open>Reading the parts\<close>

lemma ascii_chars:
  "list_all (\<lambda>c. 32 < (of_char c :: nat) \<and> of_char c < (127 :: nat))
     (''/.?#:'' @ label_chars @ path_chars @ query_chars)"
  by code_simp

lemma printable_char:
  assumes "32 < n" and "n < 127"
  shows "\<not> is_whitespace n" and "\<not> is_control n" and "n \<notin> set INVALID_NRS_CHARS"
  using assms by (simp_all add: is_whitespace_def is_control_def INVALID_NRS_CHARS_def)

lemma validate_ascii:
  assumes "set s \<subseteq> set (''/.?#:'' @ label_chars @ path_chars @ query_chars)"
  shows "validate_url_chars s = Ok ()"
proof -
  have low: "\<forall>c \<in> set s. 32 < (of_char c :: nat) \<and> of_char c < (127 :: nat)"
    using assms ascii_chars unfolding list_all_iff by blast
  then have "text_chars s = map of_char s" unfolding text_chars_def by (intro utf8_ascii) auto
  moreover have "\<not> list_ex P (map of_char s)" if "\<And>n. 32 < n \<Longrightarrow> n < 127 \<Longrightarrow> \<not> P n" for P :: "nat \<Rightarrow> bool"
    using low that by (auto simp: list_ex_iff)
  ultimately show ?thesis unfolding validate_url_chars_def using printable_char by simp
qed

lemma labels_split:
  assumes "\<forall>l \<in> set ls. l \<noteq> [] \<and> set l \<subseteq> set label_chars" and "ls \<noteq> []"
  shows "split_on (CHR ''.'') (join_with ''.'' ls) = ls"
    and "\<not> contains_text (join_with ''.'' ls) ''..''"
proof -
  have "CHR ''.'' \<notin> set l" if "l \<in> set ls" for l
    using assms(1) that by (auto simp: label_chars_def)
  then show split: "split_on (CHR ''.'') (join_with ''.'' ls) = ls"
    using assms(2) by (intro split_join) auto
  show "\<not> contains_text (join_with ''.'' ls) ''..''"
    using double_split [of "join_with ''.'' ls" "CHR ''.''"] assms unfolding split by (cases ls) (auto dest: in_set_butlastD)
qed

lemma host_labels:
  assumes "subs = join_with ''.'' vec" and "\<forall>l \<in> set vec. l \<noteq> []"
  shows "subs @ (if subs = [] then [] else ''.'') @ t = join_with ''.'' (vec @ [t])"
proof (cases "vec = []")
  case False
  then have "subs \<noteq> []" using assms by (cases vec; cases "tl vec") auto
  with False assms(1) show ?thesis by (simp add: join_snoc)
qed (simp add: assms)

lemma parts_read:
  assumes laws: "url_laws U" and plain: "plain_text (join_with ''.'' ls) p q f"
    and labels: "\<forall>l \<in> set ls. l \<noteq> [] \<and> set l \<subseteq> set label_chars" "ls \<noteq> []"
    and len: "length (join_with ''.'' ls) \<le> 255" and ig: "ig \<or> (\<forall>l \<in> set ls. length l \<le> MAX_LEN_URL_LABELS)"
  shows "url_parts_parse U (URL_PROTOCOL @ url_text (join_with ''.'' ls) p q f) ig =
    Ok \<lparr>up_scheme = ''safe'', up_public_name = join_with ''.'' ls, up_top_name = last ls,
      up_sub_names = join_with ''.'' (butlast ls), up_sub_names_vec = butlast ls,
      up_path = (if p = [] then ''/'' else p), up_query_string = q, up_fragment = f\<rparr>"
proof -
  define t where "t = url_text (join_with ''.'' ls) p q f"
  have "set t \<subseteq> set (''/.?#:'' @ label_chars @ path_chars @ query_chars)"
    using plain by (auto simp: t_def url_text_def plain_text_def path_text_def)
  then have valid: "validate_url_chars (''safe://'' @ t) = Ok ()"
    by (intro validate_ascii) (auto simp: path_chars_def)
  have path: "\<not> contains_text (if p = [] then ''/'' else p) ''//''"
    using plain by (auto simp: plain_text_def path_text_def)
  have http: "replace_first (''safe://'' @ t) ''safe://'' ''http://'' = ''http://'' @ t"
    by (rule replace_first_prefix) simp
  have txt_of: "some_or_empty (opt_text x) = x" for x by (simp add: some_or_empty_def opt_text_def)
  have small: "\<not> (\<not> ig \<and> list_ex (\<lambda>name. length name > MAX_LEN_URL_LABELS) ls)"
    using ig by (auto simp: list_ex_iff not_less)
  show ?thesis
    unfolding t_def [symmetric] url_parts_parse_def URL_PROTOCOL_def URL_SCHEME_def valid http
      parse_lawsD [OF laws plain, folded t_def]
    using path len labels_split [OF labels] small
    by (simp only: and_then.simps ok_or.simps parsed_url.simps option.case Let_def if_False simp_thms
        txt_of not_less [symmetric])
qed

lemmas parts_of_text = parts_read [OF _ _ _ _ _ disjI1 [OF TrueI]]

lemma path_kept:
  assumes "path_text p"
  shows "set_path_internal U u (if p = [] then ''/'' else p) False = u\<lparr>su_path := p\<rparr>"
proof (cases "p = []")
  case True
  then show ?thesis by (simp add: set_path_internal_def)
next
  case False
  then obtain p' where p: "p = CHR ''/'' # p'" "p' \<noteq> []"
    using assms by (cases p) (auto simp: path_text_def)
  have "map snd (filter (\<lambda>(count, x). x \<noteq> [] \<or> count > 0) (enumerate (Suc 0) xs)) = xs" for xs :: "string list"
    by (subst filter_True) (auto simp: in_set_enumerate_eq)
  then have "map snd (filter (\<lambda>(count, x). x \<noteq> [] \<or> count > 0) (enumerate 0 (split_on (CHR ''/'') p)))
      = split_on (CHR ''/'') p'"
    by (simp add: p)
  then show ?thesis using p by (simp add: set_path_internal_def Let_def join_split)
qed

subsection \<open>The bytes of a host name\<close>

lemma sorted_neighbours:
  "\<forall>(x, y) \<in> set (zip xs (tl xs)). x < y \<Longrightarrow> sorted_wrt (<) (xs :: 'a::linorder list)"
proof (induction xs)
  case (Cons x xs)
  show ?case
  proof (cases xs)
    case (Cons y ys)
    then have "sorted_wrt (<) xs" and "x < y" using Cons.IH Cons.prems by auto
    with Cons show ?thesis by fastforce
  qed simp
qed simp

lemma media_codes: "sorted_wrt (<) (map fst media_types)"
proof (rule sorted_neighbours)
  show "\<forall>(x, y) \<in> set (zip (map fst media_types) (tl (map fst media_types))). x < y" by code_simp
qed

lemma media_code_str:
  assumes "(n, m) \<in> set media_types"
  shows "MEDIA_TYPE_STR n = Some m" and "4 < n"
proof -
  have "distinct (map fst (rev media_types))"
    using media_codes by (simp add: strict_sorted_iff rev_map [symmetric])
  then show "MEDIA_TYPE_STR n = Some m"
    unfolding MEDIA_TYPE_STR_def using assms by (intro map_of_is_SomeI) auto
  obtain x xs where xs: "map fst media_types = x # xs" "4 < x"
  proof -
    have "4 < hd (map fst media_types) \<and> media_types \<noteq> []" by code_simp
    then show ?thesis using that by (cases "map fst media_types") auto
  qed
  moreover have "n \<in> set (map fst media_types)" using assms by force
  ultimately show "4 < n" using media_codes by auto
qed

lemma content_type_round_trip:
  assumes "content_type_value c = Ok n"
  shows "decoded_content_type n = Ok c"
proof (cases c)
  case (MediaType m)
  then have "(m, n) \<in> set (rev (map (\<lambda>(code, subtype). (subtype, code)) media_types))"
    using assms by (auto simp: MEDIA_TYPE_CODES_def split: option.splits dest: map_of_SomeD)
  then have "(n, m) \<in> set media_types" by auto
  from media_code_str [OF this] have "MEDIA_TYPE_STR n = Some m" and "n \<notin> {0, 1, 2, 3, 4}" by auto
  then show ?thesis by (simp add: decoded_content_type_def MediaType)
qed (use assms in \<open>simp_all add: decoded_content_type_def\<close>)

definition address_ok :: "data_address \<Rightarrow> u64 \<Rightarrow> bool" where
  "address_ok a tag =
    (length (data_address_name a) = 32 \<and>
     (case a of RegAddress r \<Rightarrow> reg_tag r = tag | SpentAddress _ \<Rightarrow> False | _ \<Rightarrow> True))"

lemma name_bytes_fields:
  assumes "address_ok (su_address u) (su_type_tag u)"
  defines "bs \<equiv> name_bytes u"
  shows "36 \<le> length bs" and "length bs \<le> 44" and "(ucast (bs ! 0) :: u64) = XOR_URL_VERSION_1"
    and "(from_be_bytes 0 (take 2 (drop 1 bs)) :: u16) = su_content_type_u16 u"
    and "take 32 (drop 4 bs) = data_address_name (su_address u)"
    and "(from_be_bytes 0 (replicate (8 - length (drop 36 bs)) 0 @ drop 36 bs) :: u64) = su_type_tag u"
    and "decoded_address (bs ! 3) (data_address_name (su_address u)) (su_type_tag u) = Ok (su_address u)"
proof -
  define k where "k = leading_zeros (su_type_tag u) div 8"
  have k: "k \<le> 8" using leading_zeros_le [of "su_type_tag u"] by (simp add: k_def)
  have name: "length (data_address_name (su_address u)) = 32" using assms by (simp add: address_ok_def)
  have len8: "length (u64_to_be_bytes n) = 8" for n by (simp add: u64_to_be_bytes_def)
  obtain x y where xy: "u16_to_be_bytes (su_content_type_u16 u) = [x, y]" by (simp add: u16_to_be_bytes_def)
  have bs: "bs = 1 # x # y # data_type_code (su_data_type u) # data_address_name (su_address u)
      @ drop k (u64_to_be_bytes (su_type_tag u))"
    by (simp add: bs_def name_bytes_def XOR_URL_VERSION_1_def k_def xy)
  show "36 \<le> length bs" "length bs \<le> 44" by (simp_all add: bs name len8)
  show "(ucast (bs ! 0) :: u64) = XOR_URL_VERSION_1" by (simp add: bs XOR_URL_VERSION_1_def)
  show "(from_be_bytes 0 (take 2 (drop 1 bs)) :: u16) = su_content_type_u16 u"
    using u16_be_round_trip [of "su_content_type_u16 u"] by (simp add: bs xy)
  show "take 32 (drop 4 bs) = data_address_name (su_address u)" by (simp add: bs name)
  have tag: "drop 36 bs = drop k (u64_to_be_bytes (su_type_tag u))" by (simp add: bs name)
  have "8 - length (drop 36 bs) = k" using k by (simp add: tag len8)
  then show "(from_be_bytes 0 (replicate (8 - length (drop 36 bs)) 0 @ drop 36 bs) :: u64) = su_type_tag u"
    using tag_bytes_padded [OF k_def] u64_be_round_trip by (simp add: tag)
  show "decoded_address (bs ! 3) (data_address_name (su_address u)) (su_type_tag u) = Ok (su_address u)"
    using assms(1)
    by (auto simp: bs decoded_address_def address_ok_def su_data_type_def intro: register_address.expand
        split: data_address.splits)
qed

subsection \<open>Well-formed XOR-URLs\<close>

text \<open>The version that a query names: the last pair with the key \<open>v\<close>.\<close>

definition version_of :: "url_api \<Rightarrow> string \<Rightarrow> (version_hash option, url_error) result" where
  "version_of U q =
    (case query_key_last_internal U q URL_VERSION_QUERY_NAME of
       None \<Rightarrow> Ok None
     | Some s \<Rightarrow> map_ok Some (map_err (\<lambda>_. InvalidInput) (version_from_str U s)))"

definition url_ok :: "url_api \<Rightarrow> safe_url \<Rightarrow> bool" where
  "url_ok U u =
    (su_url_type u = XorUrl \<and> su_encoding_version u = XOR_URL_VERSION_1
     \<and> (\<forall>l \<in> set (su_sub_names_vec u). l \<noteq> [] \<and> set l \<subseteq> set label_chars)
     \<and> su_sub_names u = join_with ''.'' (su_sub_names_vec u)
     \<and> length (join_with ''.'' (su_sub_names_vec u)) \<le> 165
     \<and> su_top_name u = name_to_base U u Base32z False \<and> su_public_name u = name_to_base U u Base32z True
     \<and> content_type_value (su_content_type u) = Ok (su_content_type_u16 u)
     \<and> address_ok (su_address u) (su_type_tag u) \<and> path_text (su_path u)
     \<and> set (su_query_string u) \<subseteq> set query_chars \<and> set (su_fragment u) \<subseteq> set path_chars
     \<and> version_of U (su_query_string u) = Ok (su_content_version u))"

lemma set_query_string_eq:
  "set_query_string U u q =
    (case version_of U q of
       Err e \<Rightarrow> (u, Err e)
     | Ok v \<Rightarrow> (u\<lparr>su_content_version := v, su_query_string := q\<rparr>, Ok ()))"
  by (auto simp: set_query_string_def set_content_version_internal_def version_of_def
      split: option.splits result.splits)

lemma host_text:
  assumes laws: "url_laws U" and addr: "address_ok (su_address u) (su_type_tag u)"
    and labels: "\<forall>l \<in> set (su_sub_names_vec u). l \<noteq> [] \<and> set l \<subseteq> set label_chars"
    and subs: "su_sub_names u = join_with ''.'' (su_sub_names_vec u)" and len: "length (su_sub_names u) \<le> 165"
    and b: "b = Base32z \<or> b = Base32"
  defines "ls \<equiv> su_sub_names_vec u @ [name_to_base U u b False]"
  shows "name_to_base U u b True = join_with ''.'' ls"
    and "\<forall>l \<in> set ls. l \<noteq> [] \<and> set l \<subseteq> set label_chars"
    and "length (join_with ''.'' ls) \<le> 255" and "join_with ''.'' ls \<noteq> []"
    and "set (join_with ''.'' ls) \<subseteq> insert (CHR ''.'') (set label_chars)"
proof -
  have b32: "digits_32 (base_encoding b)" using b by (auto simp: digits_32_def)
  have name: "name_to_base U u b True = su_sub_names u @ (if su_sub_names u = [] then [] else ''.'')
      @ name_to_base U u b False"
    by (simp add: name_to_base_def)
  show host: "name_to_base U u b True = join_with ''.'' ls"
    unfolding name ls_def using labels by (intro host_labels subs) auto
  show ls: "\<forall>l \<in> set ls. l \<noteq> [] \<and> set l \<subseteq> set label_chars"
    using labels base_law(2) [OF laws b32] base_chars [OF laws b32] by (auto simp: ls_def name_to_base_def)
  have "length (name_to_base U u b False) \<le> 89"
    using base_length [OF laws b32, of "name_bytes u"] name_bytes_fields(2) [OF addr]
    by (simp add: name_to_base_def)
  then show "length (join_with ''.'' ls) \<le> 255"
    unfolding host [symmetric] name using len by simp
  show "join_with ''.'' ls \<noteq> []"
    unfolding host [symmetric] name using ls by (simp add: ls_def)
  show "set (join_with ''.'' ls) \<subseteq> insert (CHR ''.'') (set label_chars)"
    using set_join [of "''.''" ls] ls by auto
qed

lemma new_url_again:
  assumes ok: "url_ok U u"
  shows "new_url U (su_address u) None (su_type_tag u) (su_content_type u)
      (Some (if su_path u = [] then ''/'' else su_path u)) (Some (su_sub_names_vec u))
      (Some (su_query_string u)) (Some (su_fragment u)) None = Ok u"
proof -
  let ?v = "\<lparr>su_encoding_version = XOR_URL_VERSION_1, su_public_name = [], su_top_name = [],
     su_sub_names = su_sub_names u, su_sub_names_vec = su_sub_names_vec u, su_type_tag = su_type_tag u,
     su_address = su_address u, su_content_type = su_content_type u, su_content_type_u16 = su_content_type_u16 u,
     su_path = [], su_query_string = [], su_fragment = su_fragment u, su_content_version = None,
     su_url_type = XorUrl\<rparr>"
  have names: "url_names U (su_address u) None (Some (su_sub_names_vec u))
      = Ok ([], [], su_sub_names u, su_sub_names_vec u, XorUrl)"
    using ok by (auto simp: url_names_def url_ok_def list_ex_iff Let_def)
  have "name_bytes ?v = name_bytes u" by (simp add: name_bytes_def su_data_type_def)
  then have "name_the_xorurl U ?v = ?v\<lparr>su_top_name := su_top_name u, su_public_name := su_public_name u\<rparr>"
    using ok by (simp add: name_the_xorurl_def DEFAULT_XORURL_BASE_def url_ok_def name_to_base_def Let_def)
  moreover have "content_type_value (su_content_type u) = Ok (su_content_type_u16 u)" "path_text (su_path u)"
    "version_of U (su_query_string u) = Ok (su_content_version u)"
    using ok by (simp_all add: url_ok_def)
  ultimately show ?thesis using ok
    by (simp add: new_url_def names some_or_empty_def Let_def path_kept set_query_string_eq url_ok_def)
qed

lemma url_ok_round_trip:
  assumes laws: "url_laws U" and ok: "url_ok U u" and b: "b = Base32z \<or> b = Base32"
  shows "from_xorurl U (url_encode U u b) = Ok u"
proof -
  have addr: "address_ok (su_address u) (su_type_tag u)" using ok by (simp add: url_ok_def)
  let ?top = "name_to_base U u b False"
  let ?ls = "su_sub_names_vec u @ [?top]"
  have subs: "\<forall>l \<in> set (su_sub_names_vec u). l \<noteq> [] \<and> set l \<subseteq> set label_chars"
    "su_sub_names u = join_with ''.'' (su_sub_names_vec u)" "length (su_sub_names u) \<le> 165"
    using ok by (simp_all add: url_ok_def)
  have h: "name_to_base U u b True = join_with ''.'' ?ls" "\<forall>l \<in> set ?ls. l \<noteq> [] \<and> set l \<subseteq> set label_chars"
    "length (join_with ''.'' ?ls) \<le> 255" "join_with ''.'' ?ls \<noteq> []"
    "set (join_with ''.'' ?ls) \<subseteq> insert (CHR ''.'') (set label_chars)"
    by (rule host_text [OF laws addr subs b])+
  have plain: "plain_text (join_with ''.'' ?ls) (su_path u) (su_query_string u) (su_fragment u)"
    using ok h by (simp add: plain_text_def url_ok_def)
  have written: "url_encode U u b
      = URL_PROTOCOL @ url_text (join_with ''.'' ?ls) (su_path u) (su_query_string u) (su_fragment u)"
    by (simp add: url_encode_def h(1) url_text_def query_string_with_separator_def fragment_with_separator_def)
  have decoded: "ua_base_decode U ?top = Some (base_encoding b, name_bytes u)"
    using b by (auto simp: name_to_base_def digits_32_def base_law(1) [OF laws])
  note bs = name_bytes_fields [OF addr]
  have tag: "(from_be_bytes 0 (replicate (44 - length (name_bytes u)) 0 @ drop 36 (name_bytes u)) :: u64) = su_type_tag u"
    using bs(6) bs(1) by simp
  have ct: "decoded_content_type (su_content_type_u16 u) = Ok (su_content_type u)"
    using ok content_type_round_trip by (simp add: url_ok_def)
  show ?thesis
    unfolding from_xorurl_def written parts_of_text [OF laws plain h(2) _ h(3)]
    using bs(1,2) new_url_again [OF ok]
    by (simp add: decoded bs(3,5,7) bs(4) [simplified] tag ct XOR_NAME_BYTES_OFFSET_def XOR_URL_STR_MAX_LENGTH_def Let_def
        parts_of_text [OF laws plain h(2) _ h(3)])
qed

end
