(* ===== verification/Url_Built.thy ===== *)
theory Url_Built
  imports Url_Round_Trip
begin

section \<open>URLs made by the operations\<close>

text \<open>
  Every XOR-URL that a client makes with \<open>new\<close> and changes with the setters is well formed, so that it is
  read again as it was written, and its version is the one its query names. The exceptions are shown as
  well: a query key that is refused is set nevertheless, and a new content type leaves the names stale.
\<close>

subsection \<open>Paths\<close>

definition path_parts :: "string \<Rightarrow> string list" where
  "path_parts p = (let ps = split_on (CHR ''/'') p in if hd ps = [] then tl ps else ps)"

lemma kept_parts:
  "map snd (filter (\<lambda>(count, x). x \<noteq> [] \<or> count > 0) (enumerate 0 (split_on (CHR ''/'') p))) = path_parts p"
proof -
  obtain q qs where qs: "split_on (CHR ''/'') p = q # qs"
    using split_on_ne [of "CHR ''/''" p] by (cases "split_on (CHR ''/'') p") auto
  have "map snd (filter (\<lambda>(count, x). x \<noteq> [] \<or> count > 0) (enumerate (Suc 0) xs)) = xs" for xs :: "string list"
    by (subst filter_True) (auto simp: in_set_enumerate_eq)
  then show ?thesis by (auto simp: path_parts_def qs)
qed

lemma path_parts_plain:
  assumes "\<not> contains_text p ''//''"
  shows "[] \<notin> set (butlast (path_parts p))" and "x \<in> set (path_parts p) \<Longrightarrow> CHR ''/'' \<notin> set x"
    and "x \<in> set (path_parts p) \<Longrightarrow> set x \<subseteq> set p"
proof -
  obtain q qs where qs: "split_on (CHR ''/'') p = q # qs"
    using split_on_ne [of "CHR ''/''" p] by (cases "split_on (CHR ''/'') p") auto
  show "[] \<notin> set (butlast (path_parts p))"
    using assms unfolding double_split qs by (auto simp: path_parts_def qs Let_def)
  have sub: "set (path_parts p) \<subseteq> set (split_on (CHR ''/'') p)" by (auto simp: path_parts_def Let_def qs)
  then show "x \<in> set (path_parts p) \<Longrightarrow> CHR ''/'' \<notin> set x" using split_parts by blast
  have "set x \<subseteq> set p" if "x \<in> set (split_on (CHR ''/'') p)" for x
    using that
  proof (induction p arbitrary: x)
    case (Cons c p)
    then show ?case using split_on_ne [of "CHR ''/''" p]
      by (cases "split_on (CHR ''/'') p") (fastforce split: if_splits)+
  qed simp
  with sub show "x \<in> set (path_parts p) \<Longrightarrow> set x \<subseteq> set p" by blast
qed

lemma set_path_text:
  assumes laws: "url_laws U" and p: "\<not> contains_text p ''//''"
    and chars: "enc \<or> set p \<subseteq> insert (CHR ''/'') (set path_chars)"
  shows "\<exists>p'. set_path_internal U u p enc = u\<lparr>su_path := p'\<rparr> \<and> path_text p'"
proof (cases "p = []")
  case True
  then show ?thesis by (auto simp: set_path_internal_def path_text_def)
next
  case False
  define f where "f = (\<lambda>x. if enc then ua_encode U x else x)"
  define ps where "ps = map f (path_parts p)"
  have set: "set_path_internal U u p enc = u\<lparr>su_path := (if join_with ''/'' ps = [] then [] else ''/'' @ join_with ''/'' ps)\<rparr>"
    using False unfolding set_path_internal_def Let_def kept_parts ps_def f_def by simp
  have chars: "set x \<subseteq> set path_chars" if "x \<in> set ps" for x
    using that chars path_parts_plain [OF p] encode_law(1) [OF laws]
    by (fastforce simp: ps_def f_def)
  show ?thesis
  proof (cases "join_with ''/'' ps = []")
    case True
    then show ?thesis using set by (auto simp: path_text_def)
  next
    case ne: False
    then have "ps \<noteq> []" by auto
    then have split: "split_on (CHR ''/'') (join_with ''/'' ps) = ps"
      using chars by (intro split_join) (auto simp: path_chars_def)
    have "[] \<notin> set (butlast ps)"
    proof
      assume "[] \<in> set (butlast ps)"
      then obtain x where x: "x \<in> set (butlast (path_parts p))" "f x = []"
        by (auto simp: ps_def simp flip: map_butlast)
      then have "x = []" using encode_law(2) [OF laws, of x] by (simp add: f_def split: if_splits)
      with x path_parts_plain(1) [OF p] show False by simp
    qed
    then have "\<not> contains_text (CHR ''/'' # join_with ''/'' ps) ''//''"
      unfolding double_split using split by simp
    moreover have "set (join_with ''/'' ps) \<subseteq> insert (CHR ''/'') (set path_chars)"
      using set_join [of "''/''" ps] chars by auto
    ultimately have "path_text (CHR ''/'' # join_with ''/'' ps)" using ne by (simp add: path_text_def)
    then show ?thesis using ne set by auto
  qed
qed

subsection \<open>Queries\<close>

lemma replace_other:
  "key \<noteq> k' \<Longrightarrow> filter (\<lambda>(k, v). k = k') (replace_pairs key val b ps) = filter (\<lambda>(k, v). k = k') ps"
  by (induction key val b ps rule: replace_pairs.induct) (auto split: option.splits)

lemma replace_same:
  "filter (\<lambda>(k, v). k = key) (replace_pairs key val b ps)
    = (case val of None \<Rightarrow> [] | Some v \<Rightarrow> if b then [] else [(key, v)])"
  by (induction key val b ps rule: replace_pairs.induct) (auto split: option.splits)

lemma query_read:
  assumes "url_laws U" and "set q \<subseteq> set query_chars"
  obtains url where "query_string_to_url U q = Ok url" and "url_query_pairs U url = ua_form_parse U q"
proof -
  obtain url where "ua_parse U (''file://dummy?'' @ q) = Some url" "pu_query url = Some q"
    using query_law [OF assms] by auto
  then show ?thesis using that by (simp add: query_string_to_url_def url_query_pairs_def some_or_empty_def)
qed

lemma pairs_read:
  assumes "url_laws U" and "set q \<subseteq> set query_chars"
  shows "query_pairs_internal U q = ua_form_parse U q"
  using query_read [OF assms] by (metis query_pairs_internal_def result.case(1))

lemma set_query_key_eq:
  fixes key :: string and val :: "string option"
  assumes laws: "url_laws U" and q: "set (su_query_string u) \<subseteq> set query_chars"
  defines "q' \<equiv> ua_form_serialize U (replace_pairs key val False (ua_form_parse U (su_query_string u)))"
  shows "set_query_key U u key val =
    (if key = URL_VERSION_QUERY_NAME then set_content_version_internal U (u\<lparr>su_query_string := q'\<rparr>) val
     else (u\<lparr>su_query_string := q'\<rparr>, Ok ()))"
    and "set q' \<subseteq> set query_chars"
    and "query_pairs_internal U q' = replace_pairs key val False (query_pairs_internal U (su_query_string u))"
proof -
  obtain url where "query_string_to_url U (su_query_string u) = Ok url"
    "url_query_pairs U url = ua_form_parse U (su_query_string u)"
    using query_read [OF laws q] by blast
  then show "set_query_key U u key val =
    (if key = URL_VERSION_QUERY_NAME then set_content_version_internal U (u\<lparr>su_query_string := q'\<rparr>) val
     else (u\<lparr>su_query_string := q'\<rparr>, Ok ()))"
    by (simp add: set_query_key_def q'_def)
  show chars: "set q' \<subseteq> set query_chars" unfolding q'_def by (rule form_chars [OF laws])
  show "query_pairs_internal U q' = replace_pairs key val False (query_pairs_internal U (su_query_string u))"
    unfolding pairs_read [OF laws chars] pairs_read [OF laws q] by (simp add: q'_def form_law [OF laws])
qed

lemma set_query_key_ok:
  assumes laws: "url_laws U" and ok: "url_ok U u" and set: "set_query_key U u key val = (u', Ok ())"
  shows "url_ok U u'"
proof -
  have q: "set (su_query_string u) \<subseteq> set query_chars" using ok by (simp add: url_ok_def)
  note eq = set_query_key_eq [OF laws q, of key val]
  define q' where "q' = ua_form_serialize U (replace_pairs key val False (ua_form_parse U (su_query_string u)))"
  note eq = eq [folded q'_def]
  have keys: "query_key_internal U q' k = map snd (filter (\<lambda>(k', v). k' = k)
      (replace_pairs key val False (query_pairs_internal U (su_query_string u))))" for k
    by (simp add: query_key_internal_def eq(3))
  have v: "\<exists>v. u' = u\<lparr>su_query_string := q', su_content_version := v\<rparr> \<and> version_of U q' = Ok v"
  proof (cases "key = URL_VERSION_QUERY_NAME")
    case True
    then have "query_key_internal U q' URL_VERSION_QUERY_NAME = (case val of None \<Rightarrow> [] | Some v \<Rightarrow> [v])"
      unfolding keys by (simp add: replace_same split: option.splits)
    then have "query_key_last_internal U q' URL_VERSION_QUERY_NAME = val"
      by (simp add: query_key_last_internal_def split: option.splits)
    with True set eq(1) show ?thesis
      by (auto simp: set_content_version_internal_def version_of_def split: option.splits result.splits)
  next
    case False
    then have "query_key_internal U q' URL_VERSION_QUERY_NAME
        = query_key_internal U (su_query_string u) URL_VERSION_QUERY_NAME"
      unfolding keys by (simp add: replace_other query_key_internal_def)
    then have "version_of U q' = version_of U (su_query_string u)"
      by (simp add: version_of_def query_key_last_internal_def)
    then have "u' = u\<lparr>su_query_string := q'\<rparr>" "version_of U q' = Ok (su_content_version u)"
      using False set eq(1) ok by (simp_all add: url_ok_def)
    then show ?thesis by (intro exI [of _ "su_content_version u"]) simp
  qed
  then obtain v where u': "u' = u\<lparr>su_query_string := q', su_content_version := v\<rparr>" and v: "version_of U q' = Ok v"
    by blast
  have "name_bytes u' = name_bytes u" by (simp add: u' name_bytes_def su_data_type_def)
  then show ?thesis using ok v eq(2) by (simp add: url_ok_def u' name_to_base_def)
qed

lemma url_ok_fields:
  assumes "url_ok U u" and "path_text p" and "set f \<subseteq> set path_chars" and "set q \<subseteq> set query_chars"
    and "version_of U q = Ok v"
  shows "url_ok U (u\<lparr>su_path := p, su_content_version := v, su_query_string := q, su_fragment := f\<rparr>)"
  using assms by (simp add: url_ok_def name_to_base_def name_bytes_def su_data_type_def)

lemma set_content_version_ok:
  assumes laws: "url_laws U" and ok: "url_ok U u" and v: "\<forall>h. v = Some h \<longrightarrow> length (entry_hash h) = 32"
  shows "url_ok U (set_content_version U u v)" and "su_content_version (set_content_version U u v) = v"
proof -
  have q: "set (su_query_string u) \<subseteq> set query_chars" using ok by (simp add: url_ok_def)
  have "version_from_str U (version_display U h) = Ok h" if "v = Some h" for h
    using v that by (simp add: version_from_str_def version_display_def base_law(1) [OF laws] digits_32_def)
  then obtain u' where u': "set_query_key U u URL_VERSION_QUERY_NAME (map_option (version_display U) v) = (u', Ok ())"
      "su_content_version u' = v"
    by (cases v) (simp_all add: set_query_key_eq(1) [OF laws q] set_content_version_internal_def)
  show "url_ok U (set_content_version U u v)" "su_content_version (set_content_version U u v) = v"
    using set_query_key_ok [OF laws ok u'(1)] u' by (simp_all add: set_content_version_def)
qed

definition labels_of :: "string \<Rightarrow> string list" where
  "labels_of s = (if s = [] then [] else split_on (CHR ''.'') s)"

definition sub_names_text :: "string list \<Rightarrow> bool" where
  "sub_names_text ls =
     ((\<forall>l \<in> set ls. l \<noteq> [] \<and> set l \<subseteq> set label_chars) \<and> length (join_with ''.'' ls) \<le> 165)"

lemma set_sub_names_ok:
  assumes laws: "url_laws U" and ok: "url_ok U u" and s: "sub_names_text (labels_of s)"
  shows "\<exists>u'. set_sub_names U u s = (u', Ok ()) \<and> url_ok U u' \<and> su_sub_names u' = s"
proof -
  define ls where "ls = labels_of s"
  have join: "s = join_with ''.'' ls" by (simp add: ls_def labels_of_def join_split)
  define u' where "u' = u\<lparr>su_sub_names := s, su_sub_names_vec := ls,
      su_public_name := join_with ''.'' (ls @ [su_top_name u])\<rparr>"
  have addr: "address_ok (su_address u') (su_type_tag u')"
    and names: "\<forall>l \<in> set (su_sub_names_vec u'). l \<noteq> [] \<and> set l \<subseteq> set label_chars"
      "su_sub_names u' = join_with ''.'' (su_sub_names_vec u')" "length (su_sub_names u') \<le> 165"
    using ok s [folded ls_def] join [symmetric] by (simp_all add: url_ok_def u'_def sub_names_text_def)
  have bytes: "name_bytes u' = name_bytes u" by (simp add: u'_def name_bytes_def su_data_type_def)
  have top_name: "name_to_base U u' Base32z False = su_top_name u"
    using ok by (simp add: url_ok_def name_to_base_def bytes)
  note h = host_text [OF laws addr names disjI1 [OF refl], unfolded top_name]
  have vec: "su_sub_names_vec u' = ls" "su_sub_names u' = s" by (simp_all add: u'_def)
  have plain: "plain_text (join_with ''.'' (ls @ [su_top_name u])) [] [] []"
    using h(4,5) by (simp add: plain_text_def path_text_def vec)
  have "s @ (if s = [] then [] else ''.'') @ su_top_name u = join_with ''.'' (ls @ [su_top_name u])"
    using names by (intro host_labels join) (simp add: vec)
  moreover have "url_parts_parse U (URL_PROTOCOL @ url_text (join_with ''.'' (ls @ [su_top_name u])) [] [] []) True =
    Ok \<lparr>up_scheme = ''safe'', up_public_name = join_with ''.'' (ls @ [su_top_name u]), up_top_name = su_top_name u,
      up_sub_names = s, up_sub_names_vec = ls, up_path = ''/'', up_query_string = [], up_fragment = []\<rparr>"
    using parts_of_text [OF laws plain _ _ h(3) [unfolded vec]] h(2) by (simp add: vec join [symmetric])
  ultimately have "set_sub_names U u s = (u', Ok ())"
    by (simp add: set_sub_names_def url_text_def u'_def)
  moreover have "url_ok U u'"
    using ok h(1) names top_name bytes
    by (simp add: url_ok_def vec) (simp add: u'_def name_to_base_def)
  ultimately show ?thesis using vec by blast
qed

lemma new_url_ok:
  assumes laws: "url_laws U" and a: "address_ok a tag" and c: "content_type_value c = Ok n"
    and subs: "sub_names_text (case subs of None \<Rightarrow> [] | Some ls \<Rightarrow> ls)"
    and p: "\<not> contains_text (some_or_empty path) ''//''"
      "set (some_or_empty path) \<subseteq> insert (CHR ''/'') (set path_chars)"
    and q: "set (some_or_empty query) \<subseteq> set query_chars" "version_of U (some_or_empty query) = Ok qv"
    and f: "set (some_or_empty fragment) \<subseteq> set path_chars"
    and v: "\<forall>h. v = Some h \<longrightarrow> length (entry_hash h) = 32"
  shows "\<exists>u. new_url U a None tag c path subs query fragment v = Ok u \<and> url_ok U u"
proof -
  define ls where "ls = (case subs of None \<Rightarrow> [] | Some ls \<Rightarrow> ls)"
  define u0 where "u0 = \<lparr>su_encoding_version = XOR_URL_VERSION_1, su_public_name = [], su_top_name = [],
     su_sub_names = join_with ''.'' ls, su_sub_names_vec = ls, su_type_tag = tag, su_address = a,
     su_content_type = c, su_content_type_u16 = n, su_path = [], su_query_string = [],
     su_fragment = some_or_empty fragment, su_content_version = None, su_url_type = XorUrl\<rparr>"
  define u1 where "u1 = name_the_xorurl U u0"
  obtain p' where p': "set_path_internal U u1 (some_or_empty path) False = u1\<lparr>su_path := p'\<rparr>" "path_text p'"
    using set_path_text [OF laws p(1), of False u1] p(2) by auto
  define u2 where "u2 = u1\<lparr>su_path := p', su_content_version := qv, su_query_string := some_or_empty query\<rparr>"
  have ls: "\<forall>l \<in> set ls. l \<noteq> [] \<and> set l \<subseteq> set label_chars" "length (join_with ''.'' ls) \<le> 165"
    using subs by (simp_all add: sub_names_text_def ls_def)
  then have names: "url_names U a None subs = Ok ([], [], join_with ''.'' ls, ls, XorUrl)"
    by (auto simp: url_names_def ls_def [symmetric] Let_def list_ex_iff)
  have "name_bytes u2 = name_bytes u0"
    by (simp add: u2_def u1_def u0_def name_the_xorurl_def Let_def name_bytes_def su_data_type_def)
  then have ok: "url_ok U u2"
    using ls a c p' q f
    by (simp add: url_ok_def name_to_base_def)
      (simp add: u2_def u1_def u0_def name_the_xorurl_def Let_def name_to_base_def DEFAULT_XORURL_BASE_def)
  have "new_url U a None tag c path subs query fragment v
      = Ok (case v of None \<Rightarrow> u2 | Some h \<Rightarrow> set_content_version U u2 (Some h))"
    by (simp add: new_url_def c names u0_def [symmetric] u1_def [symmetric] p' set_query_string_eq q(2)
        u2_def split: option.splits)
  then show ?thesis using ok set_content_version_ok(1) [OF laws ok, of v] v by (auto split: option.splits)
qed

text \<open>
  The XOR-URLs a client can make: \<open>new\<close> on an address whose register tag is the type tag, then any
  setters, with texts that are percent-encoded where the interface asks for it. A setter that fails
  gives no URL.
\<close>

inductive built :: "url_api \<Rightarrow> safe_url \<Rightarrow> bool" for U where
  made: "new_url U a None tag c path subs query fragment v = Ok u \<Longrightarrow> address_ok a tag
    \<Longrightarrow> sub_names_text (case subs of None \<Rightarrow> [] | Some ls \<Rightarrow> ls)
    \<Longrightarrow> \<not> contains_text (some_or_empty path) ''//''
    \<Longrightarrow> set (some_or_empty path) \<subseteq> insert (CHR ''/'') (set path_chars)
    \<Longrightarrow> set (some_or_empty query) \<subseteq> set query_chars \<Longrightarrow> set (some_or_empty fragment) \<subseteq> set path_chars
    \<Longrightarrow> \<forall>h. v = Some h \<longrightarrow> length (entry_hash h) = 32 \<Longrightarrow> built U u"
| with_path: "built U u \<Longrightarrow> \<not> contains_text p ''//'' \<Longrightarrow> built U (set_path U u p)"
| with_query_key: "built U u \<Longrightarrow> set_query_key U u key val = (u', Ok ()) \<Longrightarrow> built U u'"
| with_query: "built U u \<Longrightarrow> set q \<subseteq> set query_chars \<Longrightarrow> set_query_string U u q = (u', Ok ()) \<Longrightarrow> built U u'"
| with_version: "built U u \<Longrightarrow> \<forall>h. v = Some h \<longrightarrow> length (entry_hash h) = 32
    \<Longrightarrow> built U (set_content_version U u v)"
| with_fragment: "built U u \<Longrightarrow> set f \<subseteq> set path_chars \<Longrightarrow> built U (set_fragment u f)"
| with_sub_names: "built U u \<Longrightarrow> sub_names_text (labels_of s) \<Longrightarrow> set_sub_names U u s = (u', Ok ())
    \<Longrightarrow> built U u'"

lemma new_url_version:
  assumes "new_url U a None tag c path subs query fragment v = Ok u"
  shows "\<exists>n qv. content_type_value c = Ok n \<and> version_of U (some_or_empty query) = Ok qv"
  using assms
  by (cases "version_of U (some_or_empty query)")
    (auto simp: new_url_def Let_def set_query_string_eq split: prod.splits)

lemma built_ok:
  assumes laws: "url_laws U" and "built U u"
  shows "url_ok U u"
  using assms(2)
proof (induction rule: built.induct)
  case (made a tag c path subs query fragment v u)
  from new_url_version [OF made(1)] obtain n qv where
    "content_type_value c = Ok n" "version_of U (some_or_empty query) = Ok qv" by blast
  from new_url_ok [OF laws made(2) this(1) made(3,4,5,6) this(2) made(7,8)] made(1) show ?case by auto
next
  case (with_path u p)
  obtain p' where "set_path U u p = u\<lparr>su_path := p'\<rparr>" "path_text p'"
    using set_path_text [OF laws with_path(2), of True u] by (auto simp: set_path_def)
  then show ?case using url_ok_fields [OF with_path.IH, of p' "su_fragment u" "su_query_string u" "su_content_version u"]
      with_path.IH by (simp add: url_ok_def)
next
  case (with_query_key u key val u')
  then show ?case using set_query_key_ok [OF laws] by blast
next
  case (with_query u q u')
  from with_query(3) obtain v where "version_of U q = Ok v" "u' = u\<lparr>su_content_version := v, su_query_string := q\<rparr>"
    by (auto simp: set_query_string_eq split: result.splits)
  then show ?case using url_ok_fields [OF with_query.IH, of "su_path u" "su_fragment u" q v] with_query
    by (simp add: url_ok_def)
next
  case (with_version u v)
  then show ?case using set_content_version_ok [OF laws] by blast
next
  case (with_fragment u f)
  then show ?case using url_ok_fields [OF with_fragment.IH, of "su_path u" f "su_query_string u" "su_content_version u"]
    by (simp add: url_ok_def set_fragment_def)
next
  case (with_sub_names u s u')
  then show ?case using set_sub_names_ok [OF laws with_sub_names.IH with_sub_names(2)] by auto
qed

lemma content_type_renamed:
  assumes ok: "url_ok U u" and set: "set_content_type u c = (u', Ok ())"
  shows "url_ok U (name_the_xorurl U u')" and "url_encode U (name_the_xorurl U u') b = url_encode U u' b"
proof -
  obtain n where n: "content_type_value c = Ok n" "u' = u\<lparr>su_content_type_u16 := n, su_content_type := c\<rparr>"
    using set by (auto simp: set_content_type_def split: result.splits)
  define u'' where "u'' = name_the_xorurl U u'"
  have u'': "u'' = u'\<lparr>su_top_name := name_to_base U u' Base32z False, su_public_name := name_to_base U u' Base32z True\<rparr>"
    using ok n by (simp add: u''_def name_the_xorurl_def url_ok_def name_to_base_def DEFAULT_XORURL_BASE_def Let_def)
  have bytes: "name_bytes u'' = name_bytes u'" by (simp add: u'' name_bytes_def su_data_type_def)
  have base: "name_to_base U u'' b i = name_to_base U u' b i" for b i
    unfolding name_to_base_def bytes Let_def by (simp add: u'')
  show "url_ok U (name_the_xorurl U u')"
    using ok n(1) unfolding u''_def [symmetric] url_ok_def base by (simp add: u'' n(2))
  show "url_encode U (name_the_xorurl U u') b = url_encode U u' b"
    unfolding u''_def [symmetric] url_encode_def base
    by (simp add: u'' query_string_with_separator_def fragment_with_separator_def)
qed


subsection \<open>A reference instance of the crates\<close>

text \<open>Hexadecimal digits stand for every encoding; a URL is cut at its separators.\<close>

definition hex_alphabet :: string where "hex_alphabet = ''0123456789abcdef''"

definition hex_digit :: "nat \<Rightarrow> char" where
  "hex_digit n = hex_alphabet ! n"

definition hex_value :: "char \<Rightarrow> nat" where
  "hex_value c = (if of_char c < (58 :: nat) then of_char c - 48 else of_char c - 87)"

fun hex_text :: "nat list \<Rightarrow> string" where
  "hex_text [] = []"
| "hex_text (n # ns) = hex_digit (n div 16) # hex_digit (n mod 16) # hex_text ns"

fun hex_read :: "string \<Rightarrow> nat list" where
  "hex_read (a # b # s) = (hex_value a * 16 + hex_value b) # hex_read s"
| "hex_read _ = []"

lemma hex_digits: "n < 16 \<Longrightarrow> hex_value (hex_digit n) = n \<and> hex_digit n \<in> set hex_alphabet"
proof -
  assume "n < 16"
  moreover have "\<forall>n \<in> set [0..<16]. hex_value (hex_digit n) = n \<and> hex_digit n \<in> set hex_alphabet"
    by code_simp
  ultimately show ?thesis by simp
qed

lemma hex_round_trip: "\<forall>n \<in> set ns. n < 256 \<Longrightarrow> hex_read (hex_text ns) = ns"
  by (induction ns) (auto simp: hex_digits)

lemma hex_chars: "\<forall>n \<in> set ns. n < 256 \<Longrightarrow> set (hex_text ns) \<subseteq> set hex_alphabet"
proof (induction ns)
  case (Cons n ns)
  then have "n div 16 < 16" "n mod 16 < 16" by auto
  with Cons hex_digits show ?case by simp
qed simp

lemma hex_length [simp]: "length (hex_text ns) = 2 * length ns"
  by (induction ns) auto

definition hex_string :: "string \<Rightarrow> string" where
  "hex_string s = hex_text (map of_char s)"

definition string_read :: "string \<Rightarrow> string" where
  "string_read s = map char_of (hex_read s)"

lemma hex_string_laws:
  "string_read (hex_string s) = s" "set (hex_string s) \<subseteq> set hex_alphabet" "hex_string s = [] \<longleftrightarrow> s = []"
proof -
  have small: "\<forall>n \<in> set (map of_char s). n < (256 :: nat)" by auto
  show "string_read (hex_string s) = s"
    by (simp add: string_read_def hex_string_def hex_round_trip [OF small] comp_def)
  show "set (hex_string s) \<subseteq> set hex_alphabet"
    unfolding hex_string_def by (rule hex_chars [OF small])
  show "hex_string s = [] \<longleftrightarrow> s = []" by (cases s) (simp_all add: hex_string_def)
qed

definition cut :: "char \<Rightarrow> string \<Rightarrow> string \<times> string option" where
  "cut c s = (takeWhile (\<lambda>x. x \<noteq> c) s, case dropWhile (\<lambda>x. x \<noteq> c) s of [] \<Rightarrow> None | _ # r \<Rightarrow> Some r)"

lemma cut_plain:
  assumes "c \<notin> set s"
  shows "cut c s = (s, None)"
proof -
  have "dropWhile (\<lambda>x. x \<noteq> c) s = []" and "takeWhile (\<lambda>x. x \<noteq> c) s = s" using assms by auto
  then show ?thesis by (simp only: cut_def list.case)
qed

lemma cut_at: "c \<notin> set s \<Longrightarrow> cut c (s @ c # r) = (s, Some r)"
  by (induction s) (auto simp: cut_def)

fun base_tag :: "base \<Rightarrow> string" where
  "base_tag Base32Z = ''h''"
| "base_tag Base32Lower = ''b''"
| "base_tag Base64Plain = ''m''"
| "base_tag (OtherBase n) = replicate n (CHR ''o'') @ ''x''"

definition ref_base_decode :: "string \<Rightarrow> (base \<times> bytes) option" where
  "ref_base_decode s =
    (case s of
       [] \<Rightarrow> None
     | c # r \<Rightarrow>
         let read = (\<lambda>t. map of_nat (hex_read t));
             n = length (takeWhile (\<lambda>x. x = CHR ''o'') s)
         in Some (if c = CHR ''h'' then (Base32Z, read r) else if c = CHR ''b'' then (Base32Lower, read r)
              else if c = CHR ''m'' then (Base64Plain, read r) else (OtherBase n, read (drop (Suc n) s))))"

definition ref_url_api :: url_api where
  "ref_url_api =
    \<lparr>ua_parse = (\<lambda>s.
       if prefix ''safe://'' s then
         let (t, f) = cut (CHR ''#'') (drop 7 s); (t', q) = cut (CHR ''?'') t in
         Some \<lparr>pu_scheme = ''safe'', pu_host = Some (fst (cut (CHR ''/'') t')), pu_query = q, pu_fragment = f\<rparr>
       else if prefix ''file://dummy?'' s then
         Some \<lparr>pu_scheme = ''file'', pu_host = Some ''dummy'', pu_query = Some (drop 13 s), pu_fragment = None\<rparr>
       else None),
     ua_http_path = (\<lambda>s.
       Some (CHR ''/'' # some_or_empty (snd (cut (CHR ''/'')
         (fst (cut (CHR ''?'') (fst (cut (CHR ''#'') (drop 7 s))))))))),
     ua_form_parse = (\<lambda>s.
       if s = [] then []
       else map (\<lambda>p. (string_read (fst (cut (CHR ''='') p)), string_read (some_or_empty (snd (cut (CHR ''='') p)))))
         (split_on (CHR ''&'') s)),
     ua_form_serialize = (\<lambda>ps. join_with ''&'' (map (\<lambda>(k, v). hex_string k @ CHR ''='' # hex_string v) ps)),
     ua_encode = hex_string,
     ua_decode = (\<lambda>s. Some (string_read s)),
     ua_base_encode = (\<lambda>b bs. base_tag b @ hex_text (map unat bs)),
     ua_base_decode = ref_base_decode,
     ua_from_content = (\<lambda>s. replicate 32 (of_nat (length s)))\<rparr>"

lemma byte_small: "unat (w :: u8) < 256"
proof -
  have "unat w < 2 ^ LENGTH(8)" by (rule unsigned_less)
  then show ?thesis by simp
qed

lemma base_read: "ref_base_decode (base_tag b @ hex_text (map unat bs)) = Some (b, bs)"
proof -
  have bs: "map of_nat (hex_read (hex_text (map unat bs))) = bs"
    using hex_round_trip [of "map unat bs"] byte_small by (simp add: comp_def)
  show ?thesis
  proof (cases b)
    case (OtherBase n)
    then show ?thesis using bs
      by (cases n) (simp_all add: ref_base_decode_def Let_def takeWhile_append takeWhile_replicate)
  qed (simp_all add: ref_base_decode_def Let_def bs)
qed

lemma separators:
  "CHR ''#'' \<notin> set label_chars" "CHR ''?'' \<notin> set label_chars" "CHR ''/'' \<notin> set label_chars"
  "CHR ''#'' \<notin> set path_chars" "CHR ''?'' \<notin> set path_chars" "CHR ''#'' \<notin> set query_chars"
  "CHR ''&'' \<notin> set hex_alphabet" "CHR ''='' \<notin> set hex_alphabet"
  "CHR ''&'' \<in> set query_chars" "CHR ''='' \<in> set query_chars"
  "set ''hb'' \<subseteq> set label_chars"
  by code_simp+

lemma ref_parts:
  assumes "plain_text host p q f"
  shows "cut (CHR ''#'') (url_text host p q f) = (host @ p @ (if q = [] then [] else CHR ''?'' # q), opt_text f)"
    and "cut (CHR ''?'') (host @ p @ (if q = [] then [] else CHR ''?'' # q)) = (host @ p, opt_text q)"
    and "cut (CHR ''/'') (host @ p) = (host, map_option tl (opt_text p))"
proof -
  have host: "CHR ''#'' \<notin> set host" "CHR ''?'' \<notin> set host" "CHR ''/'' \<notin> set host"
    using assms separators(1-3) by (auto simp: plain_text_def)
  have p: "set p \<subseteq> insert (CHR ''/'') (set path_chars)" "p \<noteq> [] \<Longrightarrow> p = CHR ''/'' # tl p"
    using assms unfolding plain_text_def path_text_def by (cases p; auto)+
  have p': "CHR ''#'' \<notin> set p" "CHR ''?'' \<notin> set p" using p(1) separators(4,5) by auto
  have q: "CHR ''#'' \<notin> set q" using assms separators(6) by (auto simp: plain_text_def)
  show "cut (CHR ''#'') (url_text host p q f) = (host @ p @ (if q = [] then [] else CHR ''?'' # q), opt_text f)"
    using host p' q cut_at [of "CHR ''#''" "host @ p @ (if q = [] then [] else CHR ''?'' # q)" f]
      cut_plain [of "CHR ''#''" "host @ p @ (if q = [] then [] else CHR ''?'' # q)"]
    by (simp add: url_text_def opt_text_def)
  show "cut (CHR ''?'') (host @ p @ (if q = [] then [] else CHR ''?'' # q)) = (host @ p, opt_text q)"
    using host p' cut_at [of "CHR ''?''" "host @ p" q] cut_plain [of "CHR ''?''" "host @ p"]
    by (simp add: opt_text_def)
  show "cut (CHR ''/'') (host @ p) = (host, map_option tl (opt_text p))"
    using host p(2) cut_at [of "CHR ''/''" host "tl p"] cut_plain [of "CHR ''/''" host]
    by (cases "p = []") (auto simp: opt_text_def)
qed

lemma ref_parse_laws: "parse_laws ref_url_api"
  unfolding parse_laws_def
proof (intro allI impI conjI)
  fix host p q f assume plain: "plain_text host p q f"
  note parts = ref_parts [OF plain]
  show "ua_parse ref_url_api (''safe://'' @ url_text host p q f) =
      Some \<lparr>pu_scheme = ''safe'', pu_host = Some host, pu_query = opt_text q, pu_fragment = opt_text f\<rparr>"
    by (simp add: ref_url_api_def parts)
  have "p \<noteq> [] \<Longrightarrow> p = CHR ''/'' # tl p"
    using plain unfolding plain_text_def path_text_def by (cases p) auto
  then show "ua_http_path ref_url_api (''http://'' @ url_text host p q f) = Some (if p = [] then ''/'' else p)"
    by (auto simp: ref_url_api_def parts some_or_empty_def opt_text_def)
qed

lemma hex_in_chars:
  "set hex_alphabet \<subseteq> set label_chars" "set hex_alphabet \<subseteq> set path_chars"
  "set hex_alphabet \<subseteq> set query_chars"
  by code_simp+

lemma ref_form:
  "ua_form_parse ref_url_api (ua_form_serialize ref_url_api ps) = ps"
  "set (ua_form_serialize ref_url_api ps) \<subseteq> set query_chars"
proof -
  define w where "w = (\<lambda>(k, v). hex_string k @ CHR ''='' # hex_string v)"
  define r where "r = (\<lambda>p. (string_read (fst (cut (CHR ''='') p)), string_read (some_or_empty (snd (cut (CHR ''='') p)))))"
  have hex: "CHR ''&'' \<notin> set (hex_string s)" "CHR ''='' \<notin> set (hex_string s)" for s
    using hex_string_laws(2) [of s] separators(7,8) by auto
  have rw: "r (w kv) = kv" for kv
    by (cases kv) (simp add: r_def w_def cut_at hex hex_string_laws some_or_empty_def)
  have ser: "ua_form_serialize ref_url_api ps = join_with ''&'' (map w ps)"
    by (simp add: ref_url_api_def w_def)
  have "CHR ''&'' \<notin> set (w kv)" for kv by (cases kv) (simp add: w_def hex)
  then have "ps \<noteq> [] \<Longrightarrow> split_on (CHR ''&'') (join_with ''&'' (map w ps)) = map w ps"
    by (intro split_join) auto
  moreover have "ps \<noteq> [] \<Longrightarrow> join_with ''&'' (map w ps) \<noteq> []"
    by (cases ps; cases "tl ps") (auto simp: w_def split: prod.splits)
  ultimately show "ua_form_parse ref_url_api (ua_form_serialize ref_url_api ps) = ps"
    unfolding ser by (cases "ps = []") (simp_all add: ref_url_api_def r_def [symmetric] comp_def rw)
  have "set (w kv) \<subseteq> set query_chars" for kv
    using hex_string_laws(2) hex_in_chars(3) separators(10) by (cases kv) (auto simp: w_def)
  then have "\<Union> (set ` set (map w ps)) \<subseteq> set query_chars" by (simp add: UN_subset_iff)
  then show "set (ua_form_serialize ref_url_api ps) \<subseteq> set query_chars"
    unfolding ser by (intro order_trans [OF set_join]) (use separators(9) in simp)
qed

lemma ref_url_laws: "url_laws ref_url_api"
proof -
  have "encode_laws ref_url_api"
  proof -
    have "set (base_tag b @ hex_text (map unat bs)) \<subseteq> set label_chars" if "digits_32 b" for b and bs :: bytes
    proof -
      have "set (hex_text (map unat bs)) \<subseteq> set hex_alphabet"
        by (rule hex_chars) (simp add: byte_small)
      with hex_in_chars(1) separators(11) that show ?thesis by (auto simp: digits_32_def)
    qed
    moreover have "base_tag b \<noteq> []" for b by (cases b) auto
    moreover have "set (hex_string s) \<subseteq> set path_chars" for s
      using hex_string_laws(2) [of s] hex_in_chars(2) by blast
    ultimately show ?thesis
      using hex_string_laws(3) base_read
      by (auto simp: encode_laws_def ref_url_api_def digits_32_def)
  qed
  moreover have "query_laws ref_url_api"
    using ref_form by (simp add: query_laws_def) (simp add: ref_url_api_def)
  ultimately show ?thesis using ref_parse_laws by (simp add: url_laws_def)
qed

definition sample_address :: data_address where
  "sample_address = RegAddress (RegisterAddress (replicate 32 7) 1500)"

lemma sample_url:
  "\<exists>u. new_url ref_url_api sample_address None 1500 FilesContainer (Some ''docs/a.txt'') (Some [''www''])
      None (Some ''top'') (Some (VersionHash (replicate 32 9))) = Ok u \<and> url_ok ref_url_api u"
proof (rule new_url_ok [OF ref_url_laws])
  show "address_ok sample_address 1500" by (simp add: sample_address_def address_ok_def)
  show "content_type_value FilesContainer = Ok 2" by simp
  show "sub_names_text (case Some [''www''] of None \<Rightarrow> [] | Some ls \<Rightarrow> ls)" by code_simp
  show "\<not> contains_text (some_or_empty (Some ''docs/a.txt'')) ''//''" by code_simp
  show "set (some_or_empty (Some ''docs/a.txt'')) \<subseteq> insert (CHR ''/'') (set path_chars)" by code_simp
  show "set (some_or_empty None) \<subseteq> set query_chars" by (simp add: some_or_empty_def)
  show "version_of ref_url_api (some_or_empty None) = Ok None" by code_simp
  show "set (some_or_empty (Some ''top'')) \<subseteq> set path_chars" by code_simp
qed simp


subsection \<open>Where the fields part\<close>

text \<open>A version that cannot be read is refused, but it stays in the query: the URL can then not be read again.\<close>

lemma refused_version_stays:
  assumes laws: "url_laws U" and q: "set (su_query_string u) \<subseteq> set query_chars"
    and bad: "version_from_str U s = Err e"
  shows "\<exists>u'. set_query_key U u URL_VERSION_QUERY_NAME (Some s) = (u', Err InvalidInput)
    \<and> su_content_version u' = su_content_version u \<and> version_of U (su_query_string u') = Err InvalidInput"
proof -
  note eq = set_query_key_eq [OF laws q, of URL_VERSION_QUERY_NAME "Some s"]
  have "version_of U (ua_form_serialize U (replace_pairs URL_VERSION_QUERY_NAME (Some s) False
      (ua_form_parse U (su_query_string u)))) = Err InvalidInput"
    using bad by (simp add: version_of_def query_key_last_internal_def query_key_internal_def eq(3) replace_same)
  then show ?thesis using eq(1) bad by (auto simp: set_content_version_internal_def)
qed

text \<open>A new content type is not put into the names: the public name still stands for the old one.\<close>

lemma content_type_name_stale:
  assumes laws: "url_laws U" and ok: "url_ok U u" and c: "content_type_value c = Ok n" and n: "n \<noteq> su_content_type_u16 u"
  shows "\<exists>u'. set_content_type u c = (u', Ok ()) \<and> su_top_name u' \<noteq> name_to_base U u' DEFAULT_XORURL_BASE False"
proof -
  let ?u = "u\<lparr>su_content_type_u16 := n, su_content_type := c\<rparr>"
  have "name_bytes ?u \<noteq> name_bytes u"
  proof
    assume "name_bytes ?u = name_bytes u"
    then have "u16_to_be_bytes n = u16_to_be_bytes (su_content_type_u16 u)"
      by (simp add: name_bytes_def u16_to_be_bytes_def)
    then show False using n u16_be_round_trip by metis
  qed
  then have "ua_base_encode U Base32Z (name_bytes u) \<noteq> ua_base_encode U Base32Z (name_bytes ?u)"
    using base_law(1) [OF laws, of Base32Z] by (metis digits_32_def option.inject prod.inject)
  then show ?thesis
    using ok c by (simp add: set_content_type_def url_ok_def name_to_base_def DEFAULT_XORURL_BASE_def)
qed

end
