(* ===== verification/Nrs_Links.thy ===== *)
theory Nrs_Links
  imports Nrs_Map Url_Built
begin

section \<open>What a public name resolves to\<close>

text \<open>
  A name has the links that the entries of its multimap give it. It resolves when it has exactly one,
  conflicts on other names notwithstanding, and a new association makes it resolve to the new link.
\<close>

subsection \<open>The map of a set of entries\<close>

lemma collect_ok_set:
  "collect_ok rs = Ok xs \<Longrightarrow> set xs = {x. Ok x \<in> set rs}"
  "collect_ok rs = Ok xs \<Longrightarrow> set rs = Ok ` set xs"
proof (induction rs arbitrary: xs)
  case (Cons r rs)
  { case 1 with Cons show ?case by fastforce }
  { case 2 with Cons show ?case by fastforce }
qed simp_all

lemma collect_ok_exists: "\<forall>r \<in> set rs. is_ok r \<Longrightarrow> \<exists>xs. collect_ok rs = Ok xs"
  by (induction rs) (auto simp: is_ok_iff)

lemma nrs_map_facts:
  assumes wf: "bs_wf s"
  defines "m \<equiv> nrs_entries (get_nrs_map_from_set s)"
  shows "bm_wf m" and "bm_get m name = Some u \<Longrightarrow> (name, u) \<in> set s"
    and "bm_get m name = None \<longleftrightarrow> name \<notin> fst ` set s"
    and "length m \<noteq> length s \<longleftrightarrow> \<not> inj_on fst (set s)"
proof -
  have m: "m = bm_from_iter s" by (simp add: m_def get_nrs_map_from_set_def)
  show bm: "bm_wf m" by (simp add: m btree_simps)
  have get: "bm_get m = map_of (rev s)" by (simp add: m btree_simps)
  show "bm_get m name = Some u \<Longrightarrow> (name, u) \<in> set s"
    unfolding get by (auto dest: map_of_SomeD)
  show none: "bm_get m name = None \<longleftrightarrow> name \<notin> fst ` set s" for name
    unfolding get by (simp add: map_of_eq_None_iff)
  have "fst ` set m = fst ` set s"
    using none by (auto simp: map_of_eq_None_iff)
  then have "length m = card (fst ` set s)"
    using bm_wf_distinct [OF bm] by (metis distinct_card length_map list.set_map)
  moreover have "length s = card (set s)" using bs_wf_distinct [OF wf] by (simp add: distinct_card)
  ultimately show "length m \<noteq> length s \<longleftrightarrow> \<not> inj_on fst (set s)"
    using inj_on_iff_eq_card [of "set s" fst] by auto
qed

definition links_of :: "(version_hash \<times> string \<times> safe_url) list \<Rightarrow> string \<Rightarrow> safe_url set" where
  "links_of es name = {u. \<exists>v. (v, name, u) \<in> set es}"

text \<open>The answer for a name with the given links; the map that comes with it is left open.\<close>

definition answers :: "(safe_url option \<times> nrs_map, api_error) result \<Rightarrow> string \<Rightarrow> safe_url set \<Rightarrow> bool" where
  "answers r name links =
    (if links = {} then
       (if public_name_contains_subname name then r = Err ContentError else \<exists>m. r = Ok (None, m))
     else if \<exists>l. links = {l} then \<exists>l m. links = {l} \<and> r = Ok (Some l, m)
     else \<exists>c m. r = Err (ConflictingNrsEntries c m))"

lemma set_answers:
  assumes wf: "bs_wf s"
  defines "m \<equiv> get_nrs_map_from_set s"
  defines "c \<equiv> filter (\<lambda>x. x \<notin> set (nrs_entries m)) s"
  shows "answers (and_then (if length (nrs_entries m) \<noteq> length s \<and> list_ex (\<lambda>(p, _). p = name) c
        then Err (ConflictingNrsEntries c m) else Ok m) (\<lambda>m. map_ok (\<lambda>url. (url, m)) (nrs_map_get m name)))
      name {u. (name, u) \<in> set s}"
proof -
  let ?links = "{u. (name, u) \<in> set s}"
  note facts = nrs_map_facts [OF wf, folded m_def]
  have in_m: "(n, u) \<in> set (nrs_entries m) \<longleftrightarrow> bm_get (nrs_entries m) n = Some u" for n u
    by (rule bm_in_set_iff [OF facts(1)])
  have c: "list_ex (\<lambda>(p, _). p = name) c \<longleftrightarrow> (\<exists>u. (name, u) \<in> set s \<and> bm_get (nrs_entries m) name \<noteq> Some u)"
    by (auto simp: c_def list_ex_iff in_m)
  show ?thesis
  proof (cases "bm_get (nrs_entries m) name")
    case None
    then have "?links = {}" using facts(3) [of name] by force
    then show ?thesis using None c by (auto simp: answers_def nrs_map_get_def)
  next
    case (Some u)
    then have u: "u \<in> ?links" using facts(2) by simp
    show ?thesis
    proof (cases "?links = {u}")
      case True
      then show ?thesis using Some c by (auto simp: answers_def nrs_map_get_def)
    next
      case False
      then obtain w where w: "(name, w) \<in> set s" "w \<noteq> u" using u by auto
      then have "\<not> inj_on fst (set s)" using u inj_onD [of fst "set s" "(name, w)" "(name, u)"] by auto
      moreover have "w \<in> ?links" using w by simp
      then have "\<nexists>l. ?links = {l}" using u w(2) by (metis singletonD)
      ultimately show ?thesis using u w Some c facts(4) by (auto simp: answers_def)
    qed
  qed
qed

lemma nrs_get_answers:
  assumes url: "from_url U (''safe://'' @ name) = Ok url"
    and fetched: "fetch_multimap Q S N url = Ok mm \<or> fetch_multimap Q S N url = Err EmptyContent \<and> mm = []"
    and es: "collect_ok (map (nrs_entry U) mm) = Ok es"
  shows "answers (nrs_get U Q S N name None) name (links_of es name)"
proof -
  define s where "s = bs_from_iter (map snd es)"
  have wf: "bs_wf s" by (simp add: s_def btree_simps)
  define m where "m = get_nrs_map_from_set s"
  have "{u. (name, u) \<in> set s} = links_of es name" by (force simp: s_def btree_simps links_of_def)
  moreover have "nrs_get_subnames_map U Q S N name None =
      (if length (nrs_entries m) \<noteq> length s then Err (ConflictingNrsEntries (filter (\<lambda>x. x \<notin> set (nrs_entries m)) s) m)
       else Ok m)"
    using url fetched es
    by (auto simp: nrs_get_subnames_map_def url_result_def convert_multimap_to_nrs_set_def s_def m_def Let_def)
  ultimately show ?thesis
    using set_answers [OF wf, of name, folded m_def] by (auto simp: nrs_get_def split: if_splits)
qed

subsection \<open>Names as URLs\<close>

definition nrs_labels :: "string list \<Rightarrow> bool" where
  "nrs_labels ls = (ls \<noteq> [] \<and> (\<forall>l \<in> set ls. l \<noteq> [] \<and> set l \<subseteq> set label_chars \<and> length l \<le> MAX_LEN_URL_LABELS)
     \<and> length (join_with ''.'' ls) \<le> 255)"

definition nrs_url :: "url_api \<Rightarrow> string list \<Rightarrow> safe_url" where
  "nrs_url U ls =
    \<lparr>su_encoding_version = XOR_URL_VERSION_1, su_public_name = join_with ''.'' ls, su_top_name = last ls,
     su_sub_names = join_with ''.'' (butlast ls), su_sub_names_vec = butlast ls, su_type_tag = NRS_MAP_TYPE_TAG,
     su_address = RegAddress (RegisterAddress (xor_name_from_nrs_string U (last ls)) NRS_MAP_TYPE_TAG),
     su_content_type = NrsMapContainer, su_content_type_u16 = 3, su_path = [], su_query_string = [],
     su_fragment = [], su_content_version = None, su_url_type = NrsUrl\<rparr>"

lemma empty_query: "url_laws U \<Longrightarrow> version_of U [] = Ok None"
  using pairs_read [of U "[]"] form_law [of U "[]"]
  by (simp add: form_empty version_of_def query_key_last_internal_def query_key_internal_def)

lemma nrs_url_read:
  assumes laws: "url_laws U" and ls: "nrs_labels ls"
  shows "from_nrsurl U (''safe://'' @ join_with ''.'' ls) = Ok (nrs_url U ls)"
proof -
  have labels: "\<forall>l \<in> set ls. l \<noteq> [] \<and> set l \<subseteq> set label_chars" "ls \<noteq> []"
    and len: "length (join_with ''.'' ls) \<le> 255" and small: "\<forall>l \<in> set ls. length l \<le> MAX_LEN_URL_LABELS"
    using ls by (auto simp: nrs_labels_def)
  have ne: "join_with ''.'' ls \<noteq> []" using labels by (cases ls; cases "tl ls") auto
  have "set (join_with ''.'' ls) \<subseteq> insert (CHR ''.'') (set label_chars)"
    using set_join [of "''.''" ls] labels(1) by auto
  with ne have plain: "plain_text (join_with ''.'' ls) [] [] []" by (simp add: plain_text_def path_text_def)
  have parts: "url_parts_parse U (''safe://'' @ join_with ''.'' ls) False =
      Ok \<lparr>up_scheme = ''safe'', up_public_name = join_with ''.'' ls, up_top_name = last ls,
        up_sub_names = join_with ''.'' (butlast ls), up_sub_names_vec = butlast ls,
        up_path = ''/'', up_query_string = [], up_fragment = []\<rparr>"
    using parts_read [OF laws plain labels len, of False] small by (simp add: URL_PROTOCOL_def url_text_def)
  have path: "set_path_internal U u ''/'' False = u\<lparr>su_path := []\<rparr>" for u
    using path_kept [of "[]" U u] by (simp add: path_text_def)
  have names: "url_names U (RegAddress (RegisterAddress (xor_name_from_nrs_string U (last ls)) tag))
      (Some (join_with ''.'' ls)) subs = Ok (join_with ''.'' ls, last ls, join_with ''.'' (butlast ls), butlast ls, NrsUrl)"
    for tag subs
    unfolding url_names_def URL_PROTOCOL_def option.case parts using ne by simp
  show ?thesis
    unfolding from_nrsurl_def parts
    by (simp add: new_url_def names name_the_xorurl_def some_or_empty_def path
        set_query_string_eq empty_query [OF laws] nrs_url_def Let_def)
qed

lemma nrs_url_display: "url_display U (nrs_url U ls) = Some (''safe://'' @ join_with ''.'' ls)"
  by (simp add: url_display_def is_nrsurl_def to_nrsurl_string_def nrs_url_def URL_PROTOCOL_def
      query_string_with_separator_def fragment_with_separator_def)

subsection \<open>Text as bytes\<close>

lemma unat_of_char: "unat (of_char c :: u8) = of_char c"
proof -
  have "(of_char c :: u8) = of_nat (of_char c)" by (simp only: of_nat_of_char)
  moreover have "of_char c < (256 :: nat)" by simp
  ultimately show ?thesis by (simp add: unat_of_nat del: of_nat_of_char)
qed

lemma as_bytes_inverse: "map (char_of \<circ> unat) (as_bytes s) = s"
  by (simp add: as_bytes_def comp_def unat_of_char)

lemma utf8_valid_ascii: "\<forall>n \<in> set ns. n < 128 \<Longrightarrow> utf8_valid ns"
  by (induction ns rule: utf8_valid.induct) auto

lemma from_utf8_ascii:
  assumes "set s \<subseteq> set (''/.?#:'' @ label_chars @ path_chars @ query_chars)"
  shows "from_utf8 (as_bytes s) = Ok s"
proof -
  have "\<forall>c \<in> set s. of_char c < (128 :: nat)"
    using assms ascii_chars unfolding list_all_iff by fastforce
  then have "utf8_valid (map unat (as_bytes s))" by (intro utf8_valid_ascii) (auto simp: as_bytes_def unat_of_char)
  then show ?thesis by (simp add: from_utf8_def as_bytes_inverse)
qed

lemma from_utf8_bytes: "from_utf8 bs = Ok s \<Longrightarrow> as_bytes s = bs"
proof -
  have "(of_char (char_of (unat w) :: char) :: u8) = w" for w
  proof -
    have "(of_char (char_of (unat w) :: char) :: u8) = of_nat (of_char (char_of (unat w) :: char))"
      by (simp only: of_nat_of_char)
    also have "\<dots> = w" using byte_small [of w] by (simp add: of_char_of)
    finally show ?thesis .
  qed
  then show "from_utf8 bs = Ok s \<Longrightarrow> as_bytes s = bs"
    by (auto simp: from_utf8_def as_bytes_def comp_def split: if_splits)
qed

lemma url_encode_chars:
  assumes laws: "url_laws U" and ok: "url_ok U u"
  shows "set (url_encode U u Base32z) \<subseteq> set (''/.?#:'' @ label_chars @ path_chars @ query_chars)"
proof -
  have addr: "address_ok (su_address u) (su_type_tag u)"
    and subs: "\<forall>l \<in> set (su_sub_names_vec u). l \<noteq> [] \<and> set l \<subseteq> set label_chars"
      "su_sub_names u = join_with ''.'' (su_sub_names_vec u)" "length (su_sub_names u) \<le> 165"
    using ok by (simp_all add: url_ok_def)
  note host = host_text(1,5) [OF laws addr subs disjI1 [OF refl]]
  have "set URL_PROTOCOL \<subseteq> set (''/.?#:'' @ label_chars @ path_chars @ query_chars)" by code_simp
  then show ?thesis
    using ok host unfolding url_encode_def host(1)
    by (auto simp: url_ok_def path_text_def query_string_with_separator_def fragment_with_separator_def)
qed

subsection \<open>Entries of a multimap\<close>

definition decoded :: "entry_codec \<Rightarrow> (bytes \<times> bytes) set \<Rightarrow> (bytes \<times> bytes \<times> bytes) set" where
  "decoded Q es = {(h, k, v). \<exists>e. (h, e) \<in> es \<and> e \<noteq> MULTIMAP_REMOVED_MARK \<and> ec_from_slice Q e = Some (k, v)}"

definition decodable :: "entry_codec \<Rightarrow> (bytes \<times> bytes) set \<Rightarrow> bool" where
  "decodable Q es = (\<forall>(h, e) \<in> es. e \<noteq> MULTIMAP_REMOVED_MARK \<longrightarrow> ec_from_slice Q e \<noteq> None)"

lemma decode_entries_iff:
  "decode_entries Q es m = Ok m' \<longleftrightarrow> decodable Q (set es) \<and> m' = fold bs_insert
     (concat (map (\<lambda>(h, e). if e = MULTIMAP_REMOVED_MARK then [] else
        (case ec_from_slice Q e of None \<Rightarrow> [] | Some (k, v) \<Rightarrow> [(h, k, v)])) es)) m"
proof (induction Q es m rule: decode_entries.induct)
  case (2 Q hash e es m)
  show ?case
  proof (cases "e = MULTIMAP_REMOVED_MARK")
    case True
    with 2 show ?thesis by (auto simp: decodable_def)
  next
    case False
    with 2 show ?thesis
      by (cases "ec_from_slice Q e") (auto simp: decode_multimap_entry_def decodable_def)
  qed
qed (auto simp: decodable_def)

lemma decode_entries_set:
  assumes "decode_entries Q es [] = Ok m"
  shows "set m = decoded Q (set es)" and "decodable Q (set es)"
  using assms unfolding decode_entries_iff
  by (auto simp: set_fold_bs_insert decoded_def decodable_def split: if_splits option.splits) force+

lemma decode_entries_total: "decodable Q (set es) \<Longrightarrow> \<exists>m. decode_entries Q es [] = Ok m"
  by (simp add: decode_entries_iff)

subsection \<open>A new association\<close>

text \<open>
  What the code relies on. An entry that is serialised is not empty and is read back. After a write is published, a read of the
  register gives the new entry and, of the old ones, those that it does not replace.
\<close>

definition codec_ok :: "entry_codec \<Rightarrow> bool" where
  "codec_ok Q = (\<forall>e d. ec_to_vec Q e = Some d \<longrightarrow> d \<noteq> [] \<and> ec_from_slice Q d = Some e)"

definition register_client_ok :: "('n, 'op) client_api \<Rightarrow> bool" where
  "register_client_ok C = (\<forall>N a data parents hash op N' old.
     cl_write_to_local_register C N a data parents = Ok (hash, op) \<longrightarrow> cl_publish_register_ops C N op = (N', Ok ())
     \<longrightarrow> cl_read_register C N a = Ok old
     \<longrightarrow> cl_read_register C N' a = Ok (bs_insert (hash, data) (filter (\<lambda>(h, _). h \<notin> set parents) old)))"

text \<open>Every entry of the map has a name and a link that can be read; names may have several links.\<close>

definition readable_names :: "(nrs_map, api_error) result \<Rightarrow> bool" where
  "readable_names r = (case r of Ok _ \<Rightarrow> True | Err (ConflictingNrsEntries _ _) \<Rightarrow> True | _ \<Rightarrow> False)"

lemma fetch_unversioned:
  assumes "safe_client S = Some C" and "su_address url = RegAddress a" and "su_content_version url = None"
  shows "fetch_multimap Q S N url = Ok mm \<longleftrightarrow>
    (\<exists>old. cl_read_register C N a = Ok old \<and> decode_entries Q old [] = Ok mm)"
  using assms by (simp add: fetch_multimap_def register_fetch_entries_def get_register_address_def get_safe_client_def)

lemma collect_ok_err: "collect_ok rs = Err e \<Longrightarrow> Err e \<in> set rs"
  by (induction rs) (auto simp: and_then_Err_iff)

lemma nrs_entry_err: "nrs_entry U x \<noteq> Err (ConflictingNrsEntries c m)"
proof -
  have "from_utf8 bs \<noteq> Err (ConflictingNrsEntries c m)" for bs by (simp add: from_utf8_def)
  moreover have "url_result r \<noteq> Err (ConflictingNrsEntries c m)" for r :: "(safe_url, url_error) result"
    by (cases r) (simp_all add: url_result_def)
  ultimately show ?thesis by (auto simp: nrs_entry_def and_then_Err_iff split: prod.splits)
qed

lemma readable_entries:
  assumes "readable_names (nrs_get_subnames_map U Q S N name None)" and "from_url U (''safe://'' @ name) = Ok url"
    and "fetch_multimap Q S N url = Ok mm"
  shows "\<exists>es. collect_ok (map (nrs_entry U) mm) = Ok es"
proof (cases "collect_ok (map (nrs_entry U) mm)")
  case (Err e)
  then have "nrs_get_subnames_map U Q S N name None = Err e"
    using assms(2,3) by (simp add: nrs_get_subnames_map_def url_result_def convert_multimap_to_nrs_set_def and_then_Err_iff)
  with assms(1) obtain c m where "e = ConflictingNrsEntries c m" by (auto simp: readable_names_def split: api_error.splits)
  with collect_ok_err [OF Err] show ?thesis using nrs_entry_err by (metis (no_types, lifting) imageE list.set_map)
qed blast

lemma associate_runs:
  assumes conn: "safe_client S = Some C" "\<not> safe_dry_run_mode S"
    and url: "from_url U (''safe://'' @ name) = Ok url" "su_public_name url = name"
      "url_display U url = Some (''safe://'' @ name)" "su_address url = RegAddress a"
    and shown: "url_display U link = Some s"
    and run: "nrs_associate U Q random S N name link = (N', Ok u')"
  shows "\<exists>mm data hash op. fetch_multimap Q S N url = Ok mm \<and> ec_to_vec Q (as_bytes name, as_bytes s) = Some data \<and>
    cl_write_to_local_register C N a data
      (bs_from_iter (map fst (filter (\<lambda>(_, k, _). k = as_bytes name) mm))) = Ok (hash, op) \<and>
    cl_publish_register_ops C N op = (N', Ok ())"
proof -
  obtain mm where mm: "fetch_multimap Q S N url = Ok mm" and
    ins: "versioned_url U url (multimap_insert U Q random S N (''safe://'' @ name) (as_bytes name, as_bytes s)
      (bs_from_iter (map fst (filter (\<lambda>(_, k, _). k = as_bytes name) mm)))) = (N', Ok u')"
  proof -
    have "validate_nrs_public_name U name = Ok url"
      unfolding validate_nrs_public_name_def url(1) by (simp add: url_result_def url(2))
    with run that show ?thesis
      unfolding nrs_associate_def
      by (cases "fetch_multimap Q S N url"; cases "validate_nrs_url link")
        (simp_all add: current_versions_def fetch_multimap_values_by_key_def shown url(3))
  qed
  then obtain hash where "multimap_insert U Q random S N (''safe://'' @ name) (as_bytes name, as_bytes s)
      (bs_from_iter (map fst (filter (\<lambda>(_, k, _). k = as_bytes name) mm))) = (N', Ok hash)"
    by (auto simp: versioned_url_def split: prod.splits result.splits)
  then show ?thesis using mm url(1,4)
    by (auto simp: multimap_insert_def write_entry_def url_result_def get_safe_client_def conn published_def
        split: option.splits result.splits prod.splits)
qed

text \<open>
  C19. A public name resolves to a link exactly when the readable entries of its map give it one link. With no
  link, a name with sub names is an error and a top name resolves to its map; with several, the conflict is reported.
  Conflicts between the links of other names do not matter.
\<close>

theorem nrs_get_resolves:
  assumes "from_url U (''safe://'' @ name) = Ok url"
    and "fetch_multimap Q S N url = Ok mm \<or> fetch_multimap Q S N url = Err EmptyContent \<and> mm = []"
    and "collect_ok (map (nrs_entry U) mm) = Ok es"
  shows "answers (nrs_get U Q S N name None) name (links_of es name)"
  by (rule nrs_get_answers [OF assms])

lemma association_entries:
  assumes laws: "codec_ok Q" "register_client_ok C" and conn: "safe_client S = Some C" "\<not> safe_dry_run_mode S"
    and url: "from_url U (''safe://'' @ name) = Ok url" "su_public_name url = name"
      "url_display U url = Some (''safe://'' @ name)" "su_address url = RegAddress a" "su_content_version url = None"
    and shown: "url_display U link = Some s"
    and run: "nrs_associate U Q random S N name link = (N', Ok u')"
  shows "\<exists>mm mm' hash. fetch_multimap Q S N url = Ok mm \<and> fetch_multimap Q S N' url = Ok mm' \<and>
    set mm' = insert (hash, as_bytes name, as_bytes s) {x \<in> set mm. fst x \<notin> fst ` {x \<in> set mm. fst (snd x) = as_bytes name}}"
proof -
  obtain mm data hash op where mm: "fetch_multimap Q S N url = Ok mm"
    and data: "ec_to_vec Q (as_bytes name, as_bytes s) = Some data"
    and wr: "cl_write_to_local_register C N a data
      (bs_from_iter (map fst (filter (\<lambda>(_, k, _). k = as_bytes name) mm))) = Ok (hash, op)"
    and pub: "cl_publish_register_ops C N op = (N', Ok ())"
    using associate_runs [OF conn url(1-4) shown run] by blast
  obtain old where old: "cl_read_register C N a = Ok old" "decode_entries Q old [] = Ok mm"
    using mm fetch_unversioned [OF conn(1) url(4,5)] by blast
  define gone where "gone = fst ` {x \<in> set mm. fst (snd x) = as_bytes name}"
  define new where "new = bs_insert (hash, data) (filter (\<lambda>(h, _). h \<notin> gone) old)"
  have "set (bs_from_iter (map fst (filter (\<lambda>(_, k, _). k = as_bytes name) mm))) = gone"
    by (auto simp: btree_simps gone_def)
  then have read: "cl_read_register C N' a = Ok new"
    using laws(2) wr pub old(1) unfolding register_client_ok_def new_def by metis
  have enc: "data \<noteq> []" "ec_from_slice Q data = Some (as_bytes name, as_bytes s)"
    using laws(1) data by (auto simp: codec_ok_def)
  have "decodable Q (set new)"
    using decode_entries_set(2) [OF old(2)] enc by (auto simp: decodable_def new_def btree_simps)
  then obtain mm' where mm': "decode_entries Q new [] = Ok mm'" using decode_entries_total by blast
  then have "fetch_multimap Q S N' url = Ok mm'"
    using fetch_unversioned [OF conn(1) url(4,5)] read by blast
  moreover have "set mm' = insert (hash, as_bytes name, as_bytes s) {x \<in> set mm. fst x \<notin> gone}"
    using decode_entries_set(1) [OF mm'] decode_entries_set(1) [OF old(2)] enc
    by (auto simp: decoded_def new_def btree_simps MULTIMAP_REMOVED_MARK_def)
  ultimately show ?thesis using mm unfolding gone_def by blast
qed

lemma written_entry:
  assumes laws: "url_laws U" and ls: "nrs_labels ls" and ok: "url_ok U link"
  shows "nrs_entry U (hash, as_bytes (join_with ''.'' ls), as_bytes (url_encode U link Base32z)) =
    Ok (VersionHash hash, join_with ''.'' ls, link)"
proof -
  have "set (join_with ''.'' ls) \<subseteq> insert (CHR ''.'') (set label_chars)"
    using set_join [of "''.''" ls] ls by (auto simp: nrs_labels_def)
  then have "from_utf8 (as_bytes (join_with ''.'' ls)) = Ok (join_with ''.'' ls)" by (intro from_utf8_ascii) auto
  moreover have "from_utf8 (as_bytes (url_encode U link Base32z)) = Ok (url_encode U link Base32z)"
    by (rule from_utf8_ascii [OF url_encode_chars [OF laws ok]])
  moreover have "from_url U (url_encode U link Base32z) = Ok link"
    using url_ok_round_trip [OF laws ok] by (simp add: from_url_def)
  ultimately show ?thesis by (simp add: nrs_entry_def url_result_def)
qed

lemma built_display: "url_laws U \<Longrightarrow> built U link \<Longrightarrow> url_display U link = Some (url_encode U link Base32z)"
  using built_ok
  by (auto simp: url_ok_def url_display_def is_nrsurl_def to_xorurl_string_def DEFAULT_XORURL_BASE_def)

lemma settled_links:
  assumes es: "collect_ok (map (nrs_entry U) mm) = Ok es"
    and new: "nrs_entry U (hash, as_bytes name, as_bytes s) = Ok (v, name, link)"
    and mm': "set mm' = insert (hash, as_bytes name, as_bytes s)
      {x \<in> set mm. fst x \<notin> fst ` {x \<in> set mm. fst (snd x) = as_bytes name}}"
  shows "\<exists>es'. collect_ok (map (nrs_entry U) mm') = Ok es' \<and> links_of es' name = {link}"
proof -
  have old_ok: "is_ok (nrs_entry U x)" if "x \<in> set mm" for x
  proof -
    have "nrs_entry U x \<in> Ok ` set es" using collect_ok_set(2) [OF es] that by (metis image_eqI list.set_map)
    then show ?thesis by (auto simp: is_ok_iff)
  qed
  have "is_ok (nrs_entry U x)" if "x \<in> set mm'" for x
  proof (cases "x \<in> set mm")
    case False
    with that have "x = (hash, as_bytes name, as_bytes s)" unfolding mm' by blast
    then show ?thesis by (simp add: new is_ok_iff)
  qed (rule old_ok)
  then obtain es' where es': "collect_ok (map (nrs_entry U) mm') = Ok es'"
    using collect_ok_exists [of "map (nrs_entry U) mm'"] by auto
  have other: "n \<noteq> name" if "x \<in> set mm" "fst x \<notin> fst ` {x \<in> set mm. fst (snd x) = as_bytes name}"
    "nrs_entry U x = Ok (w, n, u)" for x w n u
  proof -
    have "from_utf8 (fst (snd x)) = Ok n" using that(3) by (cases x) (auto simp: nrs_entry_def and_then_Ok_iff)
    then have "as_bytes n = fst (snd x)" by (rule from_utf8_bytes)
    with that(1,2) show ?thesis by auto
  qed
  have mem: "y \<in> set es' \<longleftrightarrow> (\<exists>x \<in> set mm'. Ok y = nrs_entry U x)" for y
    unfolding collect_ok_set(1) [OF es'] by (simp add: image_iff)
  have "u = link" if u: "(w, name, u) \<in> set es'" for w u
  proof -
    obtain x where x: "x \<in> set mm'" "nrs_entry U x = Ok (w, name, u)" using u unfolding mem by metis
    then have "x = (hash, as_bytes name, as_bytes s)" using other unfolding mm' by blast
    with x(2) new show ?thesis by simp
  qed
  moreover have "(v, name, link) \<in> set es'"
    unfolding mem by (rule bexI [where x = "(hash, as_bytes name, as_bytes s)"]) (simp_all add: new mm')
  ultimately have "links_of es' name = {link}" unfolding links_of_def by blast
  with es' show ?thesis by blast
qed


subsection \<open>A network of registers\<close>

text \<open>
  The laws can hold: a network that keeps the entries of every register, a client that writes to it, and entries whose
  key is written after its length.
\<close>

definition ref_codec :: entry_codec where
  "ref_codec =
    \<lparr>ec_to_vec = (\<lambda>(k, v). if length k < 256 then Some (of_nat (length k) # k @ v) else None),
     ec_from_slice = (\<lambda>d. case d of
         [] \<Rightarrow> None
       | n # r \<Rightarrow> if unat n \<le> length r then Some (take (unat n) r, drop (unat n) r) else None)\<rparr>"

definition ref_client :: "(register_address \<Rightarrow> (bytes \<times> bytes) list, register_address \<times> (bytes \<times> bytes) list) client_api" where
  "ref_client =
    \<lparr>cl_read_register = (\<lambda>N a. Ok (N a)),
     cl_get_register_entry = (\<lambda>N a h. ok_or (map_of (N a) h) MsgNoSuchEntry),
     cl_write_to_local_register = (\<lambda>N a data parents.
       Ok (data, a, bs_insert (data, data) (filter (\<lambda>(h, _). h \<notin> set parents) (N a)))),
     cl_create_register = (\<lambda>N name tag policy. Ok (RegisterAddress name tag, [])),
     cl_publish_register_ops = (\<lambda>N (a, es). (N(a := es), Ok ())),
     cl_read_bytes = (\<lambda>N name. Err MsgNoSuchEntry),
     cl_public_key = Bls 0\<rparr>"

definition ref_safe where
  "ref_safe = \<lparr>safe_client = Some ref_client, safe_xorurl_base = Base32z, safe_dry_run_mode = False\<rparr>"

lemma ref_codec_ok: "codec_ok ref_codec"
  by (auto simp: codec_ok_def ref_codec_def unat_of_nat split: if_splits)

lemma ref_client_ok: "register_client_ok ref_client"
  by (auto simp: register_client_ok_def ref_client_def)

lemma shop_labels: "nrs_labels [''shop'']" by code_simp

lemma shop_is_a_name: "from_xorurl ref_url_api (''safe://'' @ join_with ''.'' [''shop'']) = Err InvalidXorUrl"
proof -
  have ls: "\<forall>l \<in> set [''shop'']. l \<noteq> [] \<and> set l \<subseteq> set label_chars" "[''shop''] \<noteq> []"
    using shop_labels by (simp_all add: nrs_labels_def)
  then have plain: "plain_text (join_with ''.'' [''shop'']) [] [] []" by (simp add: plain_text_def path_text_def)
  have "\<exists>parts. url_parts_parse ref_url_api (''safe://'' @ join_with ''.'' [''shop'']) True = Ok parts \<and> up_top_name parts = ''shop''"
    using parts_read [OF ref_url_laws plain ls, of True] by (simp add: URL_PROTOCOL_def url_text_def)
  moreover have "case ref_base_decode ''shop'' of None \<Rightarrow> True | Some (b, bs) \<Rightarrow> length bs < 36" by code_simp
  ultimately show ?thesis
    unfolding from_xorurl_def by (auto simp: ref_url_api_def XOR_NAME_BYTES_OFFSET_def split: option.splits)
qed

lemma sample_link: "\<exists>u. built ref_url_api u \<and> validate_nrs_url u = Ok ()"
proof -
  have "case from_bytes ref_url_api (replicate 32 5) Raw of Ok u \<Rightarrow> validate_nrs_url u = Ok () | Err _ \<Rightarrow> False"
    by code_simp
  then obtain u where u: "new_url ref_url_api (BytesAddress (ChunkAddress (replicate 32 5))) None 0 Raw None None None None None = Ok u"
    "validate_nrs_url u = Ok ()" by (auto simp: from_bytes_def split: result.splits)
  have "built ref_url_api u"
    by (rule built.made [OF u(1)]) (simp_all add: address_ok_def some_or_empty_def sub_names_text_def)
  with u(2) show ?thesis by blast
qed

lemma shop_url:
  "from_url ref_url_api (''safe://'' @ join_with ''.'' [''shop'']) = Ok (nrs_url ref_url_api [''shop''])"
  unfolding from_url_def shop_is_a_name nrs_url_read [OF ref_url_laws shop_labels] by simp

text \<open>The map of the name \<open>shop\<close> has one link.\<close>

theorem nrs_get_resolves_witness:
  "\<exists>link m. nrs_get ref_url_api ref_codec ref_safe
      (\<lambda>_. [([1], 4 # as_bytes ''shop'' @ as_bytes (url_encode ref_url_api link Base32z))]) ''shop'' None = Ok (Some link, m)"
proof -
  obtain link where link: "built ref_url_api link" using sample_link by blast
  let ?s = "url_encode ref_url_api link Base32z"
  let ?N = "\<lambda>_ :: register_address. [([1], 4 # as_bytes ''shop'' @ as_bytes ?s)]"
  have fetched: "fetch_multimap ref_codec ref_safe ?N (nrs_url ref_url_api [''shop'']) = Ok [([1], as_bytes ''shop'', as_bytes ?s)]"
    by (simp add: fetch_multimap_def register_fetch_entries_def get_register_address_def get_safe_client_def nrs_url_def
        ref_safe_def ref_client_def ref_codec_def MULTIMAP_REMOVED_MARK_def decode_multimap_entry_def as_bytes_def)
  have es: "collect_ok (map (nrs_entry ref_url_api) [([1], as_bytes ''shop'', as_bytes ?s)]) =
      Ok [(VersionHash [1], ''shop'', link)]"
    using written_entry [OF ref_url_laws shop_labels built_ok [OF ref_url_laws link], of "[1]"] by simp
  have "answers (nrs_get ref_url_api ref_codec ref_safe ?N ''shop'' None) ''shop''
      (links_of [(VersionHash [1], ''shop'', link)] ''shop'')"
    by (rule nrs_get_resolves [OF shop_url [unfolded join_with.simps] disjI1 [OF fetched] es])
  then show ?thesis by (force simp: answers_def links_of_def)
qed

lemma shop_empty: "fetch_multimap ref_codec ref_safe (\<lambda>_. []) (nrs_url ref_url_api [''shop'']) = Ok []"
  by (simp add: fetch_multimap_def register_fetch_entries_def get_register_address_def get_safe_client_def nrs_url_def
      ref_safe_def ref_client_def)

lemma shop_associates:
  assumes link: "built ref_url_api link" "validate_nrs_url link = Ok ()"
  shows "\<exists>N' u'. nrs_associate ref_url_api ref_codec [] ref_safe (\<lambda>_. []) ''shop'' link = (N', Ok u')"
proof -
  let ?N = "\<lambda>_ :: register_address. []" and ?url = "nrs_url ref_url_api [''shop'']"
  note url = shop_url [unfolded join_with.simps]
  define t where "t = ''safe://'' @ ''shop''"
  have valid: "validate_nrs_public_name ref_url_api ''shop'' = Ok ?url"
    unfolding validate_nrs_public_name_def url by (simp add: url_result_def nrs_url_def)
  have shown: "url_display ref_url_api ?url = Some t"
    using nrs_url_display [of ref_url_api "[''shop'']"] unfolding join_with.simps t_def .
  have versions: "current_versions ref_codec ref_safe ?N ?url ''shop'' = Ok (bs_from_iter [])"
    by (simp add: current_versions_def fetch_multimap_values_by_key_def shop_empty)
  have "\<exists>N' h. multimap_insert ref_url_api ref_codec [] ref_safe ?N t (as_bytes ''shop'', v) p = (N', Ok h)" for v p
    unfolding multimap_insert_def write_entry_def t_def url
    by (simp add: url_result_def nrs_url_def ref_codec_def as_bytes_def ref_safe_def get_safe_client_def ref_client_def
        published_def)
  then obtain N' h where "multimap_insert ref_url_api ref_codec [] ref_safe ?N t
      (as_bytes ''shop'', as_bytes (url_encode ref_url_api link Base32z)) (bs_from_iter []) = (N', Ok h)" by blast
  moreover have "\<exists>u'. set_nrs_url_props ref_url_api ?url h = (u', Ok ())"
    by (simp add: set_nrs_url_props_def set_content_type_def url_result_def)
  ultimately show ?thesis
    by (auto simp: nrs_associate_def valid link(2) versions shown built_display [OF ref_url_laws link(1)]
        versioned_url_def)
qed


end
