(* ===== verification/Files_Map.thy ===== *)
theory Files_Map
  imports Nrs_Map
begin

section \<open>Files and paths of a container\<close>

text \<open>
  \<open>sn_api/src/app/files/files_map.rs\<close>, \<open>metadata.rs\<close>, \<open>realpath.rs\<close> and the helpers of \<open>files/mod.rs\<close> that need
  neither the network nor a disk. A files map takes the flattened paths of a container to the attributes of what is
  there. \<open>realpath\<close> resolves the components \<open>.\<close> and \<open>..\<close> and symbolic links; its loop is a partial function,
  and the value \<open>None\<close> means that it does not return.
\<close>

subsection \<open>Attributes\<close>

type_synonym file_info = "(string, string) bmap"
type_synonym files_map = "(string, file_info) bmap"

definition PREDICATE_LINK :: string where "PREDICATE_LINK = ''link''"
definition PREDICATE_TYPE :: string where "PREDICATE_TYPE = ''type''"
definition PREDICATE_SIZE :: string where "PREDICATE_SIZE = ''size''"
definition PREDICATE_MODIFIED :: string where "PREDICATE_MODIFIED = ''modified''"
definition PREDICATE_CREATED :: string where "PREDICATE_CREATED = ''created''"
definition PREDICATE_ORIGINAL_MODIFIED :: string where "PREDICATE_ORIGINAL_MODIFIED = ''o_modified''"
definition PREDICATE_ORIGINAL_CREATED :: string where "PREDICATE_ORIGINAL_CREATED = ''o_created''"
definition PREDICATE_READONLY :: string where "PREDICATE_READONLY = ''readonly''"
definition PREDICATE_MODE_BITS :: string where "PREDICATE_MODE_BITS = ''mode_bits''"
definition MIMETYPE_FILESYSTEM_DIR :: string where "MIMETYPE_FILESYSTEM_DIR = ''inode/directory''"
definition MIMETYPE_FILESYSTEM_SYMLINK :: string where "MIMETYPE_FILESYSTEM_SYMLINK = ''inode/symlink''"

lemmas predicate_defs =
  PREDICATE_LINK_def PREDICATE_TYPE_def PREDICATE_SIZE_def PREDICATE_MODIFIED_def PREDICATE_CREATED_def
  PREDICATE_ORIGINAL_MODIFIED_def PREDICATE_ORIGINAL_CREATED_def PREDICATE_READONLY_def PREDICATE_MODE_BITS_def
  MIMETYPE_FILESYSTEM_DIR_def MIMETYPE_FILESYSTEM_SYMLINK_def

record file_meta =
  fm_created :: string
  fm_modified :: string
  fm_file_size :: string
  fm_file_type :: string
  fm_readonly :: "string option"
  fm_mode_bits :: "string option"
  fm_original_created :: "string option"
  fm_original_modified :: "string option"

text \<open>The first four attributes are indexed, so that a missing one panics, \<open>None\<close>.\<close>

definition from_file_item :: "file_info \<Rightarrow> file_meta option" where
  "from_file_item item =
    (case (bm_get item PREDICATE_CREATED, bm_get item PREDICATE_MODIFIED, bm_get item PREDICATE_SIZE,
        bm_get item PREDICATE_TYPE) of
       (Some created, Some modified, Some file_size, Some file_type) \<Rightarrow>
         Some \<lparr>fm_created = created, fm_modified = modified, fm_file_size = file_size, fm_file_type = file_type,
           fm_readonly = bm_get item PREDICATE_READONLY, fm_mode_bits = bm_get item PREDICATE_MODE_BITS,
           fm_original_created = bm_get item PREDICATE_ORIGINAL_CREATED,
           fm_original_modified = bm_get item PREDICATE_ORIGINAL_MODIFIED\<rparr>
     | _ \<Rightarrow> None)"

definition from_type_and_size :: "string \<Rightarrow> string \<Rightarrow> string \<Rightarrow> file_meta" where
  "from_type_and_size now file_type file_size =
    \<lparr>fm_created = now, fm_modified = now, fm_file_size = file_size, fm_file_type = file_type, fm_readonly = None,
     fm_mode_bits = None, fm_original_created = None, fm_original_modified = None\<rparr>"

definition add_to_fileitem :: "string \<Rightarrow> string option \<Rightarrow> file_info \<Rightarrow> file_info" where
  "add_to_fileitem key val item = (case val of None \<Rightarrow> item | Some v \<Rightarrow> bm_insert key v item)"

definition to_file_item :: "file_meta \<Rightarrow> file_info" where
  "to_file_item m =
    add_to_fileitem PREDICATE_ORIGINAL_MODIFIED (fm_original_modified m)
    (add_to_fileitem PREDICATE_ORIGINAL_CREATED (fm_original_created m)
    (add_to_fileitem PREDICATE_MODE_BITS (fm_mode_bits m)
    (add_to_fileitem PREDICATE_READONLY (fm_readonly m)
    (add_to_fileitem PREDICATE_TYPE (Some (fm_file_type m))
    (add_to_fileitem PREDICATE_SIZE (Some (fm_file_size m))
    (add_to_fileitem PREDICATE_MODIFIED (Some (fm_modified m))
    (add_to_fileitem PREDICATE_CREATED (Some (fm_created m)) [])))))))"

definition filetype_is_symlink :: "string \<Rightarrow> bool" where
  "filetype_is_symlink t = (t = MIMETYPE_FILESYSTEM_SYMLINK)"

definition filetype_is_dir :: "string \<Rightarrow> bool" where
  "filetype_is_dir t = (t = MIMETYPE_FILESYSTEM_DIR)"

definition filetype_is_file :: "string \<Rightarrow> bool" where
  "filetype_is_file t = (t \<noteq> MIMETYPE_FILESYSTEM_DIR \<and> t \<noteq> MIMETYPE_FILESYSTEM_SYMLINK)"

datatype files_map_change = Added string | Updated string | Removed string | FailedChange api_error

fun change_is_success :: "files_map_change \<Rightarrow> bool" where
  "change_is_success (FailedChange _) = False"
| "change_is_success _ = True"

fun change_link :: "files_map_change \<Rightarrow> string option" where
  "change_link (Added l) = Some l"
| "change_link (Updated l) = Some l"
| "change_link (Removed l) = Some l"
| "change_link (FailedChange _) = None"

definition getattr :: "file_info \<Rightarrow> string \<Rightarrow> (string, api_error) result" where
  "getattr item key = ok_or (bm_get item key) EntryNotFound"

subsection \<open>Real paths\<close>

text \<open>\<open>s[0..1]\<close>: the first byte as text, \<open>None\<close> for a panic where it is not a character by itself.\<close>

definition first_char :: "string \<Rightarrow> string option" where
  "first_char s = (case s of [] \<Rightarrow> None | c # _ \<Rightarrow> if of_char c < (128 :: nat) then Some [c] else None)"

text \<open>
  One run of the inner loop over the components of a path. It ends with the components gone through, the
  number of links followed and whether the end was reached, or at a symbolic link, with the path to go
  through next.
\<close>

datatype walked =
    Walked "string list" nat bool | Followed "string list" nat bool | WalkFailed api_error

definition follow_symlink :: "file_info \<Rightarrow> string list \<Rightarrow> string list \<Rightarrow> nat \<Rightarrow> bool \<Rightarrow> walked" where
  "follow_symlink fileitem newpath rest nlinks ended =
    (if nlinks + 1 > 16 then WalkFailed ContentNotFound
     else case getattr fileitem ''symlink_target'' of
       Err e \<Rightarrow> WalkFailed e
     | Ok target_str \<Rightarrow>
         if target_str = [] then WalkFailed ContentNotFound
         else case first_char target_str of
           None \<Rightarrow> WalkFailed ApiPanic
         | Some c \<Rightarrow>
             Followed ((if c = ''/'' then split_on (CHR ''/'') target_str
                 else newpath @ split_on (CHR ''/'') target_str) @ rest) (nlinks + 1) ended)"

fun walk :: "files_map \<Rightarrow> string list \<Rightarrow> string list \<Rightarrow> nat \<Rightarrow> bool \<Rightarrow> walked" where
  "walk F [] newpath nlinks ended = Walked newpath nlinks ended"
| "walk F (cur # rest) newpath nlinks ended =
    (if cur = ''.'' then walk F rest newpath nlinks ended
     else if cur = ''..'' then
       (if butlast newpath = [] then WalkFailed ContentNotFound
        else walk F rest (butlast newpath) nlinks ended)
     else
       let newpath' = newpath @ [cur]; tmppath = join_with ''/'' newpath' in
       case bm_get F tmppath of
         None \<Rightarrow> walk F rest newpath' nlinks (ended \<or> rest = [])
       | Some fileitem \<Rightarrow>
           (case from_file_item fileitem of
              None \<Rightarrow> WalkFailed ApiPanic
            | Some meta \<Rightarrow>
                if filetype_is_symlink (fm_file_type meta) then follow_symlink fileitem newpath rest nlinks ended
                else if filetype_is_dir (fm_file_type meta) then walk F rest newpath' nlinks (ended \<or> rest = [])
                else walk F rest newpath' nlinks True))"

partial_function (option) realpath_loop ::
    "files_map \<Rightarrow> string list \<Rightarrow> string list \<Rightarrow> nat \<Rightarrow> (string, api_error) result option" where
  [code]: "realpath_loop F path newpath nlinks =
    (case walk F path newpath nlinks False of
       WalkFailed e \<Rightarrow> Some (Err e)
     | Walked newpath' nlinks' ended \<Rightarrow>
         if ended then Some (Ok (join_with ''/'' newpath')) else realpath_loop F path newpath' nlinks'
     | Followed path' nlinks' ended \<Rightarrow>
         if ended then Some (Ok []) else realpath_loop F path' [] nlinks')"

definition realpath :: "files_map \<Rightarrow> string \<Rightarrow> (string, api_error) result option" where
  "realpath F fpath =
    (if fpath = [] then Some (Err InvalidInput_api)
     else case first_char fpath of
       None \<Rightarrow> Some (Err ApiPanic)
     | Some c \<Rightarrow>
         if c \<noteq> ''/'' then Some (Err InvalidInput_api)
         else realpath_loop F (split_on (CHR ''/'') fpath) [] 0)"

subsection \<open>Looking up a path\<close>

definition filesmap_chroot :: "string \<Rightarrow> files_map \<Rightarrow> (files_map, api_error) result" where
  "filesmap_chroot urlpath F =
    (let folder_path = (if \<not> ends_with urlpath ''/'' then urlpath @ ''/'' else urlpath);
         filtered = bm_from_iter (map (\<lambda>(p, item). (drop (length folder_path) p, item))
           (filter (\<lambda>(p, item). starts_with p folder_path) F))
     in if filtered = [] then Err ContentError else Ok filtered)"

definition file_map_for_path :: "files_map \<Rightarrow> string \<Rightarrow> (files_map, api_error) result option" where
  "file_map_for_path F path =
    (case realpath F path of
       None \<Rightarrow> None
     | Some (Err e) \<Rightarrow> Some (Err e)
     | Some (Ok rp) \<Rightarrow>
         Some (case bm_get F rp of
           None \<Rightarrow> filesmap_chroot rp F
         | Some info \<Rightarrow>
             (case bm_get info ''type'' of
                None \<Rightarrow> Err ContentError
              | Some file_type \<Rightarrow>
                  if filetype_is_symlink file_type then Err ContentError
                  else if filetype_is_file file_type then Ok F
                  else filesmap_chroot rp F)))"

text \<open>\<open>Path::file_name\<close> on Unix: the last component, unless it is \<open>..\<close>; empty components and later \<open>.\<close> do not count.\<close>

definition path_components :: "string \<Rightarrow> string list" where
  "path_components p = filter (\<lambda>c. c \<noteq> [] \<and> c \<noteq> ''.'') (split_on (CHR ''/'') p)"

definition path_file_name :: "string \<Rightarrow> string option" where
  "path_file_name p =
    (let cs = path_components p in if cs = [] \<or> last cs = ''..'' then None else Some (last cs))"

definition get_file_link_and_metadata ::
    "files_map \<Rightarrow> string \<Rightarrow> (string option \<times> file_info option, api_error) result option" where
  "get_file_link_and_metadata F path =
    (if path = [] then Some (Ok (None, None))
     else case realpath F path of
       None \<Rightarrow> None
     | Some (Err e) \<Rightarrow> Some (Err e)
     | Some (Ok rp) \<Rightarrow>
         Some (case bm_get F rp of
           None \<Rightarrow> Ok (None, None)
         | Some info \<Rightarrow>
             (case bm_get info ''type'' of
                None \<Rightarrow> Err ContentError
              | Some file_type \<Rightarrow>
                  if filetype_is_file file_type then
                    (case bm_get info ''link'' of
                       None \<Rightarrow> Err ContentError
                     | Some link \<Rightarrow>
                         Ok (Some link, Some (case path_file_name path of
                           None \<Rightarrow> info | Some name \<Rightarrow> bm_insert ''name'' name info)))
                  else Ok (None, None))))"

subsection \<open>Helpers for containers\<close>

text \<open>
  The files of an operation and what became of them, by path. The source orders paths by their components, here
  they are ordered as texts: the difference is only in the order in which files are gone through.
\<close>

type_synonym processed_files = "(string, files_map_change) bmap"

definition link_or_empty :: "file_info \<Rightarrow> string" where
  "link_or_empty item = some_or_empty (bm_get item PREDICATE_LINK)"

text \<open>
  \<open>Path::ends_with(\<dots>)\<close> compares components: a path ends with \<open>/\<close> only when it has no other component.
\<close>

definition path_ends_with_root :: "string \<Rightarrow> bool" where
  "path_ends_with_root p = (starts_with p ''/'' \<and> path_components p = [])"

definition files_map_remove_path ::
    "string \<Rightarrow> files_map \<Rightarrow> bool \<Rightarrow> (processed_files \<times> files_map \<times> nat, api_error) result" where
  "files_map_remove_path dst_path F recursive =
    (if recursive then
       let folder_path = (if \<not> path_ends_with_root dst_path then dst_path @ ''/'' else dst_path);
           gone = filter (\<lambda>(p, item). starts_with p folder_path) F
       in Ok (bm_from_iter (map (\<lambda>(p, item). (p, Removed (link_or_empty item))) gone),
            filter (\<lambda>(p, item). \<not> starts_with p folder_path) F, length gone)
     else case bm_get F dst_path of
       None \<Rightarrow> Err ContentError
     | Some item \<Rightarrow> Ok ([(dst_path, Removed (link_or_empty item))], bm_remove dst_path F, 1))"

text \<open>A folder that is written with a slash at its end loses no file to a recursive removal.\<close>

lemma trailing_slash_removes_nothing:
  assumes keys: "\<forall>(k, _) \<in> set F. \<not> starts_with k (p @ ''//'')" and p: "path_components (p @ ''/'') \<noteq> []"
  shows "files_map_remove_path (p @ ''/'') F True = Ok ([], F, 0)"
proof -
  have "\<not> path_ends_with_root (p @ ''/'')" using p by (simp add: path_ends_with_root_def)
  moreover have none: "filter (\<lambda>(k, _). starts_with k (p @ ''//'')) F = []"
    using keys by (auto simp: filter_empty_conv)
  moreover have "filter (\<lambda>(k, _). \<not> starts_with k (p @ ''//'')) F = F" using keys by (auto intro: filter_True)
  ultimately show ?thesis by (simp add: files_map_remove_path_def Let_def bm_extend_def)
qed

fun replace_char :: "char \<Rightarrow> char \<Rightarrow> string \<Rightarrow> string" where
  "replace_char a b [] = []"
| "replace_char a b (c # s) = (if c = a then b else c) # replace_char a b s"

definition normalise_path_separator :: "string \<Rightarrow> string" where
  "normalise_path_separator s = replace_char (char_of (92 :: nat)) (CHR ''/'') s"

definition get_base_paths :: "string \<Rightarrow> string option \<Rightarrow> string \<times> string" where
  "get_base_paths location dst_path =
    (let location_base_path = (if location = ''.'' then ''./'' else normalise_path_separator location);
         new_dst_path = (case dst_path of Some p \<Rightarrow> if p = [] then ''/'' else p | None \<Rightarrow> ''/'');
         dst_base_path =
           (if ends_with new_dst_path ''/'' then
              (if ends_with location_base_path ''/'' then new_dst_path
               else new_dst_path @ last (split_on (CHR ''/'') location_base_path))
            else new_dst_path @ ''/'')
     in (location_base_path, dst_base_path))"

end
