(* ===== verification/Real_Path.thy ===== *)
theory Real_Path
  imports Files_Map
begin

section \<open>Resolving paths\<close>

text \<open>
  When \<open>realpath\<close> returns, and what it returns then: paths whose last component is a name are resolved, through at
  most 16 symbolic links, to a path without dots and links; a path that ends in a dot component below a
  directory is gone through again and again, since only a name at the end sets the flag that ends the loop.
\<close>

definition dots :: "string set" where
  "dots = {''.'', ''..''}"

definition is_link :: "files_map \<Rightarrow> string \<Rightarrow> bool" where
  "is_link F p = (\<exists>item meta. bm_get F p = Some item \<and> from_file_item item = Some meta
     \<and> filetype_is_symlink (fm_file_type meta))"

subsection \<open>The end of the loop\<close>

text \<open>Every link of the map leads to a path that ends in a name.\<close>

definition links_end_in_names :: "files_map \<Rightarrow> bool" where
  "links_end_in_names F = (\<forall>p item t. bm_get F p = Some item \<longrightarrow> bm_get item ''symlink_target'' = Some t
     \<longrightarrow> last (split_on (CHR ''/'') t) \<notin> dots)"


lemma follow_cases:
  obtains e where "follow_symlink item np rest n ended = WalkFailed e"
  | t where "bm_get item ''symlink_target'' = Some t" and "n < 16"
    and "follow_symlink item np rest n ended =
      Followed ((if hd t = CHR ''/'' then [] else np) @ split_on (CHR ''/'') t @ rest) (Suc n) ended"
proof (cases "bm_get item ''symlink_target''")
  case (Some t)
  show ?thesis
  proof (cases "n < 16 \<and> t \<noteq> [] \<and> of_char (hd t) < (128 :: nat)")
    case True
    then obtain c s where t: "t = c # s" by (cases t) auto
    with True have "first_char t = Some [c]" by (simp add: first_char_def)
    with True Some t have "follow_symlink item np rest n ended =
        Followed ((if hd t = CHR ''/'' then [] else np) @ split_on (CHR ''/'') t @ rest) (Suc n) ended"
      unfolding follow_symlink_def getattr_def by (simp del: split_on.simps)
    with that(2) [OF Some] True show ?thesis by blast
  next
    case False
    then have "\<exists>e. follow_symlink item np rest n ended = WalkFailed e"
      using Some by (cases t) (auto simp: follow_symlink_def getattr_def first_char_def)
    with that(1) show ?thesis by blast
  qed
next
  case None
  then have "\<exists>e. follow_symlink item np rest n ended = WalkFailed e"
    by (auto simp: follow_symlink_def getattr_def)
  with that(1) show ?thesis by blast
qed

lemma walk_ends:
  assumes links: "links_end_in_names F"
  shows "path \<noteq> [] \<Longrightarrow> last path \<notin> dots \<Longrightarrow>
    (case walk F path np n ended of
       WalkFailed e \<Rightarrow> True
     | Walked np' n' ended' \<Rightarrow> ended'
     | Followed path' n' ended' \<Rightarrow> n' = Suc n \<and> n < 16 \<and> path' \<noteq> [] \<and> last path' \<notin> dots)"
proof (induction path arbitrary: np ended)
  case (Cons cur rest)
  have followed: "case follow_symlink item np rest n ended of
      WalkFailed e \<Rightarrow> True | Walked np' n' ended' \<Rightarrow> ended'
    | Followed path' n' ended' \<Rightarrow> n' = Suc n \<and> n < 16 \<and> path' \<noteq> [] \<and> last path' \<notin> dots"
    if "bm_get F (join_with ''/'' (np @ [cur])) = Some item" for item
  proof (cases rule: follow_cases [of item np rest n ended])
    case (2 t)
    then have "last (split_on (CHR ''/'') t) \<notin> dots" using links that by (auto simp: links_end_in_names_def)
    with 2 Cons.prems show ?thesis using split_on_ne [of "CHR ''/''" t] by (auto simp: last_append)
  qed simp
  show ?case
  proof (cases "rest = []")
    case True
    with Cons.prems have "cur \<notin> dots" by simp
    then show ?thesis using True followed by (auto simp: dots_def Let_def split: option.splits)
  next
    case False
    with Cons.prems have "last rest \<notin> dots" by simp
    with Cons.IH False followed show ?thesis by (auto simp: Let_def split: option.splits)
  qed
qed simp

lemma loop_returns:
  assumes "links_end_in_names F"
  shows "n \<le> 16 \<Longrightarrow> path \<noteq> [] \<Longrightarrow> last path \<notin> dots \<Longrightarrow> \<exists>r. realpath_loop F path np n = Some r"
proof (induction "16 - n" arbitrary: n path np rule: less_induct)
  case less
  note ends = walk_ends [OF assms less.prems(2,3), where np = np and n = n and ended = False]
  show ?case
  proof (cases "walk F path np n False")
    case (Followed path' n' e)
    with ends have "n' = Suc n" "n < 16" "path' \<noteq> []" "last path' \<notin> dots" by simp_all
    with less.hyps [of n' path' "[]"] have "\<exists>r. realpath_loop F path' [] n' = Some r" by simp
    with Followed show ?thesis by (subst realpath_loop.simps) simp
  qed (use ends in \<open>subst realpath_loop.simps, simp\<close>)+
qed

subsection \<open>The result\<close>

definition resolved :: "files_map \<Rightarrow> string list \<Rightarrow> bool" where
  "resolved F np = ((\<forall>c \<in> set np. c \<notin> dots) \<and> (\<forall>k. 0 < k \<and> k \<le> length np \<longrightarrow> \<not> is_link F (join_with ''/'' (take k np))))"

lemma resolved_butlast: "resolved F np \<Longrightarrow> resolved F (butlast np)"
  by (auto simp: resolved_def take_butlast dest: in_set_butlastD)

lemma resolved_snoc:
  "resolved F np \<Longrightarrow> c \<notin> dots \<Longrightarrow> \<not> is_link F (join_with ''/'' (np @ [c])) \<Longrightarrow> resolved F (np @ [c])"
  by (auto simp: resolved_def le_Suc_eq)

lemma walk_resolved:
  "walk F path np n ended = Walked np' n' ended' \<Longrightarrow> resolved F np \<Longrightarrow> resolved F np'"
proof (induction path arbitrary: np ended)
  case (Cons cur rest)
  consider "cur = ''.''" | "cur = ''..''" | "cur \<notin> dots" by (auto simp: dots_def)
  then show ?case
  proof cases
    case 1
    with Cons show ?thesis by simp
  next
    case 2
    with Cons show ?thesis using resolved_butlast by (auto split: if_splits)
  next
    case 3
    have "\<not> is_link F (join_with ''/'' (np @ [cur]))"
    proof
      assume "is_link F (join_with ''/'' (np @ [cur]))"
      then obtain item meta where "bm_get F (join_with ''/'' (np @ [cur])) = Some item"
        "from_file_item item = Some meta" "filetype_is_symlink (fm_file_type meta)" by (auto simp: is_link_def)
      with 3 Cons.prems(1) show False
        by (cases rule: follow_cases [of item np rest n ended]) (simp_all add: dots_def Let_def)
    qed
    with Cons.prems(2) 3 have "resolved F (np @ [cur])" by (intro resolved_snoc)
    moreover have "\<exists>e. walk F rest (np @ [cur]) n e = Walked np' n' ended'"
      using Cons.prems(1) 3 \<open>\<not> is_link F _\<close>
      by (auto simp: dots_def Let_def is_link_def split: option.splits if_splits)
    ultimately show ?thesis using Cons.IH by blast
  qed
qed simp

lemma loop_resolved:
  assumes ret: "realpath_loop F path np n = Some r"
  shows "resolved F np \<longrightarrow> (\<forall>p. r = Ok p \<longrightarrow> (\<exists>np'. p = join_with ''/'' np' \<and> resolved F np'))"
proof (rule realpath_loop.raw_induct [where P = "\<lambda>F path np n r. resolved F np \<longrightarrow>
    (\<forall>p. r = Ok p \<longrightarrow> (\<exists>np'. p = join_with ''/'' np' \<and> resolved F np'))", OF _ ret])
  fix loop F path np n r
  assume IH: "\<And>F path np n r. loop F path np n = Some r \<Longrightarrow> resolved F np \<longrightarrow>
      (\<forall>p. r = Ok p \<longrightarrow> (\<exists>np'. p = join_with ''/'' np' \<and> resolved F np'))"
    and eq: "(case walk F path np n False of
        WalkFailed e \<Rightarrow> Some (Err e)
      | Walked np' n' ended \<Rightarrow> if ended then Some (Ok (join_with ''/'' np')) else loop F path np' n'
      | Followed path' n' ended \<Rightarrow> if ended then Some (Ok []) else loop F path' [] n') = Some r"
  have nil: "resolved F []" by (simp add: resolved_def)
  then have root: "\<exists>np'. [] = join_with ''/'' np' \<and> resolved F np'" by (intro exI [of _ "[]"]) simp
  show "resolved F np \<longrightarrow> (\<forall>p. r = Ok p \<longrightarrow> (\<exists>np'. p = join_with ''/'' np' \<and> resolved F np'))"
  proof
    assume np: "resolved F np"
    show "\<forall>p. r = Ok p \<longrightarrow> (\<exists>np'. p = join_with ''/'' np' \<and> resolved F np')"
    proof (cases "walk F path np n False")
      case (Walked np' n' e)
      with walk_resolved np have "resolved F np'" by blast
      with Walked eq IH show ?thesis by (cases e) auto
    next
      case (Followed path' n' e)
      with eq IH nil root show ?thesis by (cases e) auto
    next
      case (WalkFailed e)
      with eq show ?thesis by auto
    qed
  qed
qed

text \<open>
  C21. The resolution of an absolute path that ends in a name, in a container whose links end in names, always
  returns, however the links lead to each other; and whenever it returns a path, that path has no component \<open>.\<close> or \<open>..\<close>, and
  neither it nor any directory on the way is a symbolic link.
\<close>

theorem realpath_resolves:
  assumes "links_end_in_names F" and "starts_with fpath ''/''" and "last (split_on (CHR ''/'') fpath) \<notin> dots"
  shows "\<exists>r. realpath F fpath = Some r \<and>
    (\<forall>p. r = Ok p \<longrightarrow> (\<exists>np. p = join_with ''/'' np \<and> resolved F np))"
proof -
  have loop: "realpath F fpath = realpath_loop F (split_on (CHR ''/'') fpath) [] 0"
    using assms(2) by (auto simp: realpath_def first_char_def starts_with_def prefix_def)
  obtain r where r: "realpath_loop F (split_on (CHR ''/'') fpath) [] 0 = Some r"
    using loop_returns [OF assms(1) _ split_on_ne assms(3)] by blast
  moreover have "resolved F []" by (simp add: resolved_def)
  ultimately show ?thesis using loop loop_resolved [OF r] by auto
qed

text \<open>A container with a directory, a file in it, and two links, one of them through the other.\<close>

definition sample_item :: "string \<Rightarrow> (string \<times> string) list \<Rightarrow> file_info" where
  "sample_item ty more_attrs = bm_from_iter ([(''created'', ''now''), (''modified'', ''now''), (''size'', ''0''), (''type'', ty)]
     @ more_attrs)"

definition sample_files :: files_map where
  "sample_files = bm_from_iter
    [(''/docs'', sample_item ''inode/directory'' []), (''/docs/a.txt'', sample_item ''text/plain'' [(''link'', ''safe://a'')]),
     (''/latest'', sample_item ''inode/symlink'' [(''symlink_target'', ''docs'')]),
     (''/top'', sample_item ''inode/symlink'' [(''symlink_target'', ''/latest/a.txt'')])]"

lemma sample_links: "links_end_in_names sample_files"
proof -
  have "list_all (\<lambda>(p, item). list_all (\<lambda>(k, t). k = ''symlink_target'' \<longrightarrow> last (split_on (CHR ''/'') t) \<noteq> ''.''
      \<and> last (split_on (CHR ''/'') t) \<noteq> ''..'') item) sample_files"
    by code_simp
  then show ?thesis
    by (fastforce simp: links_end_in_names_def dots_def list_all_iff dest: map_of_SomeD)
qed

theorem realpath_resolves_witness:
  "realpath sample_files ''/docs/../top'' = Some (Ok ''/docs/a.txt'') \<and>
   (\<exists>np. ''/docs/a.txt'' = join_with ''/'' np \<and> resolved sample_files np)"
proof -
  have run: "realpath sample_files ''/docs/../top'' = Some (Ok ''/docs/a.txt'')" by code_simp
  have "starts_with ''/docs/../top'' ''/''" "last (split_on (CHR ''/'') ''/docs/../top'') \<notin> dots"
    by (simp_all add: starts_with_def dots_def)
  from realpath_resolves [OF sample_links this] run show ?thesis by auto
qed

subsection \<open>Containers without links\<close>

text \<open>The path that the components of a path mean by themselves; \<open>None\<close> where they lead above the root.\<close>

fun lexical :: "string list \<Rightarrow> string list \<Rightarrow> string list option" where
  "lexical np [] = Some np"
| "lexical np (c # cs) =
    (if c = ''.'' then lexical np cs
     else if c = ''..'' then (if butlast np = [] then None else lexical (butlast np) cs)
     else lexical (np @ [c]) cs)"

definition is_file :: "files_map \<Rightarrow> string \<Rightarrow> bool" where
  "is_file F p = (\<exists>item meta. bm_get F p = Some item \<and> from_file_item item = Some meta
     \<and> filetype_is_file (fm_file_type meta))"

text \<open>Whether one of the paths on the way is that of a file.\<close>

fun meets_file :: "files_map \<Rightarrow> string list \<Rightarrow> string list \<Rightarrow> bool" where
  "meets_file F np [] = False"
| "meets_file F np (c # cs) =
    (if c = ''.'' then meets_file F np cs
     else if c = ''..'' then meets_file F (butlast np) cs
     else is_file F (join_with ''/'' (np @ [c])) \<or> meets_file F (np @ [c]) cs)"

text \<open>Every entry has its attributes and is no link; the paths of files have no empty component but the first.\<close>

definition no_links :: "files_map \<Rightarrow> bool" where
  "no_links F =
    ((\<forall>p item. bm_get F p = Some item \<longrightarrow>
       (\<exists>meta. from_file_item item = Some meta \<and> \<not> filetype_is_symlink (fm_file_type meta)))
     \<and> (\<forall>p. is_file F p \<longrightarrow> \<not> contains_text p ''//'' \<and> \<not> ends_with p ''/''))"

definition ends_in_name :: "string list \<Rightarrow> bool" where
  "ends_in_name cs = (cs \<noteq> [] \<and> last cs \<notin> dots)"

lemma walk_plain:
  assumes F: "no_links F"
  shows "walk F cs np n ended =
    (case lexical np cs of
       None \<Rightarrow> WalkFailed ContentNotFound
     | Some np' \<Rightarrow> Walked np' n (ended \<or> ends_in_name cs \<or> meets_file F np cs))"
proof (induction cs arbitrary: np ended)
  case (Cons c cs)
  have last: "ends_in_name (c # cs) \<longleftrightarrow> (if cs = [] then c \<notin> dots else ends_in_name cs)"
    by (simp add: ends_in_name_def)
  consider "c = ''.''" | "c = ''..''" | "c \<notin> dots" by (auto simp: dots_def)
  then show ?case
  proof cases
    case 3
    show ?thesis
    proof (cases "bm_get F (join_with ''/'' (np @ [c]))")
      case None
      then show ?thesis using 3 Cons.IH last
        by (auto simp: dots_def Let_def is_file_def ends_in_name_def split: option.splits)
    next
      case (Some item)
      then obtain meta where meta: "from_file_item item = Some meta" "\<not> filetype_is_symlink (fm_file_type meta)"
        using F unfolding no_links_def by blast
      then have "is_file F (join_with ''/'' (np @ [c])) \<longleftrightarrow> \<not> filetype_is_dir (fm_file_type meta)"
        using Some by (auto simp: is_file_def filetype_is_file_def filetype_is_dir_def filetype_is_symlink_def)
      then show ?thesis using 3 Some meta Cons.IH last
        by (auto simp: dots_def Let_def ends_in_name_def split: option.splits)
    qed
  qed (use Cons.IH last in \<open>auto simp: dots_def ends_in_name_def split: option.splits\<close>)
qed (simp add: ends_in_name_def)

lemma lexical_shift: "lexical np cs = Some np' \<Longrightarrow> lexical (base @ np) cs = Some (base @ np')"
proof (induction cs arbitrary: np)
  case (Cons c cs)
  show ?case
  proof (cases "c = ''..''")
    case True
    with Cons.prems have "np \<noteq> []" "butlast np \<noteq> []" "lexical (butlast np) cs = Some np'"
      by (auto split: if_splits)
    with Cons.IH [of "butlast np"] True show ?thesis by (simp add: butlast_append)
  next
    case False
    with Cons.prems Cons.IH [of np] Cons.IH [of "np @ [c]"] show ?thesis by (auto split: if_splits)
  qed
qed simp

lemma lexical_set: "lexical np cs = Some np' \<Longrightarrow> set np' \<subseteq> set np \<union> set cs"
proof (induction cs arbitrary: np)
  case (Cons c cs)
  then show ?case using Cons.IH [of np] Cons.IH [of "butlast np"] Cons.IH [of "np @ [c]"]
    by (auto split: if_splits dest: in_set_butlastD)
qed simp

lemma lexical_ne: "np \<noteq> [] \<Longrightarrow> lexical np cs = Some np' \<Longrightarrow> np' \<noteq> []"
  by (induction cs arbitrary: np) (auto split: if_splits)

lemma doubled_slash:
  assumes "\<forall>c \<in> set (base @ [] # cs). CHR ''/'' \<notin> set c" and "base \<noteq> []" and "cs \<noteq> []"
  shows "contains_text (join_with ''/'' (base @ [] # cs)) ''//''"
proof -
  have "split_on (CHR ''/'') (join_with ''/'' (base @ [] # cs)) = base @ [] # cs"
    using assms(1) by (intro split_join) auto
  moreover have "[] \<in> set (butlast (tl (base @ [] # cs)))"
    using assms(2,3) by (cases base) (auto simp: butlast_append)
  ultimately show ?thesis unfolding double_split by simp
qed

text \<open>Once the components are gone through a second time, no path on the way is that of a file.\<close>

lemma meets_no_file:
  assumes F: "no_links F" and base: "base \<noteq> []" "\<forall>c \<in> set base. CHR ''/'' \<notin> set c"
  shows "\<forall>c \<in> set cs. CHR ''/'' \<notin> set c \<Longrightarrow> \<forall>c \<in> set np. CHR ''/'' \<notin> set c \<Longrightarrow>
    lexical ([] # np) cs \<noteq> None \<Longrightarrow> \<not> meets_file F (base @ [] # np) cs"
proof (induction cs arbitrary: np)
  case (Cons c cs)
  consider "c = ''.''" | "c = ''..''" | "c \<notin> dots" by (auto simp: dots_def)
  then show ?case
  proof cases
    case 1
    with Cons show ?thesis by simp
  next
    case 2
    with Cons.prems have "np \<noteq> []" by (auto split: if_splits)
    then have "butlast (base @ [] # np) = base @ [] # butlast np" "butlast ([] # np) = [] # butlast np"
      by (simp_all add: butlast_append)
    with 2 Cons.prems Cons.IH [of "butlast np"] show ?thesis by (auto dest: in_set_butlastD)
  next
    case 3
    have "\<not> is_file F (join_with ''/'' ((base @ [] # np) @ [c]))"
    proof -
      have "contains_text (join_with ''/'' (base @ [] # np @ [c])) ''//''"
        by (rule doubled_slash) (use base Cons.prems in auto)
      then show ?thesis using F unfolding no_links_def by auto
    qed
    with 3 Cons.prems Cons.IH [of "np @ [c]"] show ?thesis by (auto simp: dots_def)
  qed
qed simp

lemma loop_again:
  assumes ret: "realpath_loop F path np n = Some r" and F: "no_links F"
    and path: "path = [] # cs" "\<not> ends_in_name path" "\<forall>c \<in> set path. CHR ''/'' \<notin> set c" "lexical [] path = Some x"
  shows "\<not> (np \<noteq> [] \<and> (\<forall>c \<in> set np. CHR ''/'' \<notin> set c))"
proof -
  have "F = F' \<longrightarrow> path = path' \<longrightarrow> \<not> (np \<noteq> [] \<and> (\<forall>c \<in> set np. CHR ''/'' \<notin> set c))"
    if "realpath_loop F' path' np n = Some r" for F' path' np n r
  proof (rule realpath_loop.raw_induct [where P = "\<lambda>F' path' np n r. F = F' \<longrightarrow> path = path' \<longrightarrow>
      \<not> (np \<noteq> [] \<and> (\<forall>c \<in> set np. CHR ''/'' \<notin> set c))", OF _ that], intro impI notI)
    fix loop F' path' np n r
    assume IH: "\<And>F' path' np n r. loop F' path' np n = Some r \<Longrightarrow> F = F' \<longrightarrow> path = path' \<longrightarrow>
        \<not> (np \<noteq> [] \<and> (\<forall>c \<in> set np. CHR ''/'' \<notin> set c))"
      and eq: "(case walk F' path' np n False of
          WalkFailed e \<Rightarrow> Some (Err e)
        | Walked np' n' ended \<Rightarrow> if ended then Some (Ok (join_with ''/'' np')) else loop F' path' np' n'
        | Followed path'' n' ended \<Rightarrow> if ended then Some (Ok []) else loop F' path'' [] n') = Some r"
      and same: "F = F'" "path = path'" and np: "np \<noteq> [] \<and> (\<forall>c \<in> set np. CHR ''/'' \<notin> set c)"
    have lex: "lexical np path = Some (np @ x)" using lexical_shift [OF path(4), of np] by simp
    have x: "set x \<subseteq> set path"
      using lexical_set [OF path(4)] by simp
    have "\<not> ends_with (join_with ''/'' (np @ [[]])) ''/'' \<Longrightarrow> False"
      using np by (simp add: join_snoc ends_with_def)
    then have "\<not> is_file F (join_with ''/'' (np @ [[]]))" using F unfolding no_links_def by blast
    moreover have "\<not> meets_file F (np @ [[]]) cs"
      using meets_no_file [OF F, of np cs "[]"] np path by simp
    ultimately have "\<not> meets_file F np path" by (simp add: path(1))
    then have "loop F' path' (np @ x) n = Some r"
      using eq lex path(2) by (simp add: walk_plain [OF F] same [symmetric])
    from IH [OF this] same show False using np x path(3) by auto
  qed
  with ret show ?thesis by blast
qed

text \<open>
  C20. In a container without links, exactly this is what the resolution of an absolute path does. It goes by the
  components alone: \<open>.\<close> is dropped, \<open>..\<close> takes the component before it away, and a path above the root is an error. It
  returns the path they mean when its last component is a name, or when one of the paths on the way is that of a file.
  Otherwise, as for \<open>/docs/.\<close> and \<open>/docs/..\<close> in a directory, it never returns.
\<close>

theorem realpath_without_links:
  assumes F: "no_links F" and fpath: "starts_with fpath ''/''"
  defines "cs \<equiv> split_on (CHR ''/'') fpath"
  shows "realpath F fpath =
    (case lexical [] cs of
       None \<Rightarrow> Some (Err ContentNotFound)
     | Some np \<Rightarrow> if ends_in_name cs \<or> meets_file F [] cs then Some (Ok (join_with ''/'' np)) else None)"
proof -
  have loop: "realpath F fpath = realpath_loop F cs [] 0"
    using fpath by (auto simp: realpath_def first_char_def starts_with_def prefix_def cs_def)
  obtain s where "fpath = CHR ''/'' # s" using fpath by (auto simp: starts_with_def prefix_def)
  then have cs: "cs = [] # split_on (CHR ''/'') s" by (simp add: cs_def)
  have chars: "\<forall>c \<in> set cs. CHR ''/'' \<notin> set c" using split_parts by (auto simp: cs_def)
  show ?thesis
  proof (cases "lexical [] cs")
    case None
    then show ?thesis unfolding loop by (subst realpath_loop.simps) (simp add: walk_plain [OF F])
  next
    case (Some np)
    have "np \<noteq> []" using Some lexical_ne [of "[[]]"] by (simp add: cs)
    then have "realpath_loop F cs np 0 = None" if "\<not> ends_in_name cs"
      using loop_again [OF _ F cs that chars Some] lexical_set [OF Some] chars by fastforce
    with Some show ?thesis unfolding loop by (subst realpath_loop.simps) (auto simp: walk_plain [OF F])
  qed
qed

definition plain_files :: files_map where
  "plain_files = bm_from_iter
    [(''/docs'', sample_item ''inode/directory'' []), (''/docs/a.txt'', sample_item ''text/plain'' [(''link'', ''safe://a'')])]"

lemma plain_files_no_links: "no_links plain_files"
proof -
  have "list_all (\<lambda>(p, item). (case from_file_item item of None \<Rightarrow> False
      | Some meta \<Rightarrow> \<not> filetype_is_symlink (fm_file_type meta)) \<and> \<not> contains_text p ''//'' \<and> \<not> ends_with p ''/'') plain_files"
    by code_simp
  then have "(case from_file_item item of None \<Rightarrow> False | Some meta \<Rightarrow> \<not> filetype_is_symlink (fm_file_type meta))
      \<and> \<not> contains_text p ''//'' \<and> \<not> ends_with p ''/''" if "bm_get plain_files p = Some item" for p item
    using map_of_SomeD [OF that] by (auto simp: list_all_iff)
  then show ?thesis by (fastforce simp: no_links_def is_file_def split: option.splits)
qed

theorem realpath_without_links_witness:
  "realpath plain_files ''/docs/..'' = None \<and> realpath plain_files ''/docs/./a.txt'' = Some (Ok ''/docs/a.txt'')"
proof -
  note exact = realpath_without_links [OF plain_files_no_links]
  have "realpath plain_files ''/docs/..'' = None"
  proof (subst exact)
    show "starts_with ''/docs/..'' ''/''" by (simp add: starts_with_def)
    have "split_on (CHR ''/'') ''/docs/..'' = [[], ''docs'', ''..'']" by simp
    moreover have "\<not> meets_file plain_files [] [[], ''docs'', ''..'']"
    proof -
      have "map (bm_get plain_files) [[], ''/docs''] = [None, Some (sample_item ''inode/directory'' [])]" by code_simp
      moreover have "map_option fm_file_type (from_file_item (sample_item ''inode/directory'' [])) = Some ''inode/directory''"
        by code_simp
      ultimately show ?thesis by (auto simp: is_file_def filetype_is_file_def predicate_defs)
    qed
    ultimately show "(case lexical [] (split_on (CHR ''/'') ''/docs/..'') of
        None \<Rightarrow> Some (Err ContentNotFound)
      | Some np \<Rightarrow> if ends_in_name (split_on (CHR ''/'') ''/docs/..'') \<or> meets_file plain_files [] (split_on (CHR ''/'') ''/docs/..'')
          then Some (Ok (join_with ''/'' np)) else None) = None"
      by (simp add: ends_in_name_def dots_def)
  qed
  moreover have "realpath plain_files ''/docs/./a.txt'' = Some (Ok ''/docs/a.txt'')" by code_simp
  ultimately show ?thesis by blast
qed

end
